(* ===== verification/Prelude.thy ===== *)
theory Prelude
  imports Main "HOL-Library.Word"
begin

text \<open>
  The vocabulary shared by every component.

  \<^item> Memory: a byte is an \<open>8 word\<close>, a memory block a list of bytes; \<open>mem_read\<close> and
    \<open>mem_write\<close> are reading through a pointer and \<open>memcpy\<close> into a block.
  \<^item> Machine integers: a C++ \<open>int\<close> is the mathematical \<open>int\<close> in registers, and four
    little-endian bytes (\<open>enc32\<close>, \<open>dec32\<close>) in memory, so that every stored integer is kept
    at its width; \<open>enc64\<close>, \<open>dec64\<close> are the same for \<open>size_t\<close>.
  \<^item> Effects: an operation takes the state and returns an \<open>outcome\<close>: \<open>Ok\<close> with a result
    and the new state, or \<open>Err\<close> with the reason and the state at the point of failure (C++
    exceptions do not undo side effects). \<open>bindO\<close> sequences two operations.
  \<^item> \<open>std::to_string\<close> on integers, with its inverse.
\<close>

named_theorems mem_simps \<open>reading and writing memory blocks\<close>
named_theorems outcome_simps \<open>sequencing of operations\<close>

section \<open>Memory blocks\<close>

type_synonym byte = "8 word"
type_synonym bytes = "byte list"

definition mem_read :: "bytes \<Rightarrow> nat \<Rightarrow> nat \<Rightarrow> bytes" where
  "mem_read m off n = take n (drop off m)"

definition mem_write :: "bytes \<Rightarrow> nat \<Rightarrow> bytes \<Rightarrow> bytes" where
  "mem_write m off src = take off m @ take (length m - off) src @ drop (off + length src) m"

lemma length_mem_read [mem_simps, simp]: "length (mem_read m off n) = min n (length m - off)"
  by (simp add: mem_read_def min.commute)

lemma length_mem_write [mem_simps, simp]:
  "off \<le> length m \<Longrightarrow> length (mem_write m off src) = length m"
  by (auto simp: mem_write_def)

lemma nth_mem_write:
  assumes "off + length src \<le> length m" and "i < length m"
  shows "mem_write m off src ! i
    = (if off \<le> i \<and> i < off + length src then src ! (i - off) else m ! i)"
  using assms by (auto simp: mem_write_def nth_append min_def)

lemma nth_mem_read: "i < n \<Longrightarrow> off + i < length m \<Longrightarrow> mem_read m off n ! i = m ! (off + i)"
  by (simp add: mem_read_def)

lemma mem_read_write_same [mem_simps]:
  assumes "off + length src \<le> length m" and "n = length src"
  shows "mem_read (mem_write m off src) off n = src"
proof -
  have "drop off (mem_write m off src)
      = take (length m - off) src @ drop (off + length src) m"
    using assms by (simp add: mem_write_def)
  then show ?thesis using assms by (simp add: mem_read_def)
qed

lemma mem_read_write_other [mem_simps]:
  assumes "off + length src \<le> length m" and "o' + n \<le> off \<or> off + length src \<le> o'"
  shows "mem_read (mem_write m off src) o' n = mem_read m o' n"
proof (rule nth_equalityI)
  show "length (mem_read (mem_write m off src) o' n) = length (mem_read m o' n)"
    using assms by simp
  fix i assume "i < length (mem_read (mem_write m off src) o' n)"
  then have i: "i < n" "o' + i < length m" using assms by auto
  then have "mem_read (mem_write m off src) o' n ! i = mem_write m off src ! (o' + i)"
    using assms by (intro nth_mem_read) auto
  also have "\<dots> = m ! (o' + i)" using assms i by (subst nth_mem_write) auto
  finally show "mem_read (mem_write m off src) o' n ! i = mem_read m o' n ! i"
    using i by (simp add: nth_mem_read)
qed

lemma mem_read_write_within:
  assumes "off + length src \<le> length m" and "off \<le> o'" and "o' + n \<le> off + length src"
  shows "mem_read (mem_write m off src) o' n = mem_read src (o' - off) n"
proof (rule nth_equalityI)
  show "length (mem_read (mem_write m off src) o' n) = length (mem_read src (o' - off) n)"
    using assms by simp
  fix i assume "i < length (mem_read (mem_write m off src) o' n)"
  then have i: "i < n" "o' + i < length m" using assms by auto
  then show "mem_read (mem_write m off src) o' n ! i = mem_read src (o' - off) n ! i"
    using assms by (simp add: nth_mem_read nth_mem_write Nat.add_diff_assoc2)
qed

lemma mem_read_append1 [mem_simps]: "off + n \<le> length xs \<Longrightarrow> mem_read (xs @ ys) off n = mem_read xs off n"
  by (simp add: mem_read_def)

lemma mem_read_append2 [mem_simps]:
  "length xs \<le> off \<Longrightarrow> mem_read (xs @ ys) off n = mem_read ys (off - length xs) n"
  by (simp add: mem_read_def)

lemma mem_read_all [mem_simps]: "length xs \<le> n \<Longrightarrow> mem_read xs 0 n = xs"
  by (simp add: mem_read_def)

lemma mem_read_replicate [mem_simps]: "mem_read (replicate k x) off n = replicate (min (k - off) n) x"
  by (simp add: mem_read_def min.commute)

lemma mem_write_empty [mem_simps]: "mem_write m off [] = m"
  by (simp add: mem_write_def)

section \<open>Integers in memory\<close>

abbreviation in_i32 :: "int \<Rightarrow> bool" where
  "in_i32 i \<equiv> - (2 ^ 31) \<le> i \<and> i < 2 ^ 31"

text \<open>The value of a variable of type \<open>int\<close> after arithmetic whose exact result is \<open>x\<close>: it wraps around at 32 bits.\<close>

definition i32 :: "int \<Rightarrow> int" where
  "i32 x = sint (word_of_int x :: 32 word)"

lemma i32_id: "- (2 ^ 31) \<le> x \<Longrightarrow> x < 2 ^ 31 \<Longrightarrow> i32 x = x"
  unfolding i32_def by (subst signed_of_int) (simp add: signed_take_bit_int_eq_self)

fun enc_nat :: "nat \<Rightarrow> nat \<Rightarrow> bytes" where
  "enc_nat 0 n = []"
| "enc_nat (Suc k) n = word_of_nat n # enc_nat k (n div 256)"

fun le_nat :: "bytes \<Rightarrow> nat" where
  "le_nat [] = 0"
| "le_nat (b # bs) = unat b + 256 * le_nat bs"

definition enc32 :: "int \<Rightarrow> bytes" where
  "enc32 i = enc_nat 4 (nat (i mod 2 ^ 32))"

definition dec32 :: "bytes \<Rightarrow> int" where
  "dec32 bs = (let u = int (le_nat (take 4 bs))
               in if u < 2 ^ 31 then u else u - 2 ^ 32)"

lemma length_enc_nat [simp]: "length (enc_nat k n) = k"
  by (induction k n rule: enc_nat.induct) auto

lemma le_nat_enc_nat: "le_nat (enc_nat k n) = n mod 256 ^ k"
proof (induction k n rule: enc_nat.induct)
  case (2 k n)
  have "unat (word_of_nat n :: byte) = n mod 256"
    by (simp add: unsigned_of_nat take_bit_eq_mod)
  with 2 show ?case by (simp add: mod_mult2_eq)
qed simp

lemma length_enc32 [simp]: "length (enc32 i) = 4"
  by (simp add: enc32_def)

lemma le_nat_enc32: "int (le_nat (enc32 i)) = i mod 2 ^ 32"
proof -
  have "nat (i mod 2 ^ 32) < 256 ^ 4" by (simp add: nat_less_iff)
  then have "le_nat (enc32 i) = nat (i mod 2 ^ 32)"
    by (simp add: enc32_def le_nat_enc_nat)
  then show ?thesis by simp
qed

lemma dec32_enc32 [simp]: "in_i32 i \<Longrightarrow> dec32 (enc32 i @ xs) = i"
proof -
  assume i: "in_i32 i"
  have u: "int (le_nat (take 4 (enc32 i @ xs))) = i mod 2 ^ 32"
    by (simp add: le_nat_enc32)
  show ?thesis
  proof (cases "0 \<le> i")
    case True
    with i have "i mod 2 ^ 32 = i" by (intro mod_pos_pos_trivial) auto
    with i show ?thesis unfolding dec32_def u Let_def by simp
  next
    case False
    have "i mod 2 ^ 32 = (i + 2 ^ 32) mod 2 ^ 32" by simp
    also have "\<dots> = i + 2 ^ 32" using i False by (intro mod_pos_pos_trivial) auto
    finally have "i mod 2 ^ 32 = i + 2 ^ 32" .
    with i show ?thesis unfolding dec32_def u Let_def by simp
  qed
qed

lemma dec32_enc32' [simp]: "in_i32 i \<Longrightarrow> dec32 (enc32 i) = i"
  using dec32_enc32 [of i "[]"] by simp

lemma le_nat_bound: "le_nat bs < 256 ^ length bs"
proof (induction bs)
  case (Cons b bs)
  have "unat b < 256" using unsigned_less [of b, where ?'a = nat] by simp
  with Cons show ?case by simp
qed simp

lemma dec32_range: "in_i32 (dec32 bs)"
proof -
  have "le_nat (take 4 bs) < 256 ^ length (take 4 bs)" by (rule le_nat_bound)
  also have "\<dots> \<le> 256 ^ 4" by (intro power_increasing) auto
  finally have "int (le_nat (take 4 bs)) < 2 ^ 32" by simp
  then show ?thesis by (auto simp: dec32_def Let_def)
qed

lemma dec32_zero [simp]: "dec32 (replicate 4 0) = 0"
  by (simp add: dec32_def numeral_eq_Suc)

definition enc64 :: "nat \<Rightarrow> bytes" where
  "enc64 n = enc_nat 8 n"

definition dec64 :: "bytes \<Rightarrow> nat" where
  "dec64 bs = le_nat (take 8 bs)"

lemma length_enc64 [simp]: "length (enc64 n) = 8"
  by (simp add: enc64_def)

lemma dec64_enc64 [simp]: "n < 2 ^ 64 \<Longrightarrow> dec64 (enc64 n @ xs) = n"
  by (simp add: dec64_def enc64_def le_nat_enc_nat)

section \<open>Outcomes\<close>

datatype ('e, 'a, 's) outcome = Ok 'a 's | Err 'e 's

fun bindO :: "('e, 'a, 's) outcome \<Rightarrow> ('a \<Rightarrow> 's \<Rightarrow> ('e, 'b, 's) outcome) \<Rightarrow> ('e, 'b, 's) outcome" where
  "bindO (Ok a s) k = k a s"
| "bindO (Err e s) k = Err e s"

text \<open>\<open>liftS up m\<close> runs an operation of a part of the state; \<open>up\<close> puts the part back.\<close>

fun liftS :: "('s \<Rightarrow> 't) \<Rightarrow> ('e, 'a, 's) outcome \<Rightarrow> ('e, 'a, 't) outcome" where
  "liftS up (Ok a s) = Ok a (up s)"
| "liftS up (Err e s) = Err e (up s)"

fun final_state :: "('e, 'a, 's) outcome \<Rightarrow> 's" where
  "final_state (Ok a s) = s"
| "final_state (Err e s) = s"

lemma bindO_Ok_iff [outcome_simps]:
  "bindO m k = Ok b t \<longleftrightarrow> (\<exists>a s. m = Ok a s \<and> k a s = Ok b t)"
  by (cases m) auto

lemma liftS_Ok_iff [outcome_simps]: "liftS up m = Ok a t \<longleftrightarrow> (\<exists>s. m = Ok a s \<and> t = up s)"
  by (cases m) auto

lemma liftS_Err_iff [outcome_simps]: "liftS up m = Err e t \<longleftrightarrow> (\<exists>s. m = Err e s \<and> t = up s)"
  by (cases m) auto

text \<open>The same for operations that only read: an error or a result.\<close>

fun bindE :: "'e + 'a \<Rightarrow> ('a \<Rightarrow> 'e + 'b) \<Rightarrow> 'e + 'b" where
  "bindE (Inl e) k = Inl e"
| "bindE (Inr a) k = k a"

fun mapE :: "('a \<Rightarrow> 'e + 'b) \<Rightarrow> 'a list \<Rightarrow> 'e + 'b list" where
  "mapE f [] = Inr []"
| "mapE f (x # xs) = bindE (f x) (\<lambda>y. bindE (mapE f xs) (\<lambda>ys. Inr (y # ys)))"

lemma bindE_Inr_iff [outcome_simps]: "bindE m k = Inr b \<longleftrightarrow> (\<exists>a. m = Inr a \<and> k a = Inr b)"
  by (cases m) auto

lemma mapE_Inr_iff: "mapE f xs = Inr ys \<longleftrightarrow> list_all2 (\<lambda>x y. f x = Inr y) xs ys"
  by (induction xs arbitrary: ys) (auto simp: bindE_Inr_iff list_all2_Cons1)

section \<open>std::to_string and reading numbers back\<close>

definition digit_char :: "nat \<Rightarrow> char" where
  "digit_char d = char_of (48 + d)"

function nat_to_string :: "nat \<Rightarrow> string" where
  "nat_to_string n = (if n < 10 then [digit_char n]
     else nat_to_string (n div 10) @ [digit_char (n mod 10)])"
  by pat_completeness auto
termination by (relation "measure id") auto

declare nat_to_string.simps [simp del]

definition to_string :: "int \<Rightarrow> string" where
  "to_string i = (if i < 0 then CHR ''-'' # nat_to_string (nat (- i)) else nat_to_string (nat i))"

definition is_digit :: "char \<Rightarrow> bool" where
  "is_digit c \<longleftrightarrow> 48 \<le> (of_char c :: nat) \<and> (of_char c :: nat) \<le> 57"

fun digits_val :: "nat \<Rightarrow> string \<Rightarrow> nat" where
  "digits_val acc [] = acc"
| "digits_val acc (c # cs) = digits_val (10 * acc + (of_char c - 48)) cs"

lemma digits_val_append: "digits_val acc (xs @ ys) = digits_val (digits_val acc xs) ys"
  by (induction acc xs rule: digits_val.induct) auto

lemma of_char_digit_char [simp]: "d < 10 \<Longrightarrow> (of_char (digit_char d) :: nat) = 48 + d"
  by (simp add: digit_char_def)

lemma is_digit_digit_char [simp]: "d < 10 \<Longrightarrow> is_digit (digit_char d)"
  by (simp add: is_digit_def)

lemma nat_to_string_digits: "list_all is_digit (nat_to_string n)"
proof (induction n rule: nat_to_string.induct)
  case (1 n)
  then show ?case by (subst nat_to_string.simps) auto
qed

lemma nat_to_string_not_Nil [simp]: "nat_to_string n \<noteq> []"
  by (subst nat_to_string.simps) simp

lemma digits_val_nat_to_string [simp]: "digits_val 0 (nat_to_string n) = n"
proof (induction n rule: nat_to_string.induct)
  case (1 n)
  then show ?case by (subst nat_to_string.simps) (auto simp: digits_val_append)
qed

lemma length_nat_to_string: "n < 10 ^ k \<Longrightarrow> 0 < k \<Longrightarrow> length (nat_to_string n) \<le> k"
proof (induction n arbitrary: k rule: nat_to_string.induct)
  case (1 n)
  show ?case
  proof (cases "n < 10")
    case True
    with 1 show ?thesis by (subst nat_to_string.simps) auto
  next
    case False
    from 1 obtain j where k: "k = Suc j" by (cases k) auto
    have j: "0 < j" using 1 False k by (cases j) auto
    with 1 False k have "length (nat_to_string (n div 10)) \<le> j" by simp
    with False k show ?thesis by (subst nat_to_string.simps) simp
  qed
qed

section \<open>Rounding\<close>

text \<open>\<open>n / d\<close> rounded to the nearest integer, ties to even.\<close>

definition round_half_even :: "nat \<Rightarrow> nat \<Rightarrow> nat" where
  "round_half_even n d =
     (let q = n div d; r = n mod d
      in if 2 * r < d \<or> 2 * r = d \<and> even q then q else q + 1)"

end
