(* ===== verification/Bitmap.thy ===== *)
theory Bitmap
  imports Prelude
begin

text \<open>
  \<open>src/src/record/bitmap.h\<close>: the occupancy bitmap of a record page, as operations on the bytes
  that hold it. Bit \<open>pos\<close> is bit \<open>7 - pos mod 8\<close> of byte \<open>pos div 8\<close>. The locale \<open>bit_array\<close> is
  the contract the record manager uses.
\<close>

unbundle bit_operations_syntax

section \<open>The class Bitmap\<close>

definition BITMAP_WIDTH :: nat where
  "BITMAP_WIDTH = 8"

definition BITMAP_HIGHEST_BIT :: byte where
  "BITMAP_HIGHEST_BIT = 0x80"

definition get_bucket :: "nat \<Rightarrow> nat" where
  "get_bucket pos = pos div BITMAP_WIDTH"

definition get_bit :: "nat \<Rightarrow> byte" where
  "get_bit pos = drop_bit (pos mod BITMAP_WIDTH) BITMAP_HIGHEST_BIT"

text \<open>\<open>init(bm, size)\<close> is \<open>memset(bm, 0, size)\<close> on the \<open>size\<close> bytes of the bitmap.\<close>

definition bm_init :: "nat \<Rightarrow> bytes" where
  "bm_init n = replicate n 0"

definition bm_set :: "bytes \<Rightarrow> nat \<Rightarrow> bytes" where
  "bm_set bm pos = bm[get_bucket pos := (bm ! get_bucket pos) OR get_bit pos]"

definition bm_reset :: "bytes \<Rightarrow> nat \<Rightarrow> bytes" where
  "bm_reset bm pos = bm[get_bucket pos := (bm ! get_bucket pos) AND NOT (get_bit pos)]"

definition is_set :: "bytes \<Rightarrow> nat \<Rightarrow> bool" where
  "is_set bm pos \<longleftrightarrow> (bm ! get_bucket pos) AND get_bit pos \<noteq> 0"

text \<open>The search starts at \<open>cur + 1\<close>, where \<open>cur\<close> may be \<open>-1\<close>.\<close>

function next_bit_from :: "bool \<Rightarrow> bytes \<Rightarrow> int \<Rightarrow> int \<Rightarrow> int" where
  "next_bit_from b bm max_n i =
     (if i < max_n then
        (if is_set bm (nat i) = b then i else next_bit_from b bm max_n (i + 1))
      else max_n)"
  by pat_completeness auto
termination by (relation "measure (\<lambda>(b, bm, max_n, i). nat (max_n - i))") auto

declare next_bit_from.simps [simp del]

definition next_bit :: "bool \<Rightarrow> bytes \<Rightarrow> int \<Rightarrow> int \<Rightarrow> int" where
  "next_bit b bm max_n cur = next_bit_from b bm max_n (cur + 1)"

definition first_bit :: "bool \<Rightarrow> bytes \<Rightarrow> int \<Rightarrow> int" where
  "first_bit b bm max_n = next_bit b bm max_n (- 1)"

section \<open>The contract of a bit array\<close>

locale bit_array =
  fixes init :: "nat \<Rightarrow> 'm"
    and set1 :: "'m \<Rightarrow> nat \<Rightarrow> 'm"
    and set0 :: "'m \<Rightarrow> nat \<Rightarrow> 'm"
    and test :: "'m \<Rightarrow> nat \<Rightarrow> bool"
    and bits :: "'m \<Rightarrow> nat"
  assumes bits_set1: "bits (set1 m p) = bits m"
    and bits_set0: "bits (set0 m p) = bits m"
    and test_init: "p < bits (init n) \<Longrightarrow> \<not> test (init n) p"
    and test_set1: "p < bits m \<Longrightarrow> q < bits m \<Longrightarrow> test (set1 m p) q = (q = p \<or> test m q)"
    and test_set0: "p < bits m \<Longrightarrow> q < bits m \<Longrightarrow> test (set0 m p) q = (q \<noteq> p \<and> test m q)"
begin

lemma ones_set1:
  assumes "n \<le> bits m" and "p < n"
  shows "{q. q < n \<and> test (set1 m p) q} = insert p {q. q < n \<and> test m q}"
  using assms test_set1 by auto

lemma ones_set0:
  assumes "n \<le> bits m" and "p < n"
  shows "{q. q < n \<and> test (set0 m p) q} = {q. q < n \<and> test m q} - {p}"
  using assms test_set0 by auto

lemma count_set1:
  assumes "n \<le> bits m" and "p < n" and "\<not> test m p"
  shows "card {q. q < n \<and> test (set1 m p) q} = Suc (card {q. q < n \<and> test m q})"
  using assms by (simp add: ones_set1)

lemma count_set0:
  assumes "n \<le> bits m" and "p < n" and "test m p"
  shows "card {q. q < n \<and> test (set0 m p) q} = card {q. q < n \<and> test m q} - 1"
  using assms by (simp add: ones_set0)

lemma count_full_iff: "card {q. q < n \<and> test m q} = n \<longleftrightarrow> (\<forall>q < n. test m q)"
proof
  assume "card {q. q < n \<and> test m q} = n"
  then have "{q. q < n \<and> test m q} = {..<n}"
    by (intro card_subset_eq) auto
  then show "\<forall>q < n. test m q" by auto
next
  assume "\<forall>q < n. test m q"
  then have "{q. q < n \<and> test m q} = {..<n}" by auto
  then show "card {q. q < n \<and> test m q} = n" by simp
qed

lemma count_le: "card {q. q < n \<and> test m q} \<le> n"
proof -
  have "card {q. q < n \<and> test m q} \<le> card {..<n}" by (intro card_mono) auto
  then show ?thesis by simp
qed

end

section \<open>Bitmap implements the contract\<close>

lemma get_bit_alt: "get_bit pos = 2 ^ (7 - pos mod 8)"
proof -
  have "pos mod 8 < 8" by simp
  moreover have "drop_bit k (0x80 :: byte) = 2 ^ (7 - k)" if "k < 8" for k :: nat
  proof -
    have "k = 0 \<or> k = 1 \<or> k = 2 \<or> k = 3 \<or> k = 4 \<or> k = 5 \<or> k = 6 \<or> k = 7"
      using that by linarith
    then show ?thesis by (elim disjE) simp_all
  qed
  ultimately show ?thesis
    by (auto simp: get_bit_def BITMAP_WIDTH_def BITMAP_HIGHEST_BIT_def)
qed

lemma is_set_bit: "is_set bm pos \<longleftrightarrow> bit (bm ! (pos div 8)) (7 - pos mod 8)"
proof -
  have "(w AND 2 ^ k \<noteq> 0) = bit w k" for w :: byte and k
    using and_exp_eq_0_iff_not_bit [of w k] by simp
  then show ?thesis by (simp add: is_set_def get_bucket_def BITMAP_WIDTH_def get_bit_alt)
qed

lemma bit_or_bit: "k < 8 \<Longrightarrow> j < 8 \<Longrightarrow> bit (w OR 2 ^ k :: byte) j = (j = k \<or> bit w j)"
  by (auto simp: bit_simps)

lemma bit_and_not_bit: "k < 8 \<Longrightarrow> j < 8 \<Longrightarrow> bit (w AND NOT (2 ^ k) :: byte) j = (j \<noteq> k \<and> bit w j)"
  by (auto simp: bit_simps)

lemma same_bit_iff: "p div 8 = q div 8 \<Longrightarrow> (7 - p mod 8 = 7 - q mod 8) = (p = (q::nat))"
proof
  assume d: "p div 8 = q div 8" and m: "7 - p mod 8 = 7 - q mod 8"
  have "p mod 8 < 8" "q mod 8 < 8" by simp_all
  with m have "p mod 8 = q mod 8" by linarith
  with d show "p = q" by (metis div_mult_mod_eq)
qed simp

interpretation bitmap: bit_array bm_init bm_set bm_reset is_set "\<lambda>m. 8 * length m"
proof unfold_locales
  fix m :: bytes and p q n :: nat
  show "8 * length (bm_set m p) = 8 * length m" by (simp add: bm_set_def)
  show "8 * length (bm_reset m p) = 8 * length m" by (simp add: bm_reset_def)
  show "p < 8 * length (bm_init n) \<Longrightarrow> \<not> is_set (bm_init n) p"
    by (simp add: is_set_bit bm_init_def less_mult_imp_div_less mult.commute)
  assume p: "p < 8 * length m" and q: "q < 8 * length m"
  have pl: "p div 8 < length m" using p by (simp add: less_mult_imp_div_less mult.commute)
  have k: "7 - p mod 8 < 8" "7 - q mod 8 < 8" by simp_all
  show "is_set (bm_set m p) q = (q = p \<or> is_set m q)"
  proof (cases "p div 8 = q div 8")
    case True
    with pl k show ?thesis unfolding is_set_bit bm_set_def get_bucket_def BITMAP_WIDTH_def get_bit_alt
      using same_bit_iff [of q p] by (simp add: bit_or_bit)
  next
    case False
    then show ?thesis unfolding is_set_bit bm_set_def get_bucket_def BITMAP_WIDTH_def by auto
  qed
  show "is_set (bm_reset m p) q = (q \<noteq> p \<and> is_set m q)"
  proof (cases "p div 8 = q div 8")
    case True
    with pl k show ?thesis unfolding is_set_bit bm_reset_def get_bucket_def BITMAP_WIDTH_def get_bit_alt
      using same_bit_iff [of q p] by (simp add: bit_and_not_bit)
  next
    case False
    then show ?thesis unfolding is_set_bit bm_reset_def get_bucket_def BITMAP_WIDTH_def by auto
  qed
qed

section \<open>Searching\<close>

lemma next_bit_from_spec:
  assumes "i \<le> max_n"
  shows "i \<le> next_bit_from b bm max_n i \<and> next_bit_from b bm max_n i \<le> max_n
    \<and> (\<forall>j. i \<le> j \<and> j < next_bit_from b bm max_n i \<longrightarrow> is_set bm (nat j) \<noteq> b)
    \<and> (next_bit_from b bm max_n i < max_n \<longrightarrow> is_set bm (nat (next_bit_from b bm max_n i)) = b)"
  using assms
proof (induction b bm max_n i rule: next_bit_from.induct)
  case (1 b bm max_n i)
  show ?case
  proof (cases "i < max_n \<and> is_set bm (nat i) \<noteq> b")
    case True
    with 1 have IH: "i + 1 \<le> next_bit_from b bm max_n (i + 1)
        \<and> next_bit_from b bm max_n (i + 1) \<le> max_n
        \<and> (\<forall>j. i + 1 \<le> j \<and> j < next_bit_from b bm max_n (i + 1) \<longrightarrow> is_set bm (nat j) \<noteq> b)
        \<and> (next_bit_from b bm max_n (i + 1) < max_n
            \<longrightarrow> is_set bm (nat (next_bit_from b bm max_n (i + 1))) = b)"
      by simp
    have eq: "next_bit_from b bm max_n i = next_bit_from b bm max_n (i + 1)"
      using True by (subst next_bit_from.simps) simp
    have "is_set bm (nat j) \<noteq> b" if "i \<le> j" "j < next_bit_from b bm max_n (i + 1)" for j
      using that True IH by (cases "j = i") auto
    with IH show ?thesis unfolding eq by auto
  next
    case False
    with "1.prems" have "next_bit_from b bm max_n i = (if i < max_n then i else max_n)"
      by (subst next_bit_from.simps) auto
    with False "1.prems" show ?thesis by auto
  qed
qed

lemma next_bit_spec:
  fixes cur max_n :: int
  assumes "cur < max_n"
  shows "cur < next_bit b bm max_n cur" and "next_bit b bm max_n cur \<le> max_n"
    and "\<And>j. cur < j \<Longrightarrow> j < next_bit b bm max_n cur \<Longrightarrow> is_set bm (nat j) \<noteq> b"
    and "next_bit b bm max_n cur < max_n \<Longrightarrow> is_set bm (nat (next_bit b bm max_n cur)) = b"
  using next_bit_from_spec [of "cur + 1" max_n b bm] assms by (auto simp: next_bit_def)

lemma first_bit_spec:
  fixes max_n :: int
  assumes "0 \<le> max_n"
  shows "0 \<le> first_bit b bm max_n" and "first_bit b bm max_n \<le> max_n"
    and "\<And>j. 0 \<le> j \<Longrightarrow> j < first_bit b bm max_n \<Longrightarrow> is_set bm (nat j) \<noteq> b"
    and "first_bit b bm max_n < max_n \<Longrightarrow> is_set bm (nat (first_bit b bm max_n)) = b"
  using next_bit_spec [where cur = "- 1" and max_n = max_n and b = b and bm = bm] assms by (auto simp: first_bit_def)

end
