(* ===== verification/Replacer.thy ===== *)
theory Replacer
  imports Prelude
begin

text \<open>
  \<open>src/src/replacer\<close>: the abstract class \<open>Replacer\<close> is the locale \<open>replacer\<close>, whose laws are
  stated over the list of evictable frames, most recently unpinned first; \<open>LRUReplacer\<close> is the
  record below. \<open>std::list\<close> is a list of nodes, each with an identity; \<open>LRUhash\<close> holds iterators,
  that is node identities, and \<open>erase(iter)\<close> removes the node with that identity. The methods
  that take the latch are atomic steps.
\<close>

section \<open>The class LRUReplacer\<close>

type_synonym frame = nat

record LRUReplacer =
  LRUlist :: "(nat \<times> frame) list"
  LRUhash :: "frame \<rightharpoonup> nat"
  max_size :: nat
  fresh_node :: nat

definition LRUReplacer_new :: "nat \<Rightarrow> LRUReplacer" where
  "LRUReplacer_new num_pages =
     \<lparr>LRUlist = [], LRUhash = Map.empty, max_size = num_pages, fresh_node = 0\<rparr>"

text \<open>\<open>victim\<close> returns the frame through its out parameter: \<open>None\<close> is the result \<open>false\<close>.\<close>

definition lru_victim :: "LRUReplacer \<Rightarrow> frame option \<times> LRUReplacer" where
  "lru_victim r =
     (if LRUlist r = [] then (None, r)
      else let victim_frame = snd (last (LRUlist r)) in
        (Some victim_frame,
         r\<lparr>LRUlist := butlast (LRUlist r), LRUhash := (LRUhash r)(victim_frame := None)\<rparr>))"

definition lru_pin :: "frame \<Rightarrow> LRUReplacer \<Rightarrow> LRUReplacer" where
  "lru_pin frame_id r =
     (case LRUhash r frame_id of
        None \<Rightarrow> r
      | Some iter \<Rightarrow>
          r\<lparr>LRUlist := filter (\<lambda>node. fst node \<noteq> iter) (LRUlist r),
            LRUhash := (LRUhash r)(frame_id := None)\<rparr>)"

definition lru_unpin :: "frame \<Rightarrow> LRUReplacer \<Rightarrow> LRUReplacer" where
  "lru_unpin frame_id r =
     (if LRUhash r frame_id \<noteq> None then r
      else if max_size r \<le> length (LRUlist r) then r
      else r\<lparr>LRUlist := (fresh_node r, frame_id) # LRUlist r,
             LRUhash := (LRUhash r)(frame_id \<mapsto> fresh_node r),
             fresh_node := Suc (fresh_node r)\<rparr>)"

definition lru_Size :: "LRUReplacer \<Rightarrow> nat" where
  "lru_Size r = length (LRUlist r)"

section \<open>The contract of a replacer\<close>

text \<open>
  What a client of \<open>Replacer\<close> may rely on: \<open>frames\<close> are the evictable frames, most recently
  unpinned first.
\<close>

locale replacer =
  fixes victim :: "'r \<Rightarrow> nat option \<times> 'r"
    and pin :: "nat \<Rightarrow> 'r \<Rightarrow> 'r"
    and unpin :: "nat \<Rightarrow> 'r \<Rightarrow> 'r"
    and Size :: "'r \<Rightarrow> nat"
    and frames :: "'r \<Rightarrow> nat list"
    and cap :: "'r \<Rightarrow> nat"
    and inv :: "'r \<Rightarrow> bool"
  assumes inv_distinct: "inv r \<Longrightarrow> distinct (frames r)"
    and inv_length: "inv r \<Longrightarrow> length (frames r) \<le> cap r"
    and Size_frames: "inv r \<Longrightarrow> Size r = length (frames r)"
    and victim_empty: "inv r \<Longrightarrow> frames r = [] \<Longrightarrow> victim r = (None, r)"
    and victim_last: "inv r \<Longrightarrow> frames r \<noteq> [] \<Longrightarrow> fst (victim r) = Some (last (frames r))"
    and frames_victim: "inv r \<Longrightarrow> frames (snd (victim r)) = butlast (frames r)"
    and frames_pin: "inv r \<Longrightarrow> frames (pin f r) = remove1 f (frames r)"
    and frames_unpin: "inv r \<Longrightarrow> frames (unpin f r) =
          (if f \<in> set (frames r) \<or> cap r \<le> length (frames r) then frames r else f # frames r)"
    and inv_victim: "inv r \<Longrightarrow> inv (snd (victim r))"
    and inv_pin: "inv r \<Longrightarrow> inv (pin f r)"
    and inv_unpin: "inv r \<Longrightarrow> inv (unpin f r)"
    and cap_victim: "cap (snd (victim r)) = cap r"
    and cap_pin: "cap (pin f r) = cap r"
    and cap_unpin: "cap (unpin f r) = cap r"
begin

lemma pin_removes: "inv r \<Longrightarrow> f \<notin> set (frames (pin f r))"
  by (simp add: frames_pin inv_distinct)

lemma set_frames_pin: "inv r \<Longrightarrow> set (frames (pin f r)) = set (frames r) - {f}"
  by (simp add: frames_pin inv_distinct)

lemma victim_None_iff: "inv r \<Longrightarrow> fst (victim r) = None \<longleftrightarrow> frames r = []"
  using victim_empty victim_last by fastforce

lemma victim_Some:
  assumes "inv r" and "victim r = (Some f, r')"
  shows "frames r \<noteq> []" and "f = last (frames r)" and "f \<in> set (frames r)"
    and "frames r' = butlast (frames r)" and "f \<notin> set (frames r')"
    and "inv r'" and "cap r' = cap r"
proof -
  show ne: "frames r \<noteq> []" using assms victim_empty by fastforce
  show f: "f = last (frames r)" using victim_last [OF assms(1) ne] assms(2) by simp
  then show "f \<in> set (frames r)" using ne by simp
  show r': "frames r' = butlast (frames r)" using frames_victim [OF assms(1)] assms(2) by simp
  have "frames r = butlast (frames r) @ [last (frames r)]" using ne by simp
  moreover have "distinct (frames r)" using assms(1) by (rule inv_distinct)
  ultimately have "last (frames r) \<notin> set (butlast (frames r))"
    by (metis distinct.simps(2) distinct1_rotate rotate1.simps(2))
  then show "f \<notin> set (frames r')" using f r' by simp
  show "inv r'" using inv_victim [OF assms(1)] assms(2) by simp
  show "cap r' = cap r" using cap_victim [of r] assms(2) by simp
qed

text \<open>
  A frame that is unpinned while it is in range of a pool of \<open>cap r\<close> frames is never dropped.
\<close>

lemma unpin_tracks:
  assumes "inv r" and "set (frames r) \<subseteq> {..<cap r}" and "f < cap r"
  shows "f \<in> set (frames (unpin f r))"
proof (cases "f \<in> set (frames r)")
  case False
  have "set (frames r) \<subseteq> {..<cap r} - {f}" using assms False by auto
  then have "card (set (frames r)) \<le> card ({..<cap r} - {f})"
    by (intro card_mono) auto
  then have "length (frames r) < cap r"
    using assms(1,3) by (simp add: distinct_card inv_distinct)
  then show ?thesis using assms(1) by (simp add: frames_unpin)
qed (simp add: assms frames_unpin)

end

section \<open>LRUReplacer implements the contract\<close>

definition lru_frames :: "LRUReplacer \<Rightarrow> frame list" where
  "lru_frames r = map snd (LRUlist r)"

definition lru_inv :: "LRUReplacer \<Rightarrow> bool" where
  "lru_inv r \<longleftrightarrow>
     distinct (map fst (LRUlist r)) \<and> distinct (map snd (LRUlist r)) \<and>
     (\<forall>f n. LRUhash r f = Some n \<longleftrightarrow> (n, f) \<in> set (LRUlist r)) \<and>
     (\<forall>n f. (n, f) \<in> set (LRUlist r) \<longrightarrow> n < fresh_node r) \<and>
     length (LRUlist r) \<le> max_size r"

lemma lru_inv_new: "lru_inv (LRUReplacer_new n)"
  by (simp add: lru_inv_def LRUReplacer_new_def)

lemma lru_hash_None_iff: "lru_inv r \<Longrightarrow> LRUhash r f = None \<longleftrightarrow> f \<notin> set (lru_frames r)"
  by (force simp: lru_inv_def lru_frames_def)

lemma lru_inv_victim: "lru_inv r \<Longrightarrow> lru_inv (snd (lru_victim r))"
proof (cases "LRUlist r" rule: rev_cases)
  case Nil
  then show "lru_inv r \<Longrightarrow> ?thesis" by (simp add: lru_victim_def)
next
  case (snoc xs x)
  assume "lru_inv r"
  with snoc show ?thesis
    by (cases x) (force simp: lru_victim_def lru_inv_def Let_def image_iff)
qed

lemma filter_node_remove1:
  "distinct (map fst xs) \<Longrightarrow> distinct (map snd xs) \<Longrightarrow> (n, f) \<in> set xs \<Longrightarrow>
   map snd (filter (\<lambda>node. fst node \<noteq> n) xs) = remove1 f (map snd xs)"
proof (induction xs)
  case (Cons x xs)
  obtain m g where x: "x = (m, g)" by (cases x)
  show ?case
  proof (cases "m = n")
    case True
    with Cons.prems x have "n \<notin> fst ` set xs" and g: "g = f"
      by (force simp: image_iff)+
    then have "filter (\<lambda>node. fst node \<noteq> n) xs = xs" by (auto intro: filter_True)
    with True x g show ?thesis by simp
  next
    case False
    with Cons.prems x have "(n, f) \<in> set xs" by auto
    moreover from this Cons.prems x have "g \<noteq> f" by (force simp: image_iff)
    ultimately show ?thesis using Cons False x by simp
  qed
qed simp

lemma lru_frames_pin: "lru_inv r \<Longrightarrow> lru_frames (lru_pin f r) = remove1 f (lru_frames r)"
proof (cases "LRUhash r f")
  case None
  assume "lru_inv r"
  with None have "f \<notin> set (lru_frames r)" by (simp add: lru_hash_None_iff)
  with None show ?thesis by (simp add: lru_pin_def remove1_idem)
next
  case (Some n)
  assume "lru_inv r"
  then have "distinct (map fst (LRUlist r))" "distinct (map snd (LRUlist r))"
    "(n, f) \<in> set (LRUlist r)" using Some by (auto simp: lru_inv_def)
  from filter_node_remove1 [OF this] Some show ?thesis
    by (simp add: lru_pin_def lru_frames_def)
qed

lemma lru_inv_pin: "lru_inv r \<Longrightarrow> lru_inv (lru_pin f r)"
proof (cases "LRUhash r f")
  case (Some n)
  assume inv: "lru_inv r"
  let ?xs = "filter (\<lambda>node. fst node \<noteq> n) (LRUlist r)"
  have nf: "(n, f) \<in> set (LRUlist r)" and df: "distinct (map fst (LRUlist r))"
    and ds: "distinct (map snd (LRUlist r))"
    using inv Some by (auto simp: lru_inv_def)
  have uniq: "(m, g) \<in> set (LRUlist r) \<Longrightarrow> m = n \<longleftrightarrow> g = f" for m g
    using nf df ds by (metis eq_key_imp_eq_value map_of_SomeD map_of_eq_Some_iff
        fst_conv snd_conv inj_onD distinct_map)
  have "length (LRUlist r) \<le> max_size r" using inv by (simp add: lru_inv_def)
  then have "length ?xs \<le> max_size r" using length_filter_le le_trans by blast
  moreover have "(((LRUhash r)(f := None)) g = Some m) = ((m, g) \<in> set ?xs)" for g m
    using inv uniq by (auto simp: lru_inv_def)
  moreover have "lru_pin f r = r\<lparr>LRUlist := ?xs, LRUhash := (LRUhash r)(f := None)\<rparr>"
    using Some by (simp add: lru_pin_def)
  ultimately show ?thesis using inv
    unfolding lru_inv_def by (auto simp: distinct_map_filter)
qed (simp add: lru_pin_def)

lemma lru_inv_unpin: "lru_inv r \<Longrightarrow> lru_inv (lru_unpin f r)"
  by (force simp: lru_unpin_def lru_inv_def)

interpretation lru: replacer lru_victim lru_pin lru_unpin lru_Size lru_frames max_size lru_inv
proof unfold_locales
  fix r :: LRUReplacer and f :: frame
  assume inv: "lru_inv r"
  show "distinct (lru_frames r)" "length (lru_frames r) \<le> max_size r"
    using inv by (auto simp: lru_inv_def lru_frames_def)
  show "lru_Size r = length (lru_frames r)" by (simp add: lru_Size_def lru_frames_def)
  show "lru_frames r = [] \<Longrightarrow> lru_victim r = (None, r)"
    by (simp add: lru_victim_def lru_frames_def)
  show "lru_frames r \<noteq> [] \<Longrightarrow> fst (lru_victim r) = Some (last (lru_frames r))"
    by (simp add: lru_victim_def lru_frames_def last_map Let_def)
  show "lru_frames (snd (lru_victim r)) = butlast (lru_frames r)"
    by (simp add: lru_victim_def lru_frames_def map_butlast Let_def)
  show "lru_frames (lru_pin f r) = remove1 f (lru_frames r)"
    using inv by (rule lru_frames_pin)
  show "lru_frames (lru_unpin f r) =
      (if f \<in> set (lru_frames r) \<or> max_size r \<le> length (lru_frames r) then lru_frames r
       else f # lru_frames r)"
    using lru_hash_None_iff [OF inv, of f] by (auto simp: lru_unpin_def lru_frames_def)
  show "lru_inv (snd (lru_victim r))" using inv by (rule lru_inv_victim)
  show "lru_inv (lru_pin f r)" using inv by (rule lru_inv_pin)
  show "lru_inv (lru_unpin f r)" using inv by (rule lru_inv_unpin)
next
  fix r :: LRUReplacer and f :: frame
  show "max_size (snd (lru_victim r)) = max_size r" by (simp add: lru_victim_def Let_def)
  show "max_size (lru_pin f r) = max_size r" by (simp add: lru_pin_def split: option.split)
  show "max_size (lru_unpin f r) = max_size r" by (simp add: lru_unpin_def)
qed

section \<open>Refinement of the abstract LRU list\<close>

text \<open>
  The specification machine keeps nothing but the list of evictable frames. A client's calls are
  a list of operations; each call returns the victim, if it is a call of \<open>victim\<close>.
\<close>

datatype repl_op = Victim | Pin frame | Unpin frame

fun spec_step :: "nat \<Rightarrow> frame list \<Rightarrow> repl_op \<Rightarrow> frame option \<times> frame list" where
  "spec_step k xs Victim = (if xs = [] then (None, []) else (Some (last xs), butlast xs))"
| "spec_step k xs (Pin f) = (None, remove1 f xs)"
| "spec_step k xs (Unpin f) = (None, if f \<in> set xs \<or> k \<le> length xs then xs else f # xs)"

fun spec_run :: "nat \<Rightarrow> frame list \<Rightarrow> repl_op list \<Rightarrow> frame option list \<times> frame list" where
  "spec_run k xs [] = ([], xs)"
| "spec_run k xs (c # cs) =
     (let (out, xs') = spec_step k xs c; (outs, ys) = spec_run k xs' cs in (out # outs, ys))"

fun lru_step :: "LRUReplacer \<Rightarrow> repl_op \<Rightarrow> frame option \<times> LRUReplacer" where
  "lru_step r Victim = lru_victim r"
| "lru_step r (Pin f) = (None, lru_pin f r)"
| "lru_step r (Unpin f) = (None, lru_unpin f r)"

fun lru_run :: "LRUReplacer \<Rightarrow> repl_op list \<Rightarrow> frame option list \<times> LRUReplacer" where
  "lru_run r [] = ([], r)"
| "lru_run r (c # cs) =
     (let (out, r') = lru_step r c; (outs, r'') = lru_run r' cs in (out # outs, r''))"

lemma lru_step_refines:
  assumes "lru_inv r"
  shows "spec_step (max_size r) (lru_frames r) c
      = (fst (lru_step r c), lru_frames (snd (lru_step r c)))"
    and "lru_inv (snd (lru_step r c))" and "max_size (snd (lru_step r c)) = max_size r"
proof -
  show "spec_step (max_size r) (lru_frames r) c
      = (fst (lru_step r c), lru_frames (snd (lru_step r c)))"
  proof (cases c)
    case Victim
    with assms show ?thesis
      by (cases "lru_frames r = []")
        (auto simp: lru.victim_empty lru.victim_last lru.frames_victim)
  qed (use assms in \<open>auto simp: lru.frames_pin lru.frames_unpin\<close>)
  show "lru_inv (snd (lru_step r c))"
    using assms by (cases c) (auto intro: lru.inv_victim lru.inv_pin lru.inv_unpin)
  show "max_size (snd (lru_step r c)) = max_size r"
    by (cases c) (auto simp: lru.cap_victim lru.cap_pin lru.cap_unpin)
qed

lemma lru_run_refines:
  "lru_inv r \<Longrightarrow> spec_run (max_size r) (lru_frames r) cs
     = (fst (lru_run r cs), lru_frames (snd (lru_run r cs)))"
proof (induction cs arbitrary: r)
  case (Cons c cs)
  obtain out r' where step: "lru_step r c = (out, r')" by force
  note s = lru_step_refines [OF Cons.prems, of c, unfolded step, simplified]
  from Cons.IH [OF s(2)] s show ?case
    by (simp add: step split: prod.split)
qed simp

section \<open>Properties\<close>

text \<open>
  C15. For every sequence of calls on a freshly constructed \<open>LRUReplacer\<close>, the linked list with its
  hash table of iterators behaves exactly as the abstract least-recently-used list: the same
  victims are returned, in the same order, and the evictable frames are the same.
\<close>

theorem lru_refines_spec:
  "spec_run n [] cs = (fst (lru_run (LRUReplacer_new n) cs),
                       lru_frames (snd (lru_run (LRUReplacer_new n) cs)))"
  using lru_run_refines [OF lru_inv_new, of n cs]
  by (simp add: LRUReplacer_new_def lru_frames_def)

end
