(* ===== verification/Errors.thy ===== *)
theory Errors
  imports Prelude
begin

text \<open>
  The exceptions of \<open>src/src/errors.h\<close> as one datatype, their messages, and the ways an
  operation of the program can fail: a thrown \<open>RMDBError\<close>, which the server catches, or a
  failure nobody catches (a failed \<open>assert\<close>, a null pointer, \<open>std::out_of_range\<close> from
  \<open>map::at\<close>), which ends the process.
\<close>

text \<open>The values of \<open>errno\<close> the modelled system calls set, with the text of \<open>strerror\<close>.\<close>

datatype errno = EBADF | EINVAL | ENOENT | EEXIST | EMFILE

fun strerror :: "errno \<Rightarrow> string" where
  "strerror EBADF = ''Bad file descriptor''"
| "strerror EINVAL = ''Invalid argument''"
| "strerror ENOENT = ''No such file or directory''"
| "strerror EEXIST = ''File exists''"
| "strerror EMFILE = ''Too many open files''"

datatype rmdb_error =
    InternalError string
  | UnixError errno
  | FileNotOpenError int
  | FileNotClosedError string
  | FileExistsError string
  | FileNotFoundError string
  | RecordNotFoundError int int
  | InvalidRecordSizeError int
  | InvalidColLengthError int
  | IndexEntryNotFoundError
  | DatabaseNotFoundError string
  | DatabaseExistsError string
  | TableNotFoundError string
  | TableExistsError string
  | ColumnNotFoundError string
  | IndexNotFoundError string "string list"
  | IndexExistsError string "string list"
  | InvalidValueCountError
  | StringOverflowError
  | IncompatibleTypeError string string
  | AmbiguousColumnError string
  | PageNotExistError string int

text \<open>The loop that joins the column names of an index with commas.\<close>

fun join_names :: "string list \<Rightarrow> string" where
  "join_names [] = []"
| "join_names [c] = c"
| "join_names (c # d # cs) = c @ '', '' @ join_names (d # cs)"

fun what :: "rmdb_error \<Rightarrow> string" where
  "what (InternalError msg) = ''Error: '' @ msg"
| "what (UnixError e) = ''Error: '' @ strerror e"
| "what (FileNotOpenError fd) = ''Error: '' @ ''Invalid file descriptor: '' @ to_string fd"
| "what (FileNotClosedError f) = ''Error: '' @ ''File is opened: '' @ f"
| "what (FileExistsError f) = ''Error: '' @ ''File already exists: '' @ f"
| "what (FileNotFoundError f) = ''Error: '' @ ''File not found: '' @ f"
| "what (RecordNotFoundError p s) =
     ''Error: '' @ ''Record not found: ('' @ to_string p @ '','' @ to_string s @ '')''"
| "what (InvalidRecordSizeError n) = ''Error: '' @ ''Invalid record size: '' @ to_string n"
| "what (InvalidColLengthError n) = ''Error: '' @ ''Invalid column length: '' @ to_string n"
| "what IndexEntryNotFoundError = ''Error: '' @ ''Index entry not found''"
| "what (DatabaseNotFoundError d) = ''Error: '' @ ''Database not found: '' @ d"
| "what (DatabaseExistsError d) = ''Error: '' @ ''Database already exists: '' @ d"
| "what (TableNotFoundError t) = ''Error: '' @ ''Table not found: '' @ t"
| "what (TableExistsError t) = ''Error: '' @ ''Table already exists: '' @ t"
| "what (ColumnNotFoundError c) = ''Error: '' @ ''Column not found: '' @ c"
| "what (IndexNotFoundError t cs) = ''Error: '' @ ''Index not found: '' @ t @ ''.('' @ join_names cs @ '')''"
| "what (IndexExistsError t cs) = ''Error: '' @ ''Index already exists: '' @ t @ ''.('' @ join_names cs @ '')''"
| "what InvalidValueCountError = ''Error: '' @ ''Invalid value count''"
| "what StringOverflowError = ''Error: '' @ ''String is too long''"
| "what (IncompatibleTypeError l r) =
     ''Error: '' @ ''Incompatible type error: lhs '' @ l @ '', rhs '' @ r"
| "what (AmbiguousColumnError c) = ''Error: '' @ ''Ambiguous column: '' @ c"
| "what (PageNotExistError t p) =
     ''Error: '' @ ''Page '' @ to_string p @ '' in table '' @ t @ ''not exits''"

definition get_msg_len :: "rmdb_error \<Rightarrow> nat" where
  "get_msg_len e = length (what e)"

text \<open>
  \<open>Throw\<close> is a C++ exception of the program; the other constructors end the process.
  \<open>OutOfBounds\<close> is an access outside the object a pointer refers to (undefined in C++, so
  whatever follows is not modelled), \<open>DivisionByZero\<close> an integer division by zero. \<open>NoFuel\<close> is not a behaviour of the program: it marks a
  loop cut off by a fuel bound.
\<close>

datatype failure =
    Throw rmdb_error
  | AssertionFailed
  | NullDeref
  | StdOutOfRange
  | OutOfBounds
  | DivisionByZero
  | NoFuel

type_synonym ('a, 's) res = "(failure, 'a, 's) outcome"

end
