(* ===== verification/Config.thy ===== *)
theory Config
  imports Errors
begin

text \<open>
  \<open>src/src/common/config.h\<close>, and the two small types every layer shares: \<open>PageId\<close>
  (\<open>src/src/storage/page.h\<close>) and \<open>Rid\<close> (\<open>src/src/defs.h\<close>).
\<close>

definition INVALID_PAGE_ID :: int where "INVALID_PAGE_ID = - 1"
definition INVALID_TXN_ID :: int where "INVALID_TXN_ID = - 1"
definition INVALID_LSN :: int where "INVALID_LSN = - 1"
definition PAGE_SIZE :: nat where "PAGE_SIZE = 4096"
definition BUFFER_LENGTH :: nat where "BUFFER_LENGTH = 8192"
definition BUFFER_POOL_SIZE :: nat where "BUFFER_POOL_SIZE = 65536"
definition LOG_BUFFER_SIZE :: nat where "LOG_BUFFER_SIZE = 1024 * PAGE_SIZE"
definition LOG_FILE_NAME :: string where "LOG_FILE_NAME = ''db.log''"
definition DB_META_NAME :: string where "DB_META_NAME = ''db.meta''"

record PageId =
  pid_fd :: int
  page_no :: int

abbreviation PageId_of :: "int \<Rightarrow> int \<Rightarrow> PageId" where
  "PageId_of f n \<equiv> \<lparr>pid_fd = f, page_no = n\<rparr>"

lemma PageId_eqI: "pid_fd p = pid_fd q \<Longrightarrow> page_no p = page_no q \<Longrightarrow> p = (q :: PageId)"
  by (rule PageId.equality) simp_all

lemma PageId_eta [simp]: "PageId_of (pid_fd p) (page_no p) = (p :: PageId)"
  by (rule PageId_eqI) simp_all

text \<open>The comparison operator of \<open>PageId\<close>, as written.\<close>

definition PageId_less :: "PageId \<Rightarrow> PageId \<Rightarrow> bool" where
  "PageId_less p x = (if pid_fd p < pid_fd x then True else page_no p < page_no x)"

definition PageId_toString :: "PageId \<Rightarrow> string" where
  "PageId_toString p = ''{fd: '' @ to_string (pid_fd p) @ '' page_no: '' @ to_string (page_no p) @ ''}''"

record Rid =
  rid_page :: int
  rid_slot :: int

abbreviation Rid_of :: "int \<Rightarrow> int \<Rightarrow> Rid" where
  "Rid_of p s \<equiv> \<lparr>rid_page = p, rid_slot = s\<rparr>"

lemma Rid_eqI: "rid_page p = rid_page q \<Longrightarrow> rid_slot p = rid_slot q \<Longrightarrow> p = (q :: Rid)"
  by (rule Rid.equality) simp_all

lemma Rid_eq_iff: "r = Rid_of p s \<longleftrightarrow> rid_page r = p \<and> rid_slot r = s"
  by (cases r) simp

lemma Rid_eta [simp]: "Rid_of (rid_page r) (rid_slot r) = (r :: Rid)"
  by (rule Rid_eqI) simp_all

end
