(* ===== verification/Disk_Manager.thy ===== *)
theory Disk_Manager
  imports Config
begin

text \<open>
  \<open>src/src/storage/disk_manager.h\<close> and \<open>disk_manager.cpp\<close>. The operating system the class calls
  is the record \<open>os\<close>: a directory of inodes, the bytes of each inode, and the process's table of
  open descriptors with their file offsets. The system calls follow POSIX: \<open>open\<close> returns the
  lowest free descriptor, \<open>lseek\<close> fails on a bad descriptor or a negative offset, \<open>write\<close> beyond
  the end fills the gap with zeros, \<open>read\<close> returns fewer bytes at the end of the file. Device
  errors and a full disk are not modelled.
\<close>

section \<open>The operating system\<close>

type_synonym path = "string list"

record os =
  cwd :: path
  dirs :: "path list"
  dirent :: "path \<rightharpoonup> nat"
  idata :: "nat \<Rightarrow> bytes"
  next_ino :: nat
  fds :: "int \<rightharpoonup> nat \<times> nat"
  nofile :: nat

definition abspath :: "os \<Rightarrow> string \<Rightarrow> path" where
  "abspath s p = cwd s @ [p]"

definition sys_lseek :: "int \<Rightarrow> int \<Rightarrow> os \<Rightarrow> errno option \<times> os" where
  "sys_lseek fd off s =
     (case fds s fd of
        None \<Rightarrow> (Some EBADF, s)
      | Some (ino, _) \<Rightarrow>
          if off < 0 then (Some EINVAL, s)
          else (None, s\<lparr>fds := (fds s)(fd \<mapsto> (ino, nat off))\<rparr>))"

definition pwrite :: "bytes \<Rightarrow> nat \<Rightarrow> bytes \<Rightarrow> bytes" where
  "pwrite c off buf = mem_write (c @ replicate (off + length buf - length c) 0) off buf"

definition sys_write :: "int \<Rightarrow> bytes \<Rightarrow> os \<Rightarrow> (errno + nat) \<times> os" where
  "sys_write fd buf s =
     (case fds s fd of
        None \<Rightarrow> (Inl EBADF, s)
      | Some (ino, off) \<Rightarrow>
          (Inr (length buf),
           s\<lparr>idata := (idata s)(ino := pwrite (idata s ino) off buf),
             fds := (fds s)(fd \<mapsto> (ino, off + length buf))\<rparr>))"

definition sys_read :: "int \<Rightarrow> nat \<Rightarrow> os \<Rightarrow> (errno + bytes) \<times> os" where
  "sys_read fd n s =
     (case fds s fd of
        None \<Rightarrow> (Inl EBADF, s)
      | Some (ino, off) \<Rightarrow>
          (let got = mem_read (idata s ino) off n
           in (Inr got, s\<lparr>fds := (fds s)(fd \<mapsto> (ino, off + length got))\<rparr>)))"

definition lowest_fd :: "os \<Rightarrow> int option" where
  "lowest_fd s = find (\<lambda>k. fds s k = None) (map int [0..<nofile s])"

definition sys_open :: "string \<Rightarrow> os \<Rightarrow> (errno + int) \<times> os" where
  "sys_open p s =
     (case dirent s (abspath s p) of
        None \<Rightarrow> (Inl ENOENT, s)
      | Some ino \<Rightarrow>
          (case lowest_fd s of
             None \<Rightarrow> (Inl EMFILE, s)
           | Some fd \<Rightarrow> (Inr fd, s\<lparr>fds := (fds s)(fd \<mapsto> (ino, 0))\<rparr>)))"

text \<open>\<open>open\<close> with \<open>O_CREAT | O_EXCL\<close>.\<close>

definition sys_open_excl :: "string \<Rightarrow> os \<Rightarrow> (errno + int) \<times> os" where
  "sys_open_excl p s =
     (if dirent s (abspath s p) \<noteq> None \<or> abspath s p \<in> set (dirs s) then (Inl EEXIST, s)
      else case lowest_fd s of
             None \<Rightarrow> (Inl EMFILE, s)
           | Some fd \<Rightarrow>
               (Inr fd, s\<lparr>dirent := (dirent s)(abspath s p \<mapsto> next_ino s),
                          idata := (idata s)(next_ino s := []),
                          next_ino := Suc (next_ino s),
                          fds := (fds s)(fd \<mapsto> (next_ino s, 0))\<rparr>))"

definition sys_close :: "int \<Rightarrow> os \<Rightarrow> errno option \<times> os" where
  "sys_close fd s =
     (if fds s fd = None then (Some EBADF, s) else (None, s\<lparr>fds := (fds s)(fd := None)\<rparr>))"

definition sys_unlink :: "string \<Rightarrow> os \<Rightarrow> errno option \<times> os" where
  "sys_unlink p s =
     (if dirent s (abspath s p) = None then (Some ENOENT, s)
      else (None, s\<lparr>dirent := (dirent s)(abspath s p := None)\<rparr>))"

text \<open>\<open>mkdir\<close> and \<open>rm -r\<close> run by \<open>system\<close>: their own failures are exit codes, never negative.\<close>

definition sh_mkdir :: "string \<Rightarrow> os \<Rightarrow> os" where
  "sh_mkdir p s =
     (if abspath s p \<in> set (dirs s) \<or> dirent s (abspath s p) \<noteq> None then s
      else s\<lparr>dirs := abspath s p # dirs s\<rparr>)"

definition sh_rm_r :: "string \<Rightarrow> os \<Rightarrow> os" where
  "sh_rm_r p s =
     (let below = (\<lambda>q. take (length (abspath s p)) q = abspath s p)
      in s\<lparr>dirs := filter (\<lambda>q. \<not> below q) (dirs s),
           dirent := (\<lambda>q. if below q then None else dirent s q)\<rparr>)"

section \<open>The class DiskManager\<close>

record disk =
  dos :: os
  path2fd :: "string \<rightharpoonup> int"
  fd2path :: "int \<rightharpoonup> string"
  log_fd :: int
  fd2pageno :: "int \<Rightarrow> int"

definition MAX_FD :: int where "MAX_FD = 8192"

definition DiskManager_new :: "os \<Rightarrow> disk" where
  "DiskManager_new s =
     \<lparr>dos = s, path2fd = Map.empty, fd2path = Map.empty, log_fd = - 1, fd2pageno = (\<lambda>_. 0)\<rparr>"

definition write_page :: "int \<Rightarrow> int \<Rightarrow> bytes \<Rightarrow> nat \<Rightarrow> disk \<Rightarrow> (unit, disk) res" where
  "write_page fd pno buf num_bytes d =
     (case sys_lseek fd (pno * int PAGE_SIZE) (dos d) of
        (Some e, s) \<Rightarrow> Err (Throw (UnixError e)) (d\<lparr>dos := s\<rparr>)
      | (None, s) \<Rightarrow>
          (case sys_write fd (take num_bytes buf) s of
             (Inr n, s') \<Rightarrow>
               if n \<noteq> num_bytes
               then Err (Throw (InternalError ''DiskManager::write_page Error'')) (d\<lparr>dos := s'\<rparr>)
               else Ok () (d\<lparr>dos := s'\<rparr>)
           | (Inl e, s') \<Rightarrow>
               Err (Throw (InternalError ''DiskManager::write_page Error'')) (d\<lparr>dos := s'\<rparr>)))"

text \<open>
  \<open>read_page\<close> writes into the caller's buffer even when it then throws because the file is too
  short, so the buffer after the call is returned next to the outcome.
\<close>

definition read_page :: "int \<Rightarrow> int \<Rightarrow> bytes \<Rightarrow> nat \<Rightarrow> disk \<Rightarrow> bytes \<times> (unit, disk) res" where
  "read_page fd pno buf num_bytes d =
     (case sys_lseek fd (pno * int PAGE_SIZE) (dos d) of
        (Some e, s) \<Rightarrow> (buf, Err (Throw (UnixError e)) (d\<lparr>dos := s\<rparr>))
      | (None, s) \<Rightarrow>
          (case sys_read fd num_bytes s of
             (Inr got, s') \<Rightarrow>
               (mem_write buf 0 got,
                if length got \<noteq> num_bytes
                then Err (Throw (InternalError ''DiskManager::read_page Error'')) (d\<lparr>dos := s'\<rparr>)
                else Ok () (d\<lparr>dos := s'\<rparr>))
           | (Inl e, s') \<Rightarrow>
               (buf, Err (Throw (InternalError ''DiskManager::read_page Error'')) (d\<lparr>dos := s'\<rparr>))))"

definition allocate_page :: "int \<Rightarrow> disk \<Rightarrow> (int, disk) res" where
  "allocate_page fd d =
     (if 0 \<le> fd \<and> fd < MAX_FD
      then Ok (fd2pageno d fd) (d\<lparr>fd2pageno := (fd2pageno d)(fd := i32 (fd2pageno d fd + 1))\<rparr>)
      else Err AssertionFailed d)"

text \<open>The array \<open>fd2pageno_\<close> has \<open>MAX_FD\<close> entries; these two methods do not check the index.\<close>

definition set_fd2pageno :: "int \<Rightarrow> int \<Rightarrow> disk \<Rightarrow> (unit, disk) res" where
  "set_fd2pageno fd start_page_no d =
     (if 0 \<le> fd \<and> fd < MAX_FD then Ok () (d\<lparr>fd2pageno := (fd2pageno d)(fd := start_page_no)\<rparr>)
      else Err OutOfBounds d)"

definition get_fd2pageno :: "int \<Rightarrow> disk \<Rightarrow> (int, disk) res" where
  "get_fd2pageno fd d = (if 0 \<le> fd \<and> fd < MAX_FD then Ok (fd2pageno d fd) d else Err OutOfBounds d)"

definition deallocate_page :: "int \<Rightarrow> disk \<Rightarrow> disk" where
  "deallocate_page pno d = d"

definition is_dir :: "string \<Rightarrow> disk \<Rightarrow> bool" where
  "is_dir p d \<longleftrightarrow> abspath (dos d) p \<in> set (dirs (dos d))"

definition create_dir :: "string \<Rightarrow> disk \<Rightarrow> (unit, disk) res" where
  "create_dir p d = Ok () (d\<lparr>dos := sh_mkdir p (dos d)\<rparr>)"

definition destroy_dir :: "string \<Rightarrow> disk \<Rightarrow> (unit, disk) res" where
  "destroy_dir p d = Ok () (d\<lparr>dos := sh_rm_r p (dos d)\<rparr>)"

definition is_file :: "string \<Rightarrow> disk \<Rightarrow> bool" where
  "is_file p d \<longleftrightarrow> dirent (dos d) (abspath (dos d) p) \<noteq> None"

definition create_file :: "string \<Rightarrow> disk \<Rightarrow> (unit, disk) res" where
  "create_file p d =
     (if is_file p d then Err (Throw (FileExistsError p)) d
      else case sys_open_excl p (dos d) of
             (Inl e, s) \<Rightarrow> Err (Throw (UnixError e)) (d\<lparr>dos := s\<rparr>)
           | (Inr fd, s) \<Rightarrow> Ok () (d\<lparr>dos := snd (sys_close fd s)\<rparr>))"

definition destroy_file :: "string \<Rightarrow> disk \<Rightarrow> (unit, disk) res" where
  "destroy_file p d =
     (if \<not> is_file p d then Err (Throw (FileNotFoundError p)) d
      else if path2fd d p \<noteq> None then Err (Throw (FileNotClosedError p)) d
      else case sys_unlink p (dos d) of
             (Some e, s) \<Rightarrow> Err (Throw (UnixError e)) (d\<lparr>dos := s\<rparr>)
           | (None, s) \<Rightarrow> Ok () (d\<lparr>dos := s\<rparr>))"

definition open_file :: "string \<Rightarrow> disk \<Rightarrow> (int, disk) res" where
  "open_file p d =
     (if \<not> is_file p d then Err (Throw (FileNotFoundError p)) d
      else if path2fd d p \<noteq> None then Err (Throw (FileExistsError p)) d
      else case sys_open p (dos d) of
             (Inl e, s) \<Rightarrow> Err (Throw (UnixError e)) (d\<lparr>dos := s\<rparr>)
           | (Inr fd, s) \<Rightarrow>
               Ok fd (d\<lparr>dos := s, path2fd := (path2fd d)(p \<mapsto> fd), fd2path := (fd2path d)(fd \<mapsto> p)\<rparr>))"

definition close_file :: "int \<Rightarrow> disk \<Rightarrow> (unit, disk) res" where
  "close_file fd d =
     (case fd2path d fd of
        None \<Rightarrow> Err (Throw (FileNotOpenError fd)) d
      | Some p \<Rightarrow>
          (case sys_close fd (dos d) of
             (Some e, s) \<Rightarrow> Err (Throw (UnixError e)) (d\<lparr>dos := s\<rparr>)
           | (None, s) \<Rightarrow>
               Ok () (d\<lparr>dos := s, fd2path := (fd2path d)(fd := None),
                        path2fd := (path2fd d)(p := None)\<rparr>)))"

definition get_file_size :: "string \<Rightarrow> disk \<Rightarrow> int" where
  "get_file_size p d =
     (case dirent (dos d) (abspath (dos d) p) of
        None \<Rightarrow> - 1
      | Some ino \<Rightarrow> int (length (idata (dos d) ino)))"

definition get_file_name :: "int \<Rightarrow> disk \<Rightarrow> (string, disk) res" where
  "get_file_name fd d =
     (case fd2path d fd of
        None \<Rightarrow> Err (Throw (FileNotOpenError fd)) d
      | Some p \<Rightarrow> Ok p d)"

definition get_file_fd :: "string \<Rightarrow> disk \<Rightarrow> (int, disk) res" where
  "get_file_fd p d =
     (case path2fd d p of
        None \<Rightarrow> open_file p d
      | Some fd \<Rightarrow> Ok fd d)"

text \<open>The two log operations open the log file on their first use.\<close>

definition open_log :: "disk \<Rightarrow> (unit, disk) res" where
  "open_log d =
     (if log_fd d = - 1
      then bindO (open_file LOG_FILE_NAME d) (\<lambda>fd d1. Ok () (d1\<lparr>log_fd := fd\<rparr>))
      else Ok () d)"

definition read_log :: "int \<Rightarrow> int \<Rightarrow> disk \<Rightarrow> (int \<times> bytes, disk) res" where
  "read_log sz off d =
     bindO (open_log d) (\<lambda>_ d1.
       let file_size = get_file_size LOG_FILE_NAME d1 in
       if off > file_size then Ok (- 1, []) d1
       else let n = min sz (file_size - off) in
         if n = 0 then Ok (0, []) d1
         else case sys_read (log_fd d1) (nat n) (snd (sys_lseek (log_fd d1) off (dos d1))) of
                (Inl e, s) \<Rightarrow> Err AssertionFailed (d1\<lparr>dos := s\<rparr>)
              | (Inr got, s) \<Rightarrow>
                  if int (length got) = n then Ok (n, got) (d1\<lparr>dos := s\<rparr>)
                  else Err AssertionFailed (d1\<lparr>dos := s\<rparr>))"

text \<open>\<open>lseek(log_fd, 0, SEEK_END)\<close>.\<close>

definition sys_lseek_end :: "int \<Rightarrow> os \<Rightarrow> os" where
  "sys_lseek_end fd s =
     (case fds s fd of
        None \<Rightarrow> s
      | Some (ino, _) \<Rightarrow> s\<lparr>fds := (fds s)(fd \<mapsto> (ino, length (idata s ino)))\<rparr>)"

definition write_log :: "bytes \<Rightarrow> disk \<Rightarrow> (unit, disk) res" where
  "write_log log_data d =
     bindO (open_log d) (\<lambda>_ d1.
       case sys_write (log_fd d1) log_data (sys_lseek_end (log_fd d1) (dos d1)) of
         (Inl e, s) \<Rightarrow> Err (Throw (UnixError e)) (d1\<lparr>dos := s\<rparr>)
       | (Inr n, s) \<Rightarrow> Ok () (d1\<lparr>dos := s\<rparr>))"

section \<open>Pages on disk\<close>

text \<open>
  The bytes \<open>read_page\<close> finds for a page: the descriptor is open and the file reaches to the end
  of the page.
\<close>

definition disk_page :: "disk \<Rightarrow> PageId \<Rightarrow> bytes option" where
  "disk_page d p =
     (case fds (dos d) (pid_fd p) of
        None \<Rightarrow> None
      | Some (ino, _) \<Rightarrow>
          if 0 \<le> page_no p \<and> (nat (page_no p) + 1) * PAGE_SIZE \<le> length (idata (dos d) ino)
          then Some (mem_read (idata (dos d) ino) (nat (page_no p) * PAGE_SIZE) PAGE_SIZE)
          else None)"

definition fd_open :: "disk \<Rightarrow> int \<Rightarrow> bool" where
  "fd_open d fd \<longleftrightarrow> fds (dos d) fd \<noteq> None"

text \<open>No two descriptors share a file: \<open>open_file\<close> refuses to open a path twice.\<close>

definition no_alias :: "disk \<Rightarrow> bool" where
  "no_alias d \<longleftrightarrow>
     (\<forall>f g i o1 o2. fds (dos d) f = Some (i, o1) \<longrightarrow> fds (dos d) g = Some (i, o2) \<longrightarrow> f = g)"

text \<open>
  Two states of the disk that differ at most in file offsets: nothing a client can see.
\<close>

definition disk_sim :: "disk \<Rightarrow> disk \<Rightarrow> bool" where
  "disk_sim d d' \<longleftrightarrow>
     (\<forall>f. map_option fst (fds (dos d') f) = map_option fst (fds (dos d) f)) \<and>
     idata (dos d') = idata (dos d) \<and> dirent (dos d') = dirent (dos d) \<and>
     cwd (dos d') = cwd (dos d) \<and> dirs (dos d') = dirs (dos d) \<and>
     next_ino (dos d') = next_ino (dos d) \<and> nofile (dos d') = nofile (dos d) \<and>
     path2fd d' = path2fd d \<and> fd2path d' = fd2path d \<and> log_fd d' = log_fd d \<and>
     fd2pageno d' = fd2pageno d"

lemma disk_sim_refl [simp]: "disk_sim d d"
  by (simp add: disk_sim_def)

lemma disk_sim_page: "disk_sim d d' \<Longrightarrow> disk_page d' p = disk_page d p"
proof -
  assume sim: "disk_sim d d'"
  then have "map_option fst (fds (dos d') (pid_fd p)) = map_option fst (fds (dos d) (pid_fd p))"
    by (simp add: disk_sim_def)
  with sim show ?thesis
    by (cases "fds (dos d) (pid_fd p)"; cases "fds (dos d') (pid_fd p)")
      (auto simp: disk_page_def disk_sim_def)
qed

lemma disk_sim_open: "disk_sim d d' \<Longrightarrow> fd_open d' fd = fd_open d fd"
  unfolding disk_sim_def fd_open_def by (metis option.map_disc_iff)

lemma fd_open_fst: "fd_open d f \<longleftrightarrow> map_option fst (fds (dos d) f) \<noteq> None"
  by (simp add: fd_open_def)

lemma no_alias_fst:
  "no_alias d \<longleftrightarrow> (\<forall>f g i. map_option fst (fds (dos d) f) = Some i \<longrightarrow>
      map_option fst (fds (dos d) g) = Some i \<longrightarrow> f = g)"
  unfolding no_alias_def by (fastforce)

lemma disk_sim_alias: "disk_sim d d' \<Longrightarrow> no_alias d' = no_alias d"
  by (simp add: no_alias_fst disk_sim_def)

section \<open>Reading and writing pages\<close>

lemma page_offset: "0 \<le> n \<Longrightarrow> nat (n * int k) = nat n * k"
  by (simp add: nat_mult_distrib)

lemma read_page_Ok:
  assumes "disk_page d (PageId_of fd pno) = Some bs" and "length buf = PAGE_SIZE"
  obtains d' where "read_page fd pno buf PAGE_SIZE d = (bs, Ok () d')" and "disk_sim d d'"
proof -
  obtain ino off where fd: "fds (dos d) fd = Some (ino, off)"
    and n: "0 \<le> pno" "(nat pno + 1) * PAGE_SIZE \<le> length (idata (dos d) ino)"
    and bs: "bs = mem_read (idata (dos d) ino) (nat pno * PAGE_SIZE) PAGE_SIZE"
    using assms(1) by (auto simp: disk_page_def split: option.splits if_splits)
  have len: "length bs = PAGE_SIZE" using n bs by simp
  let ?s = "(dos d)\<lparr>fds := (fds (dos d))(fd \<mapsto> (ino, nat pno * PAGE_SIZE + PAGE_SIZE))\<rparr>"
  have "read_page fd pno buf PAGE_SIZE d = (bs, Ok () (d\<lparr>dos := ?s\<rparr>))"
    using fd n len assms(2)
    by (simp add: read_page_def sys_lseek_def sys_read_def page_offset bs [symmetric] Let_def
        mult_less_0_iff mem_write_def)
  moreover have "disk_sim d (d\<lparr>dos := ?s\<rparr>)" using fd by (simp add: disk_sim_def)
  ultimately show ?thesis by (rule that)
qed

text \<open>The three ways \<open>read_page\<close> fails.\<close>

lemma read_page_bad_fd:
  "\<not> fd_open d fd \<Longrightarrow> read_page fd pno buf n d = (buf, Err (Throw (UnixError EBADF)) d)"
  by (cases "fds (dos d) fd") (auto simp: read_page_def sys_lseek_def fd_open_def)

lemma read_page_negative:
  "fd_open d fd \<Longrightarrow> pno < 0 \<Longrightarrow>
     read_page fd pno buf n d = (buf, Err (Throw (UnixError EINVAL)) d)"
  by (auto simp: read_page_def sys_lseek_def fd_open_def PAGE_SIZE_def)

lemma read_page_Err:
  assumes "disk_page d (PageId_of fd pno) = None" and "length buf = PAGE_SIZE"
  obtains buf' e d' where "read_page fd pno buf PAGE_SIZE d = (buf', Err (Throw e) d')"
    and "disk_sim d d'" and "length buf' = PAGE_SIZE"
proof (cases "fds (dos d) fd")
  case None
  then have "\<not> fd_open d fd" by (simp only: fd_open_def) simp
  then show ?thesis using that assms(2) read_page_bad_fd disk_sim_refl by blast
next
  case (Some x)
  then obtain ino off where fd: "fds (dos d) fd = Some (ino, off)" by (cases x) auto
  show ?thesis
  proof (cases "pno < 0")
    case True
    have "fd_open d fd" using fd by (simp add: fd_open_def)
    with True show ?thesis using that assms(2) read_page_negative disk_sim_refl by blast
  next
    case False
    let ?got = "mem_read (idata (dos d) ino) (nat pno * PAGE_SIZE) PAGE_SIZE"
    have short: "length ?got \<noteq> PAGE_SIZE" and pos: "0 \<le> pno"
      using False fd assms(1) by (auto simp: disk_page_def PAGE_SIZE_def split: if_splits)
    let ?s = "(dos d)\<lparr>fds := (fds (dos d))(fd \<mapsto> (ino, nat pno * PAGE_SIZE + length ?got))\<rparr>"
    have "read_page fd pno buf PAGE_SIZE d = (mem_write buf 0 ?got,
        Err (Throw (InternalError ''DiskManager::read_page Error'')) (d\<lparr>dos := ?s\<rparr>))"
      using fd pos short
      by (simp add: read_page_def sys_lseek_def sys_read_def page_offset Let_def mult_less_0_iff)
    moreover have "disk_sim d (d\<lparr>dos := ?s\<rparr>)" using fd by (simp add: disk_sim_def)
    moreover have "length (mem_write buf 0 ?got) = PAGE_SIZE" using assms(2) by simp
    ultimately show ?thesis by (rule that)
  qed
qed

lemma length_pwrite [simp]: "length (pwrite c off buf) = max (length c) (off + length buf)"
  by (simp add: pwrite_def)

lemma pwrite_same: "mem_read (pwrite c off buf) off (length buf) = buf"
  by (simp add: pwrite_def mem_read_write_same)

lemma pwrite_other:
  assumes "o' + n \<le> length c" and "o' + n \<le> off \<or> off + length buf \<le> o'"
  shows "mem_read (pwrite c off buf) o' n = mem_read c o' n"
proof -
  let ?c = "c @ replicate (off + length buf - length c) 0"
  have "mem_read (mem_write ?c off buf) o' n = mem_read ?c o' n"
    using assms by (intro mem_read_write_other) auto
  also have "\<dots> = mem_read c o' n" using assms(1) by (rule mem_read_append1)
  finally show ?thesis by (simp add: pwrite_def)
qed

text \<open>What a page write leaves alone: everything but the bytes of one inode and one offset.\<close>

definition disk_frame :: "disk \<Rightarrow> disk \<Rightarrow> bool" where
  "disk_frame d d' \<longleftrightarrow>
     (\<forall>f. map_option fst (fds (dos d') f) = map_option fst (fds (dos d) f)) \<and>
     dirent (dos d') = dirent (dos d) \<and> cwd (dos d') = cwd (dos d) \<and> dirs (dos d') = dirs (dos d) \<and>
     next_ino (dos d') = next_ino (dos d) \<and> nofile (dos d') = nofile (dos d) \<and>
     path2fd d' = path2fd d \<and> fd2path d' = fd2path d \<and> log_fd d' = log_fd d \<and>
     fd2pageno d' = fd2pageno d"

lemma disk_frame_refl [simp]: "disk_frame d d"
  by (simp add: disk_frame_def)

lemma disk_sim_frame: "disk_sim d d' \<Longrightarrow> disk_frame d d'"
  by (simp add: disk_sim_def disk_frame_def)

lemma disk_frame_trans: "disk_frame a b \<Longrightarrow> disk_frame b c \<Longrightarrow> disk_frame a c"
  by (simp add: disk_frame_def)

lemma disk_frame_open: "disk_frame d d' \<Longrightarrow> fd_open d' fd = fd_open d fd"
  by (simp only: disk_frame_def fd_open_fst)

lemma disk_frame_alias: "disk_frame d d' \<Longrightarrow> no_alias d' = no_alias d"
  by (simp add: no_alias_fst disk_frame_def)

lemma disk_frame_pageno: "disk_frame d d' \<Longrightarrow> fd2pageno d' = fd2pageno d"
  by (simp add: disk_frame_def)

lemma write_page_Ok:
  assumes "fd_open d fd" and "0 \<le> pno" and "length buf = PAGE_SIZE" and "no_alias d"
  obtains d' where "write_page fd pno buf PAGE_SIZE d = Ok () d'"
    and "disk_page d' (PageId_of fd pno) = Some buf"
    and "\<And>p bs. p \<noteq> PageId_of fd pno \<Longrightarrow> disk_page d p = Some bs \<Longrightarrow> disk_page d' p = Some bs"
    and "disk_frame d d'"
proof -
  obtain ino off where fd: "fds (dos d) fd = Some (ino, off)"
    using assms(1) by (auto simp: fd_open_def)
  let ?o = "nat pno * PAGE_SIZE"
  let ?c = "pwrite (idata (dos d) ino) ?o buf"
  let ?s = "(dos d)\<lparr>fds := (fds (dos d))(fd \<mapsto> (ino, ?o + PAGE_SIZE)), idata := (idata (dos d))(ino := ?c)\<rparr>"
  let ?d = "d\<lparr>dos := ?s\<rparr>"
  have "write_page fd pno buf PAGE_SIZE d = Ok () ?d"
    using fd assms(2,3)
    by (simp add: write_page_def sys_lseek_def sys_write_def page_offset mult_less_0_iff)
  moreover have "disk_page ?d (PageId_of fd pno) = Some buf"
    using assms(2,3) pwrite_same [of "idata (dos d) ino" ?o buf]
    by (simp add: disk_page_def)
  moreover have "disk_page ?d p = Some bs"
    if p: "p \<noteq> PageId_of fd pno" and bs: "disk_page d p = Some bs" for p bs
  proof (cases "pid_fd p = fd")
    case False
    obtain i o2 where q: "fds (dos d) (pid_fd p) = Some (i, o2)"
      using bs by (auto simp: disk_page_def split: option.splits)
    then have "i \<noteq> ino" using False fd assms(4) unfolding no_alias_def by blast
    then show ?thesis using False bs q by (simp add: disk_page_def split: if_splits)
  next
    case True
    let ?q = "nat (page_no p)"
    have "page_no p \<noteq> pno" using True p by (auto intro: PageId_eqI)
    moreover have q: "0 \<le> page_no p" "(?q + 1) * PAGE_SIZE \<le> length (idata (dos d) ino)"
      and b: "bs = mem_read (idata (dos d) ino) (?q * PAGE_SIZE) PAGE_SIZE"
      using True bs fd by (auto simp: disk_page_def split: if_splits)
    ultimately have "nat pno + 1 \<le> ?q \<or> ?q + 1 \<le> nat pno" using assms(2) by linarith
    then have "(nat pno + 1) * PAGE_SIZE \<le> ?q * PAGE_SIZE \<or> (?q + 1) * PAGE_SIZE \<le> ?o"
      using mult_le_mono1 by blast
    then have "mem_read ?c (?q * PAGE_SIZE) PAGE_SIZE = bs"
      unfolding b using q(2) assms(3) by (intro pwrite_other) (auto simp: algebra_simps)
    then show ?thesis using True q assms(3) by (simp add: disk_page_def)
  qed
  moreover have "disk_frame d ?d" using fd by (simp add: disk_frame_def)
  ultimately show ?thesis by (rule that)
qed

section \<open>Open files\<close>

text \<open>
  The tables \<open>path2fd\<close> and \<open>fd2path\<close> are inverse to each other and agree with the descriptors of
  the process; a descriptor the manager did not open refers to no file of the directory.
\<close>

definition fd_ino :: "disk \<Rightarrow> int \<Rightarrow> nat option" where
  "fd_ino d fd = map_option fst (fds (dos d) fd)"

definition file_ino :: "disk \<Rightarrow> string \<Rightarrow> nat option" where
  "file_ino d p = dirent (dos d) (abspath (dos d) p)"

definition disk_inv :: "disk \<Rightarrow> bool" where
  "disk_inv d \<longleftrightarrow>
     (\<forall>f g i. fd_ino d f = Some i \<longrightarrow> fd_ino d g = Some i \<longrightarrow> f = g) \<and>
     (\<forall>p fd. path2fd d p = Some fd \<longleftrightarrow> fd2path d fd = Some p) \<and>
     (\<forall>fd p. fd2path d fd = Some p \<longrightarrow> fd_ino d fd = file_ino d p \<and> file_ino d p \<noteq> None) \<and>
     (\<forall>fd i q. fd_ino d fd = Some i \<longrightarrow> fd2path d fd = None \<longrightarrow> dirent (dos d) q \<noteq> Some i) \<and>
     (\<forall>p q i. dirent (dos d) p = Some i \<longrightarrow> dirent (dos d) q = Some i \<longrightarrow> p = q) \<and>
     (\<forall>p i. dirent (dos d) p = Some i \<longrightarrow> i < next_ino (dos d)) \<and>
     (\<forall>fd i. fd_ino d fd = Some i \<longrightarrow> i < next_ino (dos d))"

lemma disk_inv_no_alias: "disk_inv d \<Longrightarrow> no_alias d"
  by (simp add: disk_inv_def no_alias_fst fd_ino_def)

lemma disk_invD:
  assumes "disk_inv d"
  shows "fd_ino d f = Some i \<Longrightarrow> fd_ino d g = Some i \<Longrightarrow> f = g"
    and "path2fd d p = Some fd \<longleftrightarrow> fd2path d fd = Some p"
    and "fd2path d fd = Some p \<Longrightarrow> fd_ino d fd = file_ino d p"
    and "fd2path d fd = Some p \<Longrightarrow> file_ino d p \<noteq> None"
    and "fd_ino d fd = Some i \<Longrightarrow> fd2path d fd = None \<Longrightarrow> dirent (dos d) q \<noteq> Some i"
    and "dirent (dos d) x = Some i \<Longrightarrow> dirent (dos d) y = Some i \<Longrightarrow> x = y"
    and "dirent (dos d) x = Some i \<Longrightarrow> i < next_ino (dos d)"
    and "fd_ino d fd = Some i \<Longrightarrow> i < next_ino (dos d)"
  using assms unfolding disk_inv_def by blast+

lemma lowest_fd_free: "lowest_fd s = Some fd \<Longrightarrow> fds s fd = None"
  by (auto simp: lowest_fd_def find_Some_iff)

lemma file_ino_inj:
  "disk_inv d \<Longrightarrow> file_ino d p = Some i \<Longrightarrow> file_ino d q = Some i \<Longrightarrow> p = q"
  using disk_invD(6) [of d] by (fastforce simp: file_ino_def abspath_def)

text \<open>A file that is not open in the manager is open nowhere.\<close>

lemma unopened_ino:
  assumes "disk_inv d" and "path2fd d p = None" and "file_ino d p = Some i"
  shows "fd_ino d fd \<noteq> Some i"
proof
  assume fd: "fd_ino d fd = Some i"
  show False
  proof (cases "fd2path d fd")
    case None
    with assms fd show False using disk_invD(5) [OF assms(1) fd] by (simp add: file_ino_def)
  next
    case (Some q)
    then have "file_ino d q = Some i" using disk_invD(3) [OF assms(1)] fd by simp
    then have "q = p" using assms file_ino_inj by blast
    then have "path2fd d p = Some fd" using Some disk_invD(2) [OF assms(1)] by blast
    then show False using assms(2) by simp
  qed
qed

lemma open_file_inv: "disk_inv d \<Longrightarrow> disk_inv (final_state (open_file p d))"
proof -
  assume inv: "disk_inv d"
  show ?thesis
  proof (cases "is_file p d \<and> path2fd d p = None \<and> lowest_fd (dos d) \<noteq> None")
    case False
    with inv show ?thesis
      by (auto simp: open_file_def is_file_def sys_open_def split: option.splits)
  next
    case True
    then obtain i fd where i: "file_ino d p = Some i" and fd: "lowest_fd (dos d) = Some fd"
      and np: "path2fd d p = None" by (auto simp: is_file_def file_ino_def)
    let ?d = "d\<lparr>dos := (dos d)\<lparr>fds := (fds (dos d))(fd \<mapsto> (i, 0))\<rparr>,
        path2fd := (path2fd d)(p \<mapsto> fd), fd2path := (fd2path d)(fd \<mapsto> p)\<rparr>"
    have eq: "final_state (open_file p d) = ?d"
      using i fd np by (simp add: open_file_def is_file_def sys_open_def file_ino_def)
    have nofd: "fd_ino d fd = None" using lowest_fd_free [OF fd] by (simp add: fd_ino_def)
    have nofp: "fd2path d fd = None"
      using nofd disk_invD(3,4) [OF inv, of fd] by (metis not_None_eq)
    have ino: "fd_ino ?d f = (if f = fd then Some i else fd_ino d f)" for f
      by (simp add: fd_ino_def)
    have fino: "file_ino ?d q = file_ino d q" for q by (simp add: file_ino_def abspath_def)
    show ?thesis unfolding eq disk_inv_def ino fino
      using disk_invD [OF inv] unopened_ino [OF inv np i] i nofp np
      by (simp add: file_ino_def) (smt (verit) option.distinct(1) option.inject)
  qed
qed

lemma close_file_inv: "disk_inv d \<Longrightarrow> disk_inv (final_state (close_file fd d))"
proof (cases "fd2path d fd")
  case None
  assume "disk_inv d"
  with None show ?thesis by (simp add: close_file_def)
next
  case (Some p)
  assume inv: "disk_inv d"
  let ?d = "d\<lparr>dos := (dos d)\<lparr>fds := (fds (dos d))(fd := None)\<rparr>,
      fd2path := (fd2path d)(fd := None), path2fd := (path2fd d)(p := None)\<rparr>"
  have "fds (dos d) fd \<noteq> None"
    using disk_invD(3,4) [OF inv Some] by (auto simp: fd_ino_def)
  then have eq: "final_state (close_file fd d) = ?d"
    using Some by (auto simp: close_file_def sys_close_def)
  have ino: "fd_ino ?d f = (if f = fd then None else fd_ino d f)" for f
    by (simp add: fd_ino_def)
  have fino: "file_ino ?d q = file_ino d q" for q by (simp add: file_ino_def abspath_def)
  have p: "path2fd d p = Some fd" using Some disk_invD(2) [OF inv] by blast
  show ?thesis unfolding eq disk_inv_def ino fino
    using disk_invD [OF inv] p Some
    by (simp add: file_ino_def) (smt (verit) option.distinct(1) option.inject)
qed

lemma create_file_inv: "disk_inv d \<Longrightarrow> disk_inv (final_state (create_file p d))"
proof -
  assume inv: "disk_inv d"
  let ?q = "abspath (dos d) p"
  show ?thesis
  proof (cases "\<not> is_file p d \<and> ?q \<notin> set (dirs (dos d)) \<and> lowest_fd (dos d) \<noteq> None")
    case False
    with inv show ?thesis
      by (auto simp: create_file_def is_file_def sys_open_excl_def split: option.splits)
  next
    case True
    then obtain fd where fd: "lowest_fd (dos d) = Some fd" by blast
    have nofd: "fds (dos d) fd = None" using fd by (rule lowest_fd_free)
    let ?n = "next_ino (dos d)"
    let ?d = "d\<lparr>dos := (dos d)\<lparr>dirent := (dirent (dos d))(?q \<mapsto> ?n),
        idata := (idata (dos d))(?n := []), next_ino := Suc ?n\<rparr>\<rparr>"
    have nop: "fd2path d f \<noteq> Some p" for f
      using disk_invD(4) [OF inv, of f p] True by (auto simp: is_file_def file_ino_def)
    have "(fds (dos d))(fd := None) = fds (dos d)" using nofd by (auto simp: fun_eq_iff)
    then have eq: "final_state (create_file p d) = ?d"
      using True fd by (simp add: create_file_def is_file_def sys_open_excl_def sys_close_def)
    have ino: "fd_ino ?d f = fd_ino d f" for f by (simp add: fd_ino_def)
    have fino: "file_ino ?d q = (if q = p then Some ?n else file_ino d q)" for q
      by (simp add: file_ino_def abspath_def)
    have lt: "i < ?n" if "dirent (dos d) x = Some i" for x i using disk_invD(7) [OF inv] that .
    have lt': "i < ?n" if "fd_ino d f = Some i" for f i using disk_invD(8) [OF inv] that .
    show ?thesis unfolding eq disk_inv_def ino fino
      using disk_invD(1-6) [OF inv] nop lt lt'
      by (simp add: file_ino_def) (smt (verit) less_SucI option.inject order_less_irrefl)
  qed
qed

lemma destroy_file_inv: "disk_inv d \<Longrightarrow> disk_inv (final_state (destroy_file p d))"
proof -
  assume inv: "disk_inv d"
  show ?thesis
  proof (cases "is_file p d \<and> path2fd d p = None")
    case False
    with inv show ?thesis by (auto simp: destroy_file_def)
  next
    case True
    let ?d = "d\<lparr>dos := (dos d)\<lparr>dirent := (dirent (dos d))(abspath (dos d) p := None)\<rparr>\<rparr>"
    have eq: "final_state (destroy_file p d) = ?d"
      using True by (auto simp: destroy_file_def is_file_def sys_unlink_def)
    have nop: "fd2path d f \<noteq> Some p" for f
      using True disk_invD(2) [OF inv, of p f] by auto
    have ino: "fd_ino ?d f = fd_ino d f" for f by (simp add: fd_ino_def)
    have fino: "file_ino ?d q = (if q = p then None else file_ino d q)" for q
      by (simp add: file_ino_def abspath_def)
    show ?thesis unfolding eq disk_inv_def ino fino
      using disk_invD [OF inv] nop by (simp add: file_ino_def)
  qed
qed

end
