(* ===== verification/Buffer_Pool.thy ===== *)
theory Buffer_Pool
  imports Replacer Disk_Manager
begin

text \<open>
  \<open>src/src/storage/page.h\<close>, \<open>buffer_pool_manager.h\<close> and \<open>buffer_pool_manager.cpp\<close>. A \<open>Page*\<close> is the
  index of its frame; \<open>nullptr\<close> is \<open>None\<close>. Clients write into a page through that pointer
  (\<open>page_write\<close>). Every method holds the latch for its whole body and is an atomic step.
\<close>

section \<open>The classes Page and BufferPoolManager\<close>

record page =
  pg_id :: PageId
  pg_data :: bytes
  is_dirty :: bool
  pin_count :: int

text \<open>The descriptor of a page never loaded is not initialised by the code: \<open>junk\<close>.\<close>

definition Page_new :: "int \<Rightarrow> page" where
  "Page_new junk = \<lparr>pg_id = PageId_of junk INVALID_PAGE_ID, pg_data = replicate PAGE_SIZE 0,
                    is_dirty = False, pin_count = 0\<rparr>"

definition reset_memory :: "page \<Rightarrow> page" where
  "reset_memory p = p\<lparr>pg_data := replicate PAGE_SIZE 0\<rparr>"

definition get_page_lsn :: "page \<Rightarrow> int" where
  "get_page_lsn p = dec32 (mem_read (pg_data p) 0 4)"

definition set_page_lsn :: "int \<Rightarrow> page \<Rightarrow> page" where
  "set_page_lsn lsn p = p\<lparr>pg_data := mem_write (pg_data p) 0 (enc32 lsn)\<rparr>"

record bpm =
  pool_size :: nat
  pages :: "page list"
  page_table :: "PageId \<rightharpoonup> frame"
  free_list :: "frame list"
  repl :: LRUReplacer
  dm :: disk

definition BufferPoolManager_new :: "int \<Rightarrow> nat \<Rightarrow> disk \<Rightarrow> bpm" where
  "BufferPoolManager_new junk n d =
     \<lparr>pool_size = n, pages = replicate n (Page_new junk), page_table = Map.empty,
      free_list = [0..<n], repl = LRUReplacer_new n, dm = d\<rparr>"

abbreviation pg :: "bpm \<Rightarrow> frame \<Rightarrow> page" where
  "pg b f \<equiv> pages b ! f"

definition upd_page :: "frame \<Rightarrow> (page \<Rightarrow> page) \<Rightarrow> bpm \<Rightarrow> bpm" where
  "upd_page f g b = b\<lparr>pages := (pages b)[f := g (pages b ! f)]\<rparr>"

definition page_write :: "frame \<Rightarrow> nat \<Rightarrow> bytes \<Rightarrow> bpm \<Rightarrow> bpm" where
  "page_write f off bs b = upd_page f (\<lambda>p. p\<lparr>pg_data := mem_write (pg_data p) off bs\<rparr>) b"

definition mark_dirty :: "frame \<Rightarrow> bpm \<Rightarrow> bpm" where
  "mark_dirty f b = upd_page f (\<lambda>p. p\<lparr>is_dirty := True\<rparr>) b"

definition find_victim_page :: "bpm \<Rightarrow> frame option \<times> bpm" where
  "find_victim_page b =
     (case free_list b of
        f # fs \<Rightarrow> (Some f, b\<lparr>free_list := fs\<rparr>)
      | [] \<Rightarrow> (let (fo, r) = lru_victim (repl b) in (fo, b\<lparr>repl := r\<rparr>)))"

text \<open>The two steps \<open>fetch_page\<close> and \<open>new_page\<close> share: save a dirty victim, forget its page.\<close>

definition write_back :: "frame \<Rightarrow> bpm \<Rightarrow> (unit, bpm) res" where
  "write_back f b =
     (if is_dirty (pg b f) then
        (case write_page (pid_fd (pg_id (pg b f))) (page_no (pg_id (pg b f)))
                (pg_data (pg b f)) PAGE_SIZE (dm b) of
           Err e d \<Rightarrow> Err e (b\<lparr>dm := d\<rparr>)
         | Ok _ d \<Rightarrow> Ok () (upd_page f (\<lambda>p. p\<lparr>is_dirty := False\<rparr>) (b\<lparr>dm := d\<rparr>)))
      else Ok () b)"

definition drop_entry :: "frame \<Rightarrow> bpm \<Rightarrow> bpm" where
  "drop_entry f b =
     (if page_no (pg_id (pg b f)) \<noteq> INVALID_PAGE_ID
      then b\<lparr>page_table := (page_table b)(pg_id (pg b f) := None)\<rparr> else b)"

definition fetch_page :: "PageId \<Rightarrow> bpm \<Rightarrow> (frame option, bpm) res" where
  "fetch_page pid b =
     (case page_table b pid of
        Some f \<Rightarrow>
          Ok (Some f) ((upd_page f (\<lambda>p. p\<lparr>pin_count := pin_count p + 1\<rparr>) b)
                         \<lparr>repl := lru_pin f (repl b)\<rparr>)
      | None \<Rightarrow>
          (case find_victim_page b of
             (None, b1) \<Rightarrow> Ok None b1
           | (Some f, b1) \<Rightarrow>
               bindO (write_back f b1) (\<lambda>_ b2.
                 let b3 = drop_entry f b2 in
                 case read_page (pid_fd pid) (page_no pid) (pg_data (pg b3 f)) PAGE_SIZE (dm b3) of
                   (buf, Err e d) \<Rightarrow>
                     Err e (upd_page f (\<lambda>p. p\<lparr>pg_data := buf\<rparr>) (b3\<lparr>dm := d\<rparr>))
                 | (buf, Ok _ d) \<Rightarrow>
                     Ok (Some f)
                       ((upd_page f (\<lambda>p. \<lparr>pg_id = pid, pg_data = buf, is_dirty = False, pin_count = 1\<rparr>) b3)
                          \<lparr>page_table := (page_table b3)(pid \<mapsto> f),
                           repl := lru_pin f (repl b3), dm := d\<rparr>))))"

definition unpin_page :: "PageId \<Rightarrow> bool \<Rightarrow> bpm \<Rightarrow> bool \<times> bpm" where
  "unpin_page pid dirty b =
     (case page_table b pid of
        None \<Rightarrow> (False, b)
      | Some f \<Rightarrow>
          if pin_count (pg b f) \<le> 0 then (False, b)
          else
            let b1 = upd_page f (\<lambda>p. p\<lparr>pin_count := pin_count p - 1\<rparr>) b;
                b2 = (if pin_count (pg b1 f) = 0 then b1\<lparr>repl := lru_unpin f (repl b1)\<rparr> else b1);
                b3 = (if dirty then upd_page f (\<lambda>p. p\<lparr>is_dirty := True\<rparr>) b2 else b2)
            in (True, b3))"

definition flush_page :: "PageId \<Rightarrow> bpm \<Rightarrow> (bool, bpm) res" where
  "flush_page pid b =
     (case page_table b pid of
        None \<Rightarrow> Ok False b
      | Some f \<Rightarrow>
          (case write_page (pid_fd pid) (page_no pid) (pg_data (pg b f)) PAGE_SIZE (dm b) of
             Err e d \<Rightarrow> Err e (b\<lparr>dm := d\<rparr>)
           | Ok _ d \<Rightarrow> Ok True (upd_page f (\<lambda>p. p\<lparr>is_dirty := False\<rparr>) (b\<lparr>dm := d\<rparr>))))"

text \<open>\<open>new_page\<close> takes the descriptor from its in-out parameter and returns the new page id in it.\<close>

definition new_page :: "int \<Rightarrow> bpm \<Rightarrow> ((PageId \<times> frame) option, bpm) res" where
  "new_page fd b =
     (case find_victim_page b of
        (None, b1) \<Rightarrow> Ok None b1
      | (Some f, b1) \<Rightarrow>
          bindO (write_back f b1) (\<lambda>_ b2.
            let b3 = drop_entry f b2 in
            case allocate_page fd (dm b3) of
              Err e d \<Rightarrow> Err e (b3\<lparr>dm := d\<rparr>)
            | Ok n d \<Rightarrow>
                let pid = PageId_of fd n in
                Ok (Some (pid, f))
                  ((upd_page f (\<lambda>p. reset_memory (p\<lparr>pg_id := pid, pin_count := 1, is_dirty := False\<rparr>)) b3)
                     \<lparr>page_table := (page_table b3)(pid \<mapsto> f),
                      repl := lru_pin f (repl b3), dm := d\<rparr>)))"

definition delete_page :: "PageId \<Rightarrow> bpm \<Rightarrow> (bool, bpm) res" where
  "delete_page pid b =
     (case page_table b pid of
        None \<Rightarrow> Ok True b
      | Some f \<Rightarrow>
          if pin_count (pg b f) \<noteq> 0 then Ok False b
          else
            bindO (if is_dirty (pg b f) then
                     (case write_page (pid_fd pid) (page_no pid) (pg_data (pg b f)) PAGE_SIZE (dm b) of
                        Err e d \<Rightarrow> Err e (b\<lparr>dm := d\<rparr>)
                      | Ok _ d \<Rightarrow> Ok () (upd_page f (\<lambda>p. p\<lparr>is_dirty := False\<rparr>) (b\<lparr>dm := d\<rparr>)))
                   else Ok () b) (\<lambda>_ b1.
              Ok True
                ((upd_page f (\<lambda>p. reset_memory (p\<lparr>pg_id := (pg_id p)\<lparr>page_no := INVALID_PAGE_ID\<rparr>,
                                                  pin_count := 0, is_dirty := False\<rparr>)) b1)
                   \<lparr>page_table := (page_table b1)(pid := None),
                    free_list := free_list b1 @ [f]\<rparr>)))"

text \<open>The loop of \<open>flush_all_pages\<close> over the frame numbers that remain.\<close>

fun flush_frames :: "int \<Rightarrow> frame list \<Rightarrow> bpm \<Rightarrow> (unit, bpm) res" where
  "flush_frames fd [] b = Ok () b"
| "flush_frames fd (i # is) b =
     (if pid_fd (pg_id (pg b i)) = fd \<and> page_no (pg_id (pg b i)) \<noteq> INVALID_PAGE_ID then
        (case write_page (pid_fd (pg_id (pg b i))) (page_no (pg_id (pg b i)))
                (pg_data (pg b i)) PAGE_SIZE (dm b) of
           Err e d \<Rightarrow> Err e (b\<lparr>dm := d\<rparr>)
         | Ok _ d \<Rightarrow> flush_frames fd is (upd_page i (\<lambda>p. p\<lparr>is_dirty := False\<rparr>) (b\<lparr>dm := d\<rparr>)))
      else flush_frames fd is b)"

definition flush_all_pages :: "int \<Rightarrow> bpm \<Rightarrow> (unit, bpm) res" where
  "flush_all_pages fd b = flush_frames fd [0..<pool_size b] b"

end
