(* ===== verification/Record_Manager.thy ===== *)
theory Record_Manager
  imports Bitmap Buffer_Pool
begin

text \<open>
  \<open>src/src/record\<close>: the table file. \<open>RmFileHdr\<close>, \<open>RmPageHdr\<close> and \<open>RmPageHandle\<close> describe the
  bytes of a page, \<open>RmFileHandle\<close> is the record \<open>rmfh\<close> (the open file and its header in memory),
  \<open>RmManager\<close> creates, opens and closes table files, \<open>RmScan\<close> walks over the records. An
  operation works on the file handle and the buffer pool; a null page pointer that is used is
  the failure \<open>NullDeref\<close>, a slot outside the page is \<open>OutOfBounds\<close>.
\<close>

section \<open>rm_defs.h\<close>

definition RM_NO_PAGE :: int where "RM_NO_PAGE = - 1"
definition RM_FILE_HDR_PAGE :: int where "RM_FILE_HDR_PAGE = 0"
definition RM_FIRST_RECORD_PAGE :: int where "RM_FIRST_RECORD_PAGE = 1"
definition RM_MAX_RECORD_SIZE :: int where "RM_MAX_RECORD_SIZE = 512"

record RmFileHdr =
  record_size :: int
  num_pages :: int
  num_records_per_page :: int
  first_free_page_no :: int
  bitmap_size :: int

text \<open>The header as the five integers the program copies to and from the file.\<close>

definition sizeof_RmFileHdr :: nat where "sizeof_RmFileHdr = 20"

definition enc_file_hdr :: "RmFileHdr \<Rightarrow> bytes" where
  "enc_file_hdr h = enc32 (record_size h) @ enc32 (num_pages h) @ enc32 (num_records_per_page h) @
     enc32 (first_free_page_no h) @ enc32 (bitmap_size h)"

definition dec_file_hdr :: "bytes \<Rightarrow> RmFileHdr" where
  "dec_file_hdr bs = \<lparr>record_size = dec32 bs, num_pages = dec32 (drop 4 bs),
     num_records_per_page = dec32 (drop 8 bs), first_free_page_no = dec32 (drop 12 bs),
     bitmap_size = dec32 (drop 16 bs)\<rparr>"

text \<open>\<open>RmPageHdr\<close> in the bytes of a page, behind the log sequence number.\<close>

definition OFFSET_PAGE_HDR :: nat where "OFFSET_PAGE_HDR = 4"
definition sizeof_RmPageHdr :: nat where "sizeof_RmPageHdr = 8"

definition next_free_page_no :: "bytes \<Rightarrow> int" where
  "next_free_page_no data = dec32 (mem_read data OFFSET_PAGE_HDR 4)"

definition num_records :: "bytes \<Rightarrow> int" where
  "num_records data = dec32 (mem_read data (OFFSET_PAGE_HDR + 4) 4)"

definition set_next_free_page_no :: "int \<Rightarrow> bytes \<Rightarrow> bytes" where
  "set_next_free_page_no n data = mem_write data OFFSET_PAGE_HDR (enc32 n)"

definition set_num_records :: "int \<Rightarrow> bytes \<Rightarrow> bytes" where
  "set_num_records n data = mem_write data (OFFSET_PAGE_HDR + 4) (enc32 n)"

text \<open>A record in memory: \<open>data\<close> and \<open>size\<close>; the flag \<open>allocated_\<close> says that the record owns them.\<close>

record RmRecord =
  rec_data :: bytes
  rec_size :: int
  allocated :: bool

text \<open>\<open>new char[n]\<close> leaves its bytes undetermined: they are the argument \<open>junk\<close>.\<close>

definition RmRecord_alloc :: "(nat \<Rightarrow> byte) \<Rightarrow> int \<Rightarrow> RmRecord" where
  "RmRecord_alloc junk n = \<lparr>rec_data = map junk [0..<nat n], rec_size = n, allocated = True\<rparr>"

definition RmRecord_of :: "int \<Rightarrow> bytes \<Rightarrow> RmRecord" where
  "RmRecord_of n src = \<lparr>rec_data = take (nat n) src, rec_size = n, allocated = True\<rparr>"

definition RmRecord_copy :: "RmRecord \<Rightarrow> RmRecord" where
  "RmRecord_copy r = \<lparr>rec_data = take (nat (rec_size r)) (rec_data r), rec_size = rec_size r, allocated = True\<rparr>"

definition SetData :: "bytes \<Rightarrow> RmRecord \<Rightarrow> RmRecord" where
  "SetData src r = r\<lparr>rec_data := mem_write (rec_data r) 0 (take (nat (rec_size r)) src)\<rparr>"

definition Deserialize :: "bytes \<Rightarrow> RmRecord \<Rightarrow> RmRecord" where
  "Deserialize src r = r\<lparr>rec_size := dec32 src, rec_data := take (nat (dec32 src)) (drop 4 src)\<rparr>"

section \<open>RmPageHandle\<close>

text \<open>Offsets in the page of the bitmap, the slots and one slot.\<close>

definition ph_bitmap :: nat where
  "ph_bitmap = sizeof_RmPageHdr + OFFSET_PAGE_HDR"

definition ph_slots :: "RmFileHdr \<Rightarrow> int" where
  "ph_slots h = int ph_bitmap + bitmap_size h"

definition get_slot :: "RmFileHdr \<Rightarrow> int \<Rightarrow> int" where
  "get_slot h slot_no = ph_slots h + slot_no * record_size h"

text \<open>Which accesses stay inside the page.\<close>

definition bit_in_page :: "int \<Rightarrow> bool" where
  "bit_in_page slot_no \<longleftrightarrow> 0 \<le> slot_no \<and> ph_bitmap + get_bucket (nat slot_no) < PAGE_SIZE"

definition slot_in_page :: "RmFileHdr \<Rightarrow> int \<Rightarrow> bool" where
  "slot_in_page h slot_no \<longleftrightarrow> 0 \<le> get_slot h slot_no \<and> 0 \<le> record_size h \<and>
     get_slot h slot_no + record_size h \<le> int PAGE_SIZE"

text \<open>The bitmap seen through the pointer \<open>bitmap\<close>: the rest of the page.\<close>

definition page_bitmap :: "bytes \<Rightarrow> bytes" where
  "page_bitmap data = drop ph_bitmap data"

definition upd_bitmap :: "(bytes \<Rightarrow> bytes) \<Rightarrow> bytes \<Rightarrow> bytes" where
  "upd_bitmap g data = take ph_bitmap data @ g (page_bitmap data)"

section \<open>RmFileHandle\<close>

record rmfh =
  fh_fd :: int
  file_hdr :: RmFileHdr

type_synonym 'a rm = "('a, rmfh \<times> bpm) res"

definition upd_data :: "frame \<Rightarrow> (bytes \<Rightarrow> bytes) \<Rightarrow> bpm \<Rightarrow> bpm" where
  "upd_data f g b = upd_page f (\<lambda>p. p\<lparr>pg_data := g (pg_data p)\<rparr>) b"

text \<open>\<open>RmPageHandle(&file_hdr_, page)\<close> computes addresses inside the page: a null page is fatal.\<close>

definition RmPageHandle_new :: "frame option \<Rightarrow> 's \<Rightarrow> (frame, 's) res" where
  "RmPageHandle_new fo s = (case fo of None \<Rightarrow> Err NullDeref s | Some f \<Rightarrow> Ok f s)"

definition fetch_page_handle :: "int \<Rightarrow> rmfh \<Rightarrow> bpm \<Rightarrow> frame rm" where
  "fetch_page_handle pno fh b =
     (if num_pages (file_hdr fh) \<le> pno then Err (Throw (PageNotExistError [] pno)) (fh, b)
      else bindO (liftS (Pair fh) (fetch_page (PageId_of (fh_fd fh) pno) b)) RmPageHandle_new)"

definition is_record :: "Rid \<Rightarrow> rmfh \<Rightarrow> bpm \<Rightarrow> bool rm" where
  "is_record rid fh b =
     bindO (fetch_page_handle (rid_page rid) fh b) (\<lambda>f (fh1, b1).
       if \<not> bit_in_page (rid_slot rid) then Err OutOfBounds (fh1, b1)
       else Ok (is_set (page_bitmap (pg_data (pg b1 f))) (nat (rid_slot rid))) (fh1, b1))"

definition get_record :: "Rid \<Rightarrow> rmfh \<Rightarrow> bpm \<Rightarrow> RmRecord option rm" where
  "get_record rid fh b =
     bindO (fetch_page_handle (rid_page rid) fh b) (\<lambda>f (fh1, b1).
       if \<not> bit_in_page (rid_slot rid) then Err OutOfBounds (fh1, b1)
       else if \<not> is_set (page_bitmap (pg_data (pg b1 f))) (nat (rid_slot rid)) then Ok None (fh1, b1)
       else if \<not> slot_in_page (file_hdr fh1) (rid_slot rid) then Err OutOfBounds (fh1, b1)
       else Ok (Some (RmRecord_of (record_size (file_hdr fh1))
                  (drop (nat (get_slot (file_hdr fh1) (rid_slot rid))) (pg_data (pg b1 f))))) (fh1, b1))"

definition create_new_page_handle :: "rmfh \<Rightarrow> bpm \<Rightarrow> frame rm" where
  "create_new_page_handle fh b =
     bindO (liftS (Pair fh) (new_page (fh_fd fh) b)) (\<lambda>po (fh1, b1).
       case po of
         None \<Rightarrow> Err NullDeref (fh1, b1)
       | Some (pid, f) \<Rightarrow>
           let b2 = upd_data f (set_next_free_page_no RM_NO_PAGE) b1;
               b3 = upd_data f (set_num_records 0) b2;
               b4 = upd_data f (upd_bitmap (\<lambda>bm. mem_write bm 0
                      (bm_init (nat (bitmap_size (file_hdr fh1)))))) b3;
               h = (file_hdr fh1)\<lparr>num_pages := num_pages (file_hdr fh1) + 1\<rparr>;
               h' = h\<lparr>first_free_page_no := page_no (pg_id (pg b4 f))\<rparr>
           in Ok f (fh1\<lparr>file_hdr := h'\<rparr>, b4))"

definition create_page_handle :: "rmfh \<Rightarrow> bpm \<Rightarrow> frame rm" where
  "create_page_handle fh b =
     (if first_free_page_no (file_hdr fh) = RM_NO_PAGE then create_new_page_handle fh b
      else fetch_page_handle (first_free_page_no (file_hdr fh)) fh b)"

definition release_page_handle :: "frame \<Rightarrow> rmfh \<Rightarrow> bpm \<Rightarrow> rmfh \<times> bpm" where
  "release_page_handle f fh b =
     (let b1 = upd_data f (set_next_free_page_no (first_free_page_no (file_hdr fh))) b
      in (fh\<lparr>file_hdr := (file_hdr fh)\<lparr>first_free_page_no := page_no (pg_id (pg b1 f))\<rparr>\<rparr>, b1))"

definition insert_record :: "bytes \<Rightarrow> rmfh \<Rightarrow> bpm \<Rightarrow> Rid rm" where
  "insert_record buf fh b =
     bindO (create_page_handle fh b) (\<lambda>f (fh1, b1).
       let h = file_hdr fh1;
           slot_no = first_bit False (page_bitmap (pg_data (pg b1 f))) (num_records_per_page h)
       in if \<not> slot_in_page h slot_no \<or> \<not> bit_in_page slot_no \<or> int (length buf) < record_size h
          then Err OutOfBounds (fh1, b1)
          else
            let b2 = page_write f (nat (get_slot h slot_no)) (take (nat (record_size h)) buf) b1;
                b3 = upd_data f (upd_bitmap (\<lambda>bm. bm_set bm (nat slot_no))) b2;
                b4 = upd_data f (\<lambda>data. set_num_records (num_records data + 1) data) b3;
                fh2 = (if num_records (pg_data (pg b4 f)) = num_records_per_page h
                       then fh1\<lparr>file_hdr := h\<lparr>first_free_page_no := next_free_page_no (pg_data (pg b4 f))\<rparr>\<rparr>
                       else fh1);
                b5 = snd (unpin_page (pg_id (pg b4 f)) True b4)
            in Ok (Rid_of (page_no (pg_id (pg b5 f))) slot_no) (fh2, b5))"

text \<open>The overload that names the position has an empty body.\<close>

definition insert_record_at :: "Rid \<Rightarrow> bytes \<Rightarrow> rmfh \<Rightarrow> bpm \<Rightarrow> unit rm" where
  "insert_record_at rid buf fh b = Ok () (fh, b)"

definition delete_record :: "Rid \<Rightarrow> rmfh \<Rightarrow> bpm \<Rightarrow> unit rm" where
  "delete_record rid fh b =
     bindO (fetch_page_handle (rid_page rid) fh b) (\<lambda>f (fh1, b1).
       if \<not> bit_in_page (rid_slot rid) then Err OutOfBounds (fh1, b1)
       else if \<not> is_set (page_bitmap (pg_data (pg b1 f))) (nat (rid_slot rid)) then Ok () (fh1, b1)
       else
         let was_full = (num_records (pg_data (pg b1 f)) = num_records_per_page (file_hdr fh1));
             b2 = upd_data f (upd_bitmap (\<lambda>bm. bm_reset bm (nat (rid_slot rid)))) b1;
             b3 = upd_data f (\<lambda>data. set_num_records (num_records data - 1) data) b2;
             (fh4, b4) = (if was_full then release_page_handle f fh1 b3 else (fh1, b3));
             b5 = snd (unpin_page (pg_id (pg b4 f)) True b4)
         in Ok () (fh4, b5))"

definition update_record :: "Rid \<Rightarrow> bytes \<Rightarrow> rmfh \<Rightarrow> bpm \<Rightarrow> unit rm" where
  "update_record rid buf fh b =
     bindO (fetch_page_handle (rid_page rid) fh b) (\<lambda>f (fh1, b1).
       if \<not> bit_in_page (rid_slot rid) then Err OutOfBounds (fh1, b1)
       else if \<not> is_set (page_bitmap (pg_data (pg b1 f))) (nat (rid_slot rid)) then Ok () (fh1, b1)
       else if \<not> slot_in_page (file_hdr fh1) (rid_slot rid) \<or> int (length buf) < record_size (file_hdr fh1)
       then Err OutOfBounds (fh1, b1)
       else
         let b2 = page_write f (nat (get_slot (file_hdr fh1) (rid_slot rid)))
                    (take (nat (record_size (file_hdr fh1))) buf) b1;
             b3 = snd (unpin_page (pg_id (pg b2 f)) True b2)
         in Ok () (fh1, b3))"

section \<open>RmScan\<close>

text \<open>
  The loop of \<open>next\<close>: one iteration per page. The page number grows, so the loop ends; a slot
  beyond the page would be read only for a header whose record count does not fit the page.
\<close>

function scan_from :: "int \<Rightarrow> int \<Rightarrow> rmfh \<Rightarrow> bpm \<Rightarrow> Rid rm" where
  "scan_from pno slot fh b =
     (if pno < num_pages (file_hdr fh) then
        (case fetch_page_handle pno fh b of
           Err e s \<Rightarrow> Err e s
         | Ok f (fh1, b1) \<Rightarrow>
             let n = num_records_per_page (file_hdr fh);
                 slot' = next_bit True (page_bitmap (pg_data (pg b1 f))) n slot;
                 b2 = snd (unpin_page (pg_id (pg b1 f)) False b1)
             in if slot' < n then Ok (Rid_of pno slot') (fh, b2)
                else scan_from (pno + 1) (- 1) fh b2)
      else Ok (Rid_of RM_NO_PAGE (- 1)) (fh, b))"
  by pat_completeness auto
termination by (relation "measure (\<lambda>(pno, slot, fh, b). nat (num_pages (file_hdr fh) - pno))") auto

declare scan_from.simps [simp del]

definition scan_next :: "Rid \<Rightarrow> rmfh \<Rightarrow> bpm \<Rightarrow> Rid rm" where
  "scan_next rid fh b = scan_from (rid_page rid) (rid_slot rid) fh b"

definition RmScan_new :: "rmfh \<Rightarrow> bpm \<Rightarrow> Rid rm" where
  "RmScan_new fh b = scan_next (Rid_of RM_FIRST_RECORD_PAGE (- 1)) fh b"

definition scan_is_end :: "Rid \<Rightarrow> bool" where
  "scan_is_end rid \<longleftrightarrow> rid_page rid = RM_NO_PAGE"

section \<open>RmManager\<close>

definition rm_records_per_page :: "int \<Rightarrow> int" where
  "rm_records_per_page rs =
     (int BITMAP_WIDTH * (int PAGE_SIZE - 1 - int sizeof_RmFileHdr) + 1) div (1 + rs * int BITMAP_WIDTH)"

definition rm_bitmap_size :: "int \<Rightarrow> int" where
  "rm_bitmap_size n = (n + int BITMAP_WIDTH - 1) div int BITMAP_WIDTH"

definition rm_new_hdr :: "int \<Rightarrow> RmFileHdr" where
  "rm_new_hdr rs = \<lparr>record_size = rs, num_pages = 1, num_records_per_page = rm_records_per_page rs,
     first_free_page_no = RM_NO_PAGE, bitmap_size = rm_bitmap_size (rm_records_per_page rs)\<rparr>"

definition rm_create_file :: "string \<Rightarrow> int \<Rightarrow> disk \<Rightarrow> (unit, disk) res" where
  "rm_create_file filename rs d =
     (if rs < 1 \<or> rs > RM_MAX_RECORD_SIZE then Err (Throw (InvalidRecordSizeError rs)) d
      else
        bindO (create_file filename d) (\<lambda>_ d1.
        bindO (open_file filename d1) (\<lambda>fd d2.
        bindO (write_page fd RM_FILE_HDR_PAGE (enc_file_hdr (rm_new_hdr rs)) sizeof_RmFileHdr d2) (\<lambda>_ d3.
        close_file fd d3))))"

definition rm_destroy_file :: "string \<Rightarrow> disk \<Rightarrow> (unit, disk) res" where
  "rm_destroy_file filename d = destroy_file filename d"

text \<open>The constructor of \<open>RmFileHandle\<close>: it reads the header into its uninitialised member.\<close>

definition RmFileHandle_new :: "bytes \<Rightarrow> int \<Rightarrow> disk \<Rightarrow> (rmfh, disk) res" where
  "RmFileHandle_new junk fd d =
     (case read_page fd RM_FILE_HDR_PAGE junk sizeof_RmFileHdr d of
        (buf, Err e d1) \<Rightarrow> Err e d1
      | (buf, Ok _ d1) \<Rightarrow>
          let h = dec_file_hdr buf
          in bindO (set_fd2pageno fd (num_pages h) d1) (\<lambda>_. Ok \<lparr>fh_fd = fd, file_hdr = h\<rparr>))"

definition rm_open_file :: "bytes \<Rightarrow> string \<Rightarrow> disk \<Rightarrow> (rmfh, disk) res" where
  "rm_open_file junk filename d = bindO (open_file filename d) (RmFileHandle_new junk)"

definition rm_close_file :: "rmfh \<Rightarrow> bpm \<Rightarrow> (unit, bpm) res" where
  "rm_close_file fh b =
     bindO (liftS (\<lambda>d. b\<lparr>dm := d\<rparr>) (write_page (fh_fd fh) RM_FILE_HDR_PAGE
              (enc_file_hdr (file_hdr fh)) sizeof_RmFileHdr (dm b))) (\<lambda>_ b1.
     bindO (flush_all_pages (fh_fd fh) b1) (\<lambda>_ b2.
     liftS (\<lambda>d. b2\<lparr>dm := d\<rparr>) (close_file (fh_fd fh) (dm b2))))"

end
