(* ===== verification/Values.thy ===== *)
theory Values
  imports Record_Manager
begin

text \<open>
  \<open>src/src/defs.h\<close> (\<open>ColType\<close>), \<open>src/src/common/common.h\<close> (\<open>TabCol\<close>, \<open>Value\<close>, \<open>CompOp\<close>,
  \<open>Condition\<close>, \<open>SetClause\<close>) and the comparison of values, \<open>ix_compare\<close> of
  \<open>src/src/index/ix_index_handle.h\<close>. A \<open>float\<close> is its 32 bits; \<open>float_lt\<close> is the IEEE 754 comparison
  on them.
\<close>

section \<open>Types and values\<close>

datatype ColType = TYPE_INT | TYPE_FLOAT | TYPE_STRING

fun coltype2str :: "ColType \<Rightarrow> string" where
  "coltype2str TYPE_INT = ''INT''"
| "coltype2str TYPE_FLOAT = ''FLOAT''"
| "coltype2str TYPE_STRING = ''STRING''"

text \<open>The enumeration as the integer it is stored as.\<close>

fun coltype_int :: "ColType \<Rightarrow> int" where
  "coltype_int TYPE_INT = 0"
| "coltype_int TYPE_FLOAT = 1"
| "coltype_int TYPE_STRING = 2"

definition int_coltype :: "int \<Rightarrow> ColType option" where
  "int_coltype i = (if i = 0 then Some TYPE_INT else if i = 1 then Some TYPE_FLOAT
                    else if i = 2 then Some TYPE_STRING else None)"

lemma int_coltype_int [simp]: "int_coltype (coltype_int t) = Some t"
  by (cases t) (simp_all add: int_coltype_def)

record TabCol =
  tc_tab :: string
  tc_col :: string

abbreviation TabCol_of :: "string \<Rightarrow> string \<Rightarrow> TabCol" where
  "TabCol_of t c \<equiv> \<lparr>tc_tab = t, tc_col = c\<rparr>"

text \<open>\<open>operator<\<close> compares the pair of names; \<open>std::string\<close> compares as unsigned characters.\<close>

fun string_less :: "string \<Rightarrow> string \<Rightarrow> bool" where
  "string_less s [] = False"
| "string_less [] (c # cs) = True"
| "string_less (a # as) (c # cs) =
     ((of_char a :: nat) < of_char c \<or> a = c \<and> string_less as cs)"

definition TabCol_less :: "TabCol \<Rightarrow> TabCol \<Rightarrow> bool" where
  "TabCol_less x y \<longleftrightarrow> string_less (tc_tab x) (tc_tab y) \<or>
     tc_tab x = tc_tab y \<and> string_less (tc_col x) (tc_col y)"

text \<open>
  \<open>num_val\<close> is the union of \<open>int_val\<close> and \<open>float_val\<close>; it is not initialised for a string and
  never read then. \<open>raw\<close> is the pointer to the encoded value.
\<close>

record Val =
  vtype :: ColType
  num_val :: "32 word"
  str_val :: string
  raw :: "RmRecord option"

definition Val_new :: "ColType \<Rightarrow> 32 word \<Rightarrow> string \<Rightarrow> Val" where
  "Val_new t n s = \<lparr>vtype = t, num_val = n, str_val = s, raw = None\<rparr>"

definition set_int :: "int \<Rightarrow> Val \<Rightarrow> Val" where
  "set_int i v = v\<lparr>vtype := TYPE_INT, num_val := word_of_int i\<rparr>"

definition set_float :: "32 word \<Rightarrow> Val \<Rightarrow> Val" where
  "set_float f v = v\<lparr>vtype := TYPE_FLOAT, num_val := f\<rparr>"

definition set_str :: "string \<Rightarrow> Val \<Rightarrow> Val" where
  "set_str s v = v\<lparr>vtype := TYPE_STRING, str_val := s\<rparr>"

definition enc_word :: "32 word \<Rightarrow> bytes" where
  "enc_word w = enc_nat 4 (unat w)"

definition dec_word :: "bytes \<Rightarrow> 32 word" where
  "dec_word bs = word_of_nat (le_nat (take 4 bs))"

definition str_bytes :: "string \<Rightarrow> bytes" where
  "str_bytes s = map (\<lambda>c. word_of_nat (of_char c)) s"

definition bytes_str :: "bytes \<Rightarrow> string" where
  "bytes_str bs = map (\<lambda>b. char_of (unat b)) bs"

text \<open>\<open>init_raw\<close> allocates the record, fills it by type, and checks with \<open>assert\<close>.\<close>

definition init_raw :: "(nat \<Rightarrow> byte) \<Rightarrow> int \<Rightarrow> Val \<Rightarrow> (unit, Val) res" where
  "init_raw junk len v =
     (if raw v \<noteq> None then Err AssertionFailed v
      else
        let r = RmRecord_alloc junk len; v1 = v\<lparr>raw := Some r\<rparr> in
        case vtype v of
          TYPE_INT \<Rightarrow>
            if len \<noteq> 4 then Err AssertionFailed v1
            else Ok () (v\<lparr>raw := Some (r\<lparr>rec_data := mem_write (rec_data r) 0 (enc_word (num_val v))\<rparr>)\<rparr>)
        | TYPE_FLOAT \<Rightarrow>
            if len \<noteq> 4 then Err AssertionFailed v1
            else Ok () (v\<lparr>raw := Some (r\<lparr>rec_data := mem_write (rec_data r) 0 (enc_word (num_val v))\<rparr>)\<rparr>)
        | TYPE_STRING \<Rightarrow>
            if len < int (length (str_val v)) then Err (Throw StringOverflowError) v1
            else Ok () (v\<lparr>raw := Some (r\<lparr>rec_data :=
                   mem_write (replicate (nat len) 0) 0 (str_bytes (str_val v))\<rparr>)\<rparr>))"

datatype CompOp = OP_EQ | OP_NE | OP_LT | OP_GT | OP_LE | OP_GE

record Condition =
  lhs_col :: TabCol
  cop :: CompOp
  is_rhs_val :: bool
  rhs_col :: TabCol
  rhs_val :: Val

record SetClause =
  sc_lhs :: TabCol
  sc_rhs :: Val

text \<open>The map \<open>swap_op\<close> of the planner and the index scan.\<close>

fun swap_op :: "CompOp \<Rightarrow> CompOp" where
  "swap_op OP_EQ = OP_EQ" | "swap_op OP_NE = OP_NE" | "swap_op OP_LT = OP_GT"
| "swap_op OP_GT = OP_LT" | "swap_op OP_LE = OP_GE" | "swap_op OP_GE = OP_LE"

section \<open>Comparison\<close>

definition float_mag :: "32 word \<Rightarrow> int" where
  "float_mag w = int (unat w mod 2 ^ 31)"

definition float_neg :: "32 word \<Rightarrow> bool" where
  "float_neg w \<longleftrightarrow> 2 ^ 31 \<le> unat w"

definition float_nan :: "32 word \<Rightarrow> bool" where
  "float_nan w \<longleftrightarrow> 0x7F800000 < float_mag w"

definition float_key :: "32 word \<Rightarrow> int" where
  "float_key w = (if float_neg w then - float_mag w else float_mag w)"

definition float_lt :: "32 word \<Rightarrow> 32 word \<Rightarrow> bool" where
  "float_lt a b \<longleftrightarrow> \<not> float_nan a \<and> \<not> float_nan b \<and> float_key a < float_key b"

fun memcmp :: "bytes \<Rightarrow> bytes \<Rightarrow> nat \<Rightarrow> int" where
  "memcmp a b 0 = 0"
| "memcmp (x # a) (y # b) (Suc n) = (if x = y then memcmp a b n else if x < y then - 1 else 1)"
| "memcmp a b (Suc n) = 0"

text \<open>
  \<open>ix_compare\<close> of two values in memory. \<open>memcmp\<close> returns a negative, zero or positive number; only
  its sign is used, here -1, 0 or 1.
\<close>

definition ix_compare :: "bytes \<Rightarrow> bytes \<Rightarrow> ColType \<Rightarrow> int \<Rightarrow> int" where
  "ix_compare a b t col_len =
     (case t of
        TYPE_INT \<Rightarrow>
          (let ia = dec32 a; ib = dec32 b in if ia < ib then - 1 else if ia > ib then 1 else 0)
      | TYPE_FLOAT \<Rightarrow>
          (let fa = dec_word a; fb = dec_word b
           in if float_lt fa fb then - 1 else if float_lt fb fa then 1 else 0)
      | TYPE_STRING \<Rightarrow> memcmp a b (nat col_len))"

text \<open>The overload for a key of several columns.\<close>

fun ix_compare_cols :: "bytes \<Rightarrow> bytes \<Rightarrow> (ColType \<times> int) list \<Rightarrow> int" where
  "ix_compare_cols a b [] = 0"
| "ix_compare_cols a b ((t, l) # cs) =
     (let r = ix_compare a b t l
      in if r \<noteq> 0 then r else ix_compare_cols (drop (nat l) a) (drop (nat l) b) cs)"

text \<open>The \<open>switch\<close> over the operator that every executor ends with.\<close>

fun op_holds :: "CompOp \<Rightarrow> int \<Rightarrow> bool" where
  "op_holds OP_EQ c \<longleftrightarrow> c = 0" | "op_holds OP_NE c \<longleftrightarrow> c \<noteq> 0"
| "op_holds OP_LT c \<longleftrightarrow> c < 0" | "op_holds OP_GT c \<longleftrightarrow> c > 0"
| "op_holds OP_LE c \<longleftrightarrow> c \<le> 0" | "op_holds OP_GE c \<longleftrightarrow> c \<ge> 0"

section \<open>Laws of the comparison\<close>

lemma length_enc_word [simp]: "length (enc_word w) = 4"
  by (simp add: enc_word_def)

lemma dec_enc_word [simp]: "dec_word (enc_word w @ xs) = w"
proof -
  have "unat w < 2 ^ 32" using unsigned_less [of w, where ?'a = nat] by simp
  then show ?thesis by (simp add: dec_word_def enc_word_def le_nat_enc_nat)
qed

lemma dec32_enc_word [simp]: "dec32 (enc_word w @ xs) = sint w"
proof -
  have lt: "unat w < 2 ^ 32" using unsigned_less [of w, where ?'a = nat] by simp
  then have u: "le_nat (take 4 (enc_word w @ xs)) = unat w"
    by (simp add: enc_word_def le_nat_enc_nat)
  have "enc_word w = enc32 (sint w)"
  proof -
    have "sint w mod 2 ^ 32 = uint w"
      using uint_sint [of w] by (simp add: take_bit_eq_mod)
    then have "nat (sint w mod 2 ^ 32) = unat w" by simp
    then show ?thesis by (simp add: enc_word_def enc32_def)
  qed
  moreover have "in_i32 (sint w)" using sint_range_size [of w] by (simp add: word_size)
  ultimately show ?thesis by simp
qed

lemma memcmp_range: "memcmp a b n \<in> {- 1, 0, 1}"
  by (induction a b n rule: memcmp.induct) auto

lemma memcmp_antisym: "length a = length b \<Longrightarrow> memcmp b a n = - memcmp a b n"
  by (induction a b n rule: memcmp.induct) auto

lemma memcmp_zero: "n \<le> length a \<Longrightarrow> n \<le> length b \<Longrightarrow> memcmp a b n = 0 \<longleftrightarrow> take n a = take n b"
  by (induction a b n rule: memcmp.induct) auto

lemma ix_compare_antisym:
  "length a = length b \<Longrightarrow> ix_compare b a t l = - ix_compare a b t l"
  using memcmp_antisym [of a b "nat l"]
  by (cases t) (auto simp: ix_compare_def Let_def float_lt_def)

lemma op_holds_swap: "op_holds (swap_op oper) c \<longleftrightarrow> op_holds oper (- c)"
  by (cases oper) auto

lemma memcmp_trans:
  "length a = length b \<Longrightarrow> length b = length c \<Longrightarrow> n \<le> length a \<Longrightarrow>
   memcmp a b n \<le> 0 \<Longrightarrow> memcmp b c n \<le> 0 \<Longrightarrow>
   memcmp a c n \<le> 0 \<and> (memcmp a c n = 0 \<longrightarrow> memcmp a b n = 0 \<and> memcmp b c n = 0)"
proof (induction n arbitrary: a b c)
  case (Suc n)
  obtain x as y bs z cs where abc: "a = x # as" "b = y # bs" "c = z # cs"
    using Suc.prems(1-3) by (cases a; cases b; cases c) auto
  show ?case using Suc.IH [of as bs cs] Suc.prems by (auto simp: abc split: if_splits)
qed simp

section \<open>What a comparison of encoded values means\<close>

fun ord_holds :: "CompOp \<Rightarrow> bool \<Rightarrow> bool \<Rightarrow> bool" where
  "ord_holds OP_EQ lt eq \<longleftrightarrow> eq" | "ord_holds OP_NE lt eq \<longleftrightarrow> \<not> eq"
| "ord_holds OP_LT lt eq \<longleftrightarrow> lt" | "ord_holds OP_GT lt eq \<longleftrightarrow> \<not> lt \<and> \<not> eq"
| "ord_holds OP_LE lt eq \<longleftrightarrow> lt \<or> eq" | "ord_holds OP_GE lt eq \<longleftrightarrow> \<not> lt"

lemma op_holds_ord: "\<lbrakk>lt \<longleftrightarrow> c < 0; eq \<longleftrightarrow> c = 0\<rbrakk> \<Longrightarrow> op_holds oper c \<longleftrightarrow> ord_holds oper lt eq"
  by (cases oper) auto

definition pad :: "nat \<Rightarrow> string \<Rightarrow> bytes" where
  "pad n s = str_bytes s @ replicate (n - length s) 0"

lemma char_byte_less:
  "(word_of_nat (of_char a) :: byte) < word_of_nat (of_char c) \<longleftrightarrow> (of_char a :: nat) < of_char c"
  by (simp add: word_less_nat_alt unsigned_of_nat take_bit_eq_mod)

lemma char_byte_eq: "(word_of_nat (of_char a) :: byte) = word_of_nat (of_char c) \<longleftrightarrow> a = c"
  by (simp add: word_unat_eq_iff unsigned_of_nat take_bit_eq_mod)

lemma char_byte_zero: "(word_of_nat (of_char a) :: byte) = 0 \<longleftrightarrow> a = CHR 0x00"
proof -
  have "(word_of_nat (of_char a) :: byte) = 0 \<longleftrightarrow> (of_char a :: nat) = 0"
    by (simp add: word_unat_eq_iff unsigned_of_nat take_bit_eq_mod)
  also have "\<dots> \<longleftrightarrow> a = CHR 0x00" using of_char_eq_iff [where ?'a = nat, of a "CHR 0x00"] by simp
  finally show ?thesis .
qed

lemma pad_Cons: "Suc (length cs) \<le> n \<Longrightarrow> pad n (c # cs) = word_of_nat (of_char c) # pad (n - 1) cs"
  by (simp add: pad_def str_bytes_def)

lemma pad_Nil: "pad (Suc n) [] = 0 # pad n []"
  by (simp add: pad_def str_bytes_def)

lemma memcmp_pad:
  assumes "length a \<le> n" and "length b \<le> n" and "CHR 0x00 \<notin> set a" and "CHR 0x00 \<notin> set b"
  shows "(memcmp (pad n a) (pad n b) n < 0 \<longleftrightarrow> string_less a b) \<and> (memcmp (pad n a) (pad n b) n = 0 \<longleftrightarrow> a = b)"
  using assms
proof (induction n arbitrary: a b)
  case (Suc n)
  show ?case
  proof (cases a; cases b)
    assume "a = []" "b = []"
    then show ?thesis using Suc.IH [of "[]" "[]"] by (simp add: pad_Nil)
  next
    fix c cs assume "a = []" "b = c # cs"
    moreover have "(word_of_nat (of_char c) :: byte) \<noteq> 0" using Suc.prems(4) calculation by (auto simp: char_byte_zero)
    ultimately show ?thesis using Suc.prems by (simp add: pad_Nil pad_Cons) (simp add: word_neq_0_conv)
  next
    fix c cs assume "a = c # cs" "b = []"
    moreover have "(word_of_nat (of_char c) :: byte) \<noteq> 0" using Suc.prems(3) calculation by (auto simp: char_byte_zero)
    ultimately show ?thesis using Suc.prems by (simp add: pad_Nil pad_Cons)
  next
    fix c cs d ds assume "a = c # cs" "b = d # ds"
    then show ?thesis using Suc.prems Suc.IH [of cs ds]
      by (auto simp: pad_Cons char_byte_less char_byte_eq)
  qed
qed simp

lemma init_raw_int:
  assumes "init_raw junk len v = Ok () v'" and "vtype v = TYPE_INT"
  shows "\<exists>r. raw v' = Some r \<and> len = 4 \<and> rec_data r = enc_word (num_val v)"
  using assms by (auto simp: init_raw_def Let_def RmRecord_alloc_def mem_write_def split: if_splits)

lemma init_raw_str:
  assumes "init_raw junk len v = Ok () v'" and "vtype v = TYPE_STRING"
  shows "\<exists>r. raw v' = Some r \<and> int (length (str_val v)) \<le> len \<and> rec_data r = pad (nat len) (str_val v)"
  using assms by (auto simp: init_raw_def Let_def RmRecord_alloc_def mem_write_def pad_def str_bytes_def split: if_splits)

definition raw_bytes :: "Val \<Rightarrow> bytes" where
  "raw_bytes v = (case raw v of None \<Rightarrow> [] | Some r \<Rightarrow> rec_data r)"

text \<open>
  C26. Comparing two integers through their encoded bytes, as \<open>init_raw\<close>, \<open>ix_compare\<close> and the
  operator switch of the executors do, is comparing them as signed 32-bit integers, for each of the
  six operators; and comparing two strings without NUL bytes in a column of any width that both fit
  is the lexicographic order of their characters: the zero padding never makes two different
  strings equal, nor reorders them.
\<close>

theorem encoded_comparison_correct:
  assumes "init_raw junk len a = Ok () a'" and "init_raw junk' len b = Ok () b'"
    and "vtype a = vtype b" and "vtype a \<noteq> TYPE_FLOAT"
    and "CHR 0x00 \<notin> set (str_val a)" and "CHR 0x00 \<notin> set (str_val b)"
  shows "op_holds oper (ix_compare (raw_bytes a') (raw_bytes b') (vtype a) len) \<longleftrightarrow>
    (if vtype a = TYPE_INT
     then ord_holds oper (sint (num_val a) < sint (num_val b)) (num_val a = num_val b)
     else ord_holds oper (string_less (str_val a) (str_val b)) (str_val a = str_val b))"
proof (cases "vtype a")
  case TYPE_INT
  have "raw_bytes a' = enc_word (num_val a)" "raw_bytes b' = enc_word (num_val b)"
    using init_raw_int [OF assms(1)] init_raw_int [OF assms(2)] assms(3) TYPE_INT by (auto simp: raw_bytes_def)
  moreover have "op_holds oper (ix_compare (enc_word (num_val a)) (enc_word (num_val b)) TYPE_INT len) \<longleftrightarrow>
      ord_holds oper (sint (num_val a) < sint (num_val b)) (num_val a = num_val b)"
    using dec32_enc_word [of "num_val a" "[]"] dec32_enc_word [of "num_val b" "[]"]
    by (intro op_holds_ord) (auto simp: ix_compare_def Let_def intro: signed_word_eqI)
  ultimately show ?thesis using TYPE_INT by simp
next
  case TYPE_STRING
  have "raw_bytes a' = pad (nat len) (str_val a)" "raw_bytes b' = pad (nat len) (str_val b)"
    and "length (str_val a) \<le> nat len" "length (str_val b) \<le> nat len"
    using init_raw_str [OF assms(1)] init_raw_str [OF assms(2)] assms(3) TYPE_STRING by (auto simp: raw_bytes_def)
  then show ?thesis using TYPE_STRING memcmp_pad [OF _ _ assms(5,6)]
    by (auto simp: ix_compare_def intro!: op_holds_ord)
qed (use assms(4) in simp)

theorem encoded_comparison_correct_witness:
  "op_holds OP_LT (ix_compare (enc_word (- 5)) (enc_word 7) TYPE_INT 4)"
proof -
  have "init_raw (\<lambda>_. 0) 4 (Val_new TYPE_INT (- 5) []) = Ok () ((Val_new TYPE_INT (- 5) [])\<lparr>raw := Some \<lparr>rec_data = enc_word (- 5), rec_size = 4, allocated = True\<rparr>\<rparr>)"
    by (simp add: init_raw_def Val_new_def RmRecord_alloc_def mem_write_def Let_def)
  moreover have "init_raw (\<lambda>_. 0) 4 (Val_new TYPE_INT 7 []) = Ok () ((Val_new TYPE_INT 7 [])\<lparr>raw := Some \<lparr>rec_data = enc_word 7, rec_size = 4, allocated = True\<rparr>\<rparr>)"
    by (simp add: init_raw_def Val_new_def RmRecord_alloc_def mem_write_def Let_def)
  ultimately show ?thesis using encoded_comparison_correct [where oper = OP_LT]
    by (fastforce simp: Val_new_def raw_bytes_def)
qed

end
