(* ===== verification/Meta.thy ===== *)
theory Meta
  imports Values
begin

text \<open>
  \<open>src/src/system/sm_meta.h\<close>: the catalogue of the database and its text form in the file
  \<open>db.meta\<close>. \<open>operator<<\<close> is a \<open>put_\<close> function that returns the text; \<open>operator>>\<close> is a \<open>get_\<close>
  function on the rest of the stream, with \<open>None\<close> for a stream that has failed (what an object
  holds after a failed extraction is not modelled; a stored type that is none of the enumerators
  counts as malformed). \<open>std::map\<close> is an association list in the order
  of its keys.
\<close>

section \<open>Streams\<close>

definition is_ws :: "char \<Rightarrow> bool" where
  "is_ws c \<longleftrightarrow> c \<in> {CHR '' '', CHR 0x0A, CHR 0x09, CHR 0x0D, CHR 0x0B, CHR 0x0C}"

definition skip_ws :: "string \<Rightarrow> string" where
  "skip_ws s = dropWhile is_ws s"

definition get_str :: "string \<Rightarrow> (string \<times> string) option" where
  "get_str s =
     (let t = skip_ws s; w = takeWhile (\<lambda>c. \<not> is_ws c) t
      in if w = [] then None else Some (w, drop (length w) t))"

definition get_digits :: "string \<Rightarrow> (nat \<times> string) option" where
  "get_digits t =
     (let w = takeWhile is_digit t in if w = [] then None else Some (digits_val 0 w, drop (length w) t))"

text \<open>Extraction of an \<open>int\<close> and of a \<open>size_t\<close>; a value out of range sets the fail bit.\<close>

definition get_int :: "string \<Rightarrow> (int \<times> string) option" where
  "get_int s =
     (case skip_ws s of
        [] \<Rightarrow> None
      | c # t \<Rightarrow>
          let (neg, u) = (if c = CHR ''-'' then (True, t) else if c = CHR ''+'' then (False, t) else (False, c # t))
          in case get_digits u of
               None \<Rightarrow> None
             | Some (n, v) \<Rightarrow>
                 let i = (if neg then - int n else int n) in if in_i32 i then Some (i, v) else None)"

definition get_size_t :: "string \<Rightarrow> (nat \<times> string) option" where
  "get_size_t s =
     (case get_digits (skip_ws s) of
        None \<Rightarrow> None
      | Some (n, v) \<Rightarrow> if n < 2 ^ 64 then Some (n, v) else None)"

definition get_bool :: "string \<Rightarrow> (bool \<times> string) option" where
  "get_bool s =
     (case get_int s of
        None \<Rightarrow> None
      | Some (i, v) \<Rightarrow> if i = 0 then Some (False, v) else if i = 1 then Some (True, v) else None)"

definition get_coltype :: "string \<Rightarrow> (ColType \<times> string) option" where
  "get_coltype s =
     (case get_int s of
        None \<Rightarrow> None
      | Some (i, v) \<Rightarrow> (case int_coltype i of None \<Rightarrow> None | Some t \<Rightarrow> Some (t, v)))"

definition sp :: string where "sp = '' ''"
definition nl :: string where "nl = [CHR 0x0A]"

fun get_n :: "nat \<Rightarrow> (string \<Rightarrow> ('a \<times> string) option) \<Rightarrow> string \<Rightarrow> ('a list \<times> string) option" where
  "get_n 0 g s = Some ([], s)"
| "get_n (Suc k) g s =
     (case g s of
        None \<Rightarrow> None
      | Some (x, s1) \<Rightarrow> (case get_n k g s1 of None \<Rightarrow> None | Some (xs, s2) \<Rightarrow> Some (x # xs, s2)))"

section \<open>ColMeta, IndexMeta, TabMeta\<close>

record ColMeta =
  cm_tab :: string
  cm_name :: string
  cm_type :: ColType
  cm_len :: int
  cm_offset :: int
  cm_index :: bool

record IndexMeta =
  im_tab :: string
  im_tot_len :: int
  im_num :: int
  im_cols :: "ColMeta list"

record TabMeta =
  tm_name :: string
  tm_cols :: "ColMeta list"
  tm_indexes :: "IndexMeta list"

definition put_col :: "ColMeta \<Rightarrow> string" where
  "put_col c = cm_tab c @ sp @ cm_name c @ sp @ to_string (coltype_int (cm_type c)) @ sp @
     to_string (cm_len c) @ sp @ to_string (cm_offset c) @ sp @ (if cm_index c then ''1'' else ''0'')"

definition get_colmeta :: "string \<Rightarrow> (ColMeta \<times> string) option" where
  "get_colmeta s0 =
     Option.bind (get_str s0) (\<lambda>(t, s1). Option.bind (get_str s1) (\<lambda>(n, s2).
     Option.bind (get_coltype s2) (\<lambda>(ty, s3). Option.bind (get_int s3) (\<lambda>(l, s4).
     Option.bind (get_int s4) (\<lambda>(off, s5). Option.bind (get_bool s5) (\<lambda>(ix, s6).
       Some (\<lparr>cm_tab = t, cm_name = n, cm_type = ty, cm_len = l, cm_offset = off, cm_index = ix\<rparr>, s6)))))))"

definition put_index :: "IndexMeta \<Rightarrow> string" where
  "put_index i = im_tab i @ sp @ to_string (im_tot_len i) @ sp @ to_string (im_num i) @
     concat (map (\<lambda>c. nl @ put_col c) (im_cols i))"

definition get_indexmeta :: "string \<Rightarrow> (IndexMeta \<times> string) option" where
  "get_indexmeta s0 =
     Option.bind (get_str s0) (\<lambda>(t, s1). Option.bind (get_int s1) (\<lambda>(l, s2).
     Option.bind (get_int s2) (\<lambda>(n, s3). Option.bind (get_n (nat n) get_colmeta s3) (\<lambda>(cs, s4).
       Some (\<lparr>im_tab = t, im_tot_len = l, im_num = n, im_cols = cs\<rparr>, s4)))))"

text \<open>The copy constructor of \<open>TabMeta\<close> copies the name and the columns only.\<close>

definition TabMeta_copy :: "TabMeta \<Rightarrow> TabMeta" where
  "TabMeta_copy t = \<lparr>tm_name = tm_name t, tm_cols = tm_cols t, tm_indexes = []\<rparr>"

definition is_col :: "string \<Rightarrow> TabMeta \<Rightarrow> bool" where
  "is_col c t \<longleftrightarrow> find (\<lambda>m. cm_name m = c) (tm_cols t) \<noteq> None"

definition index_matches :: "string list \<Rightarrow> IndexMeta \<Rightarrow> bool" where
  "index_matches names i \<longleftrightarrow> im_num i = int (length names) \<and>
     map cm_name (take (length names) (im_cols i)) = names"

definition is_index :: "string list \<Rightarrow> TabMeta \<Rightarrow> bool" where
  "is_index names t \<longleftrightarrow> list_ex (index_matches names) (tm_indexes t)"

definition get_index_meta :: "string list \<Rightarrow> TabMeta \<Rightarrow> rmdb_error + IndexMeta" where
  "get_index_meta names t =
     (case find (index_matches names) (tm_indexes t) of
        None \<Rightarrow> Inl (IndexNotFoundError (tm_name t) names)
      | Some i \<Rightarrow> Inr i)"

definition tab_get_col :: "string \<Rightarrow> TabMeta \<Rightarrow> rmdb_error + ColMeta" where
  "tab_get_col c t =
     (case find (\<lambda>m. cm_name m = c) (tm_cols t) of
        None \<Rightarrow> Inl (ColumnNotFoundError c)
      | Some m \<Rightarrow> Inr m)"

definition put_tab :: "TabMeta \<Rightarrow> string" where
  "put_tab t = tm_name t @ nl @ nat_to_string (length (tm_cols t)) @ nl @
     concat (map (\<lambda>c. put_col c @ nl) (tm_cols t)) @ nat_to_string (length (tm_indexes t)) @ nl @
     concat (map (\<lambda>i. put_index i @ nl) (tm_indexes t))"

definition get_tabmeta :: "string \<Rightarrow> (TabMeta \<times> string) option" where
  "get_tabmeta s0 =
     Option.bind (get_str s0) (\<lambda>(n, s1). Option.bind (get_size_t s1) (\<lambda>(k, s2).
     Option.bind (get_n k get_colmeta s2) (\<lambda>(cs, s3). Option.bind (get_size_t s3) (\<lambda>(m, s4).
     Option.bind (get_n m get_indexmeta s4) (\<lambda>(is, s5).
       Some (\<lparr>tm_name = n, tm_cols = cs, tm_indexes = is\<rparr>, s5))))))"

section \<open>DbMeta\<close>

record DbMeta =
  db_name :: string
  db_tabs :: "(string \<times> TabMeta) list"

text \<open>\<open>tabs_[k] = v\<close> on the ordered map.\<close>

fun map_put :: "string \<Rightarrow> 'v \<Rightarrow> (string \<times> 'v) list \<Rightarrow> (string \<times> 'v) list" where
  "map_put k v [] = [(k, v)]"
| "map_put k v ((k', v') # xs) =
     (if k = k' then (k, v) # xs
      else if string_less k k' then (k, v) # (k', v') # xs
      else (k', v') # map_put k v xs)"

definition is_table :: "string \<Rightarrow> DbMeta \<Rightarrow> bool" where
  "is_table t d \<longleftrightarrow> map_of (db_tabs d) t \<noteq> None"

definition SetTabMeta :: "string \<Rightarrow> TabMeta \<Rightarrow> DbMeta \<Rightarrow> DbMeta" where
  "SetTabMeta t m d = d\<lparr>db_tabs := map_put t m (db_tabs d)\<rparr>"

definition get_table :: "string \<Rightarrow> DbMeta \<Rightarrow> rmdb_error + TabMeta" where
  "get_table t d = (case map_of (db_tabs d) t of None \<Rightarrow> Inl (TableNotFoundError t) | Some m \<Rightarrow> Inr m)"

definition put_db :: "DbMeta \<Rightarrow> string" where
  "put_db d = db_name d @ nl @ nat_to_string (length (db_tabs d)) @ nl @
     concat (map (\<lambda>e. put_tab (snd e) @ nl) (db_tabs d))"

definition get_dbmeta :: "DbMeta \<Rightarrow> string \<Rightarrow> (DbMeta \<times> string) option" where
  "get_dbmeta d s0 =
     Option.bind (get_str s0) (\<lambda>(n, s1). Option.bind (get_size_t s1) (\<lambda>(k, s2).
     Option.bind (get_n k get_tabmeta s2) (\<lambda>(ts, s3).
       Some (d\<lparr>db_name := n, db_tabs := fold (\<lambda>t m. map_put (tm_name t) t m) ts (db_tabs d)\<rparr>, s3))))"

section \<open>Reading back what was written\<close>

definition word_ok :: "string \<Rightarrow> bool" where
  "word_ok w \<longleftrightarrow> w \<noteq> [] \<and> list_all (\<lambda>c. \<not> is_ws c) w"

definition stop :: "string \<Rightarrow> bool" where
  "stop s \<longleftrightarrow> s = [] \<or> is_ws (hd s)"

lemma stop_sp [simp]: "stop (sp @ s)" and stop_nl [simp]: "stop (nl @ s)" and stop_Nil [simp]: "stop []"
  by (simp_all add: stop_def sp_def nl_def is_ws_def)

lemma ws_sp [simp]: "list_all is_ws sp" and ws_nl [simp]: "list_all is_ws nl"
  by (simp_all add: sp_def nl_def is_ws_def)

lemma skip_ws_append: "list_all is_ws w \<Longrightarrow> skip_ws (w @ s) = skip_ws s"
  by (auto simp: skip_ws_def list_all_iff)

lemma skip_ws_word: "word_ok w \<Longrightarrow> skip_ws (w @ s) = w @ s"
  by (cases w) (auto simp: skip_ws_def word_ok_def)

lemma takeWhile_stop:
  "list_all P w \<Longrightarrow> s = [] \<or> \<not> P (hd s) \<Longrightarrow> takeWhile P (w @ s) = w"
  by (induction w) (cases s; auto)+

lemma get_str_round: "list_all is_ws w \<Longrightarrow> word_ok x \<Longrightarrow> stop s \<Longrightarrow> get_str (w @ x @ s) = Some (x, s)"
  using takeWhile_stop [of "\<lambda>c. \<not> is_ws c" x s]
  by (auto simp: get_str_def skip_ws_append skip_ws_word Let_def word_ok_def stop_def)

lemma digit_not_ws: "is_digit c \<Longrightarrow> \<not> is_ws c"
  by (auto simp: is_digit_def is_ws_def)

lemma stop_digit: "stop s \<Longrightarrow> s = [] \<or> \<not> is_digit (hd s)"
  using digit_not_ws by (auto simp: stop_def)

lemma word_digits: "word_ok (nat_to_string n)"
  using nat_to_string_digits [of n] digit_not_ws by (auto simp: word_ok_def list_all_iff)

lemma get_digits_round: "stop s \<Longrightarrow> get_digits (nat_to_string n @ s) = Some (n, s)"
  using takeWhile_stop [OF nat_to_string_digits stop_digit, of s n]
  by (simp add: get_digits_def Let_def)

lemma get_size_t_round:
  "list_all is_ws w \<Longrightarrow> stop s \<Longrightarrow> n < 2 ^ 64 \<Longrightarrow> get_size_t (w @ nat_to_string n @ s) = Some (n, s)"
  by (simp add: get_size_t_def skip_ws_append skip_ws_word [OF word_digits] get_digits_round)

lemma digit_not_sign: "is_digit c \<Longrightarrow> c \<noteq> CHR ''-'' \<and> c \<noteq> CHR ''+''"
  by (auto simp: is_digit_def)

lemma get_int_round:
  assumes "list_all is_ws w" and "stop s" and "in_i32 i"
  shows "get_int (w @ to_string i @ s) = Some (i, s)"
proof (cases "i < 0")
  case True
  have "skip_ws (w @ to_string i @ s) = CHR ''-'' # nat_to_string (nat (- i)) @ s"
    using True assms(1) by (simp add: skip_ws_append to_string_def) (simp add: skip_ws_def is_ws_def)
  then show ?thesis using True assms by (simp add: get_int_def get_digits_round Let_def)
next
  case False
  obtain c t where ct: "nat_to_string (nat i) = c # t" by (cases "nat_to_string (nat i)") auto
  then have "is_digit c" using nat_to_string_digits [of "nat i"] by simp
  note c = digit_not_sign [OF this]
  have "skip_ws (w @ to_string i @ s) = c # t @ s"
    using False assms(1) ct skip_ws_word [OF word_digits, of "nat i" s] by (simp add: skip_ws_append to_string_def)
  moreover have "get_digits (c # t @ s) = Some (nat i, s)"
    using get_digits_round [OF assms(2), of "nat i"] ct by simp
  ultimately show ?thesis using False assms(3) c by (simp add: get_int_def Let_def)
qed

lemma digit_char_01: "digit_char 0 = CHR ''0''" "digit_char 1 = CHR ''1''"
  by code_simp+

lemma get_bool_round:
  assumes "list_all is_ws w" and "stop s"
  shows "get_bool (w @ (if b then ''1'' else ''0'') @ s) = Some (b, s)"
proof -
  have "(if b then ''1'' else ''0'') = to_string (if b then 1 else 0)"
    by (simp add: to_string_def nat_to_string.simps digit_char_01 [simplified])
  then show ?thesis using get_int_round [OF assms, of "if b then 1 else 0"]
    by (simp add: get_bool_def split: if_splits)
qed

lemma get_coltype_round:
  assumes "list_all is_ws w" and "stop s"
  shows "get_coltype (w @ to_string (coltype_int t) @ s) = Some (t, s)"
proof -
  have "in_i32 (coltype_int t)" by (cases t) simp_all
  from get_int_round [OF assms this] show ?thesis by (simp add: get_coltype_def)
qed

definition col_ok :: "ColMeta \<Rightarrow> bool" where
  "col_ok c \<longleftrightarrow> word_ok (cm_tab c) \<and> word_ok (cm_name c) \<and> in_i32 (cm_len c) \<and> in_i32 (cm_offset c)"

definition index_ok :: "IndexMeta \<Rightarrow> bool" where
  "index_ok i \<longleftrightarrow> word_ok (im_tab i) \<and> in_i32 (im_tot_len i) \<and> in_i32 (im_num i) \<and>
     im_num i = int (length (im_cols i)) \<and> list_all col_ok (im_cols i)"

definition tab_ok :: "TabMeta \<Rightarrow> bool" where
  "tab_ok t \<longleftrightarrow> word_ok (tm_name t) \<and> length (tm_cols t) < 2 ^ 64 \<and> list_all col_ok (tm_cols t) \<and>
     length (tm_indexes t) < 2 ^ 64 \<and> list_all index_ok (tm_indexes t)"

lemma get_col_round:
  "list_all is_ws w \<Longrightarrow> col_ok c \<Longrightarrow> stop s \<Longrightarrow> get_colmeta (w @ put_col c @ s) = Some (c, s)"
  by (cases c) (simp add: get_colmeta_def put_col_def col_ok_def get_str_round get_coltype_round get_int_round
      get_bool_round)

text \<open>Lists: elements with white space before and after each.\<close>

lemma get_n_round:
  assumes g: "\<And>x w s. x \<in> set xs \<Longrightarrow> list_all is_ws w \<Longrightarrow> stop s \<Longrightarrow> g (w @ p x @ s) = Some (x, s)"
    and w: "list_all is_ws w"
  shows "\<exists>w'. list_all is_ws w' \<and> get_n (length xs) g (w @ concat (map (\<lambda>x. p x @ nl) xs) @ s) = Some (xs, w' @ s)"
  using g w
proof (induction xs arbitrary: w)
  case Nil
  then show ?case by (intro exI [of _ w]) simp
next
  case (Cons x xs)
  have "g (w @ p x @ nl @ concat (map (\<lambda>x. p x @ nl) xs) @ s) = Some (x, nl @ concat (map (\<lambda>x. p x @ nl) xs) @ s)"
    using Cons.prems(1) [of x w] Cons.prems(2) by simp
  moreover obtain w' where "list_all is_ws w'"
    "get_n (length xs) g (nl @ concat (map (\<lambda>x. p x @ nl) xs) @ s) = Some (xs, w' @ s)"
    using Cons.IH [of nl] Cons.prems(1) by auto
  ultimately show ?case by (intro exI [of _ w']) simp
qed

lemma get_n_cols:
  "list_all col_ok cs \<Longrightarrow> stop s \<Longrightarrow> get_n (length cs) get_colmeta (concat (map (\<lambda>c. nl @ put_col c) cs) @ s) = Some (cs, s)"
proof (induction cs)
  case (Cons c cs)
  have "stop (concat (map (\<lambda>c. nl @ put_col c) cs) @ s)" using Cons.prems(2) by (cases cs) simp_all
  with Cons show ?case using get_col_round [of nl c "concat (map (\<lambda>c. nl @ put_col c) cs) @ s"] by simp
qed simp

lemma get_index_round:
  assumes "list_all is_ws w" and "index_ok i" and "stop s"
  shows "get_indexmeta (w @ put_index i @ s) = Some (i, s)"
proof -
  have st: "stop (concat (map (\<lambda>c. nl @ put_col c) (im_cols i)) @ s)" using assms(3) by (cases "im_cols i") simp_all
  show ?thesis using assms st get_n_cols [of "im_cols i" s]
    by (cases i) (simp add: get_indexmeta_def put_index_def index_ok_def get_str_round get_int_round)
qed

lemma get_tab_round:
  assumes w: "list_all is_ws w" and t: "tab_ok t" and s: "stop s"
  shows "\<exists>w'. list_all is_ws w' \<and> get_tabmeta (w @ put_tab t @ s) = Some (t, w' @ s)"
proof -
  let ?cs = "tm_cols t" and ?is = "tm_indexes t"
  define rest where "rest = nat_to_string (length ?is) @ nl @ concat (map (\<lambda>i. put_index i @ nl) ?is) @ s"
  have cols: "\<And>x w s. x \<in> set ?cs \<Longrightarrow> list_all is_ws w \<Longrightarrow> stop s \<Longrightarrow> get_colmeta (w @ put_col x @ s) = Some (x, s)"
    using t get_col_round by (auto simp: tab_ok_def list_all_iff)
  have idx: "\<And>x w s. x \<in> set ?is \<Longrightarrow> list_all is_ws w \<Longrightarrow> stop s \<Longrightarrow> get_indexmeta (w @ put_index x @ s) = Some (x, s)"
    using t get_index_round by (auto simp: tab_ok_def list_all_iff)
  obtain w2 where w2: "list_all is_ws w2"
    "get_n (length ?is) get_indexmeta (nl @ concat (map (\<lambda>i. put_index i @ nl) ?is) @ s) = Some (?is, w2 @ s)"
    using get_n_round [OF idx ws_nl] by blast
  obtain w1 where w1: "list_all is_ws w1"
    "get_n (length ?cs) get_colmeta (nl @ concat (map (\<lambda>c. put_col c @ nl) ?cs) @ rest) = Some (?cs, w1 @ rest)"
    using get_n_round [OF cols ws_nl] by blast
  have "get_size_t (w1 @ rest) = Some (length ?is, nl @ concat (map (\<lambda>i. put_index i @ nl) ?is) @ s)"
    unfolding rest_def using w1(1) t by (intro get_size_t_round) (simp_all add: tab_ok_def)
  then have "get_tabmeta (w @ put_tab t @ s) = Some (t, w2 @ s)"
    using w t w1(2) w2(2)
    by (cases t) (simp add: get_tabmeta_def put_tab_def tab_ok_def get_str_round get_size_t_round rest_def)
  then show ?thesis using w2(1) by blast
qed

section \<open>The whole catalogue\<close>

lemma string_less_irrefl [simp]: "\<not> string_less s s"
  by (induction s) auto

lemma string_less_asym: "string_less a b \<Longrightarrow> \<not> string_less b a"
  by (induction a b rule: string_less.induct) auto

lemma map_put_last:
  "list_all (\<lambda>e. string_less (fst e) k) xs \<Longrightarrow> map_put k v xs = xs @ [(k, v)]"
proof (induction xs)
  case (Cons e xs)
  then show ?case using string_less_asym [of "fst e" k] by (cases e) auto
qed simp

text \<open>The catalogue of a database in memory: every entry under its own name, in key order.\<close>

definition db_ok :: "DbMeta \<Rightarrow> bool" where
  "db_ok d \<longleftrightarrow> word_ok (db_name d) \<and> length (db_tabs d) < 2 ^ 64 \<and>
     list_all (\<lambda>e. tab_ok (snd e) \<and> tm_name (snd e) = fst e) (db_tabs d) \<and>
     sorted_wrt string_less (map fst (db_tabs d))"

lemma fold_map_put:
  assumes "list_all (\<lambda>e. tm_name (snd e) = fst e) (xs @ ys)" and "sorted_wrt string_less (map fst (xs @ ys))"
  shows "fold (\<lambda>t m. map_put (tm_name t) t m) (map snd ys) xs = xs @ ys"
  using assms
proof (induction ys arbitrary: xs)
  case (Cons e ys)
  have "list_all (\<lambda>x. string_less (fst x) (fst e)) xs"
    using Cons.prems(2) by (auto simp: sorted_wrt_append list_all_iff)
  then have "map_put (tm_name (snd e)) (snd e) xs = xs @ [e]"
    using map_put_last [where xs = xs and k = "fst e" and v = "snd e"] Cons.prems(1) by simp
  then show ?case using Cons.IH [of "xs @ [e]"] Cons.prems by simp
qed simp

lemma get_db_round:
  assumes d: "db_ok d"
  shows "\<exists>w. list_all is_ws w \<and> get_dbmeta \<lparr>db_name = n0, db_tabs = []\<rparr> (put_db d) = Some (d, w)"
proof -
  let ?ts = "map snd (db_tabs d)"
  have tabs: "\<And>x w s. x \<in> set ?ts \<Longrightarrow> list_all is_ws w \<Longrightarrow> stop s \<Longrightarrow>
      \<exists>w'. list_all is_ws w' \<and> get_tabmeta (w @ put_tab x @ s) = Some (x, w' @ s)"
    using d get_tab_round by (auto simp: db_ok_def list_all_iff)
  have loop: "\<exists>w'. list_all is_ws w' \<and> get_n (length ts) get_tabmeta (w @ concat (map (\<lambda>t. put_tab t @ nl) ts)) = Some (ts, w')"
    if "set ts \<subseteq> set ?ts" "list_all is_ws w" for ts w
    using that
  proof (induction ts arbitrary: w)
    case (Cons t ts)
    let ?r = "concat (map (\<lambda>t. put_tab t @ nl) ts)"
    obtain w1 where w1: "list_all is_ws w1" "get_tabmeta (w @ put_tab t @ nl @ ?r) = Some (t, w1 @ nl @ ?r)"
      using tabs [of t w "nl @ ?r"] Cons.prems by auto
    have "list_all is_ws (w1 @ nl)" using w1(1) by simp
    then obtain w' where "list_all is_ws w'" "get_n (length ts) get_tabmeta ((w1 @ nl) @ ?r) = Some (ts, w')"
      using Cons.IH [of "w1 @ nl"] Cons.prems(1) by auto
    then show ?case using w1 by (intro exI [of _ w']) simp
  qed simp
  obtain w' where w': "list_all is_ws w'"
    "get_n (length ?ts) get_tabmeta (nl @ concat (map (\<lambda>t. put_tab t @ nl) ?ts)) = Some (?ts, w')"
    using loop [of ?ts nl] by auto
  have fold: "fold (\<lambda>t m. map_put (tm_name t) t m) ?ts [] = db_tabs d"
    using fold_map_put [of "[]" "db_tabs d"] d by (auto simp: db_ok_def list_all_iff)
  have name: "get_str ([] @ db_name d @ nl @ s) = Some (db_name d, nl @ s)" for s
    using d by (intro get_str_round) (simp_all add: db_ok_def)
  have "get_dbmeta \<lparr>db_name = n0, db_tabs = []\<rparr> (put_db d) = Some (d, w')"
    using d w'(2) fold name get_size_t_round [of nl]
    by (simp add: get_dbmeta_def put_db_def db_ok_def comp_def)
  then show ?thesis using w'(1) by blast
qed

end
