(* ===== verification/Index.thy ===== *)
theory Index
  imports Meta
begin

text \<open>
  \<open>src/src/index\<close>: the file of a B+ tree index. \<open>IxFileHdr\<close> is its header page, \<open>IxPageHdr\<close> and
  \<open>IxNodeHandle\<close> give the bytes of a node, \<open>IxIndexHandle\<close> is the record \<open>ixih\<close>, \<open>IxScan\<close> walks over
  the leaves and \<open>IxManager\<close> creates, opens and closes index files. The tree operations themselves
  (search, insertion, deletion, splitting) are unfinished in the program: their bodies return
  -1, false or a null pointer, and so do the definitions here.
\<close>

section \<open>ix_defs.h\<close>

definition IX_NO_PAGE :: int where "IX_NO_PAGE = - 1"
definition IX_FILE_HDR_PAGE :: int where "IX_FILE_HDR_PAGE = 0"
definition IX_LEAF_HEADER_PAGE :: int where "IX_LEAF_HEADER_PAGE = 1"
definition IX_INIT_ROOT_PAGE :: int where "IX_INIT_ROOT_PAGE = 2"
definition IX_INIT_NUM_PAGES :: int where "IX_INIT_NUM_PAGES = 3"
definition IX_MAX_COL_LEN :: int where "IX_MAX_COL_LEN = 512"

text \<open>A \<open>ColType\<close> read back from a file is the stored integer.\<close>

record IxFileHdr =
  ix_first_free_page_no :: int
  ix_num_pages :: int
  root_page :: int
  col_num :: int
  col_types :: "int list"
  col_lens :: "int list"
  col_tot_len :: int
  btree_order :: int
  keys_size :: int
  first_leaf :: int
  last_leaf :: int
  tot_len :: int

definition IxFileHdr_new :: "int \<Rightarrow> int \<Rightarrow> int \<Rightarrow> int \<Rightarrow> int \<Rightarrow> int \<Rightarrow> int \<Rightarrow> int \<Rightarrow> int \<Rightarrow> IxFileHdr" where
  "IxFileHdr_new ff np rp cn ctl bo ks fl ll =
     \<lparr>ix_first_free_page_no = ff, ix_num_pages = np, root_page = rp, col_num = cn, col_types = [], col_lens = [],
      col_tot_len = ctl, btree_order = bo, keys_size = ks, first_leaf = fl, last_leaf = ll, tot_len = 0\<rparr>"

definition update_tot_len :: "IxFileHdr \<Rightarrow> IxFileHdr" where
  "update_tot_len h = h\<lparr>tot_len := (4 * 4 + 4 * 6) + (4 * col_num h + 4 * col_num h)\<rparr>"

text \<open>
  \<open>serialize\<close> writes into a buffer of \<open>tot_len_\<close> bytes; the vectors are read at the indices below
  \<open>col_num_\<close>, and the final \<open>assert\<close> compares the length written with \<open>tot_len_\<close>.
\<close>

definition serialize :: "IxFileHdr \<Rightarrow> failure + bytes" where
  "serialize h =
     (let n = nat (col_num h);
          bs = enc32 (tot_len h) @ enc32 (ix_first_free_page_no h) @ enc32 (ix_num_pages h) @
               enc32 (root_page h) @ enc32 (col_num h) @
               concat (map enc32 (take n (col_types h))) @ concat (map enc32 (take n (col_lens h))) @
               enc32 (col_tot_len h) @ enc32 (btree_order h) @ enc32 (keys_size h) @
               enc32 (first_leaf h) @ enc32 (last_leaf h)
      in if length (col_types h) < n \<or> length (col_lens h) < n \<or> tot_len h < int (length bs) then Inl OutOfBounds
         else if int (length bs) \<noteq> tot_len h then Inl AssertionFailed
         else Inr bs)"

fun dec_ints :: "nat \<Rightarrow> bytes \<Rightarrow> int list" where
  "dec_ints 0 bs = []"
| "dec_ints (Suc n) bs = dec32 bs # dec_ints n (drop 4 bs)"

text \<open>\<open>deserialize\<close> appends to the vectors of the header it is called on.\<close>

definition deserialize :: "bytes \<Rightarrow> IxFileHdr \<Rightarrow> failure + IxFileHdr" where
  "deserialize src h =
     (let n = nat (dec32 (drop 16 src));
          rest = drop (20 + 4 * n + 4 * n) src
      in if length src < 40 + 8 * n then Inl OutOfBounds
         else if 40 + 8 * int n \<noteq> dec32 src then Inl AssertionFailed
         else Inr \<lparr>ix_first_free_page_no = dec32 (drop 4 src), ix_num_pages = dec32 (drop 8 src),
                   root_page = dec32 (drop 12 src), col_num = dec32 (drop 16 src),
                   col_types = col_types h @ dec_ints n (drop 20 src),
                   col_lens = col_lens h @ dec_ints n (drop (20 + 4 * n) src),
                   col_tot_len = dec32 rest, btree_order = dec32 (drop 4 rest),
                   keys_size = dec32 (drop 8 rest), first_leaf = dec32 (drop 12 rest),
                   last_leaf = dec32 (drop 16 rest), tot_len = dec32 src\<rparr>)"

text \<open>\<open>IxPageHdr\<close> in the bytes of a node page: six fields of four bytes, \<open>is_leaf\<close> one byte and padding.\<close>

definition sizeof_IxPageHdr :: nat where "sizeof_IxPageHdr = 24"
definition sizeof_Rid :: nat where "sizeof_Rid = 8"

record Iid =
  iid_page :: int
  iid_slot :: int

section \<open>IxNodeHandle\<close>

definition nd_parent :: "bytes \<Rightarrow> int" where "nd_parent d = dec32 (mem_read d 4 4)"
definition get_size :: "bytes \<Rightarrow> int" where "get_size d = dec32 (mem_read d 8 4)"
definition is_leaf_page :: "bytes \<Rightarrow> bool" where "is_leaf_page d \<longleftrightarrow> mem_read d 12 1 \<noteq> [0]"
definition get_prev_leaf :: "bytes \<Rightarrow> int" where "get_prev_leaf d = dec32 (mem_read d 16 4)"
definition get_next_leaf :: "bytes \<Rightarrow> int" where "get_next_leaf d = dec32 (mem_read d 20 4)"

definition set_parent_page_no :: "int \<Rightarrow> bytes \<Rightarrow> bytes" where
  "set_parent_page_no p d = mem_write d 4 (enc32 p)"
definition set_size :: "int \<Rightarrow> bytes \<Rightarrow> bytes" where "set_size n d = mem_write d 8 (enc32 n)"
definition set_prev_leaf :: "int \<Rightarrow> bytes \<Rightarrow> bytes" where "set_prev_leaf p d = mem_write d 16 (enc32 p)"
definition set_next_leaf :: "int \<Rightarrow> bytes \<Rightarrow> bytes" where "set_next_leaf p d = mem_write d 20 (enc32 p)"

definition is_root_page :: "bytes \<Rightarrow> bool" where "is_root_page d \<longleftrightarrow> nd_parent d = INVALID_PAGE_ID"
definition get_max_size :: "IxFileHdr \<Rightarrow> int" where "get_max_size h = btree_order h + 1"

text \<open>C++ division truncates.\<close>

definition get_min_size :: "IxFileHdr \<Rightarrow> int" where
  "get_min_size h = (if 0 \<le> get_max_size h then get_max_size h div 2 else - (- get_max_size h div 2))"

definition ix_key_off :: "IxFileHdr \<Rightarrow> int \<Rightarrow> int" where
  "ix_key_off h i = int sizeof_IxPageHdr + i * col_tot_len h"

definition ix_rid_off :: "IxFileHdr \<Rightarrow> int \<Rightarrow> int" where
  "ix_rid_off h i = int sizeof_IxPageHdr + keys_size h + i * int sizeof_Rid"

definition range_in_page :: "int \<Rightarrow> int \<Rightarrow> bool" where
  "range_in_page off n \<longleftrightarrow> 0 \<le> off \<and> 0 \<le> n \<and> off + n \<le> int PAGE_SIZE"

definition get_key :: "IxFileHdr \<Rightarrow> int \<Rightarrow> bytes \<Rightarrow> bytes option" where
  "get_key h i d =
     (if range_in_page (ix_key_off h i) (col_tot_len h)
      then Some (mem_read d (nat (ix_key_off h i)) (nat (col_tot_len h))) else None)"

definition node_rid :: "IxFileHdr \<Rightarrow> int \<Rightarrow> bytes \<Rightarrow> Rid option" where
  "node_rid h i d =
     (if range_in_page (ix_rid_off h i) (int sizeof_Rid)
      then Some (Rid_of (dec32 (mem_read d (nat (ix_rid_off h i)) 4)) (dec32 (mem_read d (nat (ix_rid_off h i) + 4) 4)))
      else None)"

definition set_key :: "IxFileHdr \<Rightarrow> int \<Rightarrow> bytes \<Rightarrow> bytes \<Rightarrow> bytes option" where
  "set_key h i key d =
     (if range_in_page (ix_key_off h i) (col_tot_len h) \<and> col_tot_len h \<le> int (length key)
      then Some (mem_write d (nat (ix_key_off h i)) (take (nat (col_tot_len h)) key)) else None)"

definition set_rid :: "IxFileHdr \<Rightarrow> int \<Rightarrow> Rid \<Rightarrow> bytes \<Rightarrow> bytes option" where
  "set_rid h i r d =
     (if range_in_page (ix_rid_off h i) (int sizeof_Rid)
      then Some (mem_write d (nat (ix_rid_off h i)) (enc32 (rid_page r) @ enc32 (rid_slot r))) else None)"

definition value_at :: "IxFileHdr \<Rightarrow> int \<Rightarrow> bytes \<Rightarrow> int option" where
  "value_at h i d = map_option rid_page (node_rid h i d)"

definition key_at :: "IxFileHdr \<Rightarrow> int \<Rightarrow> bytes \<Rightarrow> int option" where
  "key_at h i d =
     (if range_in_page (ix_key_off h i) 4 then Some (dec32 (mem_read d (nat (ix_key_off h i)) 4)) else None)"

text \<open>The search loop of \<open>find_child\<close>, and its \<open>assert\<close>.\<close>

function find_child_from :: "IxFileHdr \<Rightarrow> int \<Rightarrow> int \<Rightarrow> bytes \<Rightarrow> failure + int" where
  "find_child_from h i child d =
     (if i < get_size d then
        (case node_rid h i d of
           None \<Rightarrow> Inl OutOfBounds
         | Some r \<Rightarrow> if rid_page r = child then Inr i else find_child_from h (i + 1) child d)
      else Inl AssertionFailed)"
  by pat_completeness auto
termination by (relation "measure (\<lambda>(h, i, child, d). nat (get_size d - i))") auto

declare find_child_from.simps [simp del]

definition find_child :: "IxFileHdr \<Rightarrow> int \<Rightarrow> bytes \<Rightarrow> failure + int" where
  "find_child h child d = find_child_from h 0 child d"

text \<open>The node operations whose bodies are still to be written in the program.\<close>

definition node_lower_bound :: "bytes \<Rightarrow> bytes \<Rightarrow> int" where "node_lower_bound target d = - 1"
definition node_upper_bound :: "bytes \<Rightarrow> bytes \<Rightarrow> int" where "node_upper_bound target d = - 1"
definition leaf_lookup :: "bytes \<Rightarrow> bytes \<Rightarrow> Rid option" where "leaf_lookup key d = None"
definition internal_lookup :: "bytes \<Rightarrow> bytes \<Rightarrow> int" where "internal_lookup key d = - 1"
definition insert_pairs :: "int \<Rightarrow> bytes \<Rightarrow> Rid list \<Rightarrow> int \<Rightarrow> bytes \<Rightarrow> bytes" where "insert_pairs pos key rids n d = d"
definition insert_pair :: "int \<Rightarrow> bytes \<Rightarrow> Rid \<Rightarrow> bytes \<Rightarrow> bytes" where
  "insert_pair pos key rid d = insert_pairs pos key [rid] 1 d"
definition node_insert :: "bytes \<Rightarrow> Rid \<Rightarrow> bytes \<Rightarrow> int \<times> bytes" where "node_insert key v d = (- 1, d)"
definition erase_pair :: "int \<Rightarrow> bytes \<Rightarrow> bytes" where "erase_pair pos d = d"
definition node_remove :: "bytes \<Rightarrow> bytes \<Rightarrow> int \<times> bytes" where "node_remove key d = (- 1, d)"

definition remove_and_return_only_child :: "IxFileHdr \<Rightarrow> bytes \<Rightarrow> (int, bytes) res" where
  "remove_and_return_only_child h d =
     (if get_size d \<noteq> 1 then Err AssertionFailed d
      else case value_at h 0 d of
             None \<Rightarrow> Err OutOfBounds d
           | Some child \<Rightarrow>
               let d1 = erase_pair 0 d in if get_size d1 \<noteq> 0 then Err AssertionFailed d1 else Ok child d1)"

section \<open>IxIndexHandle\<close>

record ixih =
  ix_fd :: int
  ix_hdr :: IxFileHdr

type_synonym 'a ix = "('a, ixih \<times> bpm) res"

definition update_root_page_no :: "int \<Rightarrow> ixih \<Rightarrow> ixih" where
  "update_root_page_no root ih = ih\<lparr>ix_hdr := (ix_hdr ih)\<lparr>root_page := root\<rparr>\<rparr>"

definition ix_is_empty :: "ixih \<Rightarrow> bool" where
  "ix_is_empty ih \<longleftrightarrow> root_page (ix_hdr ih) = IX_NO_PAGE"

text \<open>
  The constructor reads eight bytes of the header page into the pointer member, then the whole
  page into a zeroed buffer. The page counter of the file goes on from its present value.
\<close>

definition IxIndexHandle_new :: "int \<Rightarrow> disk \<Rightarrow> (ixih, disk) res" where
  "IxIndexHandle_new fd d =
     bindO (snd (read_page fd IX_FILE_HDR_PAGE (replicate 8 0) 8 d)) (\<lambda>_ d1.
       case read_page fd IX_FILE_HDR_PAGE (replicate PAGE_SIZE 0) PAGE_SIZE d1 of
         (buf, Err e d2) \<Rightarrow> Err e d2
       | (buf, Ok _ d2) \<Rightarrow>
           (case deserialize buf (IxFileHdr_new 0 0 0 0 0 0 0 0 0) of
              Inl e \<Rightarrow> Err e d2
            | Inr h \<Rightarrow>
                bindO (get_fd2pageno fd d2) (\<lambda>now_page_no d3.
                bindO (set_fd2pageno fd (i32 (now_page_no + 1)) d3) (\<lambda>_. Ok \<lparr>ix_fd = fd, ix_hdr = h\<rparr>))))"

definition fetch_node :: "int \<Rightarrow> ixih \<Rightarrow> bpm \<Rightarrow> frame ix" where
  "fetch_node pno ih b = bindO (liftS (Pair ih) (fetch_page (PageId_of (ix_fd ih) pno) b)) RmPageHandle_new"

definition create_node :: "ixih \<Rightarrow> bpm \<Rightarrow> frame ix" where
  "create_node ih b =
     (let ih1 = ih\<lparr>ix_hdr := (ix_hdr ih)\<lparr>ix_num_pages := ix_num_pages (ix_hdr ih) + 1\<rparr>\<rparr>
      in bindO (liftS (Pair ih1) (new_page (ix_fd ih) b)) (\<lambda>po s. RmPageHandle_new (map_option snd po) s))"

definition unpin_node :: "frame \<Rightarrow> bool \<Rightarrow> bpm \<Rightarrow> bool \<times> bpm" where
  "unpin_node f dirty b = unpin_page (pg_id (pg b f)) dirty b"

definition ix_get_rid :: "Iid \<Rightarrow> ixih \<Rightarrow> bpm \<Rightarrow> Rid ix" where
  "ix_get_rid iid ih b =
     bindO (fetch_node (iid_page iid) ih b) (\<lambda>f (ih1, b1).
       if get_size (pg_data (pg b1 f)) \<le> iid_slot iid then Err (Throw IndexEntryNotFoundError) (ih1, b1)
       else
         let b2 = snd (unpin_node f False b1) in
         case node_rid (ix_hdr ih1) (iid_slot iid) (pg_data (pg b2 f)) of
           None \<Rightarrow> Err OutOfBounds (ih1, b2)
         | Some r \<Rightarrow> Ok r (ih1, b2))"

definition leaf_end :: "ixih \<Rightarrow> bpm \<Rightarrow> Iid ix" where
  "leaf_end ih b =
     bindO (fetch_node (last_leaf (ix_hdr ih)) ih b) (\<lambda>f (ih1, b1).
       Ok \<lparr>iid_page = last_leaf (ix_hdr ih1), iid_slot = get_size (pg_data (pg b1 f))\<rparr>
          (ih1, snd (unpin_node f False b1)))"

definition leaf_begin :: "ixih \<Rightarrow> Iid" where
  "leaf_begin ih = \<lparr>iid_page = first_leaf (ix_hdr ih), iid_slot = 0\<rparr>"

text \<open>
  The loop of \<open>maintain_parent\<close> climbs the parent chain; it ends because the chain does, which the
  code does not check: fuel.
\<close>

fun maintain_parent :: "nat \<Rightarrow> frame \<Rightarrow> ixih \<Rightarrow> bpm \<Rightarrow> unit ix" where
  "maintain_parent 0 f ih b = Err NoFuel (ih, b)"
| "maintain_parent (Suc k) f ih b =
     (if nd_parent (pg_data (pg b f)) = IX_NO_PAGE then Ok () (ih, b)
      else case fetch_node (nd_parent (pg_data (pg b f))) ih b of
             Err e s \<Rightarrow> Err e s
           | Ok p (ih1, b1) \<Rightarrow>
               (case find_child (ix_hdr ih) (page_no (pg_id (pg b1 f))) (pg_data (pg b1 p)) of
                  Inl e \<Rightarrow> Err e (ih1, b1)
                | Inr rank \<Rightarrow>
                    (case (get_key (ix_hdr ih) rank (pg_data (pg b1 p)), get_key (ix_hdr ih) 0 (pg_data (pg b1 f))) of
                       (Some pk, Some ck) \<Rightarrow>
                         if memcmp pk ck (nat (col_tot_len (ix_hdr ih))) = 0 then
                           (case unpin_node p True b1 of
                              (ok, b2) \<Rightarrow> if ok then Ok () (ih1, b2) else Err AssertionFailed (ih1, b2))
                         else
                           (case unpin_node p True (page_write p (nat (ix_key_off (ix_hdr ih) rank)) ck b1) of
                              (ok, b2) \<Rightarrow>
                                if ok then maintain_parent k p ih1 b2 else Err AssertionFailed (ih1, b2))
                     | _ \<Rightarrow> Err OutOfBounds (ih1, b1))))"

definition erase_leaf :: "frame \<Rightarrow> ixih \<Rightarrow> bpm \<Rightarrow> unit ix" where
  "erase_leaf leaf ih b =
     (if \<not> is_leaf_page (pg_data (pg b leaf)) then Err AssertionFailed (ih, b)
      else
        bindO (fetch_node (get_prev_leaf (pg_data (pg b leaf))) ih b) (\<lambda>prev (ih1, b1).
          let b2 = upd_data prev (set_next_leaf (get_next_leaf (pg_data (pg b1 leaf)))) b1;
              b3 = snd (unpin_node prev True b2)
          in bindO (fetch_node (get_next_leaf (pg_data (pg b3 leaf))) ih1 b3) (\<lambda>next (ih2, b4).
               let b5 = upd_data next (set_prev_leaf (get_prev_leaf (pg_data (pg b4 leaf)))) b4;
                   b6 = snd (unpin_node next True b5)
               in Ok () (ih2, b6))))"

definition release_node_handle :: "frame \<Rightarrow> ixih \<Rightarrow> ixih" where
  "release_node_handle node ih = ih\<lparr>ix_hdr := (ix_hdr ih)\<lparr>ix_num_pages := ix_num_pages (ix_hdr ih) - 1\<rparr>\<rparr>"

definition maintain_child :: "frame \<Rightarrow> int \<Rightarrow> ixih \<Rightarrow> bpm \<Rightarrow> unit ix" where
  "maintain_child node child_idx ih b =
     (if is_leaf_page (pg_data (pg b node)) then Ok () (ih, b)
      else case value_at (ix_hdr ih) child_idx (pg_data (pg b node)) of
             None \<Rightarrow> Err OutOfBounds (ih, b)
           | Some child_page_no \<Rightarrow>
               bindO (fetch_node child_page_no ih b) (\<lambda>child (ih1, b1).
                 let b2 = upd_data child (set_parent_page_no (page_no (pg_id (pg b1 node)))) b1;
                     b3 = snd (unpin_node child True b2)
                 in Ok () (ih1, b3)))"

text \<open>The tree operations whose bodies are still to be written in the program.\<close>

definition find_leaf_page :: "bytes \<Rightarrow> ixih \<Rightarrow> frame option \<times> bool" where "find_leaf_page key ih = (None, False)"
definition get_value :: "bytes \<Rightarrow> Rid list \<Rightarrow> bool \<times> Rid list" where "get_value key rs = (False, rs)"
definition split_node :: "frame \<Rightarrow> frame option" where "split_node node = None"
definition insert_into_parent :: "frame \<Rightarrow> bytes \<Rightarrow> frame \<Rightarrow> ixih \<Rightarrow> bpm \<Rightarrow> unit ix" where
  "insert_into_parent old_node key new_node ih b = Ok () (ih, b)"
definition insert_entry :: "bytes \<Rightarrow> Rid \<Rightarrow> ixih \<Rightarrow> bpm \<Rightarrow> int ix" where "insert_entry key v ih b = Ok (- 1) (ih, b)"
definition delete_entry :: "bytes \<Rightarrow> ixih \<Rightarrow> bpm \<Rightarrow> bool ix" where "delete_entry key ih b = Ok False (ih, b)"
definition coalesce_or_redistribute :: "frame \<Rightarrow> ixih \<Rightarrow> bpm \<Rightarrow> bool ix" where
  "coalesce_or_redistribute node ih b = Ok False (ih, b)"
definition adjust_root :: "frame \<Rightarrow> ixih \<Rightarrow> bpm \<Rightarrow> bool ix" where "adjust_root old_root ih b = Ok False (ih, b)"
definition redistribute :: "frame \<Rightarrow> frame \<Rightarrow> frame \<Rightarrow> int \<Rightarrow> ixih \<Rightarrow> bpm \<Rightarrow> unit ix" where
  "redistribute neighbor node parent index ih b = Ok () (ih, b)"
definition coalesce :: "frame \<Rightarrow> frame \<Rightarrow> frame \<Rightarrow> int \<Rightarrow> ixih \<Rightarrow> bpm \<Rightarrow> bool ix" where
  "coalesce neighbor node parent index ih b = Ok False (ih, b)"
definition ix_lower_bound :: "bytes \<Rightarrow> ixih \<Rightarrow> Iid" where "ix_lower_bound key ih = \<lparr>iid_page = - 1, iid_slot = - 1\<rparr>"
definition ix_upper_bound :: "bytes \<Rightarrow> ixih \<Rightarrow> Iid" where "ix_upper_bound key ih = \<lparr>iid_page = - 1, iid_slot = - 1\<rparr>"

section \<open>IxScan\<close>

record ixscan =
  sc_iid :: Iid
  sc_end :: Iid

definition ixscan_is_end :: "ixscan \<Rightarrow> bool" where
  "ixscan_is_end sc \<longleftrightarrow> sc_iid sc = sc_end sc"

text \<open>\<open>next\<close> pins the leaf and never unpins it.\<close>

definition ixscan_next :: "ixscan \<Rightarrow> ixih \<Rightarrow> bpm \<Rightarrow> ixscan ix" where
  "ixscan_next sc ih b =
     (if ixscan_is_end sc then Err AssertionFailed (ih, b)
      else
        bindO (fetch_node (iid_page (sc_iid sc)) ih b) (\<lambda>f (ih1, b1).
          let d = pg_data (pg b1 f); i = sc_iid sc in
          if \<not> is_leaf_page d then Err AssertionFailed (ih1, b1)
          else if get_size d \<le> iid_slot i then Err AssertionFailed (ih1, b1)
          else
            let i1 = i\<lparr>iid_slot := iid_slot i + 1\<rparr>;
                i2 = (if iid_page i1 \<noteq> last_leaf (ix_hdr ih1) \<and> iid_slot i1 = get_size d
                      then \<lparr>iid_page = get_next_leaf d, iid_slot = 0\<rparr> else i1)
            in Ok (sc\<lparr>sc_iid := i2\<rparr>) (ih1, b1)))"

definition ixscan_rid :: "ixscan \<Rightarrow> ixih \<Rightarrow> bpm \<Rightarrow> Rid ix" where
  "ixscan_rid sc ih b = ix_get_rid (sc_iid sc) ih b"

section \<open>IxManager\<close>

definition get_index_name :: "string \<Rightarrow> string list \<Rightarrow> string" where
  "get_index_name filename cols = filename @ concat (map (\<lambda>c. ''_'' @ c) cols) @ ''.idx''"

abbreviation index_file :: "string \<Rightarrow> ColMeta list \<Rightarrow> string" where
  "index_file filename cols \<equiv> get_index_name filename (map cm_name cols)"

definition ix_exists :: "string \<Rightarrow> ColMeta list \<Rightarrow> disk \<Rightarrow> bool" where
  "ix_exists filename cols d = is_file (index_file filename cols) d"

text \<open>The order of the tree, computed in \<open>size_t\<close> and narrowed to \<open>int\<close>.\<close>

definition ix_btree_order :: "int \<Rightarrow> int" where
  "ix_btree_order len =
     ((int PAGE_SIZE - int sizeof_IxPageHdr) div ((len + int sizeof_Rid) mod 2 ^ 64) - 1 + 2 ^ 31) mod 2 ^ 32 - 2 ^ 31"

definition ix_new_hdr :: "ColMeta list \<Rightarrow> IxFileHdr" where
  "ix_new_hdr cols =
     (let len = sum_list (map cm_len cols); bo = ix_btree_order len;
          h = IxFileHdr_new IX_NO_PAGE IX_INIT_NUM_PAGES IX_INIT_ROOT_PAGE (int (length cols)) len bo
                ((bo + 1) * len) IX_INIT_ROOT_PAGE IX_INIT_ROOT_PAGE
      in update_tot_len (h\<lparr>col_types := map (coltype_int \<circ> cm_type) cols, col_lens := map cm_len cols\<rparr>))"

definition ix_node_page :: "int \<Rightarrow> int \<Rightarrow> bytes" where
  "ix_node_page prev next =
     mem_write (replicate PAGE_SIZE 0) 0
       (enc32 IX_NO_PAGE @ enc32 IX_NO_PAGE @ enc32 0 @ [1, 0, 0, 0] @ enc32 prev @ enc32 next)"

definition ix_create_index :: "string \<Rightarrow> ColMeta list \<Rightarrow> disk \<Rightarrow> (unit, disk) res" where
  "ix_create_index filename cols d =
     (let ix_name = index_file filename cols; len = sum_list (map cm_len cols) in
      bindO (create_file ix_name d) (\<lambda>_ d1.
      bindO (open_file ix_name d1) (\<lambda>fd d2.
        if len > IX_MAX_COL_LEN then Err (Throw (InvalidColLengthError len)) d2
        else if (len + int sizeof_Rid) mod 2 ^ 64 = 0 then Err DivisionByZero d2
        else if \<not> ix_btree_order len > 2 then Err AssertionFailed d2
        else case serialize (ix_new_hdr cols) of
          Inl e \<Rightarrow> Err e d2
        | Inr data \<Rightarrow>
            bindO (write_page fd IX_FILE_HDR_PAGE data (nat (tot_len (ix_new_hdr cols))) d2) (\<lambda>_ d3.
            bindO (write_page fd IX_LEAF_HEADER_PAGE (ix_node_page IX_INIT_ROOT_PAGE IX_INIT_ROOT_PAGE) PAGE_SIZE d3) (\<lambda>_ d4.
            bindO (write_page fd IX_INIT_ROOT_PAGE (ix_node_page IX_LEAF_HEADER_PAGE IX_LEAF_HEADER_PAGE) PAGE_SIZE d4) (\<lambda>_ d5.
            bindO (set_fd2pageno fd (IX_INIT_NUM_PAGES - 1) d5) (\<lambda>_. close_file fd)))))))"

definition ix_destroy_index :: "string \<Rightarrow> ColMeta list \<Rightarrow> disk \<Rightarrow> (unit, disk) res" where
  "ix_destroy_index filename cols d = destroy_file (index_file filename cols) d"

definition ix_open_index :: "string \<Rightarrow> ColMeta list \<Rightarrow> disk \<Rightarrow> (ixih, disk) res" where
  "ix_open_index filename cols d = bindO (open_file (index_file filename cols) d) IxIndexHandle_new"

definition ix_close_index :: "ixih \<Rightarrow> bpm \<Rightarrow> (unit, bpm) res" where
  "ix_close_index ih b =
     (case serialize (ix_hdr ih) of
        Inl e \<Rightarrow> Err e b
      | Inr data \<Rightarrow>
          bindO (liftS (\<lambda>d. b\<lparr>dm := d\<rparr>)
                   (write_page (ix_fd ih) IX_FILE_HDR_PAGE data (nat (tot_len (ix_hdr ih))) (dm b))) (\<lambda>_ b1.
          bindO (flush_all_pages (ix_fd ih) b1) (\<lambda>_ b2.
          liftS (\<lambda>d. b2\<lparr>dm := d\<rparr>) (close_file (ix_fd ih) (dm b2)))))"

end
