(* ===== verification/Record_Pages.thy ===== *)
theory Record_Pages
  imports Record_Manager
begin

text \<open>
  The bytes of a record page: the four things a page holds (the link to the next page with free
  space, the number of records, the bitmap, the slots), how each operation of the record manager
  changes them, and that the layout \<open>RmManager::create_file\<close> computes fits the page.
\<close>

named_theorems page_simps \<open>what a change of a record page does to its parts\<close>

section \<open>The layout\<close>

definition hdr_ok :: "RmFileHdr \<Rightarrow> bool" where
  "hdr_ok h \<longleftrightarrow> 1 \<le> record_size h \<and> record_size h \<le> RM_MAX_RECORD_SIZE \<and>
     num_records_per_page h = rm_records_per_page (record_size h) \<and>
     bitmap_size h = rm_bitmap_size (num_records_per_page h)"

lemma records_per_page_bounds:
  assumes "1 \<le> rs" and "rs \<le> RM_MAX_RECORD_SIZE"
  defines "n \<equiv> rm_records_per_page rs"
  shows "1 \<le> n" and "n * (1 + rs * 8) \<le> 32601" and "n \<le> 3622"
proof -
  have n: "n = 32601 div (1 + rs * 8)"
    by (simp add: n_def rm_records_per_page_def BITMAP_WIDTH_def PAGE_SIZE_def sizeof_RmFileHdr_def)
  have rs: "1 \<le> rs" "rs \<le> 512" using assms by (auto simp: RM_MAX_RECORD_SIZE_def)
  have "n * (1 + rs * 8) + 32601 mod (1 + rs * 8) = 32601" unfolding n by (rule div_mult_mod_eq)
  moreover have "0 \<le> 32601 mod (1 + rs * 8)" using rs by (intro pos_mod_sign) simp
  ultimately show "n * (1 + rs * 8) \<le> 32601" by linarith
  have "(1 + rs * 8) div (1 + rs * 8) \<le> 32601 div (1 + rs * 8)"
    using rs by (intro zdiv_mono1) auto
  then show "1 \<le> n" using rs n by simp
  have "32601 div (1 + rs * 8) \<le> 32601 div 9" using rs by (intro zdiv_mono2) auto
  then show "n \<le> 3622" using n by simp
qed

lemma hdr_okD:
  assumes "hdr_ok h"
  shows "1 \<le> record_size h" and "record_size h \<le> 512" and "1 \<le> num_records_per_page h"
    and "num_records_per_page h \<le> 3622" and "1 \<le> bitmap_size h"
    and "num_records_per_page h \<le> 8 * bitmap_size h"
    and "ph_slots h + num_records_per_page h * record_size h \<le> int PAGE_SIZE"
    and "0 \<le> ph_slots h"
proof -
  let ?n = "num_records_per_page h" and ?rs = "record_size h" and ?b = "bitmap_size h"
  show rs: "1 \<le> ?rs" "?rs \<le> 512" using assms by (auto simp: hdr_ok_def RM_MAX_RECORD_SIZE_def)
  have "?n = rm_records_per_page ?rs" and b: "?b = rm_bitmap_size ?n" using assms by (auto simp: hdr_ok_def)
  then have nb: "?n * (1 + ?rs * 8) \<le> 32601" and n: "1 \<le> ?n" "?n \<le> 3622"
    using records_per_page_bounds [of ?rs] rs by (auto simp: RM_MAX_RECORD_SIZE_def)
  then show "1 \<le> ?n" "?n \<le> 3622" by auto
  have b': "?b = (?n + 7) div 8" using b by (simp add: rm_bitmap_size_def BITMAP_WIDTH_def algebra_simps)
  show "1 \<le> ?b" "?n \<le> 8 * ?b" unfolding b' using n by auto
  have "8 * ?b \<le> ?n + 7" unfolding b' by auto
  then have "8 * (12 + ?b + ?n * ?rs) \<le> 8 * 4096" using nb by (simp add: algebra_simps)
  then show "ph_slots h + ?n * ?rs \<le> int PAGE_SIZE"
    by (simp add: ph_slots_def ph_bitmap_def sizeof_RmPageHdr_def OFFSET_PAGE_HDR_def PAGE_SIZE_def)
  show "0 \<le> ph_slots h" using \<open>1 \<le> ?b\<close> by (simp add: ph_slots_def)
qed

text \<open>A slot lies behind the bitmap and inside the page, and two slots do not overlap.\<close>

lemma slot_bounds:
  assumes h: "hdr_ok h" and s: "0 \<le> s" "s < num_records_per_page h"
  shows "12 + nat (bitmap_size h) \<le> nat (get_slot h s)"
    and "nat (get_slot h s) + nat (record_size h) \<le> PAGE_SIZE"
    and "slot_in_page h s" and "bit_in_page s"
proof -
  note b = hdr_okD [OF h]
  have ge: "ph_slots h \<le> get_slot h s" using s b(1) by (simp add: get_slot_def)
  have "(s + 1) * record_size h \<le> num_records_per_page h * record_size h"
    using s b(1) by (intro mult_right_mono) auto
  then have le: "get_slot h s + record_size h \<le> int PAGE_SIZE"
    using b(7) by (simp add: get_slot_def algebra_simps)
  have ps: "ph_slots h = 12 + bitmap_size h"
    by (simp add: ph_slots_def ph_bitmap_def sizeof_RmPageHdr_def OFFSET_PAGE_HDR_def)
  show "12 + nat (bitmap_size h) \<le> nat (get_slot h s)" using ge ps b(5) by linarith
  show "nat (get_slot h s) + nat (record_size h) \<le> PAGE_SIZE" using ge ps le b(1,5) by linarith
  show "slot_in_page h s" using ge ps le b(1,5) by (simp add: slot_in_page_def)
  have "s div 8 \<le> s" using s(1) by simp
  then have "nat s div 8 < 4000" using s b(4) by linarith
  then show "bit_in_page s" using s(1)
    by (simp add: bit_in_page_def get_bucket_def BITMAP_WIDTH_def ph_bitmap_def sizeof_RmPageHdr_def
        OFFSET_PAGE_HDR_def PAGE_SIZE_def)
qed

lemma slot_disjoint:
  assumes h: "hdr_ok h" and "0 \<le> s" "0 \<le> t" "s \<noteq> t"
  shows "nat (get_slot h s) + nat (record_size h) \<le> nat (get_slot h t) \<or>
         nat (get_slot h t) + nat (record_size h) \<le> nat (get_slot h s)"
proof -
  note b = hdr_okD [OF h]
  have step: "get_slot h x + record_size h \<le> get_slot h y" if "x < y" for x y
  proof -
    have "(x + 1) * record_size h \<le> y * record_size h" using that b(1) by (intro mult_right_mono) auto
    then show ?thesis by (simp add: get_slot_def algebra_simps)
  qed
  have "0 \<le> get_slot h x" if "0 \<le> x" for x using that b(1,8) by (simp add: get_slot_def)
  then have "0 \<le> get_slot h s" "0 \<le> get_slot h t" using assms by auto
  moreover have "s < t \<or> t < s" using assms by linarith
  ultimately show ?thesis using step [of s t] step [of t s] b(1) by linarith
qed

section \<open>The parts of a page\<close>

definition pbits :: "RmFileHdr \<Rightarrow> bytes \<Rightarrow> bytes" where
  "pbits h data = mem_read data ph_bitmap (nat (bitmap_size h))"

definition rec_at :: "RmFileHdr \<Rightarrow> bytes \<Rightarrow> int \<Rightarrow> bytes" where
  "rec_at h data s = mem_read data (nat (get_slot h s)) (nat (record_size h))"

lemma ph_bitmap_12 [simp]: "ph_bitmap = 12"
  by (simp add: ph_bitmap_def sizeof_RmPageHdr_def OFFSET_PAGE_HDR_def)

lemma pbits_room: "hdr_ok h \<Longrightarrow> 12 + nat (bitmap_size h) \<le> PAGE_SIZE"
  using hdr_okD [of h] slot_bounds(1,2) [of h 0] by linarith

lemma length_pbits:
  "hdr_ok h \<Longrightarrow> length data = PAGE_SIZE \<Longrightarrow> length (pbits h data) = nat (bitmap_size h)"
  using pbits_room [of h] by (simp add: pbits_def)

lemma pbits_cap: "hdr_ok h \<Longrightarrow> length data = PAGE_SIZE \<Longrightarrow> nat (num_records_per_page h) \<le> 8 * length (pbits h data)"
  using hdr_okD(5,6) [of h] by (simp add: length_pbits)

lemma page_bit:
  assumes "hdr_ok h" and "length data = PAGE_SIZE" and "p < nat (num_records_per_page h)"
  shows "is_set (page_bitmap data) p \<longleftrightarrow> is_set (pbits h data) p"
proof -
  have "p div 8 < nat (bitmap_size h)" using assms(3) hdr_okD(6) [OF assms(1)] by linarith
  then show ?thesis by (simp add: is_set_def get_bucket_def BITMAP_WIDTH_def page_bitmap_def pbits_def mem_read_def)
qed

lemma length_parts [simp]:
  assumes "length data = PAGE_SIZE"
  shows "length (set_next_free_page_no k data) = PAGE_SIZE" "length (set_num_records k data) = PAGE_SIZE"
    and "length (upd_bitmap (\<lambda>bm. bm_set bm p) data) = PAGE_SIZE"
    and "length (upd_bitmap (\<lambda>bm. bm_reset bm p) data) = PAGE_SIZE"
    and "off \<le> PAGE_SIZE \<Longrightarrow> length (mem_write data off bs) = PAGE_SIZE"
  using assms
  by (simp_all add: set_next_free_page_no_def set_num_records_def upd_bitmap_def page_bitmap_def
      bm_set_def bm_reset_def OFFSET_PAGE_HDR_def PAGE_SIZE_def)

lemma parts_set_next [page_simps]:
  assumes "length data = PAGE_SIZE"
  shows "in_i32 k \<Longrightarrow> next_free_page_no (set_next_free_page_no k data) = k"
    and "num_records (set_next_free_page_no k data) = num_records data"
    and "pbits h (set_next_free_page_no k data) = pbits h data"
    and "hdr_ok h \<Longrightarrow> 0 \<le> s \<Longrightarrow> s < num_records_per_page h \<Longrightarrow>
           rec_at h (set_next_free_page_no k data) s = rec_at h data s"
  using assms slot_bounds(1) [of h s]
  by (simp_all add: set_next_free_page_no_def next_free_page_no_def num_records_def pbits_def rec_at_def
      OFFSET_PAGE_HDR_def mem_read_write_same mem_read_write_other PAGE_SIZE_def)

lemma parts_set_num [page_simps]:
  assumes "length data = PAGE_SIZE"
  shows "in_i32 k \<Longrightarrow> num_records (set_num_records k data) = k"
    and "next_free_page_no (set_num_records k data) = next_free_page_no data"
    and "pbits h (set_num_records k data) = pbits h data"
    and "hdr_ok h \<Longrightarrow> 0 \<le> s \<Longrightarrow> s < num_records_per_page h \<Longrightarrow>
           rec_at h (set_num_records k data) s = rec_at h data s"
  using assms slot_bounds(1) [of h s]
  by (simp_all add: set_num_records_def next_free_page_no_def num_records_def pbits_def rec_at_def
      OFFSET_PAGE_HDR_def mem_read_write_same mem_read_write_other PAGE_SIZE_def)

lemma parts_slot [page_simps]:
  assumes "length data = PAGE_SIZE" and "hdr_ok h" and "0 \<le> s" "s < num_records_per_page h"
    and "length buf = nat (record_size h)"
  shows "next_free_page_no (mem_write data (nat (get_slot h s)) buf) = next_free_page_no data"
    and "num_records (mem_write data (nat (get_slot h s)) buf) = num_records data"
    and "pbits h (mem_write data (nat (get_slot h s)) buf) = pbits h data"
    and "0 \<le> t \<Longrightarrow> t < num_records_per_page h \<Longrightarrow>
      rec_at h (mem_write data (nat (get_slot h s)) buf) t = (if t = s then buf else rec_at h data t)"
proof -
  note b = slot_bounds(1,2) [OF assms(2-4)]
  show "next_free_page_no (mem_write data (nat (get_slot h s)) buf) = next_free_page_no data"
    "num_records (mem_write data (nat (get_slot h s)) buf) = num_records data"
    "pbits h (mem_write data (nat (get_slot h s)) buf) = pbits h data"
    using b assms(1,5)
    by (simp_all add: next_free_page_no_def num_records_def pbits_def OFFSET_PAGE_HDR_def mem_read_write_other)
  assume t: "0 \<le> t" "t < num_records_per_page h"
  show "rec_at h (mem_write data (nat (get_slot h s)) buf) t = (if t = s then buf else rec_at h data t)"
  proof (cases "t = s")
    case True
    then show ?thesis using b assms(1,5) by (simp add: rec_at_def mem_read_write_same)
  next
    case False
    then show ?thesis using b assms(1,5) slot_disjoint [OF assms(2) t(1) assms(3)]
      by (auto simp: rec_at_def mem_read_write_other)
  qed
qed

text \<open>A change of the bitmap through a function that touches only its own bytes.\<close>

lemma upd_bitmap_write:
  assumes "length data = PAGE_SIZE" and "i < PAGE_SIZE - 12"
  shows "upd_bitmap (\<lambda>bm. bm[i := g (bm ! i)]) data = mem_write data (12 + i) [g (data ! (12 + i))]"
proof -
  have "(drop 12 data)[i := v] = take i (drop 12 data) @ [v] @ drop (Suc i) (drop 12 data)" for v
    using assms by (simp add: upd_conv_take_nth_drop)
  moreover have "take (12 + i) data = take 12 data @ take i (drop 12 data)" by (rule take_add)
  ultimately show ?thesis using assms
    by (simp add: upd_bitmap_def page_bitmap_def mem_write_def)
qed

lemma parts_bitmap_write:
  assumes "length data = PAGE_SIZE" and "hdr_ok h" and "i < nat (bitmap_size h)"
  shows "next_free_page_no (mem_write data (12 + i) [v]) = next_free_page_no data"
    and "num_records (mem_write data (12 + i) [v]) = num_records data"
    and "pbits h (mem_write data (12 + i) [v]) = (pbits h data)[i := v]"
    and "0 \<le> t \<Longrightarrow> t < num_records_per_page h \<Longrightarrow>
           rec_at h (mem_write data (12 + i) [v]) t = rec_at h data t"
proof -
  have room: "12 + nat (bitmap_size h) \<le> PAGE_SIZE" using assms(2) by (rule pbits_room)
  show "next_free_page_no (mem_write data (12 + i) [v]) = next_free_page_no data"
    "num_records (mem_write data (12 + i) [v]) = num_records data"
    using room assms
    by (simp_all add: next_free_page_no_def num_records_def OFFSET_PAGE_HDR_def mem_read_write_other)
  show "pbits h (mem_write data (12 + i) [v]) = (pbits h data)[i := v]"
  proof (rule nth_equalityI)
    show "length (pbits h (mem_write data (12 + i) [v])) = length ((pbits h data)[i := v])"
      using room assms by (simp add: pbits_def)
    fix j assume "j < length (pbits h (mem_write data (12 + i) [v]))"
    then have "j < nat (bitmap_size h)" by (simp add: pbits_def)
    then show "pbits h (mem_write data (12 + i) [v]) ! j = (pbits h data)[i := v] ! j"
      using room assms by (simp add: pbits_def nth_mem_read nth_mem_write nth_list_update)
  qed
  assume t: "0 \<le> t" "t < num_records_per_page h"
  show "rec_at h (mem_write data (12 + i) [v]) t = rec_at h data t"
    using slot_bounds(1,2) [OF assms(2) t] room assms by (simp add: rec_at_def mem_read_write_other)
qed

lemma bucket_in:
  "hdr_ok h \<Longrightarrow> p < nat (num_records_per_page h) \<Longrightarrow> p div 8 < nat (bitmap_size h)"
  using hdr_okD(6) [of h] by linarith

lemma parts_bitmap [page_simps]:
  assumes "length data = PAGE_SIZE" and "hdr_ok h" and "p < nat (num_records_per_page h)"
  shows "next_free_page_no (upd_bitmap (\<lambda>bm. bm_set bm p) data) = next_free_page_no data"
    and "num_records (upd_bitmap (\<lambda>bm. bm_set bm p) data) = num_records data"
    and "pbits h (upd_bitmap (\<lambda>bm. bm_set bm p) data) = bm_set (pbits h data) p"
    and "0 \<le> t \<Longrightarrow> t < num_records_per_page h \<Longrightarrow>
           rec_at h (upd_bitmap (\<lambda>bm. bm_set bm p) data) t = rec_at h data t"
    and "next_free_page_no (upd_bitmap (\<lambda>bm. bm_reset bm p) data) = next_free_page_no data"
    and "num_records (upd_bitmap (\<lambda>bm. bm_reset bm p) data) = num_records data"
    and "pbits h (upd_bitmap (\<lambda>bm. bm_reset bm p) data) = bm_reset (pbits h data) p"
    and "0 \<le> t \<Longrightarrow> t < num_records_per_page h \<Longrightarrow>
           rec_at h (upd_bitmap (\<lambda>bm. bm_reset bm p) data) t = rec_at h data t"
proof -
  let ?i = "p div 8"
  have i: "?i < nat (bitmap_size h)" using assms(2,3) by (rule bucket_in)
  then have i': "?i < PAGE_SIZE - 12" using pbits_room [OF assms(2)] by linarith
  have at: "pbits h data ! ?i = data ! (12 + ?i)"
    using i pbits_room [OF assms(2)] assms(1) by (simp add: pbits_def nth_mem_read)
  note w = upd_bitmap_write [OF assms(1) i']
  have s: "upd_bitmap (\<lambda>bm. bm_set bm p) data = mem_write data (12 + ?i) [data ! (12 + ?i) OR get_bit p]"
    using w [of "\<lambda>x. x OR get_bit p"] by (simp add: bm_set_def get_bucket_def BITMAP_WIDTH_def)
  have r: "upd_bitmap (\<lambda>bm. bm_reset bm p) data = mem_write data (12 + ?i) [data ! (12 + ?i) AND NOT (get_bit p)]"
    using w [of "\<lambda>x. x AND NOT (get_bit p)"] by (simp add: bm_reset_def get_bucket_def BITMAP_WIDTH_def)
  note pw = parts_bitmap_write [OF assms(1,2) i]
  show "next_free_page_no (upd_bitmap (\<lambda>bm. bm_set bm p) data) = next_free_page_no data"
    "num_records (upd_bitmap (\<lambda>bm. bm_set bm p) data) = num_records data"
    "next_free_page_no (upd_bitmap (\<lambda>bm. bm_reset bm p) data) = next_free_page_no data"
    "num_records (upd_bitmap (\<lambda>bm. bm_reset bm p) data) = num_records data"
    unfolding s r by (simp_all add: pw)
  show "pbits h (upd_bitmap (\<lambda>bm. bm_set bm p) data) = bm_set (pbits h data) p"
    "pbits h (upd_bitmap (\<lambda>bm. bm_reset bm p) data) = bm_reset (pbits h data) p"
    unfolding s r by (simp_all add: pw bm_set_def bm_reset_def get_bucket_def BITMAP_WIDTH_def at)
  assume "0 \<le> t" "t < num_records_per_page h"
  then show "rec_at h (upd_bitmap (\<lambda>bm. bm_set bm p) data) t = rec_at h data t"
    "rec_at h (upd_bitmap (\<lambda>bm. bm_reset bm p) data) t = rec_at h data t"
    unfolding s r by (simp_all add: pw)
qed

end
