(* ===== verification/Record_Files.thy ===== *)
theory Record_Files
  imports Record_Pages
begin

text \<open>
  A table file as a whole: the invariant that ties the file header to the pages (record counts,
  and a chain through exactly the pages with free space), the finite map from record ids to
  records it stands for, and how the pages the record manager computes change it.
\<close>

section \<open>The file invariant\<close>

definition page_ok :: "RmFileHdr \<Rightarrow> bytes \<Rightarrow> bool" where
  "page_ok h data \<longleftrightarrow> length data = PAGE_SIZE \<and>
     num_records data = int (card {q. q < nat (num_records_per_page h) \<and> is_set (pbits h data) q})"

fun free_chain :: "(int \<Rightarrow> bytes) \<Rightarrow> int \<Rightarrow> int list \<Rightarrow> bool" where
  "free_chain v k [] \<longleftrightarrow> k = RM_NO_PAGE"
| "free_chain v k (p # ps) \<longleftrightarrow> k = p \<and> free_chain v (next_free_page_no (v p)) ps"

definition data_page :: "RmFileHdr \<Rightarrow> int \<Rightarrow> bool" where
  "data_page h p \<longleftrightarrow> 1 \<le> p \<and> p < num_pages h"

definition roomy :: "RmFileHdr \<Rightarrow> (int \<Rightarrow> bytes option) \<Rightarrow> int set" where
  "roomy h v = {p. data_page h p \<and> num_records (the (v p)) < num_records_per_page h}"

definition file_inv :: "RmFileHdr \<Rightarrow> (int \<Rightarrow> bytes option) \<Rightarrow> bool" where
  "file_inv h v \<longleftrightarrow> hdr_ok h \<and> 1 \<le> num_pages h \<and> num_pages h < 2 ^ 31 \<and>
     (\<forall>p. data_page h p \<longrightarrow> (\<exists>data. v p = Some data \<and> page_ok h data)) \<and>
     (\<exists>ps. distinct ps \<and> set ps = roomy h v \<and> free_chain (\<lambda>p. the (v p)) (first_free_page_no h) ps)"

text \<open>The abstract table: a partial map from record ids to records.\<close>

definition file_abs :: "RmFileHdr \<Rightarrow> (int \<Rightarrow> bytes option) \<Rightarrow> Rid \<Rightarrow> bytes option" where
  "file_abs h v rid =
     (if data_page h (rid_page rid) \<and> 0 \<le> rid_slot rid \<and> rid_slot rid < num_records_per_page h then
        (case v (rid_page rid) of
           None \<Rightarrow> None
         | Some data \<Rightarrow>
             if is_set (pbits h data) (nat (rid_slot rid)) then Some (rec_at h data (rid_slot rid)) else None)
      else None)"

lemma file_invD:
  assumes "file_inv h v"
  shows "hdr_ok h" and "1 \<le> num_pages h" and "num_pages h < 2 ^ 31"
    and "data_page h p \<Longrightarrow> \<exists>data. v p = Some data \<and> page_ok h data"
  using assms by (auto simp: file_inv_def)

lemma free_chain_cong:
  "(\<And>p. p \<in> set ps \<Longrightarrow> v p = w p) \<Longrightarrow> free_chain v k ps = free_chain w k ps"
  by (induction ps arbitrary: k) auto

lemma free_chain_upd:
  "p \<notin> set ps \<Longrightarrow> free_chain (\<lambda>q. the ((v(p \<mapsto> d)) q)) k ps = free_chain (\<lambda>q. the (v q)) k ps"
  by (rule free_chain_cong) auto

lemma chain_head:
  assumes "free_chain u k ps" and "set ps = roomy h w"
  shows "k = RM_NO_PAGE \<and> ps = [] \<or> data_page h k"
proof (cases ps)
  case (Cons q qs)
  then have "k \<in> roomy h w" using assms by auto
  then show ?thesis by (simp add: roomy_def)
qed (use assms in simp)

lemma file_inv_cong:
  assumes "\<And>p. data_page h p \<Longrightarrow> v p = w p" and "file_inv h v"
  shows "file_inv h w"
proof -
  obtain ps where ps: "distinct ps" "set ps = roomy h v"
    "free_chain (\<lambda>p. the (v p)) (first_free_page_no h) ps" using assms(2) by (auto simp: file_inv_def)
  have "roomy h w = roomy h v" using assms(1) by (auto simp: roomy_def)
  moreover have "free_chain (\<lambda>p. the (w p)) (first_free_page_no h) ps"
    using ps(3) free_chain_cong [of ps "\<lambda>p. the (v p)" "\<lambda>p. the (w p)"] ps(2) assms(1)
    by (auto simp: roomy_def)
  ultimately show ?thesis using assms ps by (auto simp: file_inv_def)
qed

lemma file_abs_cong:
  "(\<And>p. data_page h p \<Longrightarrow> v p = w p) \<Longrightarrow> file_abs h v = file_abs h w"
  by (auto simp: file_abs_def fun_eq_iff)

lemma page_okD:
  assumes "hdr_ok h" and "page_ok h data"
  shows "length data = PAGE_SIZE" and "0 \<le> num_records data"
    and "num_records data \<le> num_records_per_page h" and "in_i32 (num_records data + 1)"
    and "in_i32 (num_records data - 1)"
proof -
  show "length data = PAGE_SIZE" "0 \<le> num_records data" using assms(2) by (auto simp: page_ok_def)
  have "card {q. q < nat (num_records_per_page h) \<and> is_set (pbits h data) q} \<le> nat (num_records_per_page h)"
    by (rule bitmap.count_le)
  then show le: "num_records data \<le> num_records_per_page h"
    using assms(2) hdr_okD(3) [OF assms(1)] by (auto simp: page_ok_def)
  then show "in_i32 (num_records data + 1)" "in_i32 (num_records data - 1)"
    using hdr_okD(4) [OF assms(1)] \<open>0 \<le> num_records data\<close> by auto
qed

section \<open>Inserting into a page\<close>

definition pd_insert :: "RmFileHdr \<Rightarrow> int \<Rightarrow> bytes \<Rightarrow> bytes \<Rightarrow> bytes" where
  "pd_insert h s buf data =
     (let d1 = mem_write data (nat (get_slot h s)) buf;
          d2 = upd_bitmap (\<lambda>bm. bm_set bm (nat s)) d1
      in set_num_records (num_records d2 + 1) d2)"

lemma free_slot:
  assumes h: "hdr_ok h" and ok: "page_ok h data" and room: "num_records data < num_records_per_page h"
  defines "s \<equiv> first_bit False (page_bitmap data) (num_records_per_page h)"
  shows "0 \<le> s" and "s < num_records_per_page h" and "\<not> is_set (pbits h data) (nat s)"
proof -
  let ?n = "num_records_per_page h"
  have n: "0 \<le> ?n" using hdr_okD(3) [OF h] by simp
  note fb = first_bit_spec [OF n, where b = False and bm = "page_bitmap data"]
  show s: "0 \<le> s" using fb(1) by (simp add: s_def)
  have len: "length data = PAGE_SIZE" using ok by (simp add: page_ok_def)
  have "card {q. q < nat ?n \<and> is_set (pbits h data) q} \<noteq> nat ?n"
    using ok room n by (simp add: page_ok_def)
  then have "\<not> (\<forall>q < nat ?n. is_set (pbits h data) q)"
    using bitmap.count_full_iff [of "nat ?n" "pbits h data"] by simp
  then obtain q where q: "q < nat ?n" "\<not> is_set (page_bitmap data) q"
    using page_bit [OF h len] by blast
  show lt: "s < ?n"
  proof (rule ccontr)
    assume "\<not> s < ?n"
    then have "int q < first_bit False (page_bitmap data) ?n" using q(1) by (simp add: s_def)
    then show False using fb(3) [of "int q"] q(2) by simp
  qed
  then show "\<not> is_set (pbits h data) (nat s)"
    using fb(4) page_bit [OF h len, of "nat s"] s by (simp add: s_def)
qed

lemma pd_insert_parts:
  assumes h: "hdr_ok h" and ok: "page_ok h data" and s: "0 \<le> s" "s < num_records_per_page h"
    and clear: "\<not> is_set (pbits h data) (nat s)" and buf: "length buf = nat (record_size h)"
  shows "page_ok h (pd_insert h s buf data)"
    and "num_records (pd_insert h s buf data) = num_records data + 1"
    and "next_free_page_no (pd_insert h s buf data) = next_free_page_no data"
    and "t < nat (num_records_per_page h) \<Longrightarrow>
           is_set (pbits h (pd_insert h s buf data)) t \<longleftrightarrow> t = nat s \<or> is_set (pbits h data) t"
    and "0 \<le> t' \<Longrightarrow> t' < num_records_per_page h \<Longrightarrow>
           rec_at h (pd_insert h s buf data) t' = (if t' = s then buf else rec_at h data t')"
proof -
  let ?n = "nat (num_records_per_page h)" and ?p = "nat s"
  define d1 where "d1 = mem_write data (nat (get_slot h s)) buf"
  define d2 where "d2 = upd_bitmap (\<lambda>bm. bm_set bm (nat s)) d1"
  have pd: "pd_insert h s buf data = set_num_records (num_records d2 + 1) d2"
    by (simp add: pd_insert_def Let_def d1_def d2_def)
  note l0 = page_okD [OF h ok]
  have l1: "length d1 = PAGE_SIZE"
    unfolding d1_def using l0(1) slot_bounds(2) [OF h s] by (intro length_parts) simp_all
  have l2: "length d2 = PAGE_SIZE" unfolding d2_def using l1 by (rule length_parts)
  have p: "?p < ?n" using s by simp
  note p1 = parts_slot [OF l0(1) h s buf, folded d1_def]
  note p2 = parts_bitmap(1-4) [OF l1 h p, folded d2_def]
  have num: "num_records d2 = num_records data" using p1(2) p2(2) by simp
  note p3 = parts_set_num [OF l2]
  show num': "num_records (pd_insert h s buf data) = num_records data + 1"
    unfolding pd using p3(1) num l0(4) by simp
  show "next_free_page_no (pd_insert h s buf data) = next_free_page_no data"
    unfolding pd using p3(2) p2(1) p1(1) by simp
  have bits: "pbits h (pd_insert h s buf data) = bm_set (pbits h data) ?p"
    unfolding pd using p3(3) p2(3) p1(3) by simp
  have cap: "?n \<le> 8 * length (pbits h data)" using pbits_cap [OF h l0(1)] .
  show "is_set (pbits h (pd_insert h s buf data)) t \<longleftrightarrow> t = nat s \<or> is_set (pbits h data) t"
    if "t < ?n"
    unfolding bits by (rule bitmap.test_set1) (use that cap p in linarith)+
  show "rec_at h (pd_insert h s buf data) t' = (if t' = s then buf else rec_at h data t')"
    if "0 \<le> t'" "t' < num_records_per_page h"
    unfolding pd using p3(4) [OF h that] p2(4) [OF that] p1(4) [OF that] by simp
  show "page_ok h (pd_insert h s buf data)"
    unfolding page_ok_def num' bits
    using bitmap.count_set1 [OF cap p clear] ok l2 by (simp add: pd page_ok_def)
qed

section \<open>Changing one page of the file\<close>

lemma roomy_upd: "data_page h k \<Longrightarrow> roomy h (v(k \<mapsto> d)) =
    (if num_records d < num_records_per_page h then insert k (roomy h v) else roomy h v - {k})"
  by (auto simp: roomy_def)

lemma file_insert:
  assumes inv: "file_inv h v" and k: "first_free_page_no h \<noteq> RM_NO_PAGE" and buf: "length buf = nat (record_size h)"
  defines "p \<equiv> first_free_page_no h"
  defines "data \<equiv> the (v p)"
  defines "s \<equiv> first_bit False (page_bitmap data) (num_records_per_page h)"
  defines "data' \<equiv> pd_insert h s buf data"
  defines "h' \<equiv> (if num_records data' = num_records_per_page h
                 then h\<lparr>first_free_page_no := next_free_page_no data'\<rparr> else h)"
  shows "data_page h p" and "v p = Some data" and "0 \<le> s" and "s < num_records_per_page h"
    and "file_abs h v (Rid_of p s) = None" and "file_inv h' (v(p \<mapsto> data'))"
    and "file_abs h' (v(p \<mapsto> data')) = (file_abs h v)(Rid_of p s \<mapsto> buf)"
proof -
  note h = file_invD(1) [OF inv]
  obtain qs where qs: "distinct qs" "set qs = roomy h v" "free_chain (\<lambda>p. the (v p)) p qs"
    using inv by (auto simp: file_inv_def p_def)
  obtain ps where ps: "qs = p # ps" "free_chain (\<lambda>p. the (v p)) (next_free_page_no data) ps"
    using qs(3) k by (cases qs) (auto simp: p_def data_def)
  have pr: "p \<in> roomy h v" using qs(2) ps(1) by auto
  then show dp: "data_page h p" by (simp add: roomy_def)
  then obtain d where "v p = Some d" "page_ok h d" using file_invD(4) [OF inv] by blast
  then have vp: "v p = Some data" and ok: "page_ok h data" by (simp_all add: data_def)
  show "v p = Some data" by (fact vp)
  have room: "num_records data < num_records_per_page h" using pr by (simp add: roomy_def data_def)
  note fs = free_slot [OF h ok room, folded s_def]
  show s: "0 \<le> s" "s < num_records_per_page h" using fs by auto
  note pd = pd_insert_parts [OF h ok s fs(3) buf, folded data'_def]
  show "file_abs h v (Rid_of p s) = None" using vp fs(3) by (simp add: file_abs_def)
  have hh: "hdr_ok h' = hdr_ok h" "num_pages h' = num_pages h" "num_records_per_page h' = num_records_per_page h"
    "data_page h' = data_page h" "pbits h' = pbits h" "rec_at h' = rec_at h"
    by (simp_all add: h'_def hdr_ok_def data_page_def pbits_def rec_at_def get_slot_def ph_slots_def fun_eq_iff)
  have pok: "page_ok h' = page_ok h" by (simp add: page_ok_def hh fun_eq_iff)
  have "\<exists>d. (v(p \<mapsto> data')) q = Some d \<and> page_ok h d" if "data_page h q" for q
    using file_invD(4) [OF inv that] pd(1) by auto
  moreover have "\<exists>ps'. distinct ps' \<and> set ps' = roomy h (v(p \<mapsto> data')) \<and>
      free_chain (\<lambda>q. the ((v(p \<mapsto> data')) q)) (first_free_page_no h') ps'"
  proof (cases "num_records data' = num_records_per_page h")
    case True
    have "free_chain (\<lambda>q. the ((v(p \<mapsto> data')) q)) (next_free_page_no data) ps"
      using ps qs(1) by (subst free_chain_upd) auto
    then show ?thesis using True ps qs(1,2) dp pd(3)
      by (intro exI [of _ ps]) (auto simp: roomy_upd h'_def)
  next
    case False
    have "free_chain (\<lambda>q. the ((v(p \<mapsto> data')) q)) (next_free_page_no data) ps"
      using ps qs(1) by (subst free_chain_upd) auto
    then show ?thesis using False ps qs(1,2) dp pd(2,3) room pr
      by (intro exI [of _ qs]) (auto simp: roomy_upd h'_def p_def)
  qed
  moreover have "roomy h' = roomy h" by (simp add: roomy_def hh fun_eq_iff)
  ultimately show "file_inv h' (v(p \<mapsto> data'))"
    using file_invD(1-3) [OF inv] unfolding file_inv_def hh pok by auto
  show "file_abs h' (v(p \<mapsto> data')) = (file_abs h v)(Rid_of p s \<mapsto> buf)"
  proof
    fix r :: Rid
    show "file_abs h' (v(p \<mapsto> data')) r = ((file_abs h v)(Rid_of p s \<mapsto> buf)) r"
    proof (cases "rid_page r = p \<and> 0 \<le> rid_slot r \<and> rid_slot r < num_records_per_page h")
      case True
      then have "r = Rid_of p s \<longleftrightarrow> rid_slot r = s" by (simp add: Rid_eq_iff)
      moreover have "nat (rid_slot r) = nat s \<longleftrightarrow> rid_slot r = s" using True s by auto
      ultimately show ?thesis using True dp vp pd(4) [of "nat (rid_slot r)"] pd(5) [of "rid_slot r"]
        by (cases "rid_slot r = s") (simp_all add: file_abs_def hh)
    next
      case False
      then have "r \<noteq> Rid_of p s" using s by auto
      then show ?thesis using False by (auto simp: file_abs_def hh split: option.split)
    qed
  qed
qed

section \<open>Deleting from a page and updating a slot\<close>

definition pd_delete :: "int \<Rightarrow> bytes \<Rightarrow> bytes" where
  "pd_delete s data =
     (let d1 = upd_bitmap (\<lambda>bm. bm_reset bm (nat s)) data in set_num_records (num_records d1 - 1) d1)"

lemma pd_delete_parts:
  assumes h: "hdr_ok h" and ok: "page_ok h data" and s: "0 \<le> s" "s < num_records_per_page h"
    and set: "is_set (pbits h data) (nat s)"
  shows "page_ok h (pd_delete s data)" and "num_records (pd_delete s data) = num_records data - 1"
    and "next_free_page_no (pd_delete s data) = next_free_page_no data"
    and "t < nat (num_records_per_page h) \<Longrightarrow>
           is_set (pbits h (pd_delete s data)) t \<longleftrightarrow> t \<noteq> nat s \<and> is_set (pbits h data) t"
    and "0 \<le> t' \<Longrightarrow> t' < num_records_per_page h \<Longrightarrow> rec_at h (pd_delete s data) t' = rec_at h data t'"
    and "0 < num_records data"
proof -
  let ?n = "nat (num_records_per_page h)" and ?p = "nat s"
  define d1 where "d1 = upd_bitmap (\<lambda>bm. bm_reset bm (nat s)) data"
  have pd: "pd_delete s data = set_num_records (num_records d1 - 1) d1"
    by (simp add: pd_delete_def Let_def d1_def)
  note l0 = page_okD [OF h ok]
  have l1: "length d1 = PAGE_SIZE" unfolding d1_def using l0(1) by (rule length_parts)
  have p: "?p < ?n" using s by simp
  note p1 = parts_bitmap(5-8) [OF l0(1) h p, folded d1_def]
  note p2 = parts_set_num [OF l1]
  show num': "num_records (pd_delete s data) = num_records data - 1"
    unfolding pd using p2(1) p1(2) l0(5) by simp
  show "next_free_page_no (pd_delete s data) = next_free_page_no data" unfolding pd using p2(2) p1(1) by simp
  have bits: "pbits h (pd_delete s data) = bm_reset (pbits h data) ?p" unfolding pd using p2(3) p1(3) by simp
  have cap: "?n \<le> 8 * length (pbits h data)" using pbits_cap [OF h l0(1)] .
  show "is_set (pbits h (pd_delete s data)) t \<longleftrightarrow> t \<noteq> nat s \<and> is_set (pbits h data) t" if "t < ?n"
    unfolding bits by (rule bitmap.test_set0) (use that cap p in linarith)+
  show "rec_at h (pd_delete s data) t' = rec_at h data t'" if "0 \<le> t'" "t' < num_records_per_page h"
    unfolding pd using p2(4) [OF h that] p1(4) [OF that] by simp
  have "?p \<in> {q. q < ?n \<and> is_set (pbits h data) q}" using p set by simp
  then have "{q. q < ?n \<and> is_set (pbits h data) q} \<noteq> {}" by blast
  then have "0 < card {q. q < ?n \<and> is_set (pbits h data) q}" by (simp only: card_gt_0_iff) simp
  then show "0 < num_records data" and "page_ok h (pd_delete s data)"
    using ok bitmap.count_set0 [OF cap p set] l1 by (auto simp: page_ok_def num' bits pd [symmetric])
      (simp_all add: pd)
qed

definition hdr_release :: "int \<Rightarrow> RmFileHdr \<Rightarrow> RmFileHdr" where
  "hdr_release p h = h\<lparr>first_free_page_no := p\<rparr>"

lemma hdr_release_same:
  "hdr_ok (hdr_release p h) = hdr_ok h" "num_pages (hdr_release p h) = num_pages h"
  "num_records_per_page (hdr_release p h) = num_records_per_page h"
  "data_page (hdr_release p h) = data_page h" "pbits (hdr_release p h) = pbits h"
  "rec_at (hdr_release p h) = rec_at h" "page_ok (hdr_release p h) = page_ok h"
  "roomy (hdr_release p h) = roomy h" "first_free_page_no (hdr_release p h) = p"
  by (simp_all add: hdr_release_def hdr_ok_def data_page_def pbits_def rec_at_def get_slot_def ph_slots_def
      page_ok_def roomy_def fun_eq_iff)

lemma hdr_release_abs: "file_abs (hdr_release p h) = file_abs h"
  by (simp only: file_abs_def [abs_def] hdr_release_same)

lemma file_absD:
  assumes "file_abs h v (Rid_of p s) = Some r"
  obtains data where "data_page h p" "v p = Some data" "0 \<le> s" "s < num_records_per_page h"
    "is_set (pbits h data) (nat s)" "r = rec_at h data s"
  using assms by (auto simp: file_abs_def split: if_splits option.splits)

text \<open>Replacing the contents of one page by contents with the same link and record count.\<close>

lemma file_inv_same:
  assumes inv: "file_inv h v" and p: "data_page h p" "v p = Some data" and ok: "page_ok h d"
    and same: "next_free_page_no d = next_free_page_no data"
    and room: "num_records d < num_records_per_page h \<longleftrightarrow> num_records data < num_records_per_page h"
  shows "file_inv h (v(p \<mapsto> d))"
proof -
  obtain qs where qs: "distinct qs" "set qs = roomy h v" "free_chain (\<lambda>p. the (v p)) (first_free_page_no h) qs"
    using inv by (auto simp: file_inv_def)
  have "next_free_page_no (the ((v(p \<mapsto> d)) q)) = next_free_page_no (the (v q))" for q
    using p same by simp
  then have "free_chain (\<lambda>q. the ((v(p \<mapsto> d)) q)) k xs = free_chain (\<lambda>q. the (v q)) k xs" for k xs
    by (induction xs arbitrary: k) auto
  moreover have "roomy h (v(p \<mapsto> d)) = roomy h v" using p room by (auto simp: roomy_def)
  moreover have "\<exists>data. (v(p \<mapsto> d)) q = Some data \<and> page_ok h data" if "data_page h q" for q
    using file_invD(4) [OF inv that] ok by auto
  ultimately show ?thesis using qs file_invD(1-3) [OF inv] unfolding file_inv_def by auto
qed

lemma file_delete:
  assumes inv: "file_inv h v" and r: "file_abs h v (Rid_of p s) = Some r"
  defines "data \<equiv> the (v p)"
  defines "full \<equiv> num_records data = num_records_per_page h"
  defines "data' \<equiv> (if full then set_next_free_page_no (first_free_page_no h) (pd_delete s data)
                    else pd_delete s data)"
  defines "h' \<equiv> (if full then hdr_release p h else h)"
  shows "file_inv h' (v(p \<mapsto> data'))"
    and "file_abs h' (v(p \<mapsto> data')) = (file_abs h v)(Rid_of p s := None)"
proof -
  note h = file_invD(1) [OF inv]
  obtain d where dp: "data_page h p" and "v p = Some d" and s: "0 \<le> s" "s < num_records_per_page h"
    and "is_set (pbits h d) (nat s)" using file_absD [OF r] by metis
  then have vp: "v p = Some data" and set: "is_set (pbits h data) (nat s)" by (simp_all add: data_def)
  have ok: "page_ok h data" using file_invD(4) [OF inv dp] vp by auto
  note l0 = page_okD [OF h ok] and pd = pd_delete_parts [OF h ok s set]
  note l1 = page_okD(1) [OF h pd(1)]
  obtain qs where qs: "distinct qs" "set qs = roomy h v" "free_chain (\<lambda>p. the (v p)) (first_free_page_no h) qs"
    using inv by (auto simp: file_inv_def)
  have ff: "in_i32 (first_free_page_no h)"
    using chain_head [OF qs(3,2)] file_invD(3) [OF inv] by (auto simp: data_page_def RM_NO_PAGE_def)
  note sn = parts_set_next [OF l1, where k = "first_free_page_no h"]
  have bits: "pbits h data' = pbits h (pd_delete s data)" using sn(3) by (simp add: data'_def)
  have recs: "rec_at h data' t = rec_at h (pd_delete s data) t" if "0 \<le> t" "t < num_records_per_page h" for t
    using sn(4) [OF h that] by (simp add: data'_def)
  have num: "num_records data' = num_records data - 1" using sn(2) pd(2) by (simp add: data'_def)
  have "length data' = PAGE_SIZE" using l1 by (simp add: data'_def)
  then have ok': "page_ok h data'" using pd(1,2) num by (simp add: page_ok_def bits)
  show "file_inv h' (v(p \<mapsto> data'))"
  proof (cases full)
    case True
    have np: "p \<notin> set qs" using True qs(2) by (simp add: roomy_def full_def data_def)
    have link: "next_free_page_no data' = first_free_page_no h" using True sn(1) ff by (simp add: data'_def)
    have "free_chain (\<lambda>q. the ((v(p \<mapsto> data')) q)) p (p # qs)"
      using qs(3) link np by (simp add: free_chain_upd [unfolded fun_upd_def] fun_upd_def)
    moreover have "roomy h (v(p \<mapsto> data')) = set (p # qs)"
      using dp num l0(3) qs(2) by (simp add: roomy_upd)
    moreover have "\<exists>d. (v(p \<mapsto> data')) q = Some d \<and> page_ok h d" if "data_page h q" for q
      using file_invD(4) [OF inv that] ok' by auto
    ultimately have "file_inv (hdr_release p h) (v(p \<mapsto> data'))"
      unfolding file_inv_def hdr_release_same using file_invD(1-3) [OF inv] np qs(1)
      by (intro conjI allI impI exI [of _ "p # qs"]) simp_all
    then show ?thesis using True by (simp add: h'_def)
  next
    case False
    then have "file_inv h (v(p \<mapsto> data'))"
      using file_inv_same [OF inv dp vp ok'] pd(3) num l0(3) by (simp add: data'_def full_def)
    then show ?thesis using False by (simp add: h'_def)
  qed
  have "file_abs h' = file_abs h" by (simp add: h'_def hdr_release_abs)
  moreover have "file_abs h (v(p \<mapsto> data')) = (file_abs h v)(Rid_of p s := None)"
  proof
    fix r :: Rid
    show "file_abs h (v(p \<mapsto> data')) r = ((file_abs h v)(Rid_of p s := None)) r"
    proof (cases "rid_page r = p \<and> 0 \<le> rid_slot r \<and> rid_slot r < num_records_per_page h")
      case True
      then have "r = Rid_of p s \<longleftrightarrow> rid_slot r = s" by (simp add: Rid_eq_iff)
      moreover have "nat (rid_slot r) = nat s \<longleftrightarrow> rid_slot r = s" using True s by auto
      ultimately show ?thesis
        using True dp vp pd(4) [of "nat (rid_slot r)"] pd(5) [of "rid_slot r"] recs [of "rid_slot r"]
        by (cases "rid_slot r = s") (simp_all add: file_abs_def bits)
    next
      case False
      then have "r \<noteq> Rid_of p s" using s by auto
      then show ?thesis using False by (auto simp: file_abs_def)
    qed
  qed
  ultimately show "file_abs h' (v(p \<mapsto> data')) = (file_abs h v)(Rid_of p s := None)" by simp
qed

lemma file_update:
  assumes inv: "file_inv h v" and r: "file_abs h v (Rid_of p s) = Some r"
    and buf: "length buf = nat (record_size h)"
  defines "data' \<equiv> mem_write (the (v p)) (nat (get_slot h s)) buf"
  shows "file_inv h (v(p \<mapsto> data'))"
    and "file_abs h (v(p \<mapsto> data')) = (file_abs h v)(Rid_of p s \<mapsto> buf)"
proof -
  note h = file_invD(1) [OF inv]
  obtain data where dp: "data_page h p" and vp: "v p = Some data" and s: "0 \<le> s" "s < num_records_per_page h"
    and set: "is_set (pbits h data) (nat s)" using file_absD [OF r] by metis
  have ok: "page_ok h data" using file_invD(4) [OF inv dp] vp by auto
  have len: "length data = PAGE_SIZE" using page_okD(1) [OF h ok] .
  have d': "data' = mem_write data (nat (get_slot h s)) buf" using vp by (simp add: data'_def)
  note p = parts_slot [OF len h s buf, folded d']
  have "length data' = PAGE_SIZE"
    unfolding d' using len slot_bounds(2) [OF h s] by (intro length_parts) simp_all
  then have ok': "page_ok h data'" using ok p by (simp add: page_ok_def)
  show "file_inv h (v(p \<mapsto> data'))" using file_inv_same [OF inv dp vp ok'] p by simp
  show "file_abs h (v(p \<mapsto> data')) = (file_abs h v)(Rid_of p s \<mapsto> buf)"
  proof
    fix r :: Rid
    show "file_abs h (v(p \<mapsto> data')) r = ((file_abs h v)(Rid_of p s \<mapsto> buf)) r"
    proof (cases "rid_page r = p \<and> 0 \<le> rid_slot r \<and> rid_slot r < num_records_per_page h")
      case True
      then have "r = Rid_of p s \<longleftrightarrow> rid_slot r = s" by (simp add: Rid_eq_iff)
      then show ?thesis using True dp vp set p(3) p(4) [of "rid_slot r"] by (auto simp: file_abs_def)
    next
      case False
      then have "r \<noteq> Rid_of p s" using s by auto
      then show ?thesis using False by (auto simp: file_abs_def)
    qed
  qed
qed

section \<open>A new page\<close>

definition pd_blank :: "RmFileHdr \<Rightarrow> bytes \<Rightarrow> bytes" where
  "pd_blank h data = upd_bitmap (\<lambda>bm. mem_write bm 0 (bm_init (nat (bitmap_size h))))
     (set_num_records 0 (set_next_free_page_no RM_NO_PAGE data))"

lemma pd_blank_parts:
  assumes h: "hdr_ok h" and len: "length data = PAGE_SIZE"
  shows "page_ok h (pd_blank h data)" and "num_records (pd_blank h data) = 0"
    and "next_free_page_no (pd_blank h data) = RM_NO_PAGE"
    and "t < nat (num_records_per_page h) \<Longrightarrow> \<not> is_set (pbits h (pd_blank h data)) t"
proof -
  let ?b = "nat (bitmap_size h)"
  define d2 where "d2 = set_num_records 0 (set_next_free_page_no RM_NO_PAGE data)"
  have room: "12 + ?b \<le> PAGE_SIZE" using h by (rule pbits_room)
  have l1: "length (set_next_free_page_no RM_NO_PAGE data) = PAGE_SIZE" using len by (rule length_parts)
  have l2: "length d2 = PAGE_SIZE" unfolding d2_def using l1 by (rule length_parts)
  have w: "pd_blank h data = mem_write d2 12 (bm_init ?b)"
    using l2 room by (simp add: pd_blank_def d2_def [symmetric] upd_bitmap_def page_bitmap_def mem_write_def
        bm_init_def add.commute)
  have n2: "num_records d2 = 0" "next_free_page_no d2 = RM_NO_PAGE"
    using parts_set_num [OF l1, where k = 0] parts_set_next(1) [OF len, where k = RM_NO_PAGE]
    by (simp_all add: d2_def RM_NO_PAGE_def)
  then show num: "num_records (pd_blank h data) = 0" "next_free_page_no (pd_blank h data) = RM_NO_PAGE"
    using l2 room by (simp_all add: w next_free_page_no_def num_records_def OFFSET_PAGE_HDR_def
        bm_init_def mem_read_write_other)
  have bits: "pbits h (pd_blank h data) = bm_init ?b"
    using l2 room by (simp add: w pbits_def mem_read_write_same bm_init_def)
  show clear: "\<not> is_set (pbits h (pd_blank h data)) t" if "t < nat (num_records_per_page h)" for t
    unfolding bits using that hdr_okD(5,6) [OF h] by (intro bitmap.test_init) (simp add: bm_init_def)
  then have "{q. q < nat (num_records_per_page h) \<and> is_set (pbits h (pd_blank h data)) q} = {}" by blast
  then show "page_ok h (pd_blank h data)"
    using num l2 room by (simp add: page_ok_def w)
qed

lemma file_new_page:
  assumes inv: "file_inv h v" and full: "first_free_page_no h = RM_NO_PAGE" and max: "num_pages h + 1 < 2 ^ 31"
    and len: "length data = PAGE_SIZE"
  defines "h' \<equiv> h\<lparr>num_pages := num_pages h + 1, first_free_page_no := num_pages h\<rparr>"
  defines "v' \<equiv> v(num_pages h \<mapsto> pd_blank h data)"
  shows "file_inv h' v'" and "file_abs h' v' = file_abs h v"
proof -
  let ?k = "num_pages h"
  note h = file_invD(1) [OF inv] and b = pd_blank_parts [OF file_invD(1) [OF inv] len]
  obtain qs where qs: "set qs = roomy h v" "free_chain (\<lambda>p. the (v p)) RM_NO_PAGE qs"
    using inv full by (auto simp: file_inv_def)
  have "qs = []" using chain_head [OF qs(2,1)] by (simp add: data_page_def RM_NO_PAGE_def)
  then have none: "roomy h v = {}" using qs by simp
  have dp: "data_page h' q \<longleftrightarrow> q = ?k \<or> data_page h q" for q
    using file_invD(2) [OF inv] by (auto simp: data_page_def h'_def)
  have nk: "\<not> data_page h ?k" by (simp add: data_page_def)
  have hh: "hdr_ok h'" "num_records_per_page h' = num_records_per_page h" "pbits h' = pbits h" "rec_at h' = rec_at h"
    "first_free_page_no h' = ?k" "num_pages h' = ?k + 1"
    using h by (simp_all add: h'_def hdr_ok_def pbits_def rec_at_def get_slot_def ph_slots_def fun_eq_iff)
  have pok: "page_ok h' = page_ok h" by (simp add: page_ok_def hh fun_eq_iff)
  have "roomy h' v' = {?k}"
    using none b(2) hdr_okD(3) [OF h] by (auto simp: roomy_def dp v'_def hh)
  then have "\<exists>ps. distinct ps \<and> set ps = roomy h' v' \<and> free_chain (\<lambda>p. the (v' p)) ?k ps"
    by (intro exI [of _ "[?k]"]) (simp add: v'_def b(3))
  moreover have "\<exists>d. v' q = Some d \<and> page_ok h d" if "data_page h' q" for q
    using that file_invD(4) [OF inv, of q] b(1) by (auto simp: dp v'_def)
  ultimately show "file_inv h' v'"
    using hh max file_invD(2) [OF inv] by (auto simp: file_inv_def pok)
  show "file_abs h' v' = file_abs h v"
  proof
    fix r
    show "file_abs h' v' r = file_abs h v r"
      using b(4) [of "nat (rid_slot r)"] nk by (auto simp: file_abs_def dp hh v'_def split: option.split)
  qed
qed
end
