(* ===== verification/Pool_Invariant.thy ===== *)
theory Pool_Invariant
  imports Buffer_Pool
begin

text \<open>
  The invariant of the buffer pool and what each of its operations does to it. A step is
  described by one of four changes of the state: a frame is claimed from its page (\<open>claim\<close>), a
  page is put into a claimed frame (\<open>install\<close>), the page of a mapped frame is changed
  (\<open>put_page\<close>), or a frame is released (\<open>release\<close>). Each preserves the invariant once and for all.
\<close>

section \<open>The invariant of the pool\<close>

text \<open>
  A frame is \<open>mapped\<close> when the page table leads from the page it carries back to it. The
  invariant is indexed by the set \<open>L\<close> of frames that were lost: taken for a page that could then
  not be read, they are neither free nor mapped.
\<close>

definition mapped :: "bpm \<Rightarrow> frame \<Rightarrow> bool" where
  "mapped b f \<longleftrightarrow> page_table b (pg_id (pg b f)) = Some f"

definition frames_ok :: "bpm \<Rightarrow> bool" where
  "frames_ok b \<longleftrightarrow> length (pages b) = pool_size b \<and>
     (\<forall>f < pool_size b. length (pg_data (pg b f)) = PAGE_SIZE \<and> 0 \<le> pin_count (pg b f) \<and>
        (\<not> mapped b f \<longrightarrow> pin_count (pg b f) = 0))"

definition table_ok :: "bpm \<Rightarrow> bool" where
  "table_ok b \<longleftrightarrow>
     (\<forall>pid f. page_table b pid = Some f \<longrightarrow>
        f < pool_size b \<and> pg_id (pg b f) = pid \<and> 0 \<le> page_no pid \<and> f \<notin> set (free_list b))"

definition free_ok :: "frame set \<Rightarrow> bpm \<Rightarrow> bool" where
  "free_ok L b \<longleftrightarrow> distinct (free_list b) \<and>
     (\<forall>f \<in> set (free_list b). f < pool_size b \<and> page_no (pg_id (pg b f)) = INVALID_PAGE_ID) \<and>
     (\<forall>f \<in> L. f < pool_size b \<and> f \<notin> set (free_list b) \<and> \<not> mapped b f) \<and>
     (\<forall>f < pool_size b. f \<in> set (free_list b) \<or> mapped b f \<or> f \<in> L)"

definition lru_ok :: "bpm \<Rightarrow> bool" where
  "lru_ok b \<longleftrightarrow> lru_inv (repl b) \<and> max_size (repl b) = pool_size b \<and>
     (\<forall>f \<in> set (lru_frames (repl b)). f < pool_size b \<and> pin_count (pg b f) = 0 \<and>
        (mapped b f \<or> page_no (pg_id (pg b f)) = INVALID_PAGE_ID)) \<and>
     (\<forall>f < pool_size b. mapped b f \<longrightarrow> pin_count (pg b f) = 0 \<longrightarrow> f \<in> set (lru_frames (repl b)))"

definition sync_ok :: "bpm \<Rightarrow> bool" where
  "sync_ok b \<longleftrightarrow> no_alias (dm b) \<and>
     (\<forall>f < pool_size b. is_dirty (pg b f) \<longrightarrow> mapped b f \<and> fd_open (dm b) (pid_fd (pg_id (pg b f)))) \<and>
     (\<forall>f < pool_size b. mapped b f \<longrightarrow> \<not> is_dirty (pg b f) \<longrightarrow> pin_count (pg b f) = 0 \<longrightarrow>
        fd_open (dm b) (pid_fd (pg_id (pg b f))) \<longrightarrow>
        disk_page (dm b) (pg_id (pg b f)) = Some (pg_data (pg b f)))"

definition bpm_inv :: "frame set \<Rightarrow> bpm \<Rightarrow> bool" where
  "bpm_inv L b \<longleftrightarrow> frames_ok b \<and> table_ok b \<and> free_ok L b \<and> lru_ok b \<and> sync_ok b"

text \<open>The contents of a page as its users see it: in its frame, or else on disk.\<close>

definition bpm_view :: "bpm \<Rightarrow> PageId \<Rightarrow> bytes option" where
  "bpm_view b pid =
     (case page_table b pid of
        Some f \<Rightarrow> Some (pg_data (pg b f))
      | None \<Rightarrow> disk_page (dm b) pid)"

text \<open>
  Every cached page, pinned or not, is dirty or the same on disk, except in the frames \<open>F\<close> a
  client is still writing to.
\<close>

definition synced_but :: "frame set \<Rightarrow> bpm \<Rightarrow> bool" where
  "synced_but F b \<longleftrightarrow>
     (\<forall>pid f. page_table b pid = Some f \<longrightarrow> f \<notin> F \<longrightarrow> fd_open (dm b) (pid_fd pid) \<longrightarrow>
        is_dirty (pg b f) \<or> disk_page (dm b) pid = Some (pg_data (pg b f)))"

lemma bpm_inv_parts:
  "bpm_inv L b \<Longrightarrow> frames_ok b" "bpm_inv L b \<Longrightarrow> table_ok b" "bpm_inv L b \<Longrightarrow> free_ok L b"
  "bpm_inv L b \<Longrightarrow> lru_ok b" "bpm_inv L b \<Longrightarrow> sync_ok b"
  by (simp_all add: bpm_inv_def)

lemma frames_okD:
  assumes "bpm_inv L b"
  shows "length (pages b) = pool_size b"
    and "f < pool_size b \<Longrightarrow> length (pg_data (pg b f)) = PAGE_SIZE"
    and "f < pool_size b \<Longrightarrow> 0 \<le> pin_count (pg b f)"
    and "f < pool_size b \<Longrightarrow> \<not> mapped b f \<Longrightarrow> pin_count (pg b f) = 0"
  using bpm_inv_parts(1) [OF assms] by (simp_all add: frames_ok_def)

lemma table_okD:
  assumes "bpm_inv L b" and "page_table b pid = Some f"
  shows "f < pool_size b" and "pg_id (pg b f) = pid" and "0 \<le> page_no pid"
    and "f \<notin> set (free_list b)" and "mapped b f"
  using bpm_inv_parts(2) [OF assms(1)] assms(2) by (simp_all add: table_ok_def mapped_def)

lemma free_okD:
  assumes "bpm_inv L b"
  shows "distinct (free_list b)"
    and "f \<in> set (free_list b) \<Longrightarrow> f < pool_size b"
    and "f \<in> set (free_list b) \<Longrightarrow> page_no (pg_id (pg b f)) = INVALID_PAGE_ID"
    and "f \<in> set (free_list b) \<Longrightarrow> \<not> mapped b f"
    and "f \<in> L \<Longrightarrow> f < pool_size b" and "f \<in> L \<Longrightarrow> f \<notin> set (free_list b)"
    and "f \<in> L \<Longrightarrow> \<not> mapped b f"
    and "f < pool_size b \<Longrightarrow> \<not> mapped b f \<Longrightarrow> f \<notin> L \<Longrightarrow> f \<in> set (free_list b)"
  using bpm_inv_parts(2,3) [OF assms] by (auto simp: free_ok_def table_ok_def mapped_def)

lemma lru_okD:
  assumes "bpm_inv L b"
  shows "lru_inv (repl b)" and "max_size (repl b) = pool_size b"
    and "f \<in> set (lru_frames (repl b)) \<Longrightarrow> f < pool_size b"
    and "f \<in> set (lru_frames (repl b)) \<Longrightarrow> pin_count (pg b f) = 0"
    and "f \<in> set (lru_frames (repl b)) \<Longrightarrow>
           mapped b f \<or> page_no (pg_id (pg b f)) = INVALID_PAGE_ID"
    and "f < pool_size b \<Longrightarrow> mapped b f \<Longrightarrow> pin_count (pg b f) = 0 \<Longrightarrow>
           f \<in> set (lru_frames (repl b))"
  using bpm_inv_parts(4) [OF assms] by (simp_all add: lru_ok_def)

lemma sync_okD:
  assumes "bpm_inv L b"
  shows "no_alias (dm b)"
    and "f < pool_size b \<Longrightarrow> is_dirty (pg b f) \<Longrightarrow> mapped b f"
    and "f < pool_size b \<Longrightarrow> is_dirty (pg b f) \<Longrightarrow> fd_open (dm b) (pid_fd (pg_id (pg b f)))"
    and "f < pool_size b \<Longrightarrow> mapped b f \<Longrightarrow> \<not> is_dirty (pg b f) \<Longrightarrow> pin_count (pg b f) = 0 \<Longrightarrow>
           fd_open (dm b) (pid_fd (pg_id (pg b f))) \<Longrightarrow>
           disk_page (dm b) (pg_id (pg b f)) = Some (pg_data (pg b f))"
  using bpm_inv_parts(5) [OF assms] by (simp_all add: sync_ok_def)

lemma table_inj: "bpm_inv L b \<Longrightarrow> page_table b p = Some f \<Longrightarrow> page_table b q = Some f \<Longrightarrow> p = q"
  using table_okD(2) by metis

lemma mapped_page_no: "bpm_inv L b \<Longrightarrow> mapped b f \<Longrightarrow> 0 \<le> page_no (pg_id (pg b f))"
  using table_okD(3) by (simp add: mapped_def)

lemma bpm_inv_new:
  "no_alias d \<Longrightarrow> bpm_inv {} (BufferPoolManager_new junk n d)"
  by (auto simp: bpm_inv_def frames_ok_def table_ok_def free_ok_def lru_ok_def sync_ok_def
      BufferPoolManager_new_def Page_new_def mapped_def lru_inv_new lru_frames_def
      LRUReplacer_new_def)
    (simp add: lru_inv_def)

section \<open>Taking a frame\<close>

text \<open>Which frame \<open>find_victim_page\<close> returns, and when it returns none.\<close>

lemma find_victim_None_iff:
  assumes "bpm_inv {} b"
  shows "fst (find_victim_page b) = None \<longleftrightarrow> (\<forall>f < pool_size b. pin_count (pg b f) \<noteq> 0)"
proof -
  have "fst (find_victim_page b) = None \<longleftrightarrow> free_list b = [] \<and> lru_frames (repl b) = []"
    using lru.victim_None_iff [OF lru_okD(1) [OF assms]]
    by (auto simp: find_victim_page_def split: list.split prod.split)
  also have "\<dots> \<longleftrightarrow> (\<forall>f < pool_size b. pin_count (pg b f) \<noteq> 0)" (is "?l = ?r")
  proof
    assume ?l
    then show ?r using assms by (auto simp: bpm_inv_def free_ok_def lru_ok_def)
  next
    assume r: ?r
    have "f \<notin> set (free_list b)" "f \<notin> set (lru_frames (repl b))" for f
    proof -
      show "f \<notin> set (lru_frames (repl b))" using r lru_okD(3,4) [OF assms] by blast
      show "f \<notin> set (free_list b)" using r free_okD(2,4) [OF assms] frames_okD(4) [OF assms] by blast
    qed
    then show ?l by (metis list.set_intros(1) neq_Nil_conv)
  qed
  finally show ?thesis .
qed

lemma find_victim_Some:
  assumes "bpm_inv L b" and "find_victim_page b = (Some f, b1)"
  obtains fl r where "b1 = b\<lparr>free_list := fl, repl := r\<rparr>" and "lru_inv r"
    and "max_size r = pool_size b" and "set (lru_frames r) - {f} = set (lru_frames (repl b)) - {f}"
    and "distinct fl" and "set fl = set (free_list b) - {f}"
    and "f < pool_size b" and "pin_count (pg b f) = 0"
    and "mapped b f \<or> page_no (pg_id (pg b f)) = INVALID_PAGE_ID"
    and "mapped b f \<Longrightarrow> f \<notin> set (lru_frames r)"
    and "f \<in> set (lru_frames r) \<Longrightarrow> page_no (pg_id (pg b f)) = INVALID_PAGE_ID"
proof (cases "free_list b")
  case (Cons g fs)
  then have b1: "b1 = b\<lparr>free_list := fs, repl := repl b\<rparr>" and g: "g = f"
    using assms(2) by (auto simp: find_victim_page_def)
  have nm: "\<not> mapped b f"
    using Cons g free_okD(4) [OF assms(1)] by simp
  have "f < pool_size b" and "distinct (f # fs)"
    and "page_no (pg_id (pg b f)) = INVALID_PAGE_ID"
    using assms(1) Cons g by (auto simp: bpm_inv_def free_ok_def)
  moreover from this have "pin_count (pg b f) = 0" using nm frames_okD(4) [OF assms(1)] by blast
  ultimately show ?thesis
    by (intro that [OF b1]) (use nm Cons g lru_okD [OF assms(1)] in auto)
next
  case Nil
  obtain r where v: "lru_victim (repl b) = (Some f, r)" and b1: "b1 = b\<lparr>repl := r\<rparr>"
    using assms(2) Nil by (auto simp: find_victim_page_def split: prod.splits)
  note vs = lru.victim_Some [OF lru_okD(1) [OF assms(1)] v]
  have ne: "lru_frames (repl b) = lru_frames r @ [f]"
    using vs by (metis append_butlast_last_id)
  have f: "f \<in> set (lru_frames (repl b))" using vs(3) .
  have b1': "b1 = b\<lparr>free_list := [], repl := r\<rparr>" using b1 Nil by simp
  have "max_size r = pool_size b" using vs(7) lru_okD(2) [OF assms(1)] by simp
  moreover have "set (lru_frames r) - {f} = set (lru_frames (repl b)) - {f}" using ne by auto
  ultimately show ?thesis
    using that [OF b1' vs(6)] vs(5) Nil lru_okD(3-5) [OF assms(1) f] by simp
qed

text \<open>
  The state after \<open>fetch_page\<close> or \<open>new_page\<close> has taken frame \<open>f\<close>, saved its page and dropped it
  from the page table.
\<close>

definition claim :: "frame \<Rightarrow> frame list \<Rightarrow> LRUReplacer \<Rightarrow> disk \<Rightarrow> bpm \<Rightarrow> bpm" where
  "claim f fl r d b = b\<lparr>pages := (pages b)[f := (pg b f)\<lparr>is_dirty := False\<rparr>],
     page_table := (\<lambda>q. if page_table b q = Some f then None else page_table b q),
     free_list := fl, repl := r, dm := d\<rparr>"

lemma claim_simps [simp]:
  "pool_size (claim f fl r d b) = pool_size b" "free_list (claim f fl r d b) = fl"
  "repl (claim f fl r d b) = r" "dm (claim f fl r d b) = d"
  "page_table (claim f fl r d b) q = (if page_table b q = Some f then None else page_table b q)"
  "length (pages (claim f fl r d b)) = length (pages b)"
  by (simp_all add: claim_def)

lemma pg_claim:
  "g < length (pages b) \<Longrightarrow>
     pg (claim f fl r d b) g = (if g = f then (pg b f)\<lparr>is_dirty := False\<rparr> else pg b g)"
  by (simp add: claim_def)

lemma mapped_claim:
  "g < length (pages b) \<Longrightarrow> mapped (claim f fl r d b) g \<longleftrightarrow> g \<noteq> f \<and> mapped b g"
  by (auto simp: mapped_def pg_claim)

lemma claim_inv:
  assumes inv: "bpm_inv L b" and r: "lru_inv r" "max_size r = pool_size b"
    "set (lru_frames r) - {f} = set (lru_frames (repl b)) - {f}"
    and fl: "distinct fl" "set fl = set (free_list b) - {f}"
    and f: "f < pool_size b" "pin_count (pg b f) = 0"
    "f \<in> set (lru_frames r) \<Longrightarrow> page_no (pg_id (pg b f)) = INVALID_PAGE_ID"
    "mapped b f \<or> page_no (pg_id (pg b f)) = INVALID_PAGE_ID"
    and d: "disk_frame (dm b) d"
    "\<And>p bs. p \<noteq> pg_id (pg b f) \<Longrightarrow> disk_page (dm b) p = Some bs \<Longrightarrow> disk_page d p = Some bs"
  shows "bpm_inv (insert f L) (claim f fl r d b)"
proof -
  let ?c = "claim f fl r d b"
  have len: "length (pages b) = pool_size b" using frames_okD(1) [OF inv] .
  note pgc = pg_claim [of _ b f fl r d, unfolded len] and mc = mapped_claim [of _ b f fl r d, unfolded len]
  have "frames_ok ?c"
    using frames_okD [OF inv] f by (simp add: frames_ok_def pgc mc)
  moreover have "table_ok ?c"
    unfolding table_ok_def
  proof (intro allI impI)
    fix pid g assume "page_table ?c pid = Some g"
    then have "g \<noteq> f" and pt: "page_table b pid = Some g" by (auto split: if_splits)
    then show "g < pool_size ?c \<and> pg_id (pg ?c g) = pid \<and> 0 \<le> page_no pid \<and> g \<notin> set (free_list ?c)"
      using table_okD [OF inv pt] fl(2) by (simp add: pgc)
  qed
  moreover have "free_ok (insert f L) ?c"
    unfolding free_ok_def
  proof (intro conjI ballI allI impI)
    fix g
    show "g < pool_size ?c" if "g \<in> set (free_list ?c)" using that free_okD(2) [OF inv] fl by simp
    then show "page_no (pg_id (pg ?c g)) = INVALID_PAGE_ID" if "g \<in> set (free_list ?c)"
      using that free_okD(3) [OF inv] fl by (simp add: pgc)
    show "g < pool_size ?c" if "g \<in> insert f L" using that f(1) free_okD(5) [OF inv] by auto
    then show "\<not> mapped ?c g" if "g \<in> insert f L" using that free_okD(7) [OF inv] by (auto simp: mc)
    show "g \<notin> set (free_list ?c)" if "g \<in> insert f L" using that free_okD(6) [OF inv] fl by auto
    show "g \<in> set (free_list ?c) \<or> mapped ?c g \<or> g \<in> insert f L" if "g < pool_size ?c"
      using that free_okD(8) [OF inv] fl by (auto simp: mc)
  qed (simp add: fl)
  moreover have "lru_ok ?c" unfolding lru_ok_def
  proof (intro conjI ballI allI impI)
    fix g assume g: "g \<in> set (lru_frames (repl ?c))"
    have *: "g = f \<or> g \<in> set (lru_frames (repl b))" using g r(3) by auto
    then show "g < pool_size ?c" using f(1) lru_okD(3) [OF inv] by auto
    then show "pin_count (pg ?c g) = 0"
      and "mapped ?c g \<or> page_no (pg_id (pg ?c g)) = INVALID_PAGE_ID"
      using * g f lru_okD(4,5) [OF inv] by (auto simp: pgc mc)
  next
    fix g assume "g < pool_size ?c" and "mapped ?c g" and "pin_count (pg ?c g) = 0"
    then show "g \<in> set (lru_frames (repl ?c))"
      using r(3) lru_okD(6) [OF inv] by (auto simp: pgc mc)
  qed (simp_all add: r)
  moreover have "sync_ok ?c" unfolding sync_ok_def
  proof (intro conjI allI impI)
    show "no_alias (dm ?c)" using sync_okD(1) [OF inv] disk_frame_alias [OF d(1)] by simp
    fix g assume g: "g < pool_size ?c"
    show "mapped ?c g" "fd_open (dm ?c) (pid_fd (pg_id (pg ?c g)))" if "is_dirty (pg ?c g)"
      using that g sync_okD(2,3) [OF inv] disk_frame_open [OF d(1)]
      by (auto simp: pgc mc split: if_splits)
    assume "mapped ?c g" and "\<not> is_dirty (pg ?c g)" and "pin_count (pg ?c g) = 0"
      and "fd_open (dm ?c) (pid_fd (pg_id (pg ?c g)))"
    then have gf: "g \<noteq> f" and "mapped b g" and "disk_page (dm b) (pg_id (pg b g)) = Some (pg_data (pg b g))"
      using g sync_okD(4) [OF inv, of g] disk_frame_open [OF d(1)] by (auto simp: pgc mc)
    moreover have "pg_id (pg b g) \<noteq> pg_id (pg b f)"
      using gf f(4) \<open>mapped b g\<close> mapped_page_no [OF inv, of g]
      by (auto simp: mapped_def INVALID_PAGE_ID_def)
    ultimately show "disk_page (dm ?c) (pg_id (pg ?c g)) = Some (pg_data (pg ?c g))"
      using d(2) g gf by (simp add: pgc)
  qed
  ultimately show ?thesis by (simp add: bpm_inv_def)
qed

lemma claim_synced:
  assumes inv: "bpm_inv L b" and f: "mapped b f \<or> page_no (pg_id (pg b f)) = INVALID_PAGE_ID"
    and d: "disk_frame (dm b) d"
    "\<And>p bs. p \<noteq> pg_id (pg b f) \<Longrightarrow> disk_page (dm b) p = Some bs \<Longrightarrow> disk_page d p = Some bs"
    and sy: "synced_but F b"
  shows "synced_but F (claim f fl r d b)"
  unfolding synced_but_def
proof (intro allI impI)
  fix q g assume "page_table (claim f fl r d b) q = Some g" and gF: "g \<notin> F"
    and op: "fd_open (dm (claim f fl r d b)) (pid_fd q)"
  then have q: "page_table b q = Some g" "g \<noteq> f" by (auto split: if_splits)
  note t = table_okD [OF inv q(1)]
  have "q \<noteq> pg_id (pg b f)" using f q t(3) by (auto simp: mapped_def INVALID_PAGE_ID_def)
  moreover have "is_dirty (pg b g) \<or> disk_page (dm b) q = Some (pg_data (pg b g))"
    using sy q(1) gF op disk_frame_open [OF d(1)] by (simp add: synced_but_def)
  ultimately show "is_dirty (pg (claim f fl r d b) g) \<or>
      disk_page (dm (claim f fl r d b)) q = Some (pg_data (pg (claim f fl r d b) g))"
    using d(2) q t(1) frames_okD(1) [OF inv] by (auto simp: pg_claim)
qed

lemma evict:
  assumes inv: "bpm_inv L b" and v: "find_victim_page b = (Some f, b1)"
  obtains b2 fl r d where "write_back f b1 = Ok () b2" and "drop_entry f b2 = claim f fl r d b"
    and "bpm_inv (insert f L) (claim f fl r d b)" and "f < pool_size b" and "pin_count (pg b f) = 0"
    and "disk_frame (dm b) d"
    and "\<And>p bs. fd_open (dm b) (pid_fd p) \<Longrightarrow> bpm_view b p = Some bs \<Longrightarrow> bpm_view (claim f fl r d b) p = Some bs"
    and "\<And>F. synced_but F b \<Longrightarrow> synced_but F (claim f fl r d b)"
proof -
  from find_victim_Some [OF inv v] obtain fl r where b1: "b1 = b\<lparr>free_list := fl, repl := r\<rparr>"
    and r: "lru_inv r" "max_size r = pool_size b" "set (lru_frames r) - {f} = set (lru_frames (repl b)) - {f}"
    and fl: "distinct fl" "set fl = set (free_list b) - {f}"
    and f: "f < pool_size b" "pin_count (pg b f) = 0"
      "f \<in> set (lru_frames r) \<Longrightarrow> page_no (pg_id (pg b f)) = INVALID_PAGE_ID"
      "mapped b f \<or> page_no (pg_id (pg b f)) = INVALID_PAGE_ID"
    by metis
  let ?p = "pg_id (pg b f)"
  have len: "f < length (pages b)" using f(1) frames_okD(1) [OF inv] by simp
  obtain d where wb: "write_back f b1 = Ok () (upd_page f (\<lambda>p. p\<lparr>is_dirty := False\<rparr>) (b1\<lparr>dm := d\<rparr>))"
    and fr: "disk_frame (dm b) d"
    and oth: "\<And>p bs. p \<noteq> ?p \<Longrightarrow> disk_page (dm b) p = Some bs \<Longrightarrow> disk_page d p = Some bs"
    and self: "mapped b f \<Longrightarrow> fd_open (dm b) (pid_fd ?p) \<Longrightarrow> disk_page d ?p = Some (pg_data (pg b f))"
  proof (cases "is_dirty (pg b f)")
    case True
    have m: "mapped b f" and o: "fd_open (dm b) (pid_fd ?p)"
      using sync_okD(2,3) [OF inv f(1) True] by auto
    obtain d where d: "write_page (pid_fd ?p) (page_no ?p) (pg_data (pg b f)) PAGE_SIZE (dm b) = Ok () d"
      and "disk_page d (PageId_of (pid_fd ?p) (page_no ?p)) = Some (pg_data (pg b f))"
      and "\<And>p bs. p \<noteq> PageId_of (pid_fd ?p) (page_no ?p) \<Longrightarrow> disk_page (dm b) p = Some bs \<Longrightarrow> disk_page d p = Some bs"
      and "disk_frame (dm b) d"
      using write_page_Ok [OF o mapped_page_no [OF inv m] frames_okD(2) [OF inv f(1)] sync_okD(1) [OF inv]] by blast
    moreover have "write_back f b1 = Ok () (upd_page f (\<lambda>p. p\<lparr>is_dirty := False\<rparr>) (b1\<lparr>dm := d\<rparr>))"
      using True d by (simp add: write_back_def b1)
    ultimately show ?thesis by (intro that [of d]) simp_all
  next
    case False
    then have "(pg b f)\<lparr>is_dirty := False\<rparr> = pg b f" by (cases "pg b f") simp
    then have "(pages b)[f := (pg b f)\<lparr>is_dirty := False\<rparr>] = pages b" by (metis list_update_id)
    then have "write_back f b1 = Ok () (upd_page f (\<lambda>p. p\<lparr>is_dirty := False\<rparr>) (b1\<lparr>dm := dm b\<rparr>))"
      using False by (simp add: write_back_def b1 upd_page_def)
    moreover have "mapped b f \<Longrightarrow> fd_open (dm b) (pid_fd ?p) \<Longrightarrow> disk_page (dm b) ?p = Some (pg_data (pg b f))"
      using sync_okD(4) [OF inv f(1)] False f(2) by blast
    ultimately show ?thesis by (intro that [of "dm b"]) simp_all
  qed
  have pt: "(\<lambda>q. if page_table b q = Some f then None else page_table b q)
      = (if page_no ?p \<noteq> INVALID_PAGE_ID then (page_table b)(?p := None) else page_table b)"
  proof
    fix q
    show "(if page_table b q = Some f then None else page_table b q)
      = (if page_no ?p \<noteq> INVALID_PAGE_ID then (page_table b)(?p := None) else page_table b) q"
    proof (cases "mapped b f")
      case True
      then have "page_table b q = Some f \<longleftrightarrow> q = ?p" and "page_no ?p \<noteq> INVALID_PAGE_ID"
        using table_okD(2) [OF inv, of q f] mapped_page_no [OF inv True]
        by (auto simp: mapped_def INVALID_PAGE_ID_def)
      then show ?thesis by simp
    next
      case False
      then have "page_table b q \<noteq> Some f" using table_okD(5) [OF inv] by blast
      then show ?thesis using f(4) False by simp
    qed
  qed
  have de: "drop_entry f (upd_page f (\<lambda>p. p\<lparr>is_dirty := False\<rparr>) (b1\<lparr>dm := d\<rparr>)) = claim f fl r d b"
    using len by (simp add: drop_entry_def upd_page_def claim_def pt b1)
  have ci: "bpm_inv (insert f L) (claim f fl r d b)"
    using inv r fl f fr oth by (rule claim_inv)
  have view: "bpm_view (claim f fl r d b) p = Some bs"
    if o: "fd_open (dm b) (pid_fd p)" and p: "bpm_view b p = Some bs" for p bs
  proof (cases "page_table b p")
    case None
    then have "p \<noteq> ?p \<or> \<not> mapped b f" by (auto simp: mapped_def)
    moreover have "disk_page (dm b) p = Some bs" using None p by (simp add: bpm_view_def)
    moreover from this have "0 \<le> page_no p" by (auto simp: disk_page_def split: option.splits if_splits)
    ultimately have "disk_page d p = Some bs"
      using oth f(4) by (cases "p = ?p") (auto simp: INVALID_PAGE_ID_def)
    then show ?thesis using None by (simp add: bpm_view_def)
  next
    case (Some g)
    show ?thesis
    proof (cases "g = f")
      case True
      with Some have "?p = p" "mapped b f" using table_okD(2,5) [OF inv Some] by auto
      then show ?thesis using self o p Some True by (simp add: bpm_view_def)
    next
      case False
      then show ?thesis using Some p table_okD(1) [OF inv Some] frames_okD(1) [OF inv]
        by (simp add: bpm_view_def pg_claim)
    qed
  qed
  show ?thesis using that [OF wb de ci f(1,2) fr view claim_synced [OF inv f(4) fr oth]] .
qed

section \<open>Putting a page into a frame\<close>

definition install :: "frame \<Rightarrow> PageId \<Rightarrow> bytes \<Rightarrow> disk \<Rightarrow> bpm \<Rightarrow> bpm" where
  "install f pid bs d b =
     b\<lparr>pages := (pages b)[f := \<lparr>pg_id = pid, pg_data = bs, is_dirty = False, pin_count = 1\<rparr>],
       page_table := (page_table b)(pid \<mapsto> f), repl := lru_pin f (repl b), dm := d\<rparr>"

lemma install_simps [simp]:
  "pool_size (install f pid bs d b) = pool_size b" "free_list (install f pid bs d b) = free_list b"
  "repl (install f pid bs d b) = lru_pin f (repl b)" "dm (install f pid bs d b) = d"
  "page_table (install f pid bs d b) q = (if q = pid then Some f else page_table b q)"
  "length (pages (install f pid bs d b)) = length (pages b)"
  by (simp_all add: install_def)

lemma pg_install:
  "g < length (pages b) \<Longrightarrow> pg (install f pid bs d b) g =
     (if g = f then \<lparr>pg_id = pid, pg_data = bs, is_dirty = False, pin_count = 1\<rparr> else pg b g)"
  by (simp add: install_def)

lemma mapped_install:
  "g < length (pages b) \<Longrightarrow> page_table b pid = None \<Longrightarrow>
     mapped (install f pid bs d b) g \<longleftrightarrow> g = f \<or> mapped b g"
  by (auto simp: mapped_def pg_install)

lemma install_inv:
  assumes inv: "bpm_inv (insert f L) b" and pid: "page_table b pid = None" "0 \<le> page_no pid"
    and bs: "length bs = PAGE_SIZE" and d: "no_alias d" "\<And>x. fd_open d x = fd_open (dm b) x" "\<And>p. disk_page d p = disk_page (dm b) p"
  shows "bpm_inv (L - {f}) (install f pid bs d b)"
proof -
  let ?c = "install f pid bs d b"
  have len: "length (pages b) = pool_size b" using frames_okD(1) [OF inv] .
  note pgi = pg_install [of _ b f pid bs d, unfolded len]
    and mi = mapped_install [of _ b pid f bs d, unfolded len, OF _ pid(1)]
  have f: "f < pool_size b" "f \<notin> set (free_list b)" "\<not> mapped b f"
    using free_okD(5-7) [OF inv] by auto
  have "frames_ok ?c"
    using frames_okD [OF inv] bs by (simp add: frames_ok_def pgi mi)
  moreover have "table_ok ?c" unfolding table_ok_def
  proof (intro allI impI)
    fix q g assume "page_table ?c q = Some g"
    then consider "q = pid" "g = f" | "q \<noteq> pid" "page_table b q = Some g" by (auto split: if_splits)
    then show "g < pool_size ?c \<and> pg_id (pg ?c g) = q \<and> 0 \<le> page_no q \<and> g \<notin> set (free_list ?c)"
    proof cases
      case 2
      then have "g \<noteq> f" using f(3) table_okD(5) [OF inv] by blast
      then show ?thesis using table_okD [OF inv 2(2)] by (simp add: pgi)
    qed (use f pid in \<open>simp add: pgi\<close>)
  qed
  moreover have "free_ok (L - {f}) ?c" unfolding free_ok_def
  proof (intro conjI ballI allI impI)
    fix g
    show "g < pool_size ?c" if "g \<in> set (free_list ?c)" using that free_okD(2) [OF inv] by simp
    then show "page_no (pg_id (pg ?c g)) = INVALID_PAGE_ID" if "g \<in> set (free_list ?c)"
      using that free_okD(3) [OF inv] f(2) by (auto simp: pgi)
    show "g < pool_size ?c" if "g \<in> L - {f}" using that free_okD(5) [OF inv] by auto
    then show "\<not> mapped ?c g" if "g \<in> L - {f}" using that free_okD(7) [OF inv] by (auto simp: mi)
    show "g \<notin> set (free_list ?c)" if "g \<in> L - {f}" using that free_okD(6) [OF inv] by auto
    show "g \<in> set (free_list ?c) \<or> mapped ?c g \<or> g \<in> L - {f}" if "g < pool_size ?c"
      using that free_okD(8) [OF inv] by (auto simp: mi)
  qed (simp add: free_okD(1) [OF inv])
  moreover have "lru_ok ?c" unfolding lru_ok_def
  proof (intro conjI ballI allI impI)
    note pin = lru.set_frames_pin [OF lru_okD(1) [OF inv]]
    show "lru_inv (repl ?c)" using lru.inv_pin [OF lru_okD(1) [OF inv]] by simp
    show "max_size (repl ?c) = pool_size ?c" using lru_okD(2) [OF inv] by (simp add: lru.cap_pin)
    fix g
    { assume g: "g \<in> set (lru_frames (repl ?c))"
      then have *: "g \<noteq> f" "g \<in> set (lru_frames (repl b))" by (auto simp: pin)
      then show "g < pool_size ?c" using lru_okD(3) [OF inv] by auto
      then show "pin_count (pg ?c g) = 0" "mapped ?c g \<or> page_no (pg_id (pg ?c g)) = INVALID_PAGE_ID"
        using * lru_okD(4,5) [OF inv] by (auto simp: pgi mi) }
    assume "g < pool_size ?c" and "mapped ?c g" and "pin_count (pg ?c g) = 0"
    then show "g \<in> set (lru_frames (repl ?c))"
      using lru_okD(6) [OF inv] by (auto simp: pgi mi pin split: if_splits)
  qed
  moreover have "sync_ok ?c" unfolding sync_ok_def
  proof (intro conjI allI impI)
    show "no_alias (dm ?c)" using d(1) by simp
    fix g assume g: "g < pool_size ?c"
    show "mapped ?c g" "fd_open (dm ?c) (pid_fd (pg_id (pg ?c g)))" if "is_dirty (pg ?c g)"
      using that g sync_okD(2,3) [OF inv] d(2)
      by (auto simp: pgi mi split: if_splits)
    assume "mapped ?c g" and "\<not> is_dirty (pg ?c g)" and "pin_count (pg ?c g) = 0"
      and "fd_open (dm ?c) (pid_fd (pg_id (pg ?c g)))"
    then show "disk_page (dm ?c) (pg_id (pg ?c g)) = Some (pg_data (pg ?c g))"
      using g sync_okD(4) [OF inv, of g] d(2,3)
      by (auto simp: pgi mi split: if_splits)
  qed
  ultimately show ?thesis by (simp add: bpm_inv_def)
qed

lemma install_view:
  assumes inv: "bpm_inv (insert f L) b" and pid: "page_table b pid = None" 
    and d: "\<And>p. disk_page d p = disk_page (dm b) p" and q: "q \<noteq> pid"
  shows "bpm_view (install f pid bs d b) q = bpm_view b q"
proof (cases "page_table b q")
  case (Some g)
  then have "g \<noteq> f" "g < length (pages b)"
    using table_okD(1,5) [OF inv Some] free_okD(7) [OF inv, of f] frames_okD(1) [OF inv] by auto
  then show ?thesis using Some q by (simp add: bpm_view_def pg_install)
qed (use q d in \<open>simp add: bpm_view_def\<close>)

lemma install_synced:
  assumes inv: "bpm_inv (insert f L) b" and pid: "page_table b pid = None"
    and d: "\<And>x. fd_open d x = fd_open (dm b) x" "\<And>p. disk_page d p = disk_page (dm b) p"
    and sy: "synced_but F b" and f: "f \<in> F' \<or> disk_page (dm b) pid = Some bs" and F: "F \<subseteq> F'"
  shows "synced_but F' (install f pid bs d b)"
  unfolding synced_but_def
proof (intro allI impI)
  fix q g assume q: "page_table (install f pid bs d b) q = Some g" and gF: "g \<notin> F'"
    and op: "fd_open (dm (install f pid bs d b)) (pid_fd q)"
  have fl: "f < length (pages b)" "\<not> mapped b f" using free_okD(5,7) [OF inv, of f] frames_okD(1) [OF inv] by auto
  show "is_dirty (pg (install f pid bs d b) g) \<or>
      disk_page (dm (install f pid bs d b)) q = Some (pg_data (pg (install f pid bs d b) g))"
  proof (cases "q = pid")
    case True
    then show ?thesis using q f d(2) gF fl by (auto simp: pg_install)
  next
    case False
    then have q': "page_table b q = Some g" using q by simp
    then have "g < length (pages b)" "g \<noteq> f"
      using table_okD(1,5) [OF inv q'] fl(2) frames_okD(1) [OF inv] by auto
    then show ?thesis using sy q' gF F op d by (auto simp: synced_but_def pg_install)
  qed
qed

section \<open>Changing the page of a mapped frame\<close>

definition put_page :: "frame \<Rightarrow> page \<Rightarrow> LRUReplacer \<Rightarrow> disk \<Rightarrow> bpm \<Rightarrow> bpm" where
  "put_page f p r d b = b\<lparr>pages := (pages b)[f := p], repl := r, dm := d\<rparr>"

lemma put_page_simps [simp]:
  "pool_size (put_page f p r d b) = pool_size b" "free_list (put_page f p r d b) = free_list b"
  "repl (put_page f p r d b) = r" "dm (put_page f p r d b) = d"
  "page_table (put_page f p r d b) = page_table b"
  "length (pages (put_page f p r d b)) = length (pages b)"
  by (simp_all add: put_page_def)

lemma pg_put_page:
  "g < length (pages b) \<Longrightarrow> pg (put_page f p r d b) g = (if g = f then p else pg b g)"
  by (simp add: put_page_def)

lemma mapped_put_page:
  "g < length (pages b) \<Longrightarrow> pg_id p = pg_id (pg b f) \<Longrightarrow> mapped (put_page f p r d b) g \<longleftrightarrow> mapped b g"
  by (auto simp: mapped_def pg_put_page)

lemma put_page_inv:
  assumes inv: "bpm_inv L b" and pid: "page_table b pid = Some f"
    and p: "pg_id p = pid" "length (pg_data p) = PAGE_SIZE" "0 \<le> pin_count p"
    and r: "lru_inv r" "max_size r = pool_size b"
      "set (lru_frames r) = (if pin_count p = 0 then insert f else (\<lambda>A. A - {f})) (set (lru_frames (repl b)))"
    and d: "disk_frame (dm b) d"
      "\<And>q bs. q \<noteq> pid \<Longrightarrow> disk_page (dm b) q = Some bs \<Longrightarrow> disk_page d q = Some bs"
    and dirty: "is_dirty p \<Longrightarrow> fd_open (dm b) (pid_fd pid)"
    and clean: "\<not> is_dirty p \<Longrightarrow> pin_count p = 0 \<Longrightarrow> fd_open (dm b) (pid_fd pid) \<Longrightarrow>
                  disk_page d pid = Some (pg_data p)"
  shows "bpm_inv L (put_page f p r d b)"
proof -
  let ?c = "put_page f p r d b"
  have len: "length (pages b) = pool_size b" using frames_okD(1) [OF inv] .
  have f: "f < pool_size b" "pg_id (pg b f) = pid" "f \<notin> set (free_list b)" "mapped b f"
    using table_okD [OF inv pid] by auto
  note pgp = pg_put_page [of _ b f p r d, unfolded len]
    and mp = mapped_put_page [of _ b p f r d, unfolded len f(2), OF _ p(1)]
  have "frames_ok ?c"
    using frames_okD [OF inv] p f by (simp add: frames_ok_def pgp mp)
  moreover have "table_ok ?c" unfolding table_ok_def
  proof (intro allI impI)
    fix q g assume "page_table ?c q = Some g"
    then have q: "page_table b q = Some g" by simp
    moreover have "g = f \<Longrightarrow> q = pid" using q f(2) table_okD(2) [OF inv] by blast
    ultimately show "g < pool_size ?c \<and> pg_id (pg ?c g) = q \<and> 0 \<le> page_no q \<and> g \<notin> set (free_list ?c)"
      using table_okD [OF inv q] p by (auto simp: pgp)
  qed
  moreover have "free_ok L ?c" unfolding free_ok_def
  proof (intro conjI ballI allI impI)
    fix g
    show "g < pool_size ?c" if "g \<in> set (free_list ?c)" using that free_okD(2) [OF inv] by simp
    then show "page_no (pg_id (pg ?c g)) = INVALID_PAGE_ID" if "g \<in> set (free_list ?c)"
      using that free_okD(3) [OF inv] f(3) by (auto simp: pgp)
    show "g < pool_size ?c" if "g \<in> L" using that free_okD(5) [OF inv] by auto
    then show "\<not> mapped ?c g" if "g \<in> L" using that free_okD(7) [OF inv] by (auto simp: mp)
    show "g \<notin> set (free_list ?c)" if "g \<in> L" using that free_okD(6) [OF inv] by auto
    show "g \<in> set (free_list ?c) \<or> mapped ?c g \<or> g \<in> L" if "g < pool_size ?c"
      using that free_okD(8) [OF inv] by (auto simp: mp)
  qed (simp add: free_okD(1) [OF inv])
  moreover have "lru_ok ?c" unfolding lru_ok_def
  proof (intro conjI ballI allI impI)
    fix g
    { assume "g \<in> set (lru_frames (repl ?c))"
      then have *: "g = f \<and> pin_count p = 0 \<or> g \<noteq> f \<and> g \<in> set (lru_frames (repl b))"
        using r(3) by (auto split: if_splits)
      then show "g < pool_size ?c" using lru_okD(3) [OF inv] f(1) by auto
      then show "pin_count (pg ?c g) = 0" "mapped ?c g \<or> page_no (pg_id (pg ?c g)) = INVALID_PAGE_ID"
        using * lru_okD(4,5) [OF inv] f(4) by (auto simp: pgp mp) }
    assume "g < pool_size ?c" and "mapped ?c g" and "pin_count (pg ?c g) = 0"
    then show "g \<in> set (lru_frames (repl ?c))"
      using lru_okD(6) [OF inv] r(3) by (auto simp: pgp mp split: if_splits)
  qed (simp_all add: r)
  moreover have "sync_ok ?c" unfolding sync_ok_def
  proof (intro conjI allI impI)
    show "no_alias (dm ?c)" using sync_okD(1) [OF inv] disk_frame_alias [OF d(1)] by simp
    fix g assume g: "g < pool_size ?c"
    show "mapped ?c g" "fd_open (dm ?c) (pid_fd (pg_id (pg ?c g)))" if "is_dirty (pg ?c g)"
      using that g sync_okD(2,3) [OF inv] disk_frame_open [OF d(1)] f(4) dirty p(1)
      by (auto simp: pgp mp split: if_splits)
    assume *: "mapped ?c g" "\<not> is_dirty (pg ?c g)" "pin_count (pg ?c g) = 0"
      "fd_open (dm ?c) (pid_fd (pg_id (pg ?c g)))"
    show "disk_page (dm ?c) (pg_id (pg ?c g)) = Some (pg_data (pg ?c g))"
    proof (cases "g = f")
      case True
      then show ?thesis using * g clean p(1) disk_frame_open [OF d(1)] by (simp add: pgp)
    next
      case False
      then have m: "mapped b g" using * g by (simp add: mp)
      then have "pg_id (pg b g) \<noteq> pid" using pid False by (auto simp: mapped_def)
      then show ?thesis
        using * g False m sync_okD(4) [OF inv, of g] d(2) disk_frame_open [OF d(1)] by (simp add: pgp)
    qed
  qed
  ultimately show ?thesis by (simp add: bpm_inv_def)
qed

lemma put_page_view:
  assumes inv: "bpm_inv L b" and pid: "page_table b pid = Some f"
    and d: "\<And>q bs. q \<noteq> pid \<Longrightarrow> disk_page (dm b) q = Some bs \<Longrightarrow> disk_page d q = Some bs"
  shows "bpm_view (put_page f p r d b) pid = Some (pg_data p)"
    and "q \<noteq> pid \<Longrightarrow> bpm_view b q = Some bs \<Longrightarrow> bpm_view (put_page f p r d b) q = Some bs"
proof -
  have len: "f < length (pages b)" using table_okD(1) [OF inv pid] frames_okD(1) [OF inv] by simp
  then show "bpm_view (put_page f p r d b) pid = Some (pg_data p)"
    using pid by (simp add: bpm_view_def pg_put_page)
  assume q: "q \<noteq> pid" "bpm_view b q = Some bs"
  show "bpm_view (put_page f p r d b) q = Some bs"
  proof (cases "page_table b q")
    case (Some g)
    then have "g \<noteq> f" "g < length (pages b)"
      using table_inj [OF inv pid] q table_okD(1) [OF inv Some] frames_okD(1) [OF inv] by auto
    then show ?thesis using Some q by (simp add: bpm_view_def pg_put_page)
  qed (use q d in \<open>simp add: bpm_view_def\<close>)
qed

lemma put_page_synced:
  assumes inv: "bpm_inv L b" and pid: "page_table b pid = Some f"
    and d: "\<And>x. fd_open d x = fd_open (dm b) x"
      "\<And>q bs. q \<noteq> pid \<Longrightarrow> disk_page (dm b) q = Some bs \<Longrightarrow> disk_page d q = Some bs"
    and sy: "synced_but F b" and p: "f \<in> F' \<or> is_dirty p \<or> disk_page d pid = Some (pg_data p) \<or> \<not> fd_open (dm b) (pid_fd pid)"
    and F: "F \<subseteq> insert f F'"
  shows "synced_but F' (put_page f p r d b)"
  unfolding synced_but_def
proof (intro allI impI)
  fix q g assume q: "page_table (put_page f p r d b) q = Some g" and gF: "g \<notin> F'"
    and op: "fd_open (dm (put_page f p r d b)) (pid_fd q)"
  have q': "page_table b q = Some g" using q by simp
  have g: "g < length (pages b)" using table_okD(1) [OF inv q'] frames_okD(1) [OF inv] by simp
  show "is_dirty (pg (put_page f p r d b) g) \<or>
      disk_page (dm (put_page f p r d b)) q = Some (pg_data (pg (put_page f p r d b) g))"
  proof (cases "g = f")
    case True
    then have "q = pid" using table_inj [OF inv pid] q' by simp
    then show ?thesis using True p g gF op d(1) by (auto simp: pg_put_page)
  next
    case False
    then have "q \<noteq> pid" using q' pid by auto
    moreover have "is_dirty (pg b g) \<or> disk_page (dm b) q = Some (pg_data (pg b g))"
      using sy q' gF F op d(1) False by (auto simp: synced_but_def)
    ultimately show ?thesis using False g d(2) by (auto simp: pg_put_page)
  qed
qed

section \<open>fetch_page\<close>

text \<open>
  \<open>settled L b b'\<close>: a step from \<open>b\<close> to \<open>b'\<close> that keeps the invariant, the contents of every page
  of an open file, and the frames of pinned pages.
\<close>

definition view_kept :: "bpm \<Rightarrow> bpm \<Rightarrow> bool" where
  "view_kept b b' \<longleftrightarrow>
     (\<forall>q bs. fd_open (dm b) (pid_fd q) \<longrightarrow> bpm_view b q = Some bs \<longrightarrow> bpm_view b' q = Some bs)"

definition pins_kept :: "bpm \<Rightarrow> bpm \<Rightarrow> bool" where
  "pins_kept b b' \<longleftrightarrow>
     (\<forall>q g. page_table b q = Some g \<longrightarrow> 0 < pin_count (pg b g) \<longrightarrow>
        page_table b' q = Some g \<and> pg_data (pg b' g) = pg_data (pg b g) \<and>
        pin_count (pg b g) \<le> pin_count (pg b' g) \<and> (is_dirty (pg b g) \<longrightarrow> is_dirty (pg b' g)))"

lemma view_kept_refl [simp]: "view_kept b b" by (simp add: view_kept_def)
lemma pins_kept_refl [simp]: "pins_kept b b" by (simp add: pins_kept_def)

lemma find_victim_None: "bpm_inv L b \<Longrightarrow> find_victim_page b = (None, b1) \<Longrightarrow> b1 = b"
  using lru.victim_empty [OF lru_okD(1), of L b] lru.victim_None_iff [OF lru_okD(1), of L b]
  by (auto simp: find_victim_page_def split: list.splits prod.splits)

lemma pins_claim:
  assumes inv: "bpm_inv L b" and f: "pin_count (pg b f) = 0"
  shows "pins_kept b (claim f fl r d b)"
proof -
  have "q < length (pages b)" if "page_table b p = Some q" for p q
    using table_okD(1) [OF inv that] frames_okD(1) [OF inv] by simp
  then show ?thesis using f by (auto simp: pins_kept_def pg_claim)
qed

lemma pins_install:
  assumes inv: "bpm_inv (insert f L) b" and pid: "page_table b pid = None"
  shows "pins_kept b (install f pid bs d b)"
proof -
  have "q < length (pages b) \<and> q \<noteq> f \<and> p \<noteq> pid" if "page_table b p = Some q" for p q
    using table_okD(1,5) [OF inv that] frames_okD(1) [OF inv] free_okD(7) [OF inv] that pid by auto
  then show ?thesis by (simp add: pins_kept_def pg_install)
qed

lemma pins_kept_trans: "pins_kept a b \<Longrightarrow> pins_kept b c \<Longrightarrow> pins_kept a c"
  unfolding pins_kept_def
proof (intro allI impI)
  fix q g
  assume ab: "\<forall>q g. page_table a q = Some g \<longrightarrow> 0 < pin_count (pg a g) \<longrightarrow>
        page_table b q = Some g \<and> pg_data (pg b g) = pg_data (pg a g) \<and>
        pin_count (pg a g) \<le> pin_count (pg b g) \<and> (is_dirty (pg a g) \<longrightarrow> is_dirty (pg b g))"
    and bc: "\<forall>q g. page_table b q = Some g \<longrightarrow> 0 < pin_count (pg b g) \<longrightarrow>
        page_table c q = Some g \<and> pg_data (pg c g) = pg_data (pg b g) \<and>
        pin_count (pg b g) \<le> pin_count (pg c g) \<and> (is_dirty (pg b g) \<longrightarrow> is_dirty (pg c g))"
    and g: "page_table a q = Some g" "0 < pin_count (pg a g)"
  note 1 = ab [rule_format, OF g]
  then have "page_table b q = Some g" "0 < pin_count (pg b g)" using g(2) by auto
  note 2 = bc [rule_format, OF this]
  from 1 2 show "page_table c q = Some g \<and> pg_data (pg c g) = pg_data (pg a g) \<and>
        pin_count (pg a g) \<le> pin_count (pg c g) \<and> (is_dirty (pg a g) \<longrightarrow> is_dirty (pg c g))" by simp
qed

lemma disk_view:
  "bpm_inv L b \<Longrightarrow> page_table b pid = None \<Longrightarrow> bpm_view b pid = disk_page (dm b) pid"
  by (simp add: bpm_view_def)

lemma disk_page_open: "disk_page d p = Some bs \<Longrightarrow> fd_open d (pid_fd p)"
  by (auto simp: disk_page_def fd_open_def split: option.splits)

lemma disk_page_no: "disk_page d p = Some bs \<Longrightarrow> 0 \<le> page_no p"
  by (auto simp: disk_page_def split: option.splits if_splits)

lemma disk_page_length: "disk_page d p = Some bs \<Longrightarrow> length bs = PAGE_SIZE"
  by (auto simp: disk_page_def split: option.splits if_splits)

text \<open>The two ways \<open>fetch_page\<close> finds the page, and what they change.\<close>

lemma fetch_page_hit:
  "page_table b pid = Some f \<Longrightarrow> fetch_page pid b =
     Ok (Some f) (put_page f ((pg b f)\<lparr>pin_count := pin_count (pg b f) + 1\<rparr>) (lru_pin f (repl b)) (dm b) b)"
  by (simp add: fetch_page_def put_page_def upd_page_def)

lemma scribble_inv:
  assumes inv: "bpm_inv L b" and f: "f \<in> L" and buf: "length buf = PAGE_SIZE" and sim: "disk_sim (dm b) d"
  shows "bpm_inv L (upd_page f (\<lambda>p. p\<lparr>pg_data := buf\<rparr>) (b\<lparr>dm := d\<rparr>))" (is "bpm_inv L ?c")
proof -
  have f': "f < pool_size b" "\<not> mapped b f" using free_okD(5,7) [OF inv f] .
  have len: "length (pages b) = pool_size b" using frames_okD(1) [OF inv] .
  have pgc: "pg ?c g = (if g = f then (pg b f)\<lparr>pg_data := buf\<rparr> else pg b g)" if "g < pool_size b" for g
    using that len by (simp add: upd_page_def)
  have c: "pool_size ?c = pool_size b" "page_table ?c = page_table b" "free_list ?c = free_list b"
    "repl ?c = repl b" "dm ?c = d" "length (pages ?c) = length (pages b)" by (simp_all add: upd_page_def)
  have mc: "mapped ?c g \<longleftrightarrow> mapped b g" if "g < pool_size b" for g
    using that by (simp add: mapped_def pgc c)
  have "frames_ok ?c" using frames_okD [OF inv] f' buf by (simp add: frames_ok_def pgc mc c)
  moreover have "table_ok ?c" unfolding table_ok_def c
    using table_okD [OF inv] by (auto simp: pgc)
  moreover have "free_ok L ?c" unfolding free_ok_def c
    using bpm_inv_parts(3) [OF inv] by (auto simp: free_ok_def pgc mc)
  moreover have "lru_ok ?c" unfolding lru_ok_def c
    using bpm_inv_parts(4) [OF inv] by (auto simp: lru_ok_def pgc mc)
  moreover have "sync_ok ?c" unfolding sync_ok_def c disk_sim_open [OF sim] disk_sim_page [OF sim] disk_sim_alias [OF sim]
    using bpm_inv_parts(5) [OF inv] f'(2) by (auto simp: sync_ok_def pgc mc)
  ultimately show ?thesis by (simp add: bpm_inv_def)
qed

text \<open>
  A page that is not cached and a frame to take: the page is read, or the exception leaves the
  invariant with one more lost frame.
\<close>

lemma fetch_page_miss:
  assumes inv: "bpm_inv L b" and miss: "page_table b pid = None"
    and v: "find_victim_page b = (Some f, b1)"
  obtains
    (read) b' bs where "fetch_page pid b = Ok (Some f) b'"
      and "page_table b' pid = Some f"
      and "pg b' f = \<lparr>pg_id = pid, pg_data = bs, is_dirty = False, pin_count = 1\<rparr>"
      and "bpm_inv (L - {f}) b'" and "view_kept b b'" and "pins_kept b b'"
      and "disk_frame (dm b) (dm b')" and "disk_page (dm b) pid \<in> {None, Some bs}"
      and "f < pool_size b" and "pin_count (pg b f) = 0" and "synced_but {} b \<Longrightarrow> synced_but {} b'"
      and "\<And>q. q \<noteq> pid \<Longrightarrow> page_table b q = None \<Longrightarrow> page_table b' q = None"
  | (throw) b' e where "fetch_page pid b = Err (Throw e) b'" and "bpm_inv (insert f L) b'"
      and "disk_page (dm b) pid = None" and "view_kept b b'" and "pins_kept b b'"
      and "disk_frame (dm b) (dm b')" and "f < pool_size b" and "pin_count (pg b f) = 0"
proof -
  obtain b2 fl r d where wb: "write_back f b1 = Ok () b2" "drop_entry f b2 = claim f fl r d b"
    and ci: "bpm_inv (insert f L) (claim f fl r d b)"
    and f: "f < pool_size b" "pin_count (pg b f) = 0" and fr: "disk_frame (dm b) d"
    and view: "\<And>p bs. fd_open (dm b) (pid_fd p) \<Longrightarrow> bpm_view b p = Some bs \<Longrightarrow>
                 bpm_view (claim f fl r d b) p = Some bs"
    and syc: "synced_but {} b \<Longrightarrow> synced_but {} (claim f fl r d b)"
    by (rule evict [OF inv v]) (blast)
  let ?c = "claim f fl r d b" and ?id = "PageId_of (pid_fd pid) (page_no pid)"
  let ?rd = "read_page (pid_fd pid) (page_no pid) (pg_data (pg ?c f)) PAGE_SIZE d"
  have miss': "page_table ?c pid = None" using miss by simp
  have len: "f < length (pages b)" using frames_okD(1) [OF inv] f by simp
  then have bl: "length (pg_data (pg ?c f)) = PAGE_SIZE"
    using frames_okD(2) [OF inv f(1)] by (simp add: pg_claim)
  have dp: "disk_page d pid = Some bs" if "disk_page (dm b) pid = Some bs" for bs
    using view [OF disk_page_open [OF that], of bs] that disk_view [OF inv miss] disk_view [OF ci miss']
    by simp
  show ?thesis
  proof (cases "disk_page d ?id")
    case (Some bs)
    from read_page_Ok [OF Some bl] obtain d' where rd: "?rd = (bs, Ok () d')" and sim: "disk_sim d d'"
      by blast
    let ?i = "install f pid bs d' ?c"
    have eq: "fetch_page pid b = Ok (Some f) ?i"
      using miss v wb rd by (simp add: fetch_page_def install_def upd_page_def Let_def)
    have bs: "disk_page d pid = Some bs" using Some by simp
    have "bpm_inv (insert f (L - {f})) ?c" using ci by simp
    then have inv': "bpm_inv (L - {f} - {f}) ?i"
      using miss' disk_page_no [OF bs] disk_page_length [OF bs] disk_sim_page [OF sim]
        disk_sim_open [OF sim] disk_sim_alias [OF sim] sync_okD(1) [OF ci]
      by (intro install_inv) simp_all
    have vi: "view_kept b ?i" unfolding view_kept_def
    proof (intro allI impI)
      fix q cs assume q: "fd_open (dm b) (pid_fd q)" "bpm_view b q = Some cs"
      show "bpm_view ?i q = Some cs"
      proof (cases "q = pid")
        case True
        then have "cs = bs" using q dp bs disk_view [OF inv miss] by simp
        then show ?thesis using True len by (simp add: bpm_view_def pg_install)
      next
        case False
        then show ?thesis using install_view [OF ci miss'] view [OF q] disk_sim_page [OF sim] by simp
      qed
    qed
    have pi: "pins_kept b ?i"
      using pins_claim [OF inv f(2)] pins_install [OF ci miss'] pins_kept_trans by blast
    have di: "disk_frame (dm b) (dm ?i)"
      using disk_frame_trans [OF fr disk_sim_frame [OF sim]] by simp
    have "disk_page (dm b) pid \<in> {None, Some bs}" using dp bs by (cases "disk_page (dm b) pid") auto
    moreover have "synced_but {} ?i" if "synced_but {} b"
      by (rule install_synced [OF ci miss' _ _ syc [OF that]])
        (use disk_sim_open [OF sim] disk_sim_page [OF sim] bs in auto)
    moreover have "page_table ?i q = None" if "q \<noteq> pid" "page_table b q = None" for q
      using that by simp
    ultimately show ?thesis using read [OF eq _ _ _ vi pi di] inv' f len by (simp add: pg_install)
  next
    case None
    from read_page_Err [OF this bl] obtain buf x d' where rd: "?rd = (buf, Err (Throw x) d')"
      and sim: "disk_sim d d'" and buf: "length buf = PAGE_SIZE" by metis
    let ?b = "upd_page f (\<lambda>p. p\<lparr>pg_data := buf\<rparr>) (?c\<lparr>dm := d'\<rparr>)"
    have eq: "fetch_page pid b = Err (Throw x) ?b"
      using miss v wb rd by (simp add: fetch_page_def Let_def)
    have inv': "bpm_inv (insert f L) ?b"
      using ci buf sim by (intro scribble_inv) simp_all
    have other: "g \<noteq> f \<and> g < length (pages b)" if "page_table ?c q = Some g" for q g
      using that table_okD(1) [OF inv, of q g] frames_okD(1) [OF inv] by (auto split: if_splits)
    have same: "pg ?b g = pg ?c g" if "page_table ?c q = Some g" for q g
      using other [OF that] by (simp add: upd_page_def)
    have pt: "page_table ?b = page_table ?c" and dmb: "dm ?b = d'" by (simp_all add: upd_page_def)
    have "bpm_view ?b q = bpm_view ?c q" for q
      using disk_sim_page [OF sim] same [of q]
      by (cases "page_table ?c q") (simp_all only: bpm_view_def pt dmb option.case claim_simps)
    then have vi: "view_kept b ?b" using view by (simp add: view_kept_def)
    have "pins_kept ?c ?b" using same pt by (simp add: pins_kept_def)
    then have pi: "pins_kept b ?b" using pins_claim [OF inv f(2)] pins_kept_trans by blast
    have di: "disk_frame (dm b) (dm ?b)"
      using disk_frame_trans [OF fr disk_sim_frame [OF sim]] by (simp add: upd_page_def)
    have "disk_page (dm b) pid = None" using dp None by (cases "disk_page (dm b) pid") auto
    then show ?thesis using throw [OF eq inv' _ vi pi di f] by simp
  qed
qed

lemma pins_hit:
  assumes inv: "bpm_inv L b" and hit: "page_table b pid = Some f"
  shows "pins_kept b (put_page f ((pg b f)\<lparr>pin_count := pin_count (pg b f) + 1\<rparr>) r d b)"
proof -
  have "g < length (pages b)" if "page_table b q = Some g" for q g
    using table_okD(1) [OF inv that] frames_okD(1) [OF inv] by simp
  then show ?thesis by (simp add: pins_kept_def pg_put_page)
qed

lemma fetch_hit_inv:
  assumes inv: "bpm_inv L b" and hit: "page_table b pid = Some f"
  shows "bpm_inv L (put_page f ((pg b f)\<lparr>pin_count := pin_count (pg b f) + 1\<rparr>) (lru_pin f (repl b)) (dm b) b)"
proof -
  note t = table_okD [OF inv hit]
  have "0 \<le> pin_count (pg b f)" using frames_okD(3) [OF inv t(1)] .
  moreover have "set (lru_frames (lru_pin f (repl b))) = set (lru_frames (repl b)) - {f}"
    using lru.set_frames_pin [OF lru_okD(1) [OF inv]] .
  moreover have "is_dirty (pg b f) \<Longrightarrow> fd_open (dm b) (pid_fd pid)"
    using sync_okD(3) [OF inv t(1)] t(2) by simp
  ultimately show ?thesis
    using t frames_okD(2) [OF inv t(1)] lru.inv_pin [OF lru_okD(1) [OF inv]] lru_okD(2) [OF inv]
    by (intro put_page_inv [OF inv hit]) (simp_all add: lru.cap_pin)
qed

lemma fetch_hit_view:
  assumes inv: "bpm_inv L b" and hit: "page_table b pid = Some f"
  shows "view_kept b (put_page f ((pg b f)\<lparr>pin_count := pin_count (pg b f) + 1\<rparr>) r (dm b) b)"
  unfolding view_kept_def
proof (intro allI impI)
  fix q bs assume "bpm_view b q = Some bs"
  then show "bpm_view (put_page f ((pg b f)\<lparr>pin_count := pin_count (pg b f) + 1\<rparr>) r (dm b) b) q = Some bs"
    using put_page_view [OF inv hit, of "dm b"] hit by (cases "q = pid") (auto simp: bpm_view_def)
qed

text \<open>Every call of \<open>fetch_page\<close>.\<close>

lemma fetch_page_cases:
  assumes inv: "bpm_inv L b"
  obtains
    (full) "fetch_page pid b = Ok None b" "page_table b pid = None" "fst (find_victim_page b) = None"
  | (got) f b' L' where "fetch_page pid b = Ok (Some f) b'" "bpm_inv L' b'" "L' \<subseteq> L"
      "page_table b' pid = Some f" "bpm_view b pid \<in> {None, Some (pg_data (pg b' f))}"
      "pin_count (pg b' f) = (if page_table b pid = None then 1 else pin_count (pg b f) + 1)"
      "view_kept b b'" "pins_kept b b'" "disk_frame (dm b) (dm b')"
      "synced_but {} b \<Longrightarrow> synced_but {} b'" "\<And>q. q \<noteq> pid \<Longrightarrow> page_table b q = None \<Longrightarrow> page_table b' q = None"
  | (lost) f b' e where "fetch_page pid b = Err (Throw e) b'" "bpm_inv (insert f L) b'"
      "f < pool_size b" "bpm_view b pid = None" "view_kept b b'" "pins_kept b b'"
      "disk_frame (dm b) (dm b')"
proof (cases "page_table b pid")
  case (Some f)
  have len: "f < length (pages b)" using table_okD(1) [OF inv Some] frames_okD(1) [OF inv] by simp
  let ?b = "put_page f ((pg b f)\<lparr>pin_count := pin_count (pg b f) + 1\<rparr>) (lru_pin f (repl b)) (dm b) b"
  have "synced_but {} ?b" if sy: "synced_but {} b"
    by (rule put_page_synced [OF inv Some _ _ sy])
      (use sy Some in \<open>auto simp: synced_but_def\<close>)
  then show ?thesis
    using got [OF fetch_page_hit [OF Some] fetch_hit_inv [OF inv Some]] Some len
      fetch_hit_view [OF inv Some] pins_hit [OF inv Some]
    by (simp add: pg_put_page bpm_view_def)
next
  case None
  note view = disk_view [OF inv None]
  obtain fo b1 where v: "find_victim_page b = (fo, b1)" by force
  show ?thesis
  proof (cases fo)
    case None': None
    then have "b1 = b" using v find_victim_None [OF inv] by simp
    then show ?thesis using full v None None' by (simp add: fetch_page_def)
  next
    case (Some f)
    from inv None v [unfolded Some] show ?thesis
    proof (cases rule: fetch_page_miss)
      case (read b' bs)
      then show ?thesis using got [of f b' "L - {f}"] None view by auto
    next
      case (throw b' e)
      then show ?thesis using lost [of e b' f] view by simp
    qed
  qed
qed

section \<open>unpin_page, page writes and flush_page\<close>

text \<open>
  The client's side of the contract of \<open>unpin_page\<close>: a page of an open file is given back dirty,
  or was dirty already, or was not changed.
\<close>

definition unpin_ok :: "PageId \<Rightarrow> bool \<Rightarrow> bpm \<Rightarrow> bool" where
  "unpin_ok pid dirty b \<longleftrightarrow>
     (case page_table b pid of
        None \<Rightarrow> True
      | Some f \<Rightarrow> fd_open (dm b) (pid_fd pid) \<and>
          (dirty \<or> is_dirty (pg b f) \<or> disk_page (dm b) pid = Some (pg_data (pg b f))))"

lemma unpin_page_eq:
  assumes inv: "bpm_inv L b" and pt: "page_table b pid = Some f" and pin: "0 < pin_count (pg b f)"
  shows "unpin_page pid dirty b = (True,
     put_page f ((pg b f)\<lparr>pin_count := pin_count (pg b f) - 1, is_dirty := is_dirty (pg b f) \<or> dirty\<rparr>)
       (if pin_count (pg b f) = 1 then lru_unpin f (repl b) else repl b) (dm b) b)"
proof -
  have "f < length (pages b)" using table_okD(1) [OF inv pt] frames_okD(1) [OF inv] by simp
  then show ?thesis using pt pin
    by (cases b; cases "pages b ! f") (simp add: unpin_page_def put_page_def upd_page_def Let_def)
qed

lemma unpin_page_inv:
  assumes inv: "bpm_inv L b" and ok: "unpin_ok pid dirty b"
  shows "bpm_inv L (snd (unpin_page pid dirty b))"
proof (cases "page_table b pid")
  case None
  then show ?thesis using inv by (simp add: unpin_page_def)
next
  case (Some f)
  note t = table_okD [OF inv Some] and l = lru_okD [OF inv]
  show ?thesis
  proof (cases "0 < pin_count (pg b f)")
    case False
    then show ?thesis using inv Some by (simp add: unpin_page_def)
  next
    case True
    let ?r = "if pin_count (pg b f) = 1 then lru_unpin f (repl b) else repl b"
    have fr: "f \<notin> set (lru_frames (repl b))" using True l(4) by force
    have "set (lru_frames (repl b)) \<subseteq> {..<max_size (repl b)}" using l(2,3) by auto
    then have "f \<in> set (lru_frames (lru_unpin f (repl b)))"
      using lru.unpin_tracks [OF l(1)] t(1) l(2) by simp
    then have "set (lru_frames (lru_unpin f (repl b))) = insert f (set (lru_frames (repl b)))"
      using lru.frames_unpin [OF l(1), of f] by (auto split: if_splits)
    then have "bpm_inv L (put_page f
        ((pg b f)\<lparr>pin_count := pin_count (pg b f) - 1, is_dirty := is_dirty (pg b f) \<or> dirty\<rparr>) ?r (dm b) b)"
      using t True fr ok Some frames_okD(2) [OF inv t(1)] l(1,2) lru.inv_unpin [OF l(1), of f]
      by (intro put_page_inv [OF inv Some]) (auto simp: unpin_ok_def lru.cap_unpin)
    then show ?thesis by (simp add: unpin_page_eq [OF inv Some True])
  qed
qed

lemma unpin_page_view:
  assumes inv: "bpm_inv L b"
  shows "bpm_view (snd (unpin_page pid dirty b)) q = bpm_view b q"
proof (cases "page_table b pid")
  case (Some f)
  show ?thesis
  proof (cases "0 < pin_count (pg b f)")
    case True
    then show ?thesis
      using unpin_page_eq [OF inv Some True] table_okD(1) [OF inv] frames_okD(1) [OF inv]
      by (auto simp: bpm_view_def pg_put_page split: option.split)
  qed (use Some in \<open>simp add: unpin_page_def\<close>)
qed (simp add: unpin_page_def)

lemma page_write_put:
  "page_write f off bs b = put_page f ((pg b f)\<lparr>pg_data := mem_write (pg_data (pg b f)) off bs\<rparr>) (repl b) (dm b) b"
  by (simp add: page_write_def upd_page_def put_page_def)

lemma mark_dirty_put:
  "mark_dirty f b = put_page f ((pg b f)\<lparr>is_dirty := True\<rparr>) (repl b) (dm b) b"
  by (simp add: mark_dirty_def upd_page_def put_page_def)

lemma lru_pinned:
  assumes inv: "bpm_inv L b" and pt: "page_table b pid = Some f"
  shows "set (lru_frames (repl b)) =
    (if pin_count (pg b f) = 0 then insert f else (\<lambda>A. A - {f})) (set (lru_frames (repl b)))"
  using lru_okD(4,6) [OF inv] table_okD(1,5) [OF inv pt] by auto

text \<open>Writing into a page is safe while the page is pinned or already dirty.\<close>

lemma page_write_inv:
  assumes inv: "bpm_inv L b" and pt: "page_table b pid = Some f"
    and use: "0 < pin_count (pg b f) \<or> is_dirty (pg b f)" and off: "off \<le> PAGE_SIZE"
  shows "bpm_inv L (page_write f off bs b)"
proof -
  note t = table_okD [OF inv pt]
  show ?thesis unfolding page_write_put
    using t off use frames_okD(2,3) [OF inv t(1)] lru_okD(1,2) [OF inv] sync_okD(3) [OF inv t(1)] lru_pinned [OF inv pt]
    by (intro put_page_inv [OF inv pt]) simp_all
qed

lemma mark_dirty_inv:
  assumes inv: "bpm_inv L b" and pt: "page_table b pid = Some f" and op: "fd_open (dm b) (pid_fd pid)"
  shows "bpm_inv L (mark_dirty f b)"
proof -
  note t = table_okD [OF inv pt]
  show ?thesis unfolding mark_dirty_put
    using t op frames_okD(2,3) [OF inv t(1)] lru_okD(1,2) [OF inv] lru_pinned [OF inv pt]
    by (intro put_page_inv [OF inv pt]) simp_all
qed

lemma flush_page_cached:
  assumes inv: "bpm_inv L b" and pt: "page_table b pid = Some f" and op: "fd_open (dm b) (pid_fd pid)"
  obtains d where "flush_page pid b = Ok True (put_page f ((pg b f)\<lparr>is_dirty := False\<rparr>) (repl b) d b)"
    and "disk_page d pid = Some (pg_data (pg b f))" and "disk_frame (dm b) d"
    and "\<And>q bs. q \<noteq> pid \<Longrightarrow> disk_page (dm b) q = Some bs \<Longrightarrow> disk_page d q = Some bs"
    and "bpm_inv L (put_page f ((pg b f)\<lparr>is_dirty := False\<rparr>) (repl b) d b)"
proof -
  note t = table_okD [OF inv pt]
  obtain d where w: "write_page (pid_fd pid) (page_no pid) (pg_data (pg b f)) PAGE_SIZE (dm b) = Ok () d"
    and d: "disk_page d (PageId_of (pid_fd pid) (page_no pid)) = Some (pg_data (pg b f))"
      "\<And>q bs. q \<noteq> PageId_of (pid_fd pid) (page_no pid) \<Longrightarrow> disk_page (dm b) q = Some bs \<Longrightarrow> disk_page d q = Some bs"
      "disk_frame (dm b) d"
    using write_page_Ok [OF op t(3) frames_okD(2) [OF inv t(1)] sync_okD(1) [OF inv]] by blast
  have eq: "flush_page pid b = Ok True (put_page f ((pg b f)\<lparr>is_dirty := False\<rparr>) (repl b) d b)"
    using pt w by (simp add: flush_page_def put_page_def upd_page_def)
  have "bpm_inv L (put_page f ((pg b f)\<lparr>is_dirty := False\<rparr>) (repl b) d b)"
    using t d frames_okD(2,3) [OF inv t(1)] lru_okD(1,2) [OF inv] lru_pinned [OF inv pt]
    by (intro put_page_inv [OF inv pt]) simp_all
  then show ?thesis using that [OF eq] d by simp
qed

lemma flush_page_closed:
  assumes "page_table b pid = Some f" and "\<not> fd_open (dm b) (pid_fd pid)"
  shows "flush_page pid b = Err (Throw (UnixError EBADF)) b"
  using assms by (cases "fds (dos (dm b)) (pid_fd pid)")
    (auto simp: flush_page_def write_page_def sys_lseek_def fd_open_def)

lemma put_flush_view:
  assumes inv: "bpm_inv L b" and pt: "page_table b pid = Some f"
    and d: "\<And>q bs. q \<noteq> pid \<Longrightarrow> disk_page (dm b) q = Some bs \<Longrightarrow> disk_page d q = Some bs"
  shows "view_kept b (put_page f ((pg b f)\<lparr>is_dirty := False\<rparr>) r d b)"
  unfolding view_kept_def
proof (intro allI impI)
  fix q bs assume "bpm_view b q = Some bs"
  then show "bpm_view (put_page f ((pg b f)\<lparr>is_dirty := False\<rparr>) r d b) q = Some bs"
    using put_page_view [OF inv pt d] pt by (cases "q = pid") (auto simp: bpm_view_def)
qed

section \<open>new_page and delete_page\<close>

definition bump :: "int \<Rightarrow> disk \<Rightarrow> disk" where
  "bump fd d = d\<lparr>fd2pageno := (fd2pageno d)(fd := i32 (fd2pageno d fd + 1))\<rparr>"

lemma bump_simps [simp]:
  "disk_page (bump fd d) p = disk_page d p" "fd_open (bump fd d) x = fd_open d x"
  "no_alias (bump fd d) = no_alias d" "dos (bump fd d) = dos d"
  "fd2pageno (bump fd d) = (fd2pageno d)(fd := i32 (fd2pageno d fd + 1))"
  by (simp_all add: bump_def disk_page_def fd_open_def no_alias_def split: option.split)

lemma reset_page:
  "reset_memory (p\<lparr>pg_id := i, pin_count := n, is_dirty := c\<rparr>)
     = \<lparr>pg_id = i, pg_data = replicate PAGE_SIZE 0, is_dirty = c, pin_count = n\<rparr>"
  by (cases p) (simp add: reset_memory_def)

lemma new_page_cases:
  assumes inv: "bpm_inv L b" and fd: "0 \<le> fd" "fd < MAX_FD" and n: "0 \<le> fd2pageno (dm b) fd"
    and fresh: "page_table b (PageId_of fd (fd2pageno (dm b) fd)) = None"
  obtains
    (full) "new_page fd b = Ok None b" "fst (find_victim_page b) = None"
  | (got) f b' L' where "new_page fd b = Ok (Some (PageId_of fd (fd2pageno (dm b) fd), f)) b'"
      "bpm_inv L' b'" "L' \<subseteq> L" "page_table b' (PageId_of fd (fd2pageno (dm b) fd)) = Some f"
      "pg b' f = \<lparr>pg_id = PageId_of fd (fd2pageno (dm b) fd), pg_data = replicate PAGE_SIZE 0,
                  is_dirty = False, pin_count = 1\<rparr>"
      "\<And>q bs. q \<noteq> PageId_of fd (fd2pageno (dm b) fd) \<Longrightarrow> fd_open (dm b) (pid_fd q) \<Longrightarrow>
         bpm_view b q = Some bs \<Longrightarrow> bpm_view b' q = Some bs"
      "pins_kept b b'" "fd2pageno (dm b') = (fd2pageno (dm b))(fd := i32 (fd2pageno (dm b) fd + 1))"
      "\<And>x. fd_open (dm b') x = fd_open (dm b) x"
      "synced_but {} b \<Longrightarrow> synced_but {f} b'"
      "\<And>q. q \<noteq> PageId_of fd (fd2pageno (dm b) fd) \<Longrightarrow> page_table b q = None \<Longrightarrow> page_table b' q = None"
proof (cases "find_victim_page b")
  case (Pair fo b1)
  let ?id = "PageId_of fd (fd2pageno (dm b) fd)"
  show ?thesis
  proof (cases fo)
    case None
    then have "b1 = b" using Pair find_victim_None [OF inv] by simp
    then show ?thesis using full Pair None by (simp add: new_page_def)
  next
    case (Some f)
    obtain b2 fl r d where wb: "write_back f b1 = Ok () b2" "drop_entry f b2 = claim f fl r d b"
      and ci: "bpm_inv (insert f L) (claim f fl r d b)"
      and f: "f < pool_size b" "pin_count (pg b f) = 0" and fr: "disk_frame (dm b) d"
      and view: "\<And>p bs. fd_open (dm b) (pid_fd p) \<Longrightarrow> bpm_view b p = Some bs \<Longrightarrow>
                   bpm_view (claim f fl r d b) p = Some bs"
      and syc: "synced_but {} b \<Longrightarrow> synced_but {} (claim f fl r d b)"
      by (rule evict [OF inv Pair [unfolded Some]]) blast
    let ?c = "claim f fl r d b" and ?i = "install f ?id (replicate PAGE_SIZE 0) (bump fd d) (claim f fl r d b)"
    have pn: "fd2pageno d = fd2pageno (dm b)" using disk_frame_pageno [OF fr] .
    have len: "f < length (pages b)" using frames_okD(1) [OF inv] f by simp
    have miss: "page_table ?c ?id = None" using fresh by simp
    have eq: "new_page fd b = Ok (Some (?id, f)) ?i"
      using Pair Some wb fd pn
      by (simp add: new_page_def allocate_page_def Let_def install_def upd_page_def reset_page bump_def)
    have "bpm_inv (insert f (L - {f})) ?c" using ci by simp
    then have "bpm_inv (L - {f} - {f}) ?i"
      using miss n sync_okD(1) [OF ci] by (intro install_inv) simp_all
    moreover have "bpm_view ?i q = Some bs"
      if "q \<noteq> ?id" "fd_open (dm b) (pid_fd q)" "bpm_view b q = Some bs" for q bs
      using install_view [OF ci miss _ that(1), of "bump fd d"] view [OF that(2,3)] by simp
    moreover have "pins_kept b ?i"
      using pins_claim [OF inv f(2)] pins_install [OF ci miss] pins_kept_trans by blast
    moreover have "pg ?i f = \<lparr>pg_id = ?id, pg_data = replicate PAGE_SIZE 0, is_dirty = False, pin_count = 1\<rparr>"
      using len by (simp add: pg_install)
    moreover have "synced_but {f} ?i" if "synced_but {} b"
      by (rule install_synced [OF ci miss _ _ syc [OF that]]) auto
    ultimately show ?thesis
      using got [OF eq, of "L - {f}"] pn disk_frame_open [OF fr] by auto
  qed
qed

text \<open>\<open>delete_page\<close> moves the frame to the free list; its entry in the LRU list may stay behind.\<close>

definition release :: "frame \<Rightarrow> PageId \<Rightarrow> disk \<Rightarrow> bpm \<Rightarrow> bpm" where
  "release f pid d b =
     b\<lparr>pages := (pages b)[f := \<lparr>pg_id = pid\<lparr>page_no := INVALID_PAGE_ID\<rparr>, pg_data = replicate PAGE_SIZE 0,
                                is_dirty = False, pin_count = 0\<rparr>],
       page_table := (page_table b)(pid := None), free_list := free_list b @ [f], dm := d\<rparr>"

lemma release_inv:
  assumes inv: "bpm_inv L b" and pt: "page_table b pid = Some f"
    and d: "disk_frame (dm b) d"
      "\<And>q bs. q \<noteq> pid \<Longrightarrow> disk_page (dm b) q = Some bs \<Longrightarrow> disk_page d q = Some bs"
  shows "bpm_inv L (release f pid d b)"
proof -
  let ?c = "release f pid d b"
  note t = table_okD [OF inv pt]
  have len: "length (pages b) = pool_size b" using frames_okD(1) [OF inv] .
  have c: "pool_size ?c = pool_size b" "page_table ?c = (page_table b)(pid := None)"
    "free_list ?c = free_list b @ [f]" "repl ?c = repl b" "dm ?c = d" "length (pages ?c) = length (pages b)"
    by (simp_all add: release_def)
  have pgc: "pg ?c g = (if g = f then \<lparr>pg_id = pid\<lparr>page_no := INVALID_PAGE_ID\<rparr>,
      pg_data = replicate PAGE_SIZE 0, is_dirty = False, pin_count = 0\<rparr> else pg b g)" if "g < pool_size b" for g
    using that len by (simp add: release_def)
  have fid: "page_table b (pid\<lparr>page_no := INVALID_PAGE_ID\<rparr>) = None"
    using table_okD(3) [OF inv, of "pid\<lparr>page_no := INVALID_PAGE_ID\<rparr>"]
    by (cases "page_table b (pid\<lparr>page_no := INVALID_PAGE_ID\<rparr>)") (auto simp: INVALID_PAGE_ID_def)
  have mc: "mapped ?c g \<longleftrightarrow> g \<noteq> f \<and> mapped b g" if "g < pool_size b" for g
  proof -
    have "g \<noteq> f \<Longrightarrow> mapped b g \<Longrightarrow> pg_id (pg b g) \<noteq> pid" using pt by (auto simp: mapped_def)
    then show ?thesis using that fid by (auto simp: mapped_def pgc c)
  qed
  have "frames_ok ?c" using frames_okD [OF inv] by (simp add: frames_ok_def pgc mc c)
  moreover have "table_ok ?c" unfolding table_ok_def
  proof (intro allI impI)
    fix q g assume "page_table ?c q = Some g"
    then have q: "q \<noteq> pid" "page_table b q = Some g" by (auto simp: c split: if_splits)
    moreover from this have "g \<noteq> f" using table_inj [OF inv pt] by blast
    ultimately show "g < pool_size ?c \<and> pg_id (pg ?c g) = q \<and> 0 \<le> page_no q \<and> g \<notin> set (free_list ?c)"
      using table_okD [OF inv q(2)] by (simp add: pgc c)
  qed
  moreover have "free_ok L ?c" unfolding free_ok_def
  proof (intro conjI ballI allI impI)
    fix g
    show "distinct (free_list ?c)" using free_okD(1) [OF inv] t(4) by (simp add: c)
    show "g < pool_size ?c" if "g \<in> set (free_list ?c)" using that free_okD(2) [OF inv] t(1) by (auto simp: c)
    then show "page_no (pg_id (pg ?c g)) = INVALID_PAGE_ID" if "g \<in> set (free_list ?c)"
      using that free_okD(3) [OF inv] by (auto simp: c pgc)
    show "g < pool_size ?c" if "g \<in> L" using that free_okD(5) [OF inv] by (simp add: c)
    then show "\<not> mapped ?c g" if "g \<in> L" using that free_okD(7) [OF inv] by (simp add: c mc)
    show "g \<notin> set (free_list ?c)" if "g \<in> L" using that free_okD(6,7) [OF inv] t(5) by (auto simp: c)
    show "g \<in> set (free_list ?c) \<or> mapped ?c g \<or> g \<in> L" if "g < pool_size ?c"
      using that free_okD(8) [OF inv] by (auto simp: c mc)
  qed
  moreover have "lru_ok ?c" unfolding lru_ok_def
  proof (intro conjI ballI allI impI)
    show "lru_inv (repl ?c)" "max_size (repl ?c) = pool_size ?c" using lru_okD(1,2) [OF inv] by (simp_all add: c)
    fix g
    { assume g: "g \<in> set (lru_frames (repl ?c))"
      then show "g < pool_size ?c" using lru_okD(3) [OF inv] by (simp add: c)
      then show "pin_count (pg ?c g) = 0" "mapped ?c g \<or> page_no (pg_id (pg ?c g)) = INVALID_PAGE_ID"
        using g lru_okD(4,5) [OF inv] by (auto simp: pgc mc c) }
    assume "g < pool_size ?c" and "mapped ?c g" and "pin_count (pg ?c g) = 0"
    then show "g \<in> set (lru_frames (repl ?c))"
      using lru_okD(6) [OF inv] by (auto simp: pgc mc c)
  qed
  moreover have "sync_ok ?c" unfolding sync_ok_def
  proof (intro conjI allI impI)
    show "no_alias (dm ?c)" using sync_okD(1) [OF inv] disk_frame_alias [OF d(1)] by (simp add: c)
    fix g assume g: "g < pool_size ?c"
    show "mapped ?c g" "fd_open (dm ?c) (pid_fd (pg_id (pg ?c g)))" if "is_dirty (pg ?c g)"
      using that g sync_okD(2,3) [OF inv] disk_frame_open [OF d(1)]
      by (auto simp: pgc mc c split: if_splits)
    assume "mapped ?c g" "\<not> is_dirty (pg ?c g)" "pin_count (pg ?c g) = 0"
      "fd_open (dm ?c) (pid_fd (pg_id (pg ?c g)))"
    moreover from this g have "g \<noteq> f" "mapped b g" by (auto simp: mc c)
    moreover from this have "pg_id (pg b g) \<noteq> pid" using pt by (auto simp: mapped_def)
    ultimately show "disk_page (dm ?c) (pg_id (pg ?c g)) = Some (pg_data (pg ?c g))"
      using g sync_okD(4) [OF inv, of g] d(2) disk_frame_open [OF d(1)] by (simp add: pgc c)
  qed
  ultimately show ?thesis by (simp add: bpm_inv_def)
qed

lemma delete_page_cases:
  assumes inv: "bpm_inv L b"
  obtains
    (absent) "page_table b pid = None" "delete_page pid b = Ok True b"
  | (pinned) f where "page_table b pid = Some f" "pin_count (pg b f) \<noteq> 0" "delete_page pid b = Ok False b"
  | (gone) f d where "page_table b pid = Some f" "pin_count (pg b f) = 0"
      "delete_page pid b = Ok True (release f pid d b)" "bpm_inv L (release f pid d b)"
      "fd_open (dm b) (pid_fd pid) \<Longrightarrow> disk_page d pid = Some (pg_data (pg b f))"
      "\<And>q bs. q \<noteq> pid \<Longrightarrow> disk_page (dm b) q = Some bs \<Longrightarrow> disk_page d q = Some bs"
proof (cases "page_table b pid")
  case None
  then show ?thesis using absent by (simp add: delete_page_def)
next
  case (Some f)
  note t = table_okD [OF inv Some]
  have len: "f < length (pages b)" using t(1) frames_okD(1) [OF inv] by simp
  show ?thesis
  proof (cases "pin_count (pg b f) = 0")
    case False
    then show ?thesis using pinned Some by (simp add: delete_page_def)
  next
    case True
    show ?thesis
    proof (cases "is_dirty (pg b f)")
      case True': True
      have op: "fd_open (dm b) (pid_fd pid)" using sync_okD(3) [OF inv t(1) True'] t(2) by simp
      obtain d where w: "write_page (pid_fd pid) (page_no pid) (pg_data (pg b f)) PAGE_SIZE (dm b) = Ok () d"
        and d: "disk_page d (PageId_of (pid_fd pid) (page_no pid)) = Some (pg_data (pg b f))"
          "\<And>q bs. q \<noteq> PageId_of (pid_fd pid) (page_no pid) \<Longrightarrow> disk_page (dm b) q = Some bs \<Longrightarrow> disk_page d q = Some bs"
          "disk_frame (dm b) d"
        using write_page_Ok [OF op t(3) frames_okD(2) [OF inv t(1)] sync_okD(1) [OF inv]] by blast
      have "delete_page pid b = Ok True (release f pid d b)"
        using Some True True' w len t(2) by (simp add: delete_page_def release_def upd_page_def reset_page)
      then show ?thesis using gone [OF Some True] release_inv [OF inv Some] d by simp
    next
      case False
      have "disk_page (dm b) pid = Some (pg_data (pg b f))" if "fd_open (dm b) (pid_fd pid)"
        using sync_okD(4) [OF inv t(1,5) False True] that t(2) by simp
      moreover have "delete_page pid b = Ok True (release f pid (dm b) b)"
        using Some True False len t(2) by (simp add: delete_page_def release_def upd_page_def reset_page)
      ultimately show ?thesis using gone [OF Some True] release_inv [OF inv Some, of "dm b"] by simp
    qed
  qed
qed

section \<open>flush_all_pages\<close>

text \<open>
  The loop of \<open>flush_all_pages\<close> goes over all frames, mapped or not. A frame that was lost still
  carries the page id of the page it held; \<open>no_stray\<close> excludes this for the file that is flushed.
  For an open file every page is then written and nothing else changes.
\<close>

definition no_stray :: "int \<Rightarrow> bpm \<Rightarrow> bool" where
  "no_stray fd b \<longleftrightarrow> (\<forall>i < pool_size b. pid_fd (pg_id (pg b i)) = fd \<longrightarrow>
     page_no (pg_id (pg b i)) \<noteq> INVALID_PAGE_ID \<longrightarrow> mapped b i)"

lemma no_stray_unlost: "bpm_inv {} b \<Longrightarrow> no_stray fd b"
  using free_okD(3,8) [of "{}" b] by (auto simp: no_stray_def)

definition flushed :: "int \<Rightarrow> bpm \<Rightarrow> frame \<Rightarrow> bool" where
  "flushed fd b f \<longleftrightarrow> pid_fd (pg_id (pg b f)) = fd \<longrightarrow> mapped b f \<longrightarrow>
     \<not> is_dirty (pg b f) \<and> disk_page (dm b) (pg_id (pg b f)) = Some (pg_data (pg b f))"

lemma flush_frames_stray:
  assumes "bpm_inv L b" and "no_stray fd b" and "fd_open (dm b) fd" and "set is \<subseteq> {..<pool_size b}"
  shows "\<exists>b'. flush_frames fd is b = Ok () b' \<and> bpm_inv L b' \<and> page_table b' = page_table b \<and>
     pool_size b' = pool_size b \<and> disk_frame (dm b) (dm b') \<and>
     (\<forall>f < pool_size b. pg b' f = pg b f \<or> pg b' f = (pg b f)\<lparr>is_dirty := False\<rparr>) \<and>
     view_kept b b' \<and> (\<forall>f < pool_size b. f \<in> set is \<or> flushed fd b f \<longrightarrow> flushed fd b' f)"
  using assms
proof (induction "is" arbitrary: b)
  case Nil
  then show ?case by simp
next
  case (Cons i "is")
  note inv = Cons.prems(1)
  have i: "i < pool_size b" using Cons.prems(4) by simp
  let ?p = "pg_id (pg b i)"
  show ?case
  proof (cases "pid_fd ?p = fd \<and> page_no ?p \<noteq> INVALID_PAGE_ID")
    case False
    then have "flushed fd b i"
      using mapped_page_no [OF inv, of i] by (auto simp: flushed_def INVALID_PAGE_ID_def)
    then show ?thesis using False Cons.IH [OF inv Cons.prems(2,3)] Cons.prems(4) by auto
  next
    case True
    have "mapped b i" using True i Cons.prems(2) by (simp add: no_stray_def)
    then have pt: "page_table b ?p = Some i" by (simp add: mapped_def)
    have op: "fd_open (dm b) (pid_fd ?p)" using True Cons.prems(3) by simp
    obtain d where fl: "flush_page ?p b = Ok True (put_page i ((pg b i)\<lparr>is_dirty := False\<rparr>) (repl b) d b)"
      and d: "disk_page d ?p = Some (pg_data (pg b i))" "disk_frame (dm b) d"
        "\<And>q bs. q \<noteq> ?p \<Longrightarrow> disk_page (dm b) q = Some bs \<Longrightarrow> disk_page d q = Some bs"
      and inv': "bpm_inv L (put_page i ((pg b i)\<lparr>is_dirty := False\<rparr>) (repl b) d b)"
      using flush_page_cached [OF inv pt op] by metis
    let ?b = "put_page i ((pg b i)\<lparr>is_dirty := False\<rparr>) (repl b) d b"
    have len: "length (pages b) = pool_size b" using frames_okD(1) [OF inv] .
    have step: "flush_frames fd (i # is) b = flush_frames fd is ?b"
      using fl True pt by (auto simp: flush_page_def put_page_def upd_page_def split: outcome.splits)
    have fd: "fd_open (dm ?b) fd" using Cons.prems(3) disk_frame_open [OF d(2)] by simp
    have "set is \<subseteq> {..<pool_size ?b}" using Cons.prems(4) by simp
    moreover have "no_stray fd ?b"
      using Cons.prems(2) by (auto simp: no_stray_def pg_put_page mapped_put_page len split: if_splits)
    ultimately obtain b' where b': "flush_frames fd is ?b = Ok () b'" "bpm_inv L b'"
      "page_table b' = page_table b" "pool_size b' = pool_size b" "disk_frame d (dm b')"
      "\<forall>f < pool_size b. pg b' f = pg ?b f \<or> pg b' f = (pg ?b f)\<lparr>is_dirty := False\<rparr>"
      "view_kept ?b b'" "\<forall>f < pool_size b. f \<in> set is \<or> flushed fd ?b f \<longrightarrow> flushed fd b' f" using Cons.IH [OF inv' _ fd] by auto
    have "view_kept b ?b" using put_flush_view [OF inv pt d(3)] .
    then have vk: "view_kept b b'" using b'(7) disk_frame_open [OF d(2)] by (simp add: view_kept_def)
    have fl': "flushed fd ?b f" if "f < pool_size b" "f = i \<or> flushed fd b f" for f
    proof (cases "f = i")
      case True
      then show ?thesis using d(1) i by (simp add: flushed_def pg_put_page len)
    next
      case False
      then have "mapped b f \<Longrightarrow> pg_id (pg b f) \<noteq> ?p" using pt by (auto simp: mapped_def)
      then show ?thesis using that False d(3)
        by (auto simp: flushed_def pg_put_page len mapped_put_page)
    qed
    have "pg b' f = pg b f \<or> pg b' f = (pg b f)\<lparr>is_dirty := False\<rparr>" if "f < pool_size b" for f
      using b'(6) [rule_format, OF that] that by (auto simp: pg_put_page len split: if_splits)
    then show ?thesis using step b' vk fl' disk_frame_trans [OF d(2) b'(5)] by auto
  qed
qed

lemma flush_frames_Ok:
  assumes "bpm_inv {} b" and "fd_open (dm b) fd" and "set is \<subseteq> {..<pool_size b}"
  shows "\<exists>b'. flush_frames fd is b = Ok () b' \<and> bpm_inv {} b' \<and> page_table b' = page_table b \<and>
     pool_size b' = pool_size b \<and> disk_frame (dm b) (dm b') \<and>
     (\<forall>f < pool_size b. pg b' f = pg b f \<or> pg b' f = (pg b f)\<lparr>is_dirty := False\<rparr>) \<and>
     view_kept b b' \<and> (\<forall>f < pool_size b. f \<in> set is \<or> flushed fd b f \<longrightarrow> flushed fd b' f)"
  using flush_frames_stray [OF assms(1) no_stray_unlost [OF assms(1)] assms(2,3)] .

text \<open>A file that is closed: the first frame that carries one of its pages throws, nothing changes.\<close>

lemma flush_frames_closed: "\<not> fd_open (dm b) fd \<Longrightarrow> final_state (flush_frames fd is b) = b"
  by (induction "is") (auto simp: write_page_def sys_lseek_def fd_open_def split: option.splits)

end
