(* ===== verification/Pool_Properties.thy ===== *)
theory Pool_Properties
  imports Pool_Invariant
begin

text \<open>
  The buffer pool as a state machine, and the properties its clients rely on.
\<close>

section \<open>The pool as a state machine\<close>

text \<open>
  One step of the pool: a call of one of its methods, or a write of a client into a page it has
  pinned. A call that throws is a step too, to the state the exception leaves. The conditions are
  the callers' side: \<open>unpin_ok\<close> (a changed page is given back as dirty, while its file is open), \<open>new_page\<close> for a
  descriptor in range whose next page number is not cached, \<open>flush_all_pages\<close> for a file of which
  no lost frame still carries a page, and a page marked dirty belongs to an open file. Files are
  neither opened nor closed by these steps.
\<close>

inductive bpm_step :: "bpm \<Rightarrow> bpm \<Rightarrow> bool" where
  fetch: "bpm_step b (final_state (fetch_page pid b))"
| unpin: "unpin_ok pid dirty b \<Longrightarrow> bpm_step b (snd (unpin_page pid dirty b))"
| flush: "bpm_step b (final_state (flush_page pid b))"
| new: "0 \<le> fd \<Longrightarrow> fd < MAX_FD \<Longrightarrow> 0 \<le> fd2pageno (dm b) fd \<Longrightarrow>
    page_table b (PageId_of fd (fd2pageno (dm b) fd)) = None \<Longrightarrow>
    bpm_step b (final_state (new_page fd b))"
| delete: "bpm_step b (final_state (delete_page pid b))"
| flush_all: "no_stray fd b \<Longrightarrow> bpm_step b (final_state (flush_all_pages fd b))"
| store: "page_table b pid = Some f \<Longrightarrow> 0 < pin_count (pg b f) \<Longrightarrow> off + length bs \<le> PAGE_SIZE \<Longrightarrow>
    bpm_step b (page_write f off bs b)"
| dirty: "page_table b pid = Some f \<Longrightarrow> fd_open (dm b) (pid_fd pid) \<Longrightarrow> bpm_step b (mark_dirty f b)"

lemma flush_page_inv:
  assumes inv: "bpm_inv L b"
  shows "bpm_inv L (final_state (flush_page pid b))"
proof (cases "page_table b pid")
  case None
  then show ?thesis using inv by (simp add: flush_page_def)
next
  case (Some f)
  show ?thesis
  proof (cases "fd_open (dm b) (pid_fd pid)")
    case True
    then show ?thesis using flush_page_cached [OF inv Some True] by (metis final_state.simps(1))
  next
    case False
    then show ?thesis using flush_page_closed [OF Some False] inv by simp
  qed
qed

lemma flush_all_pages_inv:
  assumes inv: "bpm_inv L b" and ns: "no_stray fd b"
  shows "bpm_inv L (final_state (flush_all_pages fd b))"
proof (cases "fd_open (dm b) fd")
  case True
  then show ?thesis using flush_frames_stray [OF inv ns True, of "[0..<pool_size b]"]
    by (auto simp: flush_all_pages_def atLeast0LessThan)
next
  case False
  then show ?thesis using inv by (simp add: flush_all_pages_def flush_frames_closed)
qed

lemma bpm_step_inv:
  assumes "bpm_step b b'" and "bpm_inv L b"
  shows "\<exists>L'. bpm_inv L' b'"
  using assms
proof (induction rule: bpm_step.induct)
  case (fetch b pid)
  then show ?case by (cases rule: fetch_page_cases [where pid = pid]) (use fetch in auto)
next
  case (unpin pid dirty b)
  then show ?case using unpin_page_inv by blast
next
  case (flush b pid)
  then show ?case using flush_page_inv by blast
next
  case (new fd b)
  from new(5,1-4) show ?case by (cases rule: new_page_cases) (use new in auto)
next
  case (delete b pid)
  then show ?case by (cases rule: delete_page_cases [where pid = pid]) (use delete in auto)
next
  case (flush_all fd b)
  then show ?case using flush_all_pages_inv by blast
next
  case (store b pid f off bs)
  then show ?case using page_write_inv [of L b pid f off bs] by auto
next
  case (dirty b pid f)
  then show ?case using mark_dirty_inv by blast
qed

lemma bpm_reach_inv:
  assumes "bpm_step\<^sup>*\<^sup>* (BufferPoolManager_new junk n d) b" and "no_alias d"
  shows "\<exists>L. bpm_inv L b"
  using assms(1)
proof (induction rule: rtranclp_induct)
  case base
  then show ?case using bpm_inv_new [OF assms(2)] by blast
next
  case (step b b')
  then show ?case using bpm_step_inv by blast
qed

section \<open>Frames that are out of use\<close>

text \<open>
  A frame in none of the three structures of the pool: not free, not the home of a page, not in
  the replacer. No step brings it back.
\<close>

definition stranded :: "bpm \<Rightarrow> frame \<Rightarrow> bool" where
  "stranded b f \<longleftrightarrow> f \<notin> set (free_list b) \<and> (\<forall>p. page_table b p \<noteq> Some f) \<and>
     f \<notin> set (lru_frames (repl b))"

lemma lru_frames_pin_sub: "set (lru_frames (lru_pin g r)) \<subseteq> set (lru_frames r)"
  by (auto simp: lru_pin_def lru_frames_def split: option.split)

lemma lru_frames_unpin_sub: "set (lru_frames (lru_unpin g r)) \<subseteq> insert g (set (lru_frames r))"
  by (auto simp: lru_unpin_def lru_frames_def)

lemma stranded_victim:
  assumes "stranded b f" and "find_victim_page b = (fo, b1)"
  shows "fo \<noteq> Some f" and "stranded b1 f"
proof -
  have "fo \<noteq> Some f \<and> stranded b1 f"
  proof (cases "free_list b")
    case (Cons g fs)
    then show ?thesis using assms by (auto simp: find_victim_page_def stranded_def)
  next
    case Nil
    show ?thesis
    proof (cases "LRUlist (repl b) = []")
      case True
      then show ?thesis using assms Nil by (auto simp: find_victim_page_def stranded_def lru_victim_def)
    next
      case False
      then have "snd (last (LRUlist (repl b))) \<in> set (lru_frames (repl b))" by (simp add: lru_frames_def)
      moreover have "f \<notin> snd ` set (butlast (LRUlist (repl b)))"
        using assms(1) by (force simp: stranded_def lru_frames_def dest: in_set_butlastD)
      ultimately show ?thesis using assms Nil False
        by (auto simp: find_victim_page_def stranded_def lru_victim_def lru_frames_def Let_def)
    qed
  qed
  then show "fo \<noteq> Some f" and "stranded b1 f" by blast+
qed

lemma stranded_same:
  "stranded b f \<Longrightarrow> free_list b' = free_list b \<Longrightarrow> page_table b' = page_table b \<Longrightarrow> repl b' = repl b \<Longrightarrow>
     stranded b' f"
  by (simp add: stranded_def)

lemma stranded_write_back: "stranded b f \<Longrightarrow> stranded (final_state (write_back g b)) f"
  by (auto simp: write_back_def stranded_def upd_page_def split: outcome.split)

lemma stranded_drop: "stranded b f \<Longrightarrow> stranded (drop_entry g b) f"
  by (auto simp: drop_entry_def stranded_def)

lemma stranded_mapped:
  "stranded b f \<Longrightarrow> g \<noteq> f \<Longrightarrow>
     stranded (b\<lparr>pages := ps, page_table := (page_table b)(pid \<mapsto> g), repl := lru_pin g (repl b), dm := d\<rparr>) f"
  using lru_frames_pin_sub [of g "repl b"] by (auto simp: stranded_def)

lemma stranded_fetch: "stranded b f \<Longrightarrow> stranded (final_state (fetch_page pid b)) f"
proof (cases "page_table b pid")
  case (Some g)
  assume "stranded b f"
  then show ?thesis using Some lru_frames_pin_sub [of g "repl b"]
    by (auto simp: fetch_page_def stranded_def upd_page_def)
next
  case None
  assume st: "stranded b f"
  obtain fo b1 where v: "find_victim_page b = (fo, b1)" by force
  note v' = stranded_victim [OF st v]
  show ?thesis
  proof (cases fo)
    case None': None
    then show ?thesis using None v v' by (simp add: fetch_page_def)
  next
    case (Some g)
    have g: "g \<noteq> f" using v' Some by blast
    have w: "stranded (final_state (write_back g b1)) f" using v'(2) by (rule stranded_write_back)
    show ?thesis
    proof (cases "write_back g b1")
      case (Err e b2)
      then show ?thesis using None v Some w by (simp add: fetch_page_def)
    next
      case (Ok u b2)
      have d: "stranded (drop_entry g b2) f" using w Ok stranded_drop by simp
      show ?thesis using None v Some Ok d stranded_mapped [OF d g]
        by (auto simp: fetch_page_def Let_def upd_page_def split: prod.split outcome.split
            intro: stranded_same [OF d])
    qed
  qed
qed

lemma stranded_new: "stranded b f \<Longrightarrow> stranded (final_state (new_page fd b)) f"
proof -
  assume st: "stranded b f"
  obtain fo b1 where v: "find_victim_page b = (fo, b1)" by force
  note v' = stranded_victim [OF st v]
  show ?thesis
  proof (cases fo)
    case None
    then show ?thesis using v v' by (simp add: new_page_def)
  next
    case (Some g)
    have g: "g \<noteq> f" using v' Some by blast
    have w: "stranded (final_state (write_back g b1)) f" using v'(2) by (rule stranded_write_back)
    show ?thesis
    proof (cases "write_back g b1")
      case (Err e b2)
      then show ?thesis using v Some w by (simp add: new_page_def)
    next
      case (Ok u b2)
      have d: "stranded (drop_entry g b2) f" using w Ok stranded_drop by simp
      show ?thesis using v Some Ok d stranded_mapped [OF d g]
        by (auto simp: new_page_def Let_def upd_page_def split: outcome.split intro: stranded_same [OF d])
    qed
  qed
qed

lemma stranded_flush_frames: "stranded b f \<Longrightarrow> stranded (final_state (flush_frames fd is b)) f"
proof (induction "is" arbitrary: b)
  case (Cons i "is")
  have "stranded (upd_page i g (b\<lparr>dm := d\<rparr>)) f" for g d
    by (rule stranded_same [OF Cons.prems]) (simp_all add: upd_page_def)
  moreover have "stranded (b\<lparr>dm := d\<rparr>) f" for d by (rule stranded_same [OF Cons.prems]) simp_all
  ultimately show ?case using Cons by (auto split: outcome.split)
qed simp

lemma stranded_step:
  assumes "bpm_step b b'" and "stranded b f"
  shows "stranded b' f"
  using assms
proof (induction rule: bpm_step.induct)
  case (unpin pid dirty b)
  show ?case
  proof (cases "page_table b pid")
    case (Some g)
    then have "g \<noteq> f" using unpin(2) by (auto simp: stranded_def)
    then show ?thesis using unpin(2) Some lru_frames_unpin_sub [of g "repl b"]
      by (auto simp: unpin_page_def stranded_def upd_page_def Let_def)
  qed (use unpin in \<open>simp add: unpin_page_def\<close>)
next
  case (delete b pid)
  have "g \<noteq> f" if "page_table b pid = Some g" for g using that delete by (auto simp: stranded_def)
  then show ?case using delete
    by (auto simp: delete_page_def stranded_def upd_page_def split: option.split outcome.split)
qed (auto simp: stranded_fetch stranded_new flush_all_pages_def stranded_flush_frames
      flush_page_def page_write_def mark_dirty_def upd_page_def
      split: option.split outcome.split intro: stranded_same)

lemma stranded_forever: "bpm_step\<^sup>*\<^sup>* b b' \<Longrightarrow> stranded b f \<Longrightarrow> stranded b' f"
  by (induction rule: rtranclp_induct) (auto intro: stranded_step)

section \<open>A small disk for the examples\<close>

text \<open>One file of two zero pages, open as descriptor 3.\<close>

definition ex_os :: os where
  "ex_os = \<lparr>cwd = [], dirs = [], dirent = [[''t''] \<mapsto> 0], idata = (\<lambda>_. replicate (2 * PAGE_SIZE) 0),
            next_ino = 1, fds = [3 \<mapsto> (0, 0)], nofile = 16\<rparr>"

definition ex_pool :: "nat \<Rightarrow> bpm" where
  "ex_pool n = BufferPoolManager_new 0 n ((DiskManager_new ex_os)\<lparr>fd2pageno := (\<lambda>_. 2)\<rparr>)"

lemma ex_alias: "no_alias ((DiskManager_new ex_os)\<lparr>fd2pageno := (\<lambda>_. 2)\<rparr>)"
  by (simp add: no_alias_def DiskManager_new_def ex_os_def)

lemma ex_inv: "bpm_inv {} (ex_pool n)"
  unfolding ex_pool_def by (intro bpm_inv_new ex_alias)

lemma ex_open: "fd_open (dm (ex_pool n)) 3"
  by (simp add: ex_pool_def BufferPoolManager_new_def fd_open_def DiskManager_new_def ex_os_def)

lemma ex_view: "bpm_view (ex_pool n) (PageId_of 3 0) = Some (replicate PAGE_SIZE 0)"
  by (simp add: ex_pool_def BufferPoolManager_new_def bpm_view_def disk_page_def DiskManager_new_def
      ex_os_def mem_read_replicate)

lemma ex_pageno: "fd2pageno (dm (ex_pool n)) fd = 2"
  by (simp add: ex_pool_def BufferPoolManager_new_def)

lemma ex_table: "page_table (ex_pool n) p = None"
  by (simp add: ex_pool_def BufferPoolManager_new_def)

definition ex_fetched :: bpm where
  "ex_fetched = final_state (fetch_page (PageId_of 3 0) (ex_pool 2))"

lemma ex_fetched:
  "fetch_page (PageId_of 3 0) (ex_pool 2) = Ok (Some 0) ex_fetched"
  "bpm_inv {} ex_fetched" "page_table ex_fetched (PageId_of 3 0) = Some 0"
  "pin_count (pg ex_fetched 0) = 1" "pg_data (pg ex_fetched 0) = replicate PAGE_SIZE 0"
  "fd_open (dm ex_fetched) 3"
proof -
  have v: "find_victim_page (ex_pool 2) = (Some 0, (ex_pool 2)\<lparr>free_list := [1]\<rparr>)"
    by (simp add: ex_pool_def find_victim_page_def BufferPoolManager_new_def upt_rec [of _ "2 :: nat"])
  have dp: "disk_page (dm (ex_pool 2)) (PageId_of 3 0) = Some (replicate PAGE_SIZE 0)"
    using ex_view [of 2] by (simp add: bpm_view_def ex_table)
  have "fetch_page (PageId_of 3 0) (ex_pool 2) = Ok (Some 0) ex_fetched \<and>
    bpm_inv {} ex_fetched \<and> page_table ex_fetched (PageId_of 3 0) = Some 0 \<and>
    pin_count (pg ex_fetched 0) = 1 \<and> pg_data (pg ex_fetched 0) = replicate PAGE_SIZE 0 \<and>
    fd_open (dm ex_fetched) 3"
    using ex_inv [of 2] ex_table [of 2 "PageId_of 3 0"] v
  proof (cases rule: fetch_page_miss)
    case (read b' bs)
    then have "b' = ex_fetched" by (simp add: ex_fetched_def)
    then show ?thesis using read dp disk_frame_open [OF read(7), of 3] ex_open [of 2] by simp
  next
    case (throw b' e)
    then show ?thesis using dp by simp
  qed
  then show "fetch_page (PageId_of 3 0) (ex_pool 2) = Ok (Some 0) ex_fetched"
    "bpm_inv {} ex_fetched" "page_table ex_fetched (PageId_of 3 0) = Some 0"
    "pin_count (pg ex_fetched 0) = 1" "pg_data (pg ex_fetched 0) = replicate PAGE_SIZE 0"
    "fd_open (dm ex_fetched) 3" by simp_all
qed

section \<open>Properties\<close>

text \<open>
  C1. Transparency of the cache. Whatever the state of the pool, fetching a page that exists (in
  a frame or on disk) never throws: it returns a frame that is mapped to the page, holds exactly
  the page's contents and has one more pin, or \<open>nullptr\<close> with nothing changed. Every page of an
  open file, including one evicted to make room, keeps its contents.
\<close>

theorem fetch_page_transparent:
  assumes "bpm_inv L b" and "bpm_view b pid = Some bs"
  shows "fetch_page pid b = Ok None b \<or>
    (\<exists>f b' L'. fetch_page pid b = Ok (Some f) b' \<and> bpm_inv L' b' \<and> L' \<subseteq> L \<and>
       page_table b' pid = Some f \<and> pg_data (pg b' f) = bs \<and>
       pin_count (pg b' f) = (if page_table b pid = None then 1 else pin_count (pg b f) + 1) \<and>
       (\<forall>q cs. fd_open (dm b) (pid_fd q) \<longrightarrow> bpm_view b q = Some cs \<longrightarrow> bpm_view b' q = Some cs))"
  using assms(1)
proof (cases rule: fetch_page_cases [where pid = pid])
  case (got f b' L')
  then show ?thesis using assms(2) by (auto simp: view_kept_def)
qed (use assms(2) in auto)

theorem fetch_page_transparent_witness:
  "fetch_page (PageId_of 3 0) (ex_pool 1) = Ok None (ex_pool 1) \<or>
    (\<exists>f b' L'. fetch_page (PageId_of 3 0) (ex_pool 1) = Ok (Some f) b' \<and> bpm_inv L' b' \<and>
       L' \<subseteq> {} \<and> page_table b' (PageId_of 3 0) = Some f \<and> pg_data (pg b' f) = replicate PAGE_SIZE 0 \<and>
       pin_count (pg b' f) = (if page_table (ex_pool 1) (PageId_of 3 0) = None then 1
                              else pin_count (pg (ex_pool 1) f) + 1) \<and>
       (\<forall>q cs. fd_open (dm (ex_pool 1)) (pid_fd q) \<longrightarrow> bpm_view (ex_pool 1) q = Some cs \<longrightarrow>
          bpm_view b' q = Some cs))"
  using fetch_page_transparent [OF ex_inv ex_view] .

text \<open>
  A pinned page is never evicted: after any call of \<open>fetch_page\<close>, also one that throws, every
  page with a positive pin count is still in the same frame with the same contents.
\<close>

theorem fetch_page_keeps_pinned:
  assumes "bpm_inv L b" and "page_table b q = Some g" and "0 < pin_count (pg b g)"
  shows "page_table (final_state (fetch_page pid b)) q = Some g \<and>
         pg_data (pg (final_state (fetch_page pid b)) g) = pg_data (pg b g) \<and>
         pin_count (pg b g) \<le> pin_count (pg (final_state (fetch_page pid b)) g)"
proof -
  have "pins_kept b (final_state (fetch_page pid b))"
    using assms(1) by (cases rule: fetch_page_cases [where pid = pid]) auto
  then show ?thesis using assms(2,3) by (simp add: pins_kept_def)
qed

theorem fetch_page_keeps_pinned_witness:
  "page_table (final_state (fetch_page (PageId_of 3 1) ex_fetched)) (PageId_of 3 0) = Some 0 \<and>
   pg_data (pg (final_state (fetch_page (PageId_of 3 1) ex_fetched)) 0) = pg_data (pg ex_fetched 0) \<and>
   pin_count (pg ex_fetched 0) \<le> pin_count (pg (final_state (fetch_page (PageId_of 3 1) ex_fetched)) 0)"
  by (rule fetch_page_keeps_pinned [OF ex_fetched(2,3)]) (simp add: ex_fetched(4))

text \<open>
  C32. When the pool runs out. With no lost frames, \<open>fetch_page\<close> returns \<open>nullptr\<close> exactly if the
  page is not cached and every frame of the pool is pinned.
\<close>

theorem fetch_page_exhausted:
  assumes "bpm_inv {} b"
  shows "(\<exists>b'. fetch_page pid b = Ok None b') \<longleftrightarrow>
         page_table b pid = None \<and> (\<forall>f < pool_size b. pin_count (pg b f) \<noteq> 0)"
  using assms
proof (cases rule: fetch_page_cases [where pid = pid])
  case full
  then show ?thesis using find_victim_None_iff [OF assms] by auto
next
  case (got f b' L')
  then show ?thesis using find_victim_None_iff [OF assms]
    by (auto simp: fetch_page_def split: option.splits prod.splits)
next
  case (lost f b' e)
  then show ?thesis using find_victim_None_iff [OF assms]
    by (auto simp: fetch_page_def split: option.splits prod.splits)
qed

theorem fetch_page_exhausted_witness:
  "(\<exists>b'. fetch_page (PageId_of 3 0) (ex_pool 1) = Ok None b') \<longleftrightarrow>
     page_table (ex_pool 1) (PageId_of 3 0) = None \<and>
     (\<forall>f < pool_size (ex_pool 1). pin_count (pg (ex_pool 1) f) \<noteq> 0)"
  using fetch_page_exhausted [OF ex_inv] .

text \<open>The lists of the pool after a fetch that throws are those \<open>find_victim_page\<close> left.\<close>

lemma fetch_page_throw_lists:
  assumes "fetch_page pid b = Err e b'" and "find_victim_page b = (Some f, b1)"
  shows "free_list b' = free_list b1" and "repl b' = repl b1"
proof -
  have "page_table b pid = None" using assms(1) by (auto simp: fetch_page_def split: option.splits)
  then show "free_list b' = free_list b1" and "repl b' = repl b1" using assms
    by (auto simp: fetch_page_def write_back_def drop_entry_def upd_page_def Let_def
        split: outcome.splits prod.splits if_splits)
qed

lemma victim_unlisted:
  assumes inv: "bpm_inv L b" and v: "find_victim_page b = (Some f, b1)"
    and dis: "set (free_list b) \<inter> set (lru_frames (repl b)) = {}"
  shows "f \<notin> set (free_list b1)" and "f \<notin> set (lru_frames (repl b1))"
proof -
  show "f \<notin> set (free_list b1)" by (rule find_victim_Some [OF inv v]) simp
  show "f \<notin> set (lru_frames (repl b1))"
  proof (cases "free_list b")
    case (Cons g fs)
    then show ?thesis using v dis by (auto simp: find_victim_page_def)
  next
    case Nil
    then show ?thesis using v lru.victim_Some(5) [OF lru_okD(1) [OF inv]]
      by (auto simp: find_victim_page_def split: prod.splits)
  qed
qed

text \<open>
  C33. A fetch that throws costs the pool a frame for good. Let no frame be lost yet, and let no
  free frame be in the LRU list (\<open>delete_page\<close> leaves a frame there; such a frame can still be
  evicted after the exception). Then after the exception some frame of the pool is neither free,
  nor the home of any page, nor in the LRU list, and it stays so whatever steps of the pool follow.
  The exception is raised only for a page that is neither cached nor on disk, and every page of an
  open file keeps its contents.
\<close>

theorem fetch_page_exception_loses_frame:
  assumes "bpm_inv {} b" and "set (free_list b) \<inter> set (lru_frames (repl b)) = {}"
    and "fetch_page pid b = Err e b'"
  shows "\<exists>f. f < pool_size b \<and> bpm_inv {f} b' \<and> bpm_view b pid = None \<and>
     (\<forall>c. bpm_step\<^sup>*\<^sup>* b' c \<longrightarrow> f \<notin> set (free_list c) \<and> (\<forall>p. page_table c p \<noteq> Some f) \<and>
        f \<notin> set (lru_frames (repl c))) \<and>
     (\<forall>q cs. fd_open (dm b) (pid_fd q) \<longrightarrow> bpm_view b q = Some cs \<longrightarrow> bpm_view b' q = Some cs)"
proof -
  have miss: "page_table b pid = None"
    using assms(3) by (auto simp: fetch_page_def split: option.splits)
  obtain fo b1 where v: "find_victim_page b = (fo, b1)" by force
  then obtain f where fo: "fo = Some f" using assms(3) miss by (cases fo) (auto simp: fetch_page_def)
  note v = v [unfolded fo]
  from assms(1) miss v show ?thesis
  proof (cases rule: fetch_page_miss)
    case (throw c x)
    then have b': "b' = c" using assms(3) by simp
    have "\<not> mapped c f" using free_okD(7) [OF throw(2)] by blast
    then have "page_table c p \<noteq> Some f" for p using table_okD(5) [OF throw(2)] by blast
    then have "stranded b' f" using victim_unlisted [OF assms(1) v assms(2)]
        fetch_page_throw_lists [OF assms(3) v] by (simp add: stranded_def b')
    then have "stranded c f" if "bpm_step\<^sup>*\<^sup>* b' c" for c using stranded_forever [OF that] by blast
    then show ?thesis using throw disk_view [OF assms(1) miss]
      by (intro exI [of _ f]) (auto simp: b' view_kept_def stranded_def)
  qed (use assms(3) in auto)
qed

lemma ex_fetch_throws:
  "fetch_page (PageId_of 9 0) (ex_pool 1) = Err (Throw (UnixError EBADF))
     (final_state (fetch_page (PageId_of 9 0) (ex_pool 1)))"
proof -
  have "fst (find_victim_page (ex_pool 1)) = Some 0"
    by (simp add: ex_pool_def find_victim_page_def BufferPoolManager_new_def)
  then obtain b1 where v: "find_victim_page (ex_pool 1) = (Some 0, b1)" by (cases "find_victim_page (ex_pool 1)") auto
  have "read_page 9 0 buf PAGE_SIZE (dm (ex_pool 1)) = (buf, Err (Throw (UnixError EBADF)) (dm (ex_pool 1)))" for buf
    by (rule read_page_bad_fd) (simp add: ex_pool_def BufferPoolManager_new_def fd_open_def DiskManager_new_def ex_os_def)
  then show ?thesis
    by (simp add: fetch_page_def ex_table find_victim_page_def ex_pool_def BufferPoolManager_new_def
        write_back_def Page_new_def drop_entry_def Let_def)
qed

theorem fetch_page_exception_loses_frame_witness:
  "\<exists>f. f < pool_size (ex_pool 1) \<and> bpm_inv {f} (final_state (fetch_page (PageId_of 9 0) (ex_pool 1))) \<and>
     bpm_view (ex_pool 1) (PageId_of 9 0) = None \<and>
     (\<forall>c. bpm_step\<^sup>*\<^sup>* (final_state (fetch_page (PageId_of 9 0) (ex_pool 1))) c \<longrightarrow>
        f \<notin> set (free_list c) \<and> (\<forall>p. page_table c p \<noteq> Some f) \<and> f \<notin> set (lru_frames (repl c))) \<and>
     (\<forall>q cs. fd_open (dm (ex_pool 1)) (pid_fd q) \<longrightarrow> bpm_view (ex_pool 1) q = Some cs \<longrightarrow>
        bpm_view (final_state (fetch_page (PageId_of 9 0) (ex_pool 1))) q = Some cs)"
  by (rule fetch_page_exception_loses_frame [OF ex_inv _ ex_fetch_throws])
    (simp add: ex_pool_def BufferPoolManager_new_def LRUReplacer_new_def lru_frames_def)

text \<open>No frame to take: \<open>find_victim_page\<close> fails exactly on an empty free list and LRU list.\<close>

lemma find_victim_None_lists:
  assumes "bpm_inv L b"
  shows "fst (find_victim_page b) = None \<longleftrightarrow> free_list b = [] \<and> lru_frames (repl b) = []"
  using lru.victim_None_iff [OF lru_okD(1) [OF assms]]
  by (auto simp: find_victim_page_def split: list.split prod.split)

text \<open>
  C23. \<open>new_page\<close> on a descriptor in range whose counter gives a page number that is not cached.
  Either no frame is free or evictable, and it returns \<open>nullptr\<close> with nothing changed; or it
  returns a frame with one pin, zeroed and mapped to the page with the counter's number,
  increments this counter (at 32 bits) and no other, leaves every other page of an open file as it was, and
  every pinned page in its frame. That the number was not used before is up to the counter:
  \<open>set_fd2pageno\<close> may set it anywhere.
\<close>

theorem new_page_correct:
  assumes "bpm_inv L b" and "0 \<le> fd" and "fd < MAX_FD" and "0 \<le> fd2pageno (dm b) fd"
    and "page_table b (PageId_of fd (fd2pageno (dm b) fd)) = None"
  shows "if free_list b = [] \<and> lru_frames (repl b) = [] then new_page fd b = Ok None b
    else \<exists>f b' L'. new_page fd b = Ok (Some (PageId_of fd (fd2pageno (dm b) fd), f)) b' \<and>
       bpm_inv L' b' \<and> L' \<subseteq> L \<and> page_table b' (PageId_of fd (fd2pageno (dm b) fd)) = Some f \<and>
       pg_data (pg b' f) = replicate PAGE_SIZE 0 \<and> pin_count (pg b' f) = 1 \<and>
       fd2pageno (dm b') = (fd2pageno (dm b))(fd := i32 (fd2pageno (dm b) fd + 1)) \<and>
       (\<forall>q cs. q \<noteq> PageId_of fd (fd2pageno (dm b) fd) \<longrightarrow> fd_open (dm b) (pid_fd q) \<longrightarrow>
          bpm_view b q = Some cs \<longrightarrow> bpm_view b' q = Some cs) \<and>
       (\<forall>q g. page_table b q = Some g \<longrightarrow> 0 < pin_count (pg b g) \<longrightarrow> page_table b' q = Some g)"
  using assms
proof (cases rule: new_page_cases)
  case full
  then show ?thesis using find_victim_None_lists [OF assms(1)] by simp
next
  case (got f b' L')
  have "\<not> (free_list b = [] \<and> lru_frames (repl b) = [])"
    using got(1) find_victim_None_lists [OF assms(1)]
    by (cases "find_victim_page b") (auto simp: new_page_def split: option.splits)
  then show ?thesis using got(1-8) by (simp add: pins_kept_def) blast
qed

theorem new_page_correct_witness:
  "if free_list (ex_pool 1) = [] \<and> lru_frames (repl (ex_pool 1)) = [] then new_page 3 (ex_pool 1) = Ok None (ex_pool 1)
    else \<exists>f b' L'. new_page 3 (ex_pool 1) = Ok (Some (PageId_of 3 (fd2pageno (dm (ex_pool 1)) 3), f)) b' \<and>
       bpm_inv L' b' \<and> L' \<subseteq> {} \<and> page_table b' (PageId_of 3 (fd2pageno (dm (ex_pool 1)) 3)) = Some f \<and>
       pg_data (pg b' f) = replicate PAGE_SIZE 0 \<and> pin_count (pg b' f) = 1 \<and>
       fd2pageno (dm b') = (fd2pageno (dm (ex_pool 1)))(3 := i32 (fd2pageno (dm (ex_pool 1)) 3 + 1)) \<and>
       (\<forall>q cs. q \<noteq> PageId_of 3 (fd2pageno (dm (ex_pool 1)) 3) \<longrightarrow> fd_open (dm (ex_pool 1)) (pid_fd q) \<longrightarrow>
          bpm_view (ex_pool 1) q = Some cs \<longrightarrow> bpm_view b' q = Some cs) \<and>
       (\<forall>q g. page_table (ex_pool 1) q = Some g \<longrightarrow> 0 < pin_count (pg (ex_pool 1) g) \<longrightarrow> page_table b' q = Some g)"
  by (rule new_page_correct [OF ex_inv]) (simp_all add: MAX_FD_def ex_pageno ex_table)

text \<open>
  Durability. \<open>flush_all_pages\<close> on an open file, with no lost frames, never throws; afterwards
  every cached page of the file is clean and identical to its bytes on disk, and no page of any
  open file has changed for its users.
\<close>

theorem flush_all_pages_durable:
  assumes "bpm_inv {} b" and "fd_open (dm b) fd"
  shows "\<exists>b'. flush_all_pages fd b = Ok () b' \<and> bpm_inv {} b' \<and> page_table b' = page_table b \<and>
    (\<forall>pid f. page_table b pid = Some f \<longrightarrow> pid_fd pid = fd \<longrightarrow>
       \<not> is_dirty (pg b' f) \<and> disk_page (dm b') pid = Some (pg_data (pg b f))) \<and>
    (\<forall>q cs. fd_open (dm b) (pid_fd q) \<longrightarrow> bpm_view b q = Some cs \<longrightarrow> bpm_view b' q = Some cs)"
proof -
  obtain b' where b': "flush_frames fd [0..<pool_size b] b = Ok () b'" "bpm_inv {} b'"
    "page_table b' = page_table b" "pool_size b' = pool_size b" "view_kept b b'"
    "\<forall>f < pool_size b. pg b' f = pg b f \<or> pg b' f = (pg b f)\<lparr>is_dirty := False\<rparr>"
    "\<forall>f < pool_size b. flushed fd b' f"
    using flush_frames_Ok [OF assms, of "[0..<pool_size b]"] by (auto simp: atLeast0LessThan)
  have "\<not> is_dirty (pg b' f) \<and> disk_page (dm b') pid = Some (pg_data (pg b f))"
    if "page_table b pid = Some f" "pid_fd pid = fd" for pid f
  proof -
    have f: "f < pool_size b" "pg_id (pg b' f) = pid" "mapped b' f"
      using that b'(3) table_okD(1) [OF assms(1)] table_okD(2,5) [OF b'(2), of pid f] by auto
    moreover have "pg_data (pg b' f) = pg_data (pg b f)" using b'(6) f(1) by auto
    ultimately show ?thesis using b'(7) [rule_format, OF f(1)] that(2) by (simp add: flushed_def)
  qed
  then show ?thesis using b' by (auto simp: flush_all_pages_def view_kept_def)
qed

theorem flush_all_pages_durable_witness:
  "\<exists>b'. flush_all_pages 3 ex_fetched = Ok () b' \<and> bpm_inv {} b' \<and> page_table b' = page_table ex_fetched \<and>
    (\<forall>pid f. page_table ex_fetched pid = Some f \<longrightarrow> pid_fd pid = 3 \<longrightarrow>
       \<not> is_dirty (pg b' f) \<and> disk_page (dm b') pid = Some (pg_data (pg ex_fetched f))) \<and>
    (\<forall>q cs. fd_open (dm ex_fetched) (pid_fd q) \<longrightarrow> bpm_view ex_fetched q = Some cs \<longrightarrow> bpm_view b' q = Some cs)"
  using flush_all_pages_durable [OF ex_fetched(2,6)] .

text \<open>
  \<open>delete_page\<close> refuses a pinned page and never throws; when it deletes a cached page it saves
  the contents to disk first, returns the frame to the free list and keeps the invariant, although
  the frame stays in the LRU list.
\<close>

theorem delete_page_correct:
  assumes "bpm_inv L b" and "page_table b pid = Some f" and "fd_open (dm b) (pid_fd pid)"
  shows "if pin_count (pg b f) \<noteq> 0 then delete_page pid b = Ok False b
    else \<exists>b'. delete_page pid b = Ok True b' \<and> bpm_inv L b' \<and> page_table b' pid = None \<and>
      free_list b' = free_list b @ [f] \<and> disk_page (dm b') pid = Some (pg_data (pg b f)) \<and>
      lru_frames (repl b') = lru_frames (repl b)"
  using assms(1)
proof (cases rule: delete_page_cases [where pid = pid])
  case absent
  then show ?thesis using assms(2) by simp
next
  case (pinned g)
  then show ?thesis using assms(2) by simp
next
  case (gone g d)
  moreover from this have "g = f" using assms(2) by simp
  ultimately show ?thesis using assms(3) by (simp add: release_def)
qed

theorem delete_page_correct_witness:
  "if pin_count (pg ex_fetched 0) \<noteq> 0 then delete_page (PageId_of 3 0) ex_fetched = Ok False ex_fetched
    else \<exists>b'. delete_page (PageId_of 3 0) ex_fetched = Ok True b' \<and> bpm_inv {} b' \<and>
      page_table b' (PageId_of 3 0) = None \<and>
      free_list b' = free_list ex_fetched @ [0] \<and>
      disk_page (dm b') (PageId_of 3 0) = Some (pg_data (pg ex_fetched 0)) \<and>
      lru_frames (repl b') = lru_frames (repl ex_fetched)"
  by (rule delete_page_correct [OF ex_fetched(2,3)]) (simp add: ex_fetched(6))

text \<open>
  What a safe pool is. Page table and frames agree: a cached page is in a frame of the pool that
  carries its id and is not free. A cached page nobody has pinned can be evicted, and what the
  replacer would evict is not pinned. The frame the next call takes is not pinned, and when it is
  dirty its file is open, so that it can be saved. A cached page of an open file that nobody has
  pinned is dirty or the same on disk.
\<close>

definition pool_safe :: "bpm \<Rightarrow> bool" where
  "pool_safe b \<longleftrightarrow>
    (\<forall>p f. page_table b p = Some f \<longrightarrow> f < pool_size b \<and> pg_id (pg b f) = p \<and> f \<notin> set (free_list b) \<and>
       length (pg_data (pg b f)) = PAGE_SIZE \<and> 0 \<le> pin_count (pg b f)) \<and>
    (\<forall>p f. page_table b p = Some f \<longrightarrow> (f \<in> set (lru_frames (repl b)) \<longleftrightarrow> pin_count (pg b f) = 0)) \<and>
    (\<forall>f b1. find_victim_page b = (Some f, b1) \<longrightarrow> f < pool_size b \<and> pin_count (pg b f) = 0 \<and>
       (is_dirty (pg b f) \<longrightarrow> fd_open (dm b) (pid_fd (pg_id (pg b f))))) \<and>
    (\<forall>p f. page_table b p = Some f \<longrightarrow> pin_count (pg b f) = 0 \<longrightarrow> fd_open (dm b) (pid_fd p) \<longrightarrow>
       is_dirty (pg b f) \<or> disk_page (dm b) p = Some (pg_data (pg b f)))"

lemma bpm_inv_safe:
  assumes inv: "bpm_inv L b"
  shows "pool_safe b"
proof -
  have "f < pool_size b \<and> pg_id (pg b f) = p \<and> f \<notin> set (free_list b) \<and>
      length (pg_data (pg b f)) = PAGE_SIZE \<and> 0 \<le> pin_count (pg b f) \<and>
      (f \<in> set (lru_frames (repl b)) \<longleftrightarrow> pin_count (pg b f) = 0)" if "page_table b p = Some f" for p f
    using table_okD [OF inv that] frames_okD(2,3) [OF inv, of f] lru_okD(4,6) [OF inv, of f] by blast
  moreover have "is_dirty (pg b f) \<or> disk_page (dm b) p = Some (pg_data (pg b f))"
    if "page_table b p = Some f" "pin_count (pg b f) = 0" "fd_open (dm b) (pid_fd p)" for p f
    using that(2,3) sync_okD(4) [OF inv, of f] table_okD(1,2,5) [OF inv that(1)] by metis
  moreover have "f < pool_size b \<and> pin_count (pg b f) = 0 \<and>
      (is_dirty (pg b f) \<longrightarrow> fd_open (dm b) (pid_fd (pg_id (pg b f))))" if "find_victim_page b = (Some f, b1)" for f b1
  proof -
    have "f < pool_size b \<and> pin_count (pg b f) = 0" using find_victim_Some [OF inv that] by blast
    then show ?thesis using sync_okD(3) [OF inv] by simp
  qed
  ultimately show ?thesis unfolding pool_safe_def by blast
qed

text \<open>
  C16. Every state the pool reaches from its constructor by any sequence of calls of its seven
  methods, of page writes by clients and of exceptions is safe: page table and frames agree, so no
  two pages share a frame; a cached page can be evicted exactly when nobody has it pinned; the
  frame the next call takes is not pinned and can be saved; a page of an open file that nobody has
  pinned is dirty or the same on disk. The callers' side is in the steps: a changed page is given
  back dirty, pages are unpinned and marked while their file is open, \<open>new_page\<close> gets a number that is not cached, and \<open>flush_all_pages\<close> is not called
  for a file whose page id a lost frame still carries.
\<close>

theorem pool_reachable_safe:
  assumes "no_alias d" and "bpm_step\<^sup>*\<^sup>* (BufferPoolManager_new junk n d) b"
  shows "pool_safe b"
  using bpm_reach_inv [OF assms(2,1)] bpm_inv_safe by blast

theorem pool_reachable_safe_witness:
  "pool_safe (final_state (flush_all_pages 3 ex_fetched)) \<and> bpm_step ex_fetched (final_state (flush_all_pages 3 ex_fetched))"
proof -
  have "bpm_step (ex_pool 2) ex_fetched" unfolding ex_fetched_def by (rule bpm_step.fetch)
  moreover have fl: "bpm_step ex_fetched (final_state (flush_all_pages 3 ex_fetched))"
    by (rule bpm_step.flush_all [OF no_stray_unlost [OF ex_fetched(2)]])
  ultimately have "bpm_step\<^sup>*\<^sup>* (ex_pool 2) (final_state (flush_all_pages 3 ex_fetched))" by auto
  then show ?thesis
    using pool_reachable_safe [OF ex_alias, of 0 2 "final_state (flush_all_pages 3 ex_fetched)", folded ex_pool_def] fl
    by blast
qed

end
