(* ===== verification/Record_Store.thy ===== *)
theory Record_Store
  imports Record_Files Pool_Properties
begin

text \<open>
  The record manager on top of the buffer pool: every operation of \<open>RmFileHandle\<close> refines the
  corresponding operation on the abstract table, a finite map from record ids to records.
\<close>

section \<open>Changing a pinned page and giving it back\<close>

text \<open>The pool can supply a frame.\<close>

definition frame_free :: "bpm \<Rightarrow> bool" where
  "frame_free b \<longleftrightarrow> fst (find_victim_page b) \<noteq> None"

lemma frame_free_iff:
  "bpm_inv L b \<Longrightarrow> frame_free b \<longleftrightarrow> free_list b \<noteq> [] \<or> lru_frames (repl b) \<noteq> []"
  using lru.victim_None_iff [OF lru_okD(1), of L b]
  by (auto simp: frame_free_def find_victim_page_def split: list.split prod.split)

lemma frame_free_unpinned:
  assumes "bpm_inv L b" and "page_table b pid = Some f" and "pin_count (pg b f) = 0"
  shows "frame_free b"
proof -
  have "f \<in> set (lru_frames (repl b))"
    using lru_okD(6) [OF assms(1)] table_okD(1,5) [OF assms(1,2)] assms(3) by blast
  then show ?thesis using frame_free_iff [OF assms(1)] by (metis empty_iff empty_set)
qed

definition commit :: "frame \<Rightarrow> bytes \<Rightarrow> bpm \<Rightarrow> bpm" where
  "commit f data b = snd (unpin_page (pg_id (pg b f)) True (upd_data f (\<lambda>_. data) b))"

lemma upd_data_put:
  "upd_data f g b = put_page f ((pg b f)\<lparr>pg_data := g (pg_data (pg b f))\<rparr>) (repl b) (dm b) b"
  by (simp add: upd_data_def upd_page_def put_page_def)

lemma upd_data_upd_data: "f < length (pages b) \<Longrightarrow> upd_data f g (upd_data f k b) = upd_data f (\<lambda>d. g (k d)) b"
  by (simp add: upd_data_def upd_page_def)

lemma pg_upd_data: "f < length (pages b) \<Longrightarrow> pg (upd_data f g b) f = (pg b f)\<lparr>pg_data := g (pg_data (pg b f))\<rparr>"
  by (simp add: upd_data_def upd_page_def)

lemma page_write_upd: "page_write f off bs b = upd_data f (\<lambda>d. mem_write d off bs) b"
  by (simp add: page_write_def upd_data_def)

lemma upd_data_const:
  "f < length (pages b) \<Longrightarrow> upd_data f g b = upd_data f (\<lambda>_. g (pg_data (pg b f))) b"
  by (simp add: upd_data_def upd_page_def)

lemma commit_ok:
  assumes inv: "bpm_inv L b" and pt: "page_table b pid = Some f" and pin: "0 < pin_count (pg b f)"
    and op: "fd_open (dm b) (pid_fd pid)" and len: "length data = PAGE_SIZE" and sy: "synced_but {f} b"
  shows "bpm_inv L (commit f data b)" and "synced_but {} (commit f data b)"
    and "bpm_view (commit f data b) q = (if q = pid then Some data else bpm_view b q)"
    and "page_table (commit f data b) = page_table b" and "dm (commit f data b) = dm b"
    and "pg_id (pg (commit f data b) f) = pid"
    and "pin_count (pg (commit f data b) f) = pin_count (pg b f) - 1"
    and "pin_count (pg b f) = 1 \<or> frame_free b \<Longrightarrow> frame_free (commit f data b)"
proof -
  note t = table_okD [OF inv pt]
  have fl: "f < length (pages b)" using t(1) frames_okD(1) [OF inv] by simp
  let ?p1 = "(pg b f)\<lparr>pg_data := data\<rparr>"
  let ?b1 = "put_page f ?p1 (repl b) (dm b) b"
  have b1: "upd_data f (\<lambda>_. data) b = ?b1" by (simp add: upd_data_put)
  have inv1: "bpm_inv L ?b1"
    using t pin len frames_okD(3) [OF inv t(1)] lru_okD(1,2) [OF inv] lru_pinned [OF inv pt]
      sync_okD(3) [OF inv t(1)]
    by (intro put_page_inv [OF inv pt]) simp_all
  have sy1: "synced_but {f} ?b1"
    by (rule put_page_synced [OF inv pt _ _ sy]) auto
  have p1: "pg ?b1 f = ?p1" using fl by (simp add: pg_put_page)
  have pt1: "page_table ?b1 pid = Some f" using pt by simp
  have pin1: "0 < pin_count (pg ?b1 f)" using pin p1 by simp
  let ?p2 = "?p1\<lparr>pin_count := pin_count (pg b f) - 1, is_dirty := True\<rparr>"
  let ?r = "if pin_count (pg b f) = 1 then lru_unpin f (repl b) else repl b"
  have b2: "commit f data b = put_page f ?p2 ?r (dm b) ?b1"
    using unpin_page_eq [OF inv1 pt1 pin1, of True] t(2) by (simp add: commit_def b1 p1)
  have "unpin_ok pid True ?b1" using pt op by (simp add: unpin_ok_def)
  then have inv2: "bpm_inv L (commit f data b)"
    using unpin_page_inv [OF inv1] t(2) by (simp add: commit_def b1)
  then show "bpm_inv L (commit f data b)" .
  show "synced_but {} (commit f data b)" unfolding b2
    by (rule put_page_synced [OF inv1 pt1 _ _ sy1]) auto
  show "bpm_view (commit f data b) q = (if q = pid then Some data else bpm_view b q)"
  proof (cases "q = pid")
    case True
    then show ?thesis using pt fl by (simp add: b2 bpm_view_def pg_put_page)
  next
    case False
    show ?thesis
    proof (cases "page_table b q")
      case (Some g)
      have "g < length (pages b)" using table_okD(1) [OF inv Some] frames_okD(1) [OF inv] by simp
      moreover have "g \<noteq> f" using False table_inj [OF inv Some] pt by blast
      ultimately show ?thesis using False Some by (simp add: b2 bpm_view_def pg_put_page)
    qed (use False in \<open>simp add: b2 bpm_view_def\<close>)
  qed
  show "page_table (commit f data b) = page_table b" "dm (commit f data b) = dm b" by (simp_all add: b2)
  show "pg_id (pg (commit f data b) f) = pid"
    and pc: "pin_count (pg (commit f data b) f) = pin_count (pg b f) - 1"
    using fl t(2) by (simp_all add: b2 pg_put_page)
  show "frame_free (commit f data b)" if "pin_count (pg b f) = 1 \<or> frame_free b"
  proof (cases "pin_count (pg b f) = 1")
    case True
    then show ?thesis using frame_free_unpinned [OF inv2, of pid f] pt pc by (simp add: b2)
  next
    case False
    then show ?thesis using that frame_free_iff [OF inv] frame_free_iff [OF inv2] by (simp add: b2)
  qed
qed

section \<open>The state of an open table\<close>

definition file_page :: "rmfh \<Rightarrow> bpm \<Rightarrow> int \<Rightarrow> bytes option" where
  "file_page fh b p = bpm_view b (PageId_of (fh_fd fh) p)"

definition rm_inv :: "rmfh \<Rightarrow> bpm \<Rightarrow> bool" where
  "rm_inv fh b \<longleftrightarrow> (\<exists>L. bpm_inv L b) \<and> synced_but {} b \<and>
     0 \<le> fh_fd fh \<and> fh_fd fh < MAX_FD \<and> fd_open (dm b) (fh_fd fh) \<and>
     fd2pageno (dm b) (fh_fd fh) = num_pages (file_hdr fh) \<and>
     (\<forall>p \<ge> num_pages (file_hdr fh). page_table b (PageId_of (fh_fd fh) p) = None) \<and>
     file_inv (file_hdr fh) (file_page fh b)"

definition rm_abs :: "rmfh \<Rightarrow> bpm \<Rightarrow> Rid \<Rightarrow> bytes option" where
  "rm_abs fh b = file_abs (file_hdr fh) (file_page fh b)"

lemma rm_invD:
  assumes "rm_inv fh b"
  shows "\<exists>L. bpm_inv L b" and "synced_but {} b" and "0 \<le> fh_fd fh" and "fh_fd fh < MAX_FD"
    and "fd_open (dm b) (fh_fd fh)" and "fd2pageno (dm b) (fh_fd fh) = num_pages (file_hdr fh)"
    and "num_pages (file_hdr fh) \<le> p \<Longrightarrow> page_table b (PageId_of (fh_fd fh) p) = None"
    and "file_inv (file_hdr fh) (file_page fh b)"
  using assms by (auto simp: rm_inv_def)

text \<open>What \<open>fetch_page_handle\<close> gives for a page of the table.\<close>

lemma fetch_handle:
  assumes inv: "rm_inv fh b" and p: "data_page (file_hdr fh) p" and room: "frame_free b"
  obtains f b1 L data where "fetch_page_handle p fh b = Ok f (fh, b1)"
    and "bpm_inv L b1" and "synced_but {} b1" and "page_table b1 (PageId_of (fh_fd fh) p) = Some f"
    and "0 < pin_count (pg b1 f)" and "pg_data (pg b1 f) = data"
    and "file_page fh b p = Some data" and "page_ok (file_hdr fh) data"
    and "view_kept b b1" and "pins_kept b b1" and "disk_frame (dm b) (dm b1)"
    and "\<And>q. num_pages (file_hdr fh) \<le> q \<Longrightarrow> page_table b1 (PageId_of (fh_fd fh) q) = None"
    and "pin_count (pg b1 f) = (if page_table b (PageId_of (fh_fd fh) p) = None then 1 else pin_count (pg b f) + 1)"
    and "pin_count (pg b1 f) = 1 \<or> frame_free b1"
proof -
  obtain L where L: "bpm_inv L b" using rm_invD(1) [OF inv] by blast
  obtain data where data: "file_page fh b p = Some data" "page_ok (file_hdr fh) data"
    using file_invD(4) [OF rm_invD(8) [OF inv] p] by blast
  let ?pid = "PageId_of (fh_fd fh) p"
  have view: "bpm_view b ?pid = Some data" using data(1) by (simp add: file_page_def)
  from L show ?thesis
  proof (cases rule: fetch_page_cases [where pid = ?pid])
    case full
    then show ?thesis using room by (simp add: frame_free_def)
  next
    case (lost f b' e)
    then show ?thesis using view by simp
  next
    case (got f b1 L')
    have eq: "fetch_page_handle p fh b = Ok f (fh, b1)"
      using got(1) p by (simp add: fetch_page_handle_def RmPageHandle_new_def data_page_def)
    have "page_table b1 (PageId_of (fh_fd fh) q) = None" if "num_pages (file_hdr fh) \<le> q" for q
      using got(11) rm_invD(7) [OF inv that] p that by (simp add: data_page_def)
    moreover have "0 < pin_count (pg b1 f)"
    proof (cases "page_table b ?pid")
      case (Some g)
      then have "g = f" using fetch_page_hit [OF Some] got(1) by simp
      then show ?thesis using got(6) Some frames_okD(3) [OF L table_okD(1) [OF L Some]] by simp
    qed (use got(6) in simp)
    moreover have "synced_but {} b1" using got(10) rm_invD(2) [OF inv] by blast
    moreover have "frame_free b1" if np: "pin_count (pg b1 f) \<noteq> 1"
    proof -
      obtain g where g: "page_table b ?pid = Some g" using np got(6) by (cases "page_table b ?pid") auto
      have fb1: "f = g" "b1 = put_page g ((pg b g)\<lparr>pin_count := pin_count (pg b g) + 1\<rparr>) (lru_pin g (repl b)) (dm b) b"
        using got(1) fetch_page_hit [OF g] by auto
      have "f \<notin> set (lru_frames (repl b))" using np got(6) g lru_okD(4) [OF L] by auto
      then have "lru_frames (repl b1) = lru_frames (repl b)" "free_list b1 = free_list b"
        using lru.frames_pin [OF lru_okD(1) [OF L], of f] fb1 by (simp_all add: remove1_idem)
      then show ?thesis using room frame_free_iff [OF L] frame_free_iff [OF got(2)] by simp
    qed
    ultimately show ?thesis using that [OF eq got(2)] got data view by auto
  qed
qed

text \<open>The invariant after one page of the file was replaced and the header adjusted.\<close>

lemma rm_inv_commit:
  assumes inv: "bpm_inv L b1" and sy: "synced_but {f} b1"
    and pt: "page_table b1 (PageId_of (fh_fd fh) p) = Some f" and pin: "0 < pin_count (pg b1 f)"
    and fd: "0 \<le> fh_fd fh" "fh_fd fh < MAX_FD" "fd_open (dm b1) (fh_fd fh)"
    and np: "fd2pageno (dm b1) (fh_fd fh) = num_pages (file_hdr fh')"
      "\<And>q. num_pages (file_hdr fh') \<le> q \<Longrightarrow> page_table b1 (PageId_of (fh_fd fh) q) = None"
    and fh': "fh_fd fh' = fh_fd fh"
    and len: "length data = PAGE_SIZE"
    and same: "\<And>q. data_page (file_hdr fh') q \<Longrightarrow> q \<noteq> p \<Longrightarrow> file_page fh b1 q = v q"
    and fi: "file_inv (file_hdr fh') (v(p \<mapsto> data))"
  shows "rm_inv fh' (commit f data b1)"
    and "rm_abs fh' (commit f data b1) = file_abs (file_hdr fh') (v(p \<mapsto> data))"
proof -
  note c = commit_ok [OF inv pt pin _ len sy]
  have op: "fd_open (dm b1) (pid_fd (PageId_of (fh_fd fh) p))" using fd(3) by simp
  have pages: "(v(p \<mapsto> data)) q = file_page fh' (commit f data b1) q" if "data_page (file_hdr fh') q" for q
    using c(3) [OF op] same [OF that] by (simp add: file_page_def fh')
  have "\<exists>L. bpm_inv L (commit f data b1)" using c(1) [OF op] by blast
  moreover have "file_inv (file_hdr fh') (file_page fh' (commit f data b1))"
    using file_inv_cong [OF pages fi] .
  ultimately show "rm_inv fh' (commit f data b1)"
    unfolding rm_inv_def using c(2,4,5) [OF op] fd np by (simp add: fh')
  show "rm_abs fh' (commit f data b1) = file_abs (file_hdr fh') (v(p \<mapsto> data))"
    unfolding rm_abs_def by (rule file_abs_cong) (erule pages [symmetric])
qed

lemma pages_kept:
  assumes inv: "rm_inv fh b" and vk: "view_kept b b1" and q: "data_page (file_hdr fh) q"
  shows "file_page fh b1 q = file_page fh b q"
proof -
  obtain d where "file_page fh b q = Some d" using file_invD(4) [OF rm_invD(8) [OF inv] q] by blast
  then show ?thesis using vk rm_invD(5) [OF inv] by (auto simp: view_kept_def file_page_def)
qed

text \<open>The pages of other open files after a table operation.\<close>

definition others_kept :: "int \<Rightarrow> bpm \<Rightarrow> bpm \<Rightarrow> bool" where
  "others_kept fd b b' \<longleftrightarrow> (\<forall>q cs. pid_fd q \<noteq> fd \<longrightarrow> fd_open (dm b) (pid_fd q) \<longrightarrow>
      bpm_view b q = Some cs \<longrightarrow> bpm_view b' q = Some cs)"

lemma others_kept_view: "view_kept b b' \<Longrightarrow> others_kept fd b b'"
  by (simp add: view_kept_def others_kept_def)

section \<open>get_record and is_record\<close>

lemma rec_at_drop:
  "rec_data (RmRecord_of (record_size h) (drop (nat (get_slot h s)) data)) = rec_at h data s"
  by (simp add: RmRecord_of_def rec_at_def mem_read_def)

lemma get_record_ok:
  assumes inv: "rm_inv fh b" and p: "data_page (file_hdr fh) (rid_page rid)" and room: "frame_free b"
    and s: "0 \<le> rid_slot rid" "rid_slot rid < num_records_per_page (file_hdr fh)"
  obtains f b1 where
    "get_record rid fh b = Ok (map_option (\<lambda>r. \<lparr>rec_data = r, rec_size = record_size (file_hdr fh), allocated = True\<rparr>)
       (rm_abs fh b rid)) (fh, b1)"
    and "is_record rid fh b = Ok (rm_abs fh b rid \<noteq> None) (fh, b1)"
    and "rm_inv fh b1" and "rm_abs fh b1 = rm_abs fh b" and "view_kept b b1"
    and "page_table b1 (PageId_of (fh_fd fh) (rid_page rid)) = Some f"
    and "pin_count (pg b1 f) = (if page_table b (PageId_of (fh_fd fh) (rid_page rid)) = None then 1
                                else pin_count (pg b f) + 1)"
    and "pins_kept b b1"
proof -
  let ?h = "file_hdr fh"
  from fetch_handle [OF inv p room] obtain f b1 L data where
    fp: "fetch_page_handle (rid_page rid) fh b = Ok f (fh, b1)"
    and b1: "bpm_inv L b1" "synced_but {} b1" "page_table b1 (PageId_of (fh_fd fh) (rid_page rid)) = Some f"
      "pg_data (pg b1 f) = data"
    and data: "file_page fh b (rid_page rid) = Some data" "page_ok ?h data"
    and k: "view_kept b b1" "pins_kept b b1" "disk_frame (dm b) (dm b1)"
      "\<And>q. num_pages ?h \<le> q \<Longrightarrow> page_table b1 (PageId_of (fh_fd fh) q) = None"
      "pin_count (pg b1 f) = (if page_table b (PageId_of (fh_fd fh) (rid_page rid)) = None then 1 else pin_count (pg b f) + 1)"
    by metis
  note h = file_invD(1) [OF rm_invD(8) [OF inv]]
  have bit: "is_set (page_bitmap data) (nat (rid_slot rid)) \<longleftrightarrow> is_set (pbits ?h data) (nat (rid_slot rid))"
    using page_bit [OF h page_okD(1) [OF h data(2)]] s by simp
  have abs: "rm_abs fh b rid = (if is_set (pbits ?h data) (nat (rid_slot rid)) then Some (rec_at ?h data (rid_slot rid)) else None)"
    using p s data(1) by (simp add: rm_abs_def file_abs_def)
  have 1: "get_record rid fh b = Ok (map_option (\<lambda>r. \<lparr>rec_data = r, rec_size = record_size ?h, allocated = True\<rparr>)
       (rm_abs fh b rid)) (fh, b1)"
    using fp slot_bounds(3,4) [OF h s] b1(4) bit abs
    by (simp add: get_record_def RmRecord_of_def rec_at_def mem_read_def)
  have 2: "is_record rid fh b = Ok (rm_abs fh b rid \<noteq> None) (fh, b1)"
    using fp slot_bounds(4) [OF h s] b1(4) bit abs by (simp add: is_record_def)
  have pages: "file_page fh b q = file_page fh b1 q" if "data_page ?h q" for q
    using pages_kept [OF inv k(1) that] by simp
  have "file_inv ?h (file_page fh b1)" using file_inv_cong [OF pages rm_invD(8) [OF inv]] .
  then have 3: "rm_inv fh b1"
    unfolding rm_inv_def using b1(1,2) rm_invD(3-6) [OF inv] k(4) disk_frame_open [OF k(3)] disk_frame_pageno [OF k(3)]
    by auto
  have 4: "rm_abs fh b1 = rm_abs fh b" unfolding rm_abs_def
    by (rule file_abs_cong) (erule pages [symmetric])
  show ?thesis using that [OF 1 2 3 4 k(1) b1(3) k(5,2)] .
qed

section \<open>update_record and delete_record\<close>

lemma update_record_ok:
  assumes inv: "rm_inv fh b" and rid: "rm_abs fh b rid = Some r" and room: "frame_free b"
    and buf: "record_size (file_hdr fh) \<le> int (length buf)"
  obtains b' where "update_record rid buf fh b = Ok () (fh, b')" and "rm_inv fh b'"
    and "rm_abs fh b' = (rm_abs fh b)(rid \<mapsto> take (nat (record_size (file_hdr fh))) buf)"
    and "others_kept (fh_fd fh) b b'" and "frame_free b'"
proof -
  let ?h = "file_hdr fh" and ?p = "rid_page rid" and ?s = "rid_slot rid"
  let ?buf = "take (nat (record_size ?h)) buf"
  have abs: "file_abs ?h (file_page fh b) (Rid_of ?p ?s) = Some r" using rid by (simp add: rm_abs_def)
  obtain dp: "data_page ?h ?p" and s: "0 \<le> ?s" "?s < num_records_per_page ?h"
    using file_absD [OF abs] by metis
  from fetch_handle [OF inv dp room] obtain f b1 L data where
    fp: "fetch_page_handle ?p fh b = Ok f (fh, b1)"
    and b1: "bpm_inv L b1" "synced_but {} b1" "page_table b1 (PageId_of (fh_fd fh) ?p) = Some f"
      "0 < pin_count (pg b1 f)" "pg_data (pg b1 f) = data"
    and data: "file_page fh b ?p = Some data" "page_ok ?h data"
    and k: "view_kept b b1" "disk_frame (dm b) (dm b1)"
      "\<And>q. num_pages ?h \<le> q \<Longrightarrow> page_table b1 (PageId_of (fh_fd fh) q) = None"
      "pin_count (pg b1 f) = 1 \<or> frame_free b1"
    by metis
  note h = file_invD(1) [OF rm_invD(8) [OF inv]]
  have set: "is_set (page_bitmap data) (nat ?s)"
    using page_bit [OF h page_okD(1) [OF h data(2)]] s abs data(1) by (auto simp: file_abs_def split: if_splits)
  let ?d = "mem_write data (nat (get_slot ?h ?s)) ?buf"
  have fl: "f < length (pages b1)" using table_okD(1) [OF b1(1,3)] frames_okD(1) [OF b1(1)] by simp
  have w: "page_write f (nat (get_slot ?h ?s)) ?buf b1 = upd_data f (\<lambda>_. ?d) b1"
    using upd_data_const [OF fl, of "\<lambda>d. mem_write d (nat (get_slot ?h ?s)) ?buf"] b1(5)
    by (simp add: page_write_upd)
  have eq: "update_record rid buf fh b = Ok () (fh, commit f ?d b1)"
    using fp set b1(5) slot_bounds(3,4) [OF h s] buf fl
    by (simp add: update_record_def Let_def w commit_def pg_upd_data)
  have lb: "length ?buf = nat (record_size ?h)" using buf by simp
  have len: "length ?d = PAGE_SIZE"
    using page_okD(1) [OF h data(2)] slot_bounds(2) [OF h s] by (intro length_parts) simp_all
  note fu = file_update [OF rm_invD(8) [OF inv] abs lb]
  have the: "the (file_page fh b ?p) = data" using data(1) by simp
  have sy: "synced_but {f} b1" using b1(2) by (simp add: synced_but_def)
  note c = rm_inv_commit [OF b1(1) sy b1(3,4) rm_invD(3,4) [OF inv] _ _ _ refl len _ fu(1) [unfolded the]]
  have prem: "fd_open (dm b1) (fh_fd fh)" "fd2pageno (dm b1) (fh_fd fh) = num_pages ?h"
    "\<And>q. data_page ?h q \<Longrightarrow> q \<noteq> ?p \<Longrightarrow> file_page fh b1 q = file_page fh b q"
    using disk_frame_open [OF k(2)] disk_frame_pageno [OF k(2)] rm_invD(5,6) [OF inv] pages_kept [OF inv k(1)] by auto
  have "rm_abs fh (commit f ?d b1) = (rm_abs fh b)(rid \<mapsto> ?buf)"
    using c(2) [OF prem(1,2) k(3) prem(3)] fu(2) [unfolded the] by (simp add: rm_abs_def)
  moreover have "others_kept (fh_fd fh) b (commit f ?d b1)"
    using k(1) commit_ok(3) [OF b1(1,3,4) _ len sy] prem(1) by (auto simp: others_kept_def view_kept_def)
  moreover have "frame_free (commit f ?d b1)"
    using commit_ok(8) [OF b1(1,3,4) _ len sy] prem(1) k(4) by simp
  ultimately show ?thesis using that [OF eq c(1) [OF prem(1,2) k(3) prem(3)]] by blast
qed

lemma delete_record_ok:
  assumes inv: "rm_inv fh b" and rid: "rm_abs fh b rid = Some r" and room: "frame_free b"
  obtains fh' b' where "delete_record rid fh b = Ok () (fh', b')" and "rm_inv fh' b'"
    and "rm_abs fh' b' = (rm_abs fh b)(rid := None)" and "fh_fd fh' = fh_fd fh"
    and "num_pages (file_hdr fh') = num_pages (file_hdr fh)"
    and "others_kept (fh_fd fh) b b'" and "frame_free b'"
proof -
  let ?h = "file_hdr fh" and ?p = "rid_page rid" and ?s = "rid_slot rid"
  have abs: "file_abs ?h (file_page fh b) (Rid_of ?p ?s) = Some r" using rid by (simp add: rm_abs_def)
  obtain dp: "data_page ?h ?p" and s: "0 \<le> ?s" "?s < num_records_per_page ?h"
    using file_absD [OF abs] by metis
  from fetch_handle [OF inv dp room] obtain f b1 L data where
    fp: "fetch_page_handle ?p fh b = Ok f (fh, b1)"
    and b1: "bpm_inv L b1" "synced_but {} b1" "page_table b1 (PageId_of (fh_fd fh) ?p) = Some f"
      "0 < pin_count (pg b1 f)" "pg_data (pg b1 f) = data"
    and data: "file_page fh b ?p = Some data" "page_ok ?h data"
    and k: "view_kept b b1" "disk_frame (dm b) (dm b1)"
      "\<And>q. num_pages ?h \<le> q \<Longrightarrow> page_table b1 (PageId_of (fh_fd fh) q) = None"
      "pin_count (pg b1 f) = 1 \<or> frame_free b1"
    by metis
  note h = file_invD(1) [OF rm_invD(8) [OF inv]]
  have the: "the (file_page fh b ?p) = data" using data(1) by simp
  have bits: "is_set (pbits ?h data) (nat ?s)"
    using abs data(1) by (auto simp: file_abs_def split: if_splits)
  have set: "is_set (page_bitmap data) (nat ?s)"
    using bits page_bit [OF h page_okD(1) [OF h data(2)]] s by simp
  let ?full = "num_records data = num_records_per_page ?h"
  let ?d = "if ?full then set_next_free_page_no (first_free_page_no ?h) (pd_delete ?s data) else pd_delete ?s data"
  let ?h' = "if ?full then hdr_release ?p ?h else ?h"
  let ?fh = "fh\<lparr>file_hdr := ?h'\<rparr>"
  have fl: "f < length (pages b1)" "pg_id (pg b1 f) = PageId_of (fh_fd fh) ?p"
    using table_okD(1,2) [OF b1(1,3)] frames_okD(1) [OF b1(1)] by auto
  have upd: "upd_data f (\<lambda>d. set_num_records (num_records d - 1) d)
      (upd_data f (upd_bitmap (\<lambda>bm. bm_reset bm (nat ?s))) b1) = upd_data f (\<lambda>_. pd_delete ?s data) b1"
    using fl b1(5) by (simp add: upd_data_upd_data upd_data_const [OF fl(1), of "\<lambda>d. set_num_records (num_records (upd_bitmap (\<lambda>bm. bm_reset bm (nat ?s)) d) - 1) (upd_bitmap (\<lambda>bm. bm_reset bm (nat ?s)) d)"]
        pd_delete_def Let_def)
  have eq: "delete_record rid fh b = Ok () (?fh, commit f ?d b1)"
    using fp set b1(5) slot_bounds(4) [OF h s] fl
    by (simp add: delete_record_def Let_def upd release_page_handle_def hdr_release_def commit_def
        pg_upd_data upd_data_upd_data)
  note pd = pd_delete_parts [OF h data(2) s bits]
  have len: "length ?d = PAGE_SIZE" using page_okD(1) [OF h pd(1)] by simp
  note fd = file_delete [OF rm_invD(8) [OF inv] abs, unfolded the]
  have sy: "synced_but {f} b1" using b1(2) by (simp add: synced_but_def)
  have nph: "num_pages ?h' = num_pages ?h" "data_page ?h' = data_page ?h" by (simp_all add: hdr_release_same)
  have prem: "fd_open (dm b1) (fh_fd fh)" "fd2pageno (dm b1) (fh_fd fh) = num_pages (file_hdr ?fh)"
    "\<And>q. num_pages (file_hdr ?fh) \<le> q \<Longrightarrow> page_table b1 (PageId_of (fh_fd fh) q) = None"
    "fh_fd ?fh = fh_fd fh"
    "\<And>q. data_page (file_hdr ?fh) q \<Longrightarrow> q \<noteq> ?p \<Longrightarrow> file_page fh b1 q = file_page fh b q"
    using disk_frame_open [OF k(2)] disk_frame_pageno [OF k(2)] rm_invD(5,6) [OF inv] pages_kept [OF inv k(1)] k(3) nph
    by auto
  have fi: "file_inv (file_hdr ?fh) ((file_page fh b)(?p \<mapsto> ?d))" using fd(1) by simp
  note c = rm_inv_commit [OF b1(1) sy b1(3,4) rm_invD(3,4) [OF inv] prem(1-4) len prem(5) fi]
  have "rm_abs ?fh (commit f ?d b1) = (rm_abs fh b)(rid := None)"
    using c(2) fd(2) by (simp add: rm_abs_def)
  moreover have "others_kept (fh_fd fh) b (commit f ?d b1)"
    using k(1) commit_ok(3) [OF b1(1,3,4) _ len sy] prem(1) by (auto simp: others_kept_def view_kept_def)
  moreover have "frame_free (commit f ?d b1)"
    using commit_ok(8) [OF b1(1,3,4) _ len sy] prem(1) k(4) by simp
  ultimately show ?thesis using that [OF eq c(1)] nph by auto
qed

section \<open>insert_record\<close>

lemma commit_upd:
  assumes "f < length (pages b)"
  shows "commit f d (upd_data f g b) = commit f d b"
proof -
  have "pg_id (pg (upd_data f g b) f) = pg_id (pg b f)" using assms by (simp add: pg_upd_data)
  then show ?thesis using assms by (simp add: commit_def upd_data_upd_data)
qed

text \<open>\<open>insert_record\<close> once it has the page to insert into.\<close>

lemma insert_tail:
  assumes cr: "create_page_handle fh b = Ok f (fh1, b1)" and fl: "f < length (pages b1)"
    and h: "hdr_ok (file_hdr fh1)" and ok: "page_ok (file_hdr fh1) (pg_data (pg b1 f))"
    and room: "num_records (pg_data (pg b1 f)) < num_records_per_page (file_hdr fh1)"
    and buf: "record_size (file_hdr fh1) \<le> int (length buf)"
  defines "h \<equiv> file_hdr fh1" and "data \<equiv> pg_data (pg b1 f)"
  defines "s \<equiv> first_bit False (page_bitmap data) (num_records_per_page h)"
  defines "d \<equiv> pd_insert h s (take (nat (record_size h)) buf) data"
  shows "insert_record buf fh b = Ok (Rid_of (page_no (pg_id (pg (commit f d b1) f))) s)
    (if num_records d = num_records_per_page h
     then fh1\<lparr>file_hdr := h\<lparr>first_free_page_no := next_free_page_no d\<rparr>\<rparr> else fh1, commit f d b1)"
proof -
  note fs = free_slot [OF h ok room, folded h_def data_def, folded s_def]
  have s: "0 \<le> s" "s < num_records_per_page h" using fs by auto
  have inp: "slot_in_page h s" "bit_in_page s" using slot_bounds(3,4) [OF h] s by (simp_all add: h_def)
  let ?w = "upd_data f (\<lambda>data. set_num_records (num_records data + 1) data)
    (upd_data f (upd_bitmap (\<lambda>bm. bm_set bm (nat s)))
      (page_write f (nat (get_slot h s)) (take (nat (record_size h)) buf) b1))"
  have w: "?w = upd_data f (\<lambda>_. d) b1"
    using fl upd_data_const [OF fl, of "\<lambda>x. pd_insert h s (take (nat (record_size h)) buf) x"]
    by (simp add: page_write_upd upd_data_upd_data d_def data_def pd_insert_def Let_def)
  show ?thesis
    using cr inp buf fl w
    by (simp add: insert_record_def Let_def h_def [symmetric] data_def [symmetric] s_def [symmetric]
        commit_def pg_upd_data)
qed

lemma page_ok_len: "page_ok h d \<Longrightarrow> length d = PAGE_SIZE"
  by (simp add: page_ok_def)

lemma insert_existing:
  assumes inv: "rm_inv fh b" and room: "frame_free b" and buf: "record_size (file_hdr fh) \<le> int (length buf)"
    and ff: "first_free_page_no (file_hdr fh) \<noteq> RM_NO_PAGE"
  obtains rid fh' b' where "insert_record buf fh b = Ok rid (fh', b')" and "rm_inv fh' b'"
    and "rm_abs fh b rid = None"
    and "rm_abs fh' b' = (rm_abs fh b)(rid \<mapsto> take (nat (record_size (file_hdr fh))) buf)"
    and "others_kept (fh_fd fh) b b'" and "frame_free b'" and "fh_fd fh' = fh_fd fh"
    and "num_pages (file_hdr fh') = num_pages (file_hdr fh)"
proof -
  let ?h = "file_hdr fh" and ?p = "first_free_page_no (file_hdr fh)" and ?buf = "take (nat (record_size (file_hdr fh))) buf"
  have lb: "length ?buf = nat (record_size ?h)" using buf by simp
  note fi = file_insert [OF rm_invD(8) [OF inv] ff lb]
  from fetch_handle [OF inv fi(1) room] obtain f b1 L data where
    fp: "fetch_page_handle ?p fh b = Ok f (fh, b1)"
    and b1: "bpm_inv L b1" "synced_but {} b1" "page_table b1 (PageId_of (fh_fd fh) ?p) = Some f"
      "0 < pin_count (pg b1 f)" "pg_data (pg b1 f) = data"
    and data: "file_page fh b ?p = Some data" "page_ok ?h data"
    and k: "view_kept b b1" "disk_frame (dm b) (dm b1)"
      "\<And>q. num_pages ?h \<le> q \<Longrightarrow> page_table b1 (PageId_of (fh_fd fh) q) = None"
      "pin_count (pg b1 f) = 1 \<or> frame_free b1"
    by metis
  note h = file_invD(1) [OF rm_invD(8) [OF inv]]
  have the: "the (file_page fh b ?p) = data" using data(1) by simp
  note fi = fi [unfolded the]
  have room': "num_records data < num_records_per_page ?h"
  proof -
    obtain qs where "set qs = roomy ?h (file_page fh b)" "free_chain (\<lambda>p. the (file_page fh b p)) ?p qs"
      using rm_invD(8) [OF inv] by (auto simp: file_inv_def)
    then have "?p \<in> roomy ?h (file_page fh b)" using ff by (cases qs) auto
    then show ?thesis using the by (simp add: roomy_def)
  qed
  have fl: "f < length (pages b1)" using table_okD(1) [OF b1(1,3)] frames_okD(1) [OF b1(1)] by simp
  have cr: "create_page_handle fh b = Ok f (fh, b1)" using fp ff by (simp add: create_page_handle_def)
  define s where "s = first_bit False (page_bitmap data) (num_records_per_page ?h)"
  define d where "d = pd_insert ?h s ?buf data"
  define h' where "h' = (if num_records d = num_records_per_page ?h
     then ?h\<lparr>first_free_page_no := next_free_page_no d\<rparr> else ?h)"
  note fi' = fi [folded s_def, folded d_def, folded h'_def]
  let ?fh = "fh\<lparr>file_hdr := h'\<rparr>"
  have nph: "num_pages h' = num_pages ?h" by (simp add: h'_def)
  have "data_page h' ?p" using fi'(1) by (simp add: data_page_def h'_def)
  then have len: "length d = PAGE_SIZE" using file_invD(4) [OF fi'(6)] page_ok_len by fastforce
  have sy: "synced_but {f} b1" using b1(2) by (simp add: synced_but_def)
  have prem: "fd_open (dm b1) (fh_fd fh)" "fd2pageno (dm b1) (fh_fd fh) = num_pages (file_hdr ?fh)"
    "\<And>q. num_pages (file_hdr ?fh) \<le> q \<Longrightarrow> page_table b1 (PageId_of (fh_fd fh) q) = None"
    "fh_fd ?fh = fh_fd fh"
    "\<And>q. data_page (file_hdr ?fh) q \<Longrightarrow> q \<noteq> ?p \<Longrightarrow> file_page fh b1 q = file_page fh b q"
    using disk_frame_open [OF k(2)] disk_frame_pageno [OF k(2)] rm_invD(5,6) [OF inv] pages_kept [OF inv k(1)] k(3)
    by (auto simp: nph data_page_def)
  have fi6: "file_inv (file_hdr ?fh) ((file_page fh b)(?p \<mapsto> d))" using fi'(6) by simp
  note c = rm_inv_commit [OF b1(1) sy b1(3,4) rm_invD(3,4) [OF inv] prem(1-4) len prem(5) fi6]
  have op: "fd_open (dm b1) (pid_fd (PageId_of (fh_fd fh) ?p))" using prem(1) by simp
  note ck = commit_ok [OF b1(1,3,4) op len sy]
  have "insert_record buf fh b = Ok (Rid_of ?p s) (?fh, commit f d b1)"
    using insert_tail [OF cr fl h, unfolded b1(5), OF data(2) room' buf, folded s_def, folded d_def] ck(6)
    by (simp add: h'_def split: if_splits)
  moreover have "rm_abs ?fh (commit f d b1) = (rm_abs fh b)(Rid_of ?p s \<mapsto> ?buf)"
    using c(2) fi'(7) by (simp add: rm_abs_def)
  moreover have "others_kept (fh_fd fh) b (commit f d b1)"
    using k(1) ck(3) by (auto simp: others_kept_def view_kept_def)
  ultimately show ?thesis
    using that [of "Rid_of ?p s" ?fh "commit f d b1"] c(1) fi'(5) ck(8) k(4) by (simp add: rm_abs_def h'_def)
qed

lemma create_new_handle:
  assumes inv: "rm_inv fh b" and room: "frame_free b" and max: "num_pages (file_hdr fh) + 1 < 2 ^ 31"
  defines "h \<equiv> file_hdr fh"
  obtains f b1 L where "create_new_page_handle fh b = Ok f
      (fh\<lparr>file_hdr := h\<lparr>num_pages := num_pages h + 1, first_free_page_no := num_pages h\<rparr>\<rparr>,
       upd_data f (\<lambda>_. pd_blank h (replicate PAGE_SIZE 0)) b1)"
    and "bpm_inv L b1" and "synced_but {f} b1"
    and "page_table b1 (PageId_of (fh_fd fh) (num_pages h)) = Some f" and "pin_count (pg b1 f) = 1"
    and "\<And>q bs. q \<noteq> PageId_of (fh_fd fh) (num_pages h) \<Longrightarrow> fd_open (dm b) (pid_fd q) \<Longrightarrow>
         bpm_view b q = Some bs \<Longrightarrow> bpm_view b1 q = Some bs"
    and "fd_open (dm b1) (fh_fd fh)" and "fd2pageno (dm b1) (fh_fd fh) = num_pages h + 1"
    and "\<And>q. num_pages h + 1 \<le> q \<Longrightarrow> page_table b1 (PageId_of (fh_fd fh) q) = None"
proof -
  obtain L where L: "bpm_inv L b" using rm_invD(1) [OF inv] by blast
  note d = rm_invD [OF inv]
  have n: "0 \<le> fd2pageno (dm b) (fh_fd fh)" using d(6) file_invD(2) [OF d(8)] by simp
  have fresh: "page_table b (PageId_of (fh_fd fh) (fd2pageno (dm b) (fh_fd fh))) = None" using d(6,7) by simp
  from L d(3,4) n fresh show ?thesis
  proof (cases rule: new_page_cases)
    case full
    then show ?thesis using room by (simp add: frame_free_def)
  next
    case (got f b1 L')
    note got = got [unfolded d(6), folded h_def]
    have fl: "f < length (pages b1)" using table_okD(1) [OF got(2,4)] frames_okD(1) [OF got(2)] by simp
    have upd: "upd_data f (upd_bitmap (\<lambda>bm. mem_write bm 0 (bm_init (nat (bitmap_size h)))))
        (upd_data f (set_num_records 0) (upd_data f (set_next_free_page_no RM_NO_PAGE) b1))
      = upd_data f (\<lambda>_. pd_blank h (replicate PAGE_SIZE 0)) b1"
      using fl got(5) upd_data_const [OF fl, of "pd_blank h"]
      by (simp add: upd_data_upd_data pd_blank_def [abs_def])
    have "create_new_page_handle fh b = Ok f
      (fh\<lparr>file_hdr := h\<lparr>num_pages := num_pages h + 1, first_free_page_no := num_pages h\<rparr>\<rparr>,
       upd_data f (\<lambda>_. pd_blank h (replicate PAGE_SIZE 0)) b1)"
      using got(1,5) fl by (simp add: create_new_page_handle_def Let_def h_def [symmetric] upd pg_upd_data)
    moreover have "page_table b1 (PageId_of (fh_fd fh) q) = None" if "num_pages h + 1 \<le> q" for q
      using got(11) [of "PageId_of (fh_fd fh) q"] d(7) [of q] that by (simp add: h_def)
    moreover have "synced_but {f} b1" using got(10) d(2) by blast
    moreover have "i32 (num_pages h + 1) = num_pages h + 1"
      using max file_invD(2) [OF d(8)] by (intro i32_id) (simp_all add: h_def)
    ultimately show ?thesis using that [of f b1 L'] got d(5) by simp
  qed
qed

lemma insert_fresh:
  assumes inv: "rm_inv fh b" and room: "frame_free b" and buf: "record_size (file_hdr fh) \<le> int (length buf)"
    and ff: "first_free_page_no (file_hdr fh) = RM_NO_PAGE" and max: "num_pages (file_hdr fh) + 1 < 2 ^ 31"
  obtains rid fh' b' where "insert_record buf fh b = Ok rid (fh', b')" and "rm_inv fh' b'"
    and "rm_abs fh b rid = None"
    and "rm_abs fh' b' = (rm_abs fh b)(rid \<mapsto> take (nat (record_size (file_hdr fh))) buf)"
    and "others_kept (fh_fd fh) b b'" and "frame_free b'" and "fh_fd fh' = fh_fd fh"
    and "num_pages (file_hdr fh') = num_pages (file_hdr fh) + 1"
proof -
  let ?h = "file_hdr fh" and ?p = "num_pages (file_hdr fh)" and ?buf = "take (nat (record_size (file_hdr fh))) buf"
  define data where "data = pd_blank ?h (replicate PAGE_SIZE 0)"
  define h1 where "h1 = ?h\<lparr>num_pages := ?p + 1, first_free_page_no := ?p\<rparr>"
  define v1 where "v1 = (file_page fh b)(?p \<mapsto> data)"
  obtain f b1 L where cn: "create_new_page_handle fh b = Ok f (fh\<lparr>file_hdr := h1\<rparr>, upd_data f (\<lambda>_. data) b1)"
    and b1: "bpm_inv L b1" "synced_but {f} b1" "page_table b1 (PageId_of (fh_fd fh) ?p) = Some f"
      "pin_count (pg b1 f) = 1"
    and view: "\<And>q bs. q \<noteq> PageId_of (fh_fd fh) ?p \<Longrightarrow> fd_open (dm b) (pid_fd q) \<Longrightarrow>
         bpm_view b q = Some bs \<Longrightarrow> bpm_view b1 q = Some bs"
    and k: "fd_open (dm b1) (fh_fd fh)" "fd2pageno (dm b1) (fh_fd fh) = ?p + 1"
      "\<And>q. ?p + 1 \<le> q \<Longrightarrow> page_table b1 (PageId_of (fh_fd fh) q) = None"
    by (rule create_new_handle [OF inv room max, folded data_def h1_def]) blast
  have np: "file_inv h1 v1" "file_abs h1 v1 = file_abs ?h (file_page fh b)"
    using file_new_page [OF rm_invD(8) [OF inv] ff max, of "replicate PAGE_SIZE 0"]
    by (simp_all add: h1_def v1_def data_def)
  have h: "hdr_ok ?h" "hdr_ok h1" using file_invD(1) [OF rm_invD(8) [OF inv]] file_invD(1) [OF np(1)] .
  have lb: "length ?buf = nat (record_size h1)" using buf by (simp add: h1_def)
  have ff1: "first_free_page_no h1 \<noteq> RM_NO_PAGE" and fp: "first_free_page_no h1 = ?p"
    using file_invD(2) [OF rm_invD(8) [OF inv]] by (auto simp: h1_def RM_NO_PAGE_def)
  have rs: "record_size h1 = record_size ?h" "num_records_per_page h1 = num_records_per_page ?h" by (simp_all add: h1_def)
  have the: "the (v1 ?p) = data" by (simp add: v1_def)
  define s where "s = first_bit False (page_bitmap data) (num_records_per_page h1)"
  define d where "d = pd_insert h1 s ?buf data"
  define h' where "h' = (if num_records d = num_records_per_page h1
     then h1\<lparr>first_free_page_no := next_free_page_no d\<rparr> else h1)"
  note fi = file_insert [OF np(1) ff1 lb, unfolded fp the, folded s_def, folded d_def, folded h'_def]
  let ?fh = "fh\<lparr>file_hdr := h'\<rparr>"
  have fl: "f < length (pages b1)" using table_okD(1) [OF b1(1,3)] frames_okD(1) [OF b1(1)] by simp
  have cr: "create_page_handle fh b = Ok f (fh\<lparr>file_hdr := h1\<rparr>, upd_data f (\<lambda>_. data) b1)"
    using cn ff by (simp add: create_page_handle_def)
  have pgd: "pg_data (pg (upd_data f (\<lambda>_. data) b1) f) = data" using fl by (simp add: pg_upd_data)
  have ok: "page_ok h1 data" using file_invD(4) [OF np(1) fi(1)] fi(2) by auto
  have rm: "num_records data < num_records_per_page h1"
    using pd_blank_parts(2) [OF h(1), of "replicate PAGE_SIZE 0"] hdr_okD(3) [OF h(1)] by (simp add: data_def rs)
  have nph: "num_pages h' = ?p + 1" by (simp add: h'_def h1_def)
  have "data_page h' ?p" using fi(1) by (simp add: data_page_def nph h1_def)
  then have len: "length d = PAGE_SIZE" using file_invD(4) [OF fi(6)] page_ok_len by fastforce
  have old: "file_page fh b1 q = v1 q" if "data_page h' q" "q \<noteq> ?p" for q
  proof -
    have "data_page ?h q" using that by (simp add: data_page_def nph)
    then obtain x where "file_page fh b q = Some x" using file_invD(4) [OF rm_invD(8) [OF inv]] by blast
    then show ?thesis using view [of "PageId_of (fh_fd fh) q" x] that(2) rm_invD(5) [OF inv]
      by (simp add: file_page_def v1_def)
  qed
  have pin: "0 < pin_count (pg b1 f)" using b1(4) by simp
  have fi6: "file_inv (file_hdr ?fh) (v1(?p \<mapsto> d))" using fi(6) by simp
  have prem: "fd2pageno (dm b1) (fh_fd fh) = num_pages (file_hdr ?fh)"
    "\<And>q. num_pages (file_hdr ?fh) \<le> q \<Longrightarrow> page_table b1 (PageId_of (fh_fd fh) q) = None"
    "fh_fd ?fh = fh_fd fh"
    "\<And>q. data_page (file_hdr ?fh) q \<Longrightarrow> q \<noteq> ?p \<Longrightarrow> file_page fh b1 q = v1 q"
    using k nph old by auto
  note c = rm_inv_commit [OF b1(1,2,3) pin rm_invD(3,4) [OF inv] k(1) prem(1-3) len prem(4) fi6]
  have op: "fd_open (dm b1) (pid_fd (PageId_of (fh_fd fh) ?p))" using k(1) by simp
  note ck = commit_ok [OF b1(1,3) pin op len b1(2)]
  have cm: "commit f d (upd_data f (\<lambda>_. data) b1) = commit f d b1" using commit_upd [OF fl] .
  have fl': "f < length (pages (upd_data f (\<lambda>_. data) b1))" using fl by (simp add: upd_data_def upd_page_def)
  have "insert_record buf fh b = Ok (Rid_of ?p s) (?fh, commit f d b1)"
    using insert_tail [OF cr fl', simplified, unfolded pgd, OF h(2) ok rm, of buf] buf ck(6)
    by (simp add: h'_def d_def s_def rs commit_upd [OF fl])
  moreover have "rm_abs ?fh (commit f d b1) = (rm_abs fh b)(Rid_of ?p s \<mapsto> ?buf)"
    using c(2) fi(7) np(2) by (simp add: rm_abs_def)
  moreover have "others_kept (fh_fd fh) b (commit f d b1)"
    unfolding others_kept_def using ck(3) view by (metis PageId.select_convs(1))
  ultimately show ?thesis
    using that [of "Rid_of ?p s" ?fh "commit f d b1"] c(1) fi(5) np(2) nph ck(8) b1(4) by (simp add: rm_abs_def)
qed
end
