(* ===== verification/Index_Pages.thy ===== *)
theory Index_Pages
  imports Index Record_Store
begin

text \<open>
  The bytes of index files: the header survives being written and read back, the keys and record
  ids of a node stay inside their page and do not disturb each other, and the operations on the
  links between nodes (\<open>erase_leaf\<close>, \<open>maintain_child\<close>) change exactly the links they mean to.
\<close>

section \<open>The header\<close>

definition ix_hdr_ok :: "IxFileHdr \<Rightarrow> bool" where
  "ix_hdr_ok h \<longleftrightarrow> col_num h = int (length (col_types h)) \<and> length (col_lens h) = length (col_types h) \<and>
     tot_len h = 40 + 8 * col_num h \<and>
     list_all in_i32 [ix_first_free_page_no h, ix_num_pages h, root_page h, col_num h, col_tot_len h,
       btree_order h, keys_size h, first_leaf h, last_leaf h, tot_len h] \<and>
     list_all in_i32 (col_types h) \<and> list_all in_i32 (col_lens h)"

lemma length_enc_ints [simp]: "length (concat (map enc32 is)) = 4 * length is"
  by (induction "is") simp_all

lemma dec_enc_ints: "list_all in_i32 is \<Longrightarrow> dec_ints (length is) (concat (map enc32 is) @ xs) = is"
  by (induction "is") simp_all

lemma drop_enc_ints [simp]: "drop (4 * length is) (concat (map enc32 is) @ xs) = xs"
  by simp

lemma serialize_round:
  assumes "ix_hdr_ok h"
  shows "\<exists>bs. serialize h = Inr bs \<and> length bs = nat (tot_len h) \<and>
    deserialize (bs @ rest) (IxFileHdr_new 0 0 0 0 0 0 0 0 0) = Inr h"
proof -
  let ?n = "length (col_types h)"
  let ?ts = "concat (map enc32 (col_types h))" and ?ls = "concat (map enc32 (col_lens h))"
  let ?tail = "enc32 (col_tot_len h) @ enc32 (btree_order h) @ enc32 (keys_size h) @
      enc32 (first_leaf h) @ enc32 (last_leaf h)"
  let ?bs = "enc32 (tot_len h) @ enc32 (ix_first_free_page_no h) @ enc32 (ix_num_pages h) @
      enc32 (root_page h) @ enc32 (col_num h) @ ?ts @ ?ls @ ?tail"
  have n: "nat (col_num h) = ?n" "length (col_lens h) = ?n" "tot_len h = 40 + 8 * int ?n"
    using assms by (simp_all add: ix_hdr_ok_def)
  have s: "serialize h = Inr ?bs" using n by (simp add: serialize_def Let_def)
  have d16: "drop 16 (?bs @ rest) = enc32 (col_num h) @ ?ts @ ?ls @ ?tail @ rest" by simp
  have c: "dec32 (drop 16 (?bs @ rest)) = col_num h" unfolding d16 using assms by (simp add: ix_hdr_ok_def)
  have d20: "drop 20 (?bs @ rest) = ?ts @ ?ls @ ?tail @ rest" by simp
  have dn: "drop (20 + 4 * ?n) (?bs @ rest) = ?ls @ ?tail @ rest" by simp
  have dr: "drop (20 + 4 * ?n + 4 * ?n) (?bs @ rest) = ?tail @ rest"
    using n(2) drop_enc_ints [of "col_lens h" "?tail @ rest"] drop_drop [of "4 * ?n" "20 + 4 * ?n" "?bs @ rest"] dn
    by (metis add.commute)
  have ts: "dec_ints ?n (drop 20 (?bs @ rest)) = col_types h"
    unfolding d20 using dec_enc_ints [of "col_types h"] assms by (simp add: ix_hdr_ok_def)
  have ls: "dec_ints ?n (drop (20 + 4 * ?n) (?bs @ rest)) = col_lens h"
    unfolding dn using dec_enc_ints [of "col_lens h"] assms by (simp add: ix_hdr_ok_def)
  have t: "dec32 (?bs @ rest) = tot_len h" "dec32 (drop 4 (?bs @ rest)) = ix_first_free_page_no h"
    "dec32 (drop 8 (?bs @ rest)) = ix_num_pages h" "dec32 (drop 12 (?bs @ rest)) = root_page h"
    using assms by (simp_all add: ix_hdr_ok_def)
  have tl: "dec32 (?tail @ rest) = col_tot_len h" "dec32 (drop 4 (?tail @ rest)) = btree_order h"
    "dec32 (drop 8 (?tail @ rest)) = keys_size h" "dec32 (drop 12 (?tail @ rest)) = first_leaf h"
    "dec32 (drop 16 (?tail @ rest)) = last_leaf h"
    using assms by (simp_all add: ix_hdr_ok_def)
  have len: "length ?bs = nat (tot_len h)" using n by simp
  have "deserialize (?bs @ rest) (IxFileHdr_new 0 0 0 0 0 0 0 0 0) = Inr h"
    unfolding deserialize_def Let_def c n(1) dr ts ls t tl
    using n len by (cases h) (simp add: IxFileHdr_new_def)
  then show ?thesis using s len by blast
qed

text \<open>
  The header of an index file survives the round trip through its bytes: for every header
  whose counts and lengths are consistent and in the range of \<open>int\<close>, \<open>serialize\<close> passes its assertion and
  writes exactly \<open>tot_len_\<close> bytes, and \<open>deserialize\<close> of these bytes, whatever follows them in the page,
  passes its assertion and gives the same header.
\<close>

theorem ix_header_round_trip:
  assumes "ix_hdr_ok h"
  shows "\<exists>bs. serialize h = Inr bs \<and> int (length bs) = tot_len h \<and>
    (\<forall>rest. deserialize (bs @ rest) (IxFileHdr_new 0 0 0 0 0 0 0 0 0) = Inr h)"
proof -
  obtain bs where bs: "serialize h = Inr bs" "length bs = nat (tot_len h)"
    using serialize_round [OF assms, of "[]"] by blast
  have "deserialize (bs @ rest) (IxFileHdr_new 0 0 0 0 0 0 0 0 0) = Inr h" for rest
    using serialize_round [OF assms, of rest] bs(1) by auto
  moreover have "0 \<le> tot_len h" using assms by (simp add: ix_hdr_ok_def)
  ultimately show ?thesis using bs by auto
qed

definition ex_ix_hdr :: IxFileHdr where
  "ex_ix_hdr = \<lparr>ix_first_free_page_no = - 1, ix_num_pages = 3, root_page = 2, col_num = 2, col_types = [0, 2],
     col_lens = [4, 8], col_tot_len = 12, btree_order = 202, keys_size = 2436, first_leaf = 2, last_leaf = 2,
     tot_len = 56\<rparr>"

theorem ix_header_round_trip_witness:
  "\<exists>bs. serialize ex_ix_hdr = Inr bs \<and> length bs = 56 \<and>
     deserialize (bs @ replicate 100 7) (IxFileHdr_new 0 0 0 0 0 0 0 0 0) = Inr ex_ix_hdr"
  using ix_header_round_trip [of ex_ix_hdr] by (auto simp: ix_hdr_ok_def ex_ix_hdr_def)

section \<open>Keys and record ids inside a node\<close>

text \<open>The header \<open>create_index\<close> makes for columns of positive total length.\<close>

lemma ix_btree_order_eq:
  "0 < len \<Longrightarrow> len \<le> IX_MAX_COL_LEN \<Longrightarrow> ix_btree_order len = 4072 div (len + 8) - 1"
proof -
  assume l: "0 < len" "len \<le> IX_MAX_COL_LEN"
  have m: "(len + int sizeof_Rid) mod 2 ^ 64 = len + 8"
    using l by (intro mod_pos_pos_trivial [THEN trans]) (simp_all add: sizeof_Rid_def IX_MAX_COL_LEN_def)
  have "4072 div (len + 8) \<le> 4072 div 8" using l by (intro zdiv_mono2) simp_all
  moreover have "0 \<le> 4072 div (len + 8)" using l by (simp add: pos_imp_zdiv_nonneg_iff)
  ultimately have "(4072 div (len + 8) - 1 + 2 ^ 31) mod 2 ^ 32 = 4072 div (len + 8) - 1 + 2 ^ 31"
    by (intro mod_pos_pos_trivial) simp_all
  then show ?thesis unfolding ix_btree_order_def m by (simp add: PAGE_SIZE_def sizeof_IxPageHdr_def)
qed

definition node_layout :: "IxFileHdr \<Rightarrow> bool" where
  "node_layout h \<longleftrightarrow> 0 < col_tot_len h \<and> 2 < btree_order h \<and> keys_size h = (btree_order h + 1) * col_tot_len h \<and>
     24 + (btree_order h + 1) * (col_tot_len h + 8) \<le> int PAGE_SIZE"

lemma new_hdr_layout:
  assumes "0 < sum_list (map cm_len cols)" and "sum_list (map cm_len cols) \<le> IX_MAX_COL_LEN"
  shows "node_layout (ix_new_hdr cols)"
proof -
  let ?l = "sum_list (map cm_len cols)"
  have "4072 div 520 \<le> 4072 div (?l + 8)" using assms by (intro zdiv_mono2) (simp_all add: IX_MAX_COL_LEN_def)
  moreover have "4072 div (?l + 8) * (?l + 8) \<le> 4072"
    using assms(1) by (metis add_pos_pos minus_mod_eq_div_mult [symmetric] pos_mod_sign zero_less_numeral
        diff_le_eq le_add_same_cancel1)
  ultimately show ?thesis using assms ix_btree_order_eq [OF assms]
    by (simp add: node_layout_def ix_new_hdr_def Let_def update_tot_len_def IxFileHdr_new_def PAGE_SIZE_def)
qed

lemma node_slots:
  assumes h: "node_layout h" and i: "0 \<le> i" "i \<le> btree_order h"
  shows "range_in_page (ix_key_off h i) (col_tot_len h)" and "range_in_page (ix_rid_off h i) 8"
    and "24 \<le> ix_key_off h i" and "ix_key_off h i + col_tot_len h \<le> 24 + keys_size h" and "24 + keys_size h \<le> ix_rid_off h i"
proof -
  have k: "i * col_tot_len h + col_tot_len h \<le> (btree_order h + 1) * col_tot_len h"
    using h i mult_right_mono [of "i + 1" "btree_order h + 1" "col_tot_len h"] by (simp add: node_layout_def algebra_simps)
  have nn: "0 \<le> i * col_tot_len h" using h i by (simp add: node_layout_def)
  show "24 \<le> ix_key_off h i" "ix_key_off h i + col_tot_len h \<le> 24 + keys_size h" "24 + keys_size h \<le> ix_rid_off h i"
    using k nn h i by (simp_all add: ix_key_off_def ix_rid_off_def sizeof_IxPageHdr_def sizeof_Rid_def node_layout_def)
  have e: "24 + keys_size h + 8 * btree_order h + 8 \<le> int PAGE_SIZE"
    using h by (simp add: node_layout_def distrib_left distrib_right)
  have o: "ix_key_off h i = 24 + i * col_tot_len h" "ix_rid_off h i = 24 + keys_size h + i * 8"
    by (simp_all add: ix_key_off_def ix_rid_off_def sizeof_IxPageHdr_def sizeof_Rid_def)
  have ks: "i * col_tot_len h + col_tot_len h \<le> keys_size h" "0 < col_tot_len h"
    using k h by (simp_all only: node_layout_def)
  show "range_in_page (ix_key_off h i) (col_tot_len h)" "range_in_page (ix_rid_off h i) 8"
    unfolding range_in_page_def o using ks nn e i by linarith+
qed

text \<open>Two different slots do not overlap.\<close>

lemma node_slots_apart:
  assumes h: "node_layout h" and ij: "0 \<le> i" "i \<le> btree_order h" "0 \<le> j" "j \<le> btree_order h" "i \<noteq> j"
  shows "ix_key_off h j + col_tot_len h \<le> ix_key_off h i \<or> ix_key_off h i + col_tot_len h \<le> ix_key_off h j"
    and "ix_rid_off h j + 8 \<le> ix_rid_off h i \<or> ix_rid_off h i + 8 \<le> ix_rid_off h j"
proof -
  have step: "a * col_tot_len h + col_tot_len h \<le> c * col_tot_len h" if "a < c" for a c
    using h that mult_right_mono [of "a + 1" c "col_tot_len h"] by (simp add: node_layout_def algebra_simps)
  show "ix_key_off h j + col_tot_len h \<le> ix_key_off h i \<or> ix_key_off h i + col_tot_len h \<le> ix_key_off h j"
    using step [of i j] step [of j i] ij(5) by (cases "i < j") (auto simp: ix_key_off_def)
  show "ix_rid_off h j + 8 \<le> ix_rid_off h i \<or> ix_rid_off h i + 8 \<le> ix_rid_off h j"
    using ij(5) by (auto simp: ix_rid_off_def sizeof_Rid_def)
qed

lemma mem_read_4_of_8:
  "mem_read m off 8 = xs @ ys \<Longrightarrow> length xs = 4 \<Longrightarrow> length ys = 4 \<Longrightarrow>
   mem_read m off 4 = xs \<and> mem_read m (off + 4) 4 = ys"
proof -
  assume a: "mem_read m off 8 = xs @ ys" "length xs = 4" "length ys = 4"
  have "mem_read m off 4 = take 4 (mem_read m off 8)" by (simp add: mem_read_def)
  moreover have "mem_read m (off + 4) 4 = drop 4 (mem_read m off 8)"
    by (simp add: mem_read_def drop_take add.commute)
  ultimately show ?thesis using a by simp
qed

definition put_pair :: "IxFileHdr \<Rightarrow> int \<Rightarrow> bytes \<Rightarrow> Rid \<Rightarrow> bytes \<Rightarrow> bytes option" where
  "put_pair h i key r d = Option.bind (set_key h i key d) (set_rid h i r)"

lemma node_rid_read:
  "range_in_page (ix_rid_off h i) 8 \<Longrightarrow> mem_read d (nat (ix_rid_off h i)) 8 = mem_read d' (nat (ix_rid_off h i)) 8 \<Longrightarrow>
   node_rid h i d = node_rid h i d'"
proof -
  assume "range_in_page (ix_rid_off h i) 8" and e: "mem_read d (nat (ix_rid_off h i)) 8 = mem_read d' (nat (ix_rid_off h i)) 8"
  have r4: "mem_read x o' 4 = take 4 (mem_read x o' 8)" "mem_read x (o' + 4) 4 = drop 4 (mem_read x o' 8)" for x :: bytes and o'
    by (simp_all add: mem_read_def drop_take add.commute)
  show ?thesis unfolding node_rid_def r4(2) r4(1) [of d] r4(1) [of d'] e ..
qed

text \<open>
  Keys and record ids in the node pages of every index \<open>create_index\<close> can make (columns of
  total length 1 to 512): the order of the tree is greater than 2, so its assertion holds; every slot up to
  and including the reserved one, \<open>btree_order\<close>, lies in the page; writing a key and a record id into a slot
  and reading them back gives them; and the other slots and the 24 bytes of the node header are
  unchanged.
\<close>

theorem ix_node_slots:
  assumes hd: "h = ix_new_hdr cols" and len: "0 < sum_list (map cm_len cols)" "sum_list (map cm_len cols) \<le> IX_MAX_COL_LEN"
    and i: "0 \<le> i" "i \<le> btree_order h" and key: "int (length key) = col_tot_len h"
    and r: "in_i32 (rid_page r)" "in_i32 (rid_slot r)" and d: "length d = PAGE_SIZE"
  shows "2 < btree_order h \<and> (\<exists>d'. put_pair h i key r d = Some d' \<and> length d' = PAGE_SIZE \<and>
           get_key h i d' = Some key \<and> node_rid h i d' = Some r \<and>
           (\<forall>j. 0 \<le> j \<and> j \<le> btree_order h \<and> j \<noteq> i \<longrightarrow> get_key h j d' = get_key h j d \<and> node_rid h j d' = node_rid h j d) \<and>
           take 24 d' = take 24 d)"
proof -
  have h: "node_layout h" unfolding hd by (rule new_hdr_layout [OF len])
  have order: "2 < btree_order h" using h by (simp add: node_layout_def)
  note s = node_slots [OF h i]
  let ?ko = "nat (ix_key_off h i)" and ?ro = "nat (ix_rid_off h i)" and ?rb = "enc32 (rid_page r) @ enc32 (rid_slot r)"
  let ?d1 = "mem_write d ?ko key" and ?d2 = "mem_write (mem_write d ?ko key) ?ro ?rb"
  have b: "?ko + length key \<le> PAGE_SIZE" "?ro + 8 \<le> PAGE_SIZE" "24 \<le> ?ko" "?ko + length key \<le> ?ro"
    using s key by (auto simp: range_in_page_def)
  have l1: "length ?d1 = PAGE_SIZE" "length ?d2 = PAGE_SIZE" using b d by simp_all
  have tk: "take (nat (col_tot_len h)) key = key" using key by simp
  have f1: "put_pair h i key r d = Some ?d2"
    using s key tk by (simp add: put_pair_def set_key_def set_rid_def sizeof_Rid_def)
  have f2: "get_key h i ?d2 = Some key"
    using s(1) b d l1 key by (simp add: get_key_def mem_read_write_other mem_read_write_same)
  have f3: "node_rid h i ?d2 = Some r"
  proof -
    have "mem_read ?d2 ?ro 8 = ?rb" using b l1 by (simp add: mem_read_write_same)
    then have "mem_read ?d2 ?ro 4 = enc32 (rid_page r)" "mem_read ?d2 (?ro + 4) 4 = enc32 (rid_slot r)"
      using mem_read_4_of_8 by (metis length_enc32)+
    then show ?thesis using s(2) r by (simp add: node_rid_def sizeof_Rid_def)
  qed
  have f4: "get_key h j ?d2 = get_key h j d \<and> node_rid h j ?d2 = node_rid h j d"
    if j: "0 \<le> j" "j \<le> btree_order h" "j \<noteq> i" for j
  proof -
    note sj = node_slots [OF h j(1,2)] and ap = node_slots_apart [OF h i j(1,2) j(3) [symmetric]]
    have o: "nat (ix_key_off h j) + nat (col_tot_len h) \<le> ?ko \<or> ?ko + length key \<le> nat (ix_key_off h j)"
      "nat (ix_rid_off h j) + 8 \<le> ?ro \<or> ?ro + 8 \<le> nat (ix_rid_off h j)"
      "nat (ix_key_off h j) + nat (col_tot_len h) \<le> ?ro" "?ko + length key \<le> nat (ix_rid_off h j)"
      using ap sj s key by linarith+
    have k: "mem_read ?d2 (nat (ix_key_off h j)) (nat (col_tot_len h)) = mem_read d (nat (ix_key_off h j)) (nat (col_tot_len h))"
      using o b l1 d by (simp add: mem_read_write_other)
    have "mem_read ?d2 (nat (ix_rid_off h j)) 8 = mem_read d (nat (ix_rid_off h j)) 8"
      using o b l1 d by (simp add: mem_read_write_other)
    from node_rid_read [OF sj(2) this] show ?thesis unfolding get_key_def k by (intro conjI refl)
  qed
  have f5: "take 24 ?d2 = take 24 d"
    using mem_read_write_other [of ?ro ?rb ?d1 0 24] mem_read_write_other [of ?ko key d 0 24] b l1 d
    by (simp add: mem_read_def)
  show ?thesis
    using order f1 l1(2) f2 f3 f5 by (intro conjI exI [of _ ?d2] allI impI) (assumption | (elim conjE, drule (2) f4, elim conjE, assumption))+
qed

definition ex_col :: ColMeta where
  "ex_col = \<lparr>cm_tab = ''t'', cm_name = ''a'', cm_type = TYPE_INT, cm_len = 4, cm_offset = 0, cm_index = True\<rparr>"

theorem ix_node_slots_witness:
  "\<exists>d'. put_pair (ix_new_hdr [ex_col]) 1 [1, 2, 3, 4] (Rid_of 5 6) (replicate PAGE_SIZE 0) = Some d' \<and>
     get_key (ix_new_hdr [ex_col]) 1 d' = Some [1, 2, 3, 4] \<and> node_rid (ix_new_hdr [ex_col]) 1 d' = Some (Rid_of 5 6)"
proof -
  have s: "sum_list (map cm_len [ex_col]) = 4" by (simp add: ex_col_def)
  have o: "btree_order (ix_new_hdr [ex_col]) = 338" "col_tot_len (ix_new_hdr [ex_col]) = 4"
    using ix_btree_order_eq [of 4] s
    by (simp_all add: ix_new_hdr_def Let_def update_tot_len_def IxFileHdr_new_def IX_MAX_COL_LEN_def)
  show ?thesis
    using ix_node_slots [OF refl, of "[ex_col]" 1 "[1, 2, 3, 4]" "Rid_of 5 6" "replicate PAGE_SIZE 0"] s o
    by (auto simp: IX_MAX_COL_LEN_def)
qed

end
