(* ===== verification/Index_Links.thy ===== *)
theory Index_Links
  imports Index_Pages
begin

text \<open>
  The operations of \<open>IxIndexHandle\<close> that change links between nodes, on top of the buffer pool:
  each is a sequence of edits, an edit being \<open>fetch_node\<close>, a change of the page, \<open>unpin_page\<close>.
\<close>

section \<open>Editing one page\<close>

definition pool_ok :: "bpm \<Rightarrow> bool" where
  "pool_ok b \<longleftrightarrow> (\<exists>L. bpm_inv L b) \<and> synced_but {} b"

definition still_pinned :: "bpm \<Rightarrow> bpm \<Rightarrow> bool" where
  "still_pinned b b' \<longleftrightarrow> (\<forall>q g. page_table b q = Some g \<longrightarrow> 0 < pin_count (pg b g) \<longrightarrow>
     page_table b' q = Some g \<and> 0 < pin_count (pg b' g))"

lemma still_pinned_trans: "still_pinned b b1 \<Longrightarrow> still_pinned b1 b2 \<Longrightarrow> still_pinned b b2"
  unfolding still_pinned_def by blast

text \<open>The edit of page \<open>pid\<close> from \<open>b\<close> to \<open>b'\<close>: nothing but the page changes.\<close>

definition edited :: "PageId \<Rightarrow> (bytes \<Rightarrow> bytes) \<Rightarrow> bpm \<Rightarrow> bpm \<Rightarrow> bool" where
  "edited pid g b b' \<longleftrightarrow> pool_ok b' \<and> frame_free b' \<and> disk_frame (dm b) (dm b') \<and> still_pinned b b' \<and>
     (\<forall>q bs. fd_open (dm b) (pid_fd q) \<longrightarrow> bpm_view b q = Some bs \<longrightarrow>
        bpm_view b' q = Some (if q = pid then g bs else bs))"

lemma commit_other:
  assumes "bpm_inv L b" and "page_table b pid = Some f" and "0 < pin_count (pg b f)" and "g \<noteq> f"
  shows "pg (commit f data b) g = pg b g"
  using assms table_okD(1,2) [OF assms(1,2)] frames_okD(1) [OF assms(1)]
  by (simp add: commit_def upd_data_def unpin_page_def upd_page_def Let_def split: option.split)

lemma edit_page:
  assumes ok: "pool_ok b" and room: "frame_free b" and op: "fd_open (dm b) (pid_fd pid)"
    and v: "bpm_view b pid = Some d" and len: "length (g d) = PAGE_SIZE"
  obtains f b1 where "fetch_page pid b = Ok (Some f) b1" and "view_kept b b1" and "pins_kept b b1"
    and "edited pid g b (snd (unpin_node f True (upd_data f g b1)))"
proof -
  obtain L where L: "bpm_inv L b" and sy: "synced_but {} b" using ok by (auto simp: pool_ok_def)
  from L show ?thesis
  proof (cases rule: fetch_page_cases [where pid = pid])
    case full
    then show ?thesis using room by (simp add: frame_free_def)
  next
    case (lost f b' e)
    then show ?thesis using v by simp
  next
    case (got f b1 L')
    note t = table_okD [OF got(2,4)]
    have fl: "f < length (pages b1)" using t(1) frames_okD(1) [OF got(2)] by simp
    have dat: "pg_data (pg b1 f) = d" using got(5) v by simp
    have pin: "0 < pin_count (pg b1 f)"
    proof (cases "page_table b pid")
      case (Some h)
      then have "h = f" using fetch_page_hit [OF Some] got(1) by simp
      then show ?thesis using got(6) Some frames_okD(3) [OF L table_okD(1) [OF L Some]] by simp
    qed (use got(6) in simp)
    have eq: "snd (unpin_node f True (upd_data f g b1)) = commit f (g d) b1"
      using fl dat upd_data_const [OF fl, of g] by (simp add: unpin_node_def commit_def pg_upd_data)
    have op1: "fd_open (dm b1) (pid_fd pid)" using disk_frame_open [OF got(9)] op by simp
    have sy1: "synced_but {f} b1" using got(10) [OF sy] by (simp add: synced_but_def)
    note c = commit_ok [OF got(2,4) pin op1 len sy1]
    have room1: "pin_count (pg b1 f) = 1 \<or> frame_free b1"
    proof (cases "page_table b pid")
      case (Some h)
      have fb1: "f = h" "b1 = put_page h ((pg b h)\<lparr>pin_count := pin_count (pg b h) + 1\<rparr>) (lru_pin h (repl b)) (dm b) b"
        using got(1) fetch_page_hit [OF Some] by auto
      show ?thesis
      proof (cases "pin_count (pg b h) = 0")
        case False
        then have "f \<notin> set (lru_frames (repl b))" using fb1(1) lru_okD(4) [OF L] by auto
        then have "lru_frames (repl b1) = lru_frames (repl b)" "free_list b1 = free_list b"
          using lru.frames_pin [OF lru_okD(1) [OF L], of f] fb1 by (simp_all add: remove1_idem)
        then show ?thesis using room frame_free_iff [OF L] frame_free_iff [OF got(2)] by simp
      qed (use got(6) Some fb1(1) in simp)
    qed (use got(6) in simp)
    have "still_pinned b (commit f (g d) b1)" unfolding still_pinned_def
    proof (intro allI impI)
      fix q h assume q: "page_table b q = Some h" "0 < pin_count (pg b h)"
      have k: "page_table b1 q = Some h" "pin_count (pg b h) \<le> pin_count (pg b1 h)"
        using got(8) q unfolding pins_kept_def by blast+
      show "page_table (commit f (g d) b1) q = Some h \<and> 0 < pin_count (pg (commit f (g d) b1) h)"
      proof (cases "h = f")
        case True
        then have "q = pid" using table_inj [OF got(2) k(1)] got(4) by blast
        then show ?thesis using c(4,7) k True q got(6) by simp
      next
        case False
        then show ?thesis using c(4) k q commit_other [OF got(2,4) pin False] by simp
      qed
    qed
    then have "edited pid g b (commit f (g d) b1)"
      unfolding edited_def pool_ok_def
      using c(1,2,5) c(8) [OF room1] got(9) c(3) got(7) v by (auto simp: view_kept_def)
    then show ?thesis using that [OF got(1,7,8)] eq by simp
  qed
qed

lemma fetch_node_page:
  "fetch_page (PageId_of (ix_fd ih) p) b = Ok (Some f) b1 \<Longrightarrow> fetch_node p ih b = Ok f (ih, b1)"
  by (simp add: fetch_node_def RmPageHandle_new_def)

lemma edited_pinned:
  "\<lbrakk>edited pid g b b'; page_table b q = Some f; 0 < pin_count (pg b f); fd_open (dm b) (pid_fd q)\<rbrakk> \<Longrightarrow>
   page_table b' q = Some f \<and> 0 < pin_count (pg b' f) \<and>
   pg_data (pg b' f) = (if q = pid then g (pg_data (pg b f)) else pg_data (pg b f))"
  by (fastforce simp: edited_def still_pinned_def bpm_view_def)

section \<open>Taking a leaf out of the list of leaves\<close>

lemma length_set_leaf [simp]:
  "length d = PAGE_SIZE \<Longrightarrow> length (set_next_leaf p d) = PAGE_SIZE"
  "length d = PAGE_SIZE \<Longrightarrow> length (set_prev_leaf p d) = PAGE_SIZE"
  "length d = PAGE_SIZE \<Longrightarrow> length (set_parent_page_no p d) = PAGE_SIZE"
  by (simp_all add: set_next_leaf_def set_prev_leaf_def set_parent_page_no_def PAGE_SIZE_def)

lemma leaf_links [simp]:
  assumes "length d = PAGE_SIZE" and "in_i32 p"
  shows "get_next_leaf (set_next_leaf p d) = p" and "get_prev_leaf (set_prev_leaf p d) = p"
    and "get_next_leaf (set_prev_leaf p d) = get_next_leaf d" and "get_prev_leaf (set_next_leaf p d) = get_prev_leaf d"
    and "nd_parent (set_parent_page_no p d) = p"
  using assms
  by (simp_all add: get_next_leaf_def get_prev_leaf_def set_next_leaf_def set_prev_leaf_def nd_parent_def
      set_parent_page_no_def mem_read_write_same mem_read_write_other PAGE_SIZE_def)

lemma view_length: "pool_ok b \<Longrightarrow> bpm_view b pid = Some d \<Longrightarrow> length d = PAGE_SIZE"
  using table_okD(1) frames_okD(2)
  by (fastforce simp: pool_ok_def bpm_view_def disk_page_def split: option.splits if_splits)

lemma set_leaf_bytes:
  assumes "length d = PAGE_SIZE" and "i < PAGE_SIZE" and "i < 16 \<or> 24 \<le> i"
  shows "set_next_leaf p d ! i = d ! i" and "set_prev_leaf p d ! i = d ! i"
  using assms by (auto simp: set_next_leaf_def set_prev_leaf_def nth_mem_write PAGE_SIZE_def)

text \<open>
  C27. \<open>erase_leaf\<close> takes a pinned leaf out of the doubly linked list of leaves: afterwards the
  previous leaf points to the next one and the next one back to the previous one (also when
  both are the same page, the list header). In the two neighbours it changes these links and no
  other byte: the other link stays, and every byte outside the two link fields (16 to 23) is the
  same. Every page but these two, the leaf included, is unchanged, in this file and in every
  other open file; the index handle is unchanged; every page that was pinned still is, and a frame
  can still be taken. It asks for a valid pool with a frame to take, and for neighbours that exist.
\<close>

theorem erase_leaf_unlinks:
  assumes ok: "pool_ok b" and room: "frame_free b" and op: "fd_open (dm b) (ix_fd ih)"
    and leaf: "page_table b (PageId_of (ix_fd ih) l) = Some f" "0 < pin_count (pg b f)" "pg_data (pg b f) = d"
    and isl: "is_leaf_page d" and p: "p = get_prev_leaf d" "p \<noteq> l" and n: "n = get_next_leaf d" "n \<noteq> l"
    and vp: "bpm_view b (PageId_of (ix_fd ih) p) = Some dp" and vn: "bpm_view b (PageId_of (ix_fd ih) n) = Some dn"
  shows "\<exists>b' dp' dn'. erase_leaf f ih b = Ok () (ih, b') \<and> pool_ok b' \<and> frame_free b' \<and> still_pinned b b' \<and>
    bpm_view b' (PageId_of (ix_fd ih) p) = Some dp' \<and> get_next_leaf dp' = n \<and>
    bpm_view b' (PageId_of (ix_fd ih) n) = Some dn' \<and> get_prev_leaf dn' = p \<and>
    dp' = (if p = n then set_prev_leaf p (set_next_leaf n dp) else set_next_leaf n dp) \<and>
    dn' = (if p = n then dp' else set_prev_leaf p dn) \<and>
    (p \<noteq> n \<longrightarrow> get_prev_leaf dp' = get_prev_leaf dp \<and> get_next_leaf dn' = get_next_leaf dn) \<and>
    (\<forall>i < PAGE_SIZE. i < 16 \<or> 24 \<le> i \<longrightarrow> dp' ! i = dp ! i \<and> dn' ! i = dn ! i) \<and>
    (\<forall>q bs. fd_open (dm b) (pid_fd q) \<longrightarrow> q \<notin> {PageId_of (ix_fd ih) p, PageId_of (ix_fd ih) n} \<longrightarrow>
       bpm_view b q = Some bs \<longrightarrow> bpm_view b' q = Some bs)"
proof -
  let ?P = "PageId_of (ix_fd ih) p" and ?N = "PageId_of (ix_fd ih) n" and ?L = "PageId_of (ix_fd ih) l"
  have i32: "in_i32 p" "in_i32 n" using dec32_range p(1) n(1) by (simp_all add: get_prev_leaf_def get_next_leaf_def)
  have lens: "length dp = PAGE_SIZE" "length dn = PAGE_SIZE" using view_length [OF ok] vp vn by blast+
  have op': "fd_open (dm b) (pid_fd ?P)" using op by simp
  obtain g b1 where f1: "fetch_page ?P b = Ok (Some g) b1" "pins_kept b b1"
    and e1: "edited ?P (set_next_leaf n) b (snd (unpin_node g True (upd_data g (set_next_leaf n) b1)))"
    by (rule edit_page [OF ok room op' vp, of "set_next_leaf n"]) (use lens in auto)
  define b3 where "b3 = snd (unpin_node g True (upd_data g (set_next_leaf n) b1))"
  have e1': "edited ?P (set_next_leaf n) b b3" using e1 by (simp add: b3_def)
  have d1: "pg_data (pg b1 f) = d" using f1(2) leaf unfolding pins_kept_def by blast
  have l3: "page_table b3 ?L = Some f" "0 < pin_count (pg b3 f)" "pg_data (pg b3 f) = d"
    using edited_pinned [OF e1' leaf(1,2)] op p leaf(3) by auto
  have op3: "fd_open (dm b3) (pid_fd ?N)" using e1' op disk_frame_open by (auto simp: edited_def)
  define dn3 where "dn3 = (if ?N = ?P then set_next_leaf n dn else dn)"
  have v3: "bpm_view b3 ?N = Some dn3" using e1' vn op by (simp add: edited_def dn3_def)
  have len3: "length (set_prev_leaf p dn3) = PAGE_SIZE" using lens by (simp add: dn3_def)
  have ok3: "pool_ok b3" "frame_free b3" using e1' by (simp_all add: edited_def)
  obtain h b4 where f2: "fetch_page ?N b3 = Ok (Some h) b4" "pins_kept b3 b4"
    and e2: "edited ?N (set_prev_leaf p) b3 (snd (unpin_node h True (upd_data h (set_prev_leaf p) b4)))"
    by (rule edit_page [OF ok3 op3 v3, of "set_prev_leaf p"]) (use len3 in auto)
  define b6 where "b6 = snd (unpin_node h True (upd_data h (set_prev_leaf p) b4))"
  have e2': "edited ?N (set_prev_leaf p) b3 b6" using e2 by (simp add: b6_def)
  have d4: "pg_data (pg b4 f) = d" using f2(2) l3 unfolding pins_kept_def by blast
  have run: "erase_leaf f ih b = Ok () (ih, b6)"
    using isl leaf(3) d1 d4 l3(3) fetch_node_page [OF f1(1)] fetch_node_page [OF f2(1)]
    by (simp add: erase_leaf_def Let_def p(1) [symmetric] n(1) [symmetric] b3_def [symmetric] b6_def)
  have opq: "fd_open (dm b3) k = fd_open (dm b) k" for k using e1' disk_frame_open by (auto simp: edited_def)
  have view: "bpm_view b6 q = Some (if q = ?N then set_prev_leaf p (if q = ?P then set_next_leaf n bs else bs)
                else if q = ?P then set_next_leaf n bs else bs)"
    if "fd_open (dm b) (pid_fd q)" "bpm_view b q = Some bs" for q bs
    using e1' e2' that opq by (simp add: edited_def)
  let ?dp = "if p = n then set_prev_leaf p (set_next_leaf n dp) else set_next_leaf n dp"
    and ?dn = "if p = n then set_prev_leaf p (set_next_leaf n dn) else set_prev_leaf p dn"
  have PN: "?P = ?N \<longleftrightarrow> p = n" and same: "p = n \<Longrightarrow> dn = dp" using vp vn by auto
  have "bpm_view b6 ?P = Some ?dp" "get_next_leaf ?dp = n"
    using view [OF _ vp] op lens i32 PN by simp_all
  moreover have "bpm_view b6 ?N = Some ?dn" "get_prev_leaf ?dn = p"
    using view [OF _ vn] op lens i32 PN by simp_all
  moreover have "?dn = (if p = n then ?dp else set_prev_leaf p dn)" using same by simp
  moreover have "p \<noteq> n \<Longrightarrow> get_prev_leaf ?dp = get_prev_leaf dp \<and> get_next_leaf ?dn = get_next_leaf dn"
    using lens i32 by simp
  moreover have "?dp ! i = dp ! i \<and> ?dn ! i = dn ! i" if "i < PAGE_SIZE" "i < 16 \<or> 24 \<le> i" for i
    using lens that by (simp add: set_leaf_bytes)
  moreover have "still_pinned b b6" using e1' e2' still_pinned_trans by (auto simp: edited_def)
  moreover have "pool_ok b6" "frame_free b6" using e2' by (simp_all add: edited_def)
  ultimately show ?thesis using run view
    by (intro exI [of _ b6] exI [of _ ?dp] exI [of _ ?dn] conjI allI impI) (assumption | simp)+
qed

text \<open>A pool with an index file of three pages: header, list header, and the root, a leaf.\<close>

definition ex_ix_os :: os where
  "ex_ix_os = ex_os\<lparr>idata := (\<lambda>_. replicate PAGE_SIZE 0 @ ix_node_page 2 2 @ ix_node_page 1 1)\<rparr>"

definition ex_ix_pool :: bpm where
  "ex_ix_pool = BufferPoolManager_new 0 2 (DiskManager_new ex_ix_os)"

definition ex_ih :: ixih where
  "ex_ih = \<lparr>ix_fd = 3, ix_hdr = ix_new_hdr [ex_col]\<rparr>"

lemma length_ix_node_page [simp]: "length (ix_node_page p n) = PAGE_SIZE"
  by (simp add: ix_node_page_def)

lemma ix_node_page_links:
  assumes "in_i32 p" and "in_i32 n"
  shows "get_prev_leaf (ix_node_page p n) = p" and "get_next_leaf (ix_node_page p n) = n"
    and "is_leaf_page (ix_node_page p n)" and "get_size (ix_node_page p n) = 0"
  using assms
  by (simp_all add: get_prev_leaf_def get_next_leaf_def is_leaf_page_def get_size_def ix_node_page_def
      mem_read_write_within PAGE_SIZE_def mem_read_append1 mem_read_append2) (simp_all add: mem_read_def)

lemma ex_ix_pool_ok: "pool_ok ex_ix_pool" "bpm_inv {} ex_ix_pool"
proof -
  have "no_alias (DiskManager_new ex_ix_os)" by (simp add: no_alias_def DiskManager_new_def ex_ix_os_def ex_os_def)
  then show "bpm_inv {} ex_ix_pool" unfolding ex_ix_pool_def by (rule bpm_inv_new)
  then show "pool_ok ex_ix_pool"
    by (auto simp: pool_ok_def ex_ix_pool_def synced_but_def BufferPoolManager_new_def)
qed

lemma ex_ix_view:
  "bpm_view ex_ix_pool (PageId_of 3 1) = Some (ix_node_page 2 2)"
  "bpm_view ex_ix_pool (PageId_of 3 2) = Some (ix_node_page 1 1)" "fd_open (dm ex_ix_pool) 3"
  by (simp_all add: ex_ix_pool_def BufferPoolManager_new_def bpm_view_def disk_page_def DiskManager_new_def
      ex_ix_os_def ex_os_def fd_open_def mem_read_append1 mem_read_append2 mem_read_all)

lemma fetch_page_free_list:
  "\<lbrakk>page_table b pid = None; find_victim_page b = (Some f, b1); fetch_page pid b = Ok r b'\<rbrakk> \<Longrightarrow>
   free_list b' = free_list b1"
  by (auto simp: fetch_page_def write_back_def drop_entry_def upd_page_def Let_def
      split: if_splits outcome.splits prod.splits)

theorem erase_leaf_unlinks_witness:
  "\<exists>f b b' d'. fetch_node 2 ex_ih ex_ix_pool = Ok f (ex_ih, b) \<and> erase_leaf f ex_ih b = Ok () (ex_ih, b') \<and>
     bpm_view b' (PageId_of 3 1) = Some d' \<and> get_next_leaf d' = 1 \<and> get_prev_leaf d' = 1"
proof -
  let ?pid = "PageId_of 3 2"
  have miss: "page_table ex_ix_pool ?pid = None" by (simp add: ex_ix_pool_def BufferPoolManager_new_def)
  have v: "find_victim_page ex_ix_pool = (Some 0, ex_ix_pool\<lparr>free_list := [1]\<rparr>)"
    by (simp add: ex_ix_pool_def find_victim_page_def BufferPoolManager_new_def upt_rec [of _ "2 :: nat"])
  have dp: "disk_page (dm ex_ix_pool) ?pid = Some (ix_node_page 1 1)"
    using ex_ix_view(2) miss by (simp add: bpm_view_def)
  from ex_ix_pool_ok(2) miss v show ?thesis
  proof (cases rule: fetch_page_miss)
    case (read b bs)
    have bs: "bs = ix_node_page 1 1" using read(8) dp by simp
    have fl: "free_list b = [1]" using fetch_page_free_list [OF miss v read(1)] by simp
    have ok: "pool_ok b" using read(4,11) ex_ix_pool_ok by (auto simp: pool_ok_def)
    have ff: "frame_free b" using frame_free_iff [OF read(4)] fl by simp
    have op: "fd_open (dm b) (ix_fd ex_ih)" using disk_frame_open [OF read(7)] ex_ix_view(3) by (simp add: ex_ih_def)
    have v1: "bpm_view b (PageId_of (ix_fd ex_ih) 1) = Some (ix_node_page 2 2)"
      using read(5) ex_ix_view by (simp add: view_kept_def ex_ih_def)
    have pt: "page_table b (PageId_of (ix_fd ex_ih) 2) = Some 0" using read(2) by (simp add: ex_ih_def)
    have links: "get_prev_leaf (ix_node_page 1 1) = 1" "get_next_leaf (ix_node_page 1 1) = 1" "is_leaf_page (ix_node_page 1 1)"
      using ix_node_page_links [of 1 1] by simp_all
    have fn: "fetch_node 2 ex_ih ex_ix_pool = Ok 0 (ex_ih, b)"
      using read(1) fetch_node_page [of ex_ih 2 ex_ix_pool 0 b] by (simp add: ex_ih_def)
    show ?thesis
      using erase_leaf_unlinks [OF ok ff op pt _ _ links(3), of 1 1 "ix_node_page 2 2" "ix_node_page 2 2"]
        read(3) bs links v1 fn by (auto simp: ex_ih_def)
  next
    case (throw b' e)
    then show ?thesis using dp by simp
  qed
qed

end
