(* ===== verification/Record_Scan.thy ===== *)
theory Record_Scan
  imports Record_Store
begin

text \<open>
  \<open>RmScan\<close>: \<open>next\<close> ends and finds the next record in the order of page and slot; a whole scan
  visits every record of the table exactly once, in that order.
\<close>

section \<open>Visiting a page\<close>

lemma visit:
  assumes inv: "rm_inv fh b" and p: "data_page (file_hdr fh) p" and room: "frame_free b"
  obtains f b1 b2 data where "fetch_page_handle p fh b = Ok f (fh, b1)" and "pg_data (pg b1 f) = data"
    and "file_page fh b p = Some data" and "page_ok (file_hdr fh) data"
    and "snd (unpin_page (pg_id (pg b1 f)) False b1) = b2"
    and "rm_inv fh b2" and "rm_abs fh b2 = rm_abs fh b" and "frame_free b2"
proof -
  let ?pid = "PageId_of (fh_fd fh) p"
  from fetch_handle [OF inv p room] obtain f b1 L data where
    fp: "fetch_page_handle p fh b = Ok f (fh, b1)"
    and b1: "bpm_inv L b1" "synced_but {} b1" "page_table b1 ?pid = Some f"
      "0 < pin_count (pg b1 f)" "pg_data (pg b1 f) = data"
    and data: "file_page fh b p = Some data" "page_ok (file_hdr fh) data"
    and k: "view_kept b b1" "disk_frame (dm b) (dm b1)"
      "\<And>q. num_pages (file_hdr fh) \<le> q \<Longrightarrow> page_table b1 (PageId_of (fh_fd fh) q) = None"
      "pin_count (pg b1 f) = 1 \<or> frame_free b1"
    by metis
  note t = table_okD [OF b1(1,3)]
  let ?b2 = "snd (unpin_page ?pid False b1)"
  have op: "fd_open (dm b1) (fh_fd fh)" using disk_frame_open [OF k(2)] rm_invD(5) [OF inv] by simp
  have sy: "is_dirty (pg b1 f) \<or> disk_page (dm b1) ?pid = Some (pg_data (pg b1 f))"
    using b1(2,3) op unfolding synced_but_def by (metis PageId.select_convs(1) empty_iff)
  then have "unpin_ok ?pid False b1" using b1(3) op by (simp add: unpin_ok_def)
  then have inv2: "bpm_inv L ?b2" by (rule unpin_page_inv [OF b1(1)])
  have b2: "?b2 = put_page f ((pg b1 f)\<lparr>pin_count := pin_count (pg b1 f) - 1\<rparr>)
      (if pin_count (pg b1 f) = 1 then lru_unpin f (repl b1) else repl b1) (dm b1) b1"
    using unpin_page_eq [OF b1(1,3,4), of False] by simp
  have sy2: "synced_but {} ?b2" unfolding b2
    by (rule put_page_synced [OF b1(1,3) _ _ b1(2)]) (use sy in auto)
  have view: "bpm_view ?b2 q = bpm_view b1 q" for q using unpin_page_view [OF b1(1)] .
  have pages: "file_page fh b q = file_page fh ?b2 q" if "data_page (file_hdr fh) q" for q
    using pages_kept [OF inv k(1) that] view by (simp add: file_page_def)
  have fi: "file_inv (file_hdr fh) (file_page fh ?b2)" using file_inv_cong [OF pages rm_invD(8) [OF inv]] .
  have dm2: "dm ?b2 = dm b1" "page_table ?b2 = page_table b1" by (simp_all add: b2)
  have rm2: "rm_inv fh ?b2" unfolding rm_inv_def dm2
    using inv2 sy2 rm_invD(3,4,6) [OF inv] op disk_frame_pageno [OF k(2)] k(3) fi by auto
  have abs2: "rm_abs fh ?b2 = rm_abs fh b" unfolding rm_abs_def
    by (rule file_abs_cong) (erule pages [symmetric])
  have fl: "f < length (pages b1)" using t(1) frames_okD(1) [OF b1(1)] by simp
  have free2: "frame_free ?b2"
  proof (cases "pin_count (pg b1 f) = 1")
    case True
    then show ?thesis using frame_free_unpinned [OF inv2, of ?pid f] b1(3) fl by (simp add: b2 pg_put_page)
  next
    case False
    then show ?thesis using k(4) frame_free_iff [OF b1(1)] frame_free_iff [OF inv2] by (simp add: b2)
  qed
  have "snd (unpin_page (pg_id (pg b1 f)) False b1) = ?b2" using t(2) by simp
  then show ?thesis using that [OF fp b1(5) data _ rm2 abs2 free2] by blast
qed

section \<open>next\<close>

definition rid_lt :: "Rid \<Rightarrow> Rid \<Rightarrow> bool" where
  "rid_lt a b \<longleftrightarrow> rid_page a < rid_page b \<or> rid_page a = rid_page b \<and> rid_slot a < rid_slot b"

lemma rid_lt_trans: "rid_lt a b \<Longrightarrow> rid_lt b c \<Longrightarrow> rid_lt a c"
  by (auto simp: rid_lt_def)

lemma rid_lt_irrefl [simp]: "\<not> rid_lt a a"
  by (simp add: rid_lt_def)

lemma rm_abs_range:
  "rm_abs fh b r \<noteq> None \<Longrightarrow> data_page (file_hdr fh) (rid_page r) \<and> 0 \<le> rid_slot r \<and>
     rid_slot r < num_records_per_page (file_hdr fh)"
  by (auto simp: rm_abs_def file_abs_def split: if_splits)

lemma finite_rm_abs: "finite (dom (rm_abs fh b))"
proof -
  let ?h = "file_hdr fh"
  have "dom (rm_abs fh b) \<subseteq> (\<lambda>(p, s). Rid_of p s) ` ({1..<num_pages ?h} \<times> {0..<num_records_per_page ?h})"
  proof
    fix r assume "r \<in> dom (rm_abs fh b)"
    then have "rm_abs fh b r \<noteq> None" by auto
    from rm_abs_range [OF this] have "(rid_page r, rid_slot r) \<in> {1..<num_pages ?h} \<times> {0..<num_records_per_page ?h}"
      by (simp add: data_page_def)
    then show "r \<in> (\<lambda>(p, s). Rid_of p s) ` ({1..<num_pages ?h} \<times> {0..<num_records_per_page ?h})"
      by (rule rev_image_eqI) simp
  qed
  then show ?thesis by (rule finite_subset) simp
qed

text \<open>
  \<open>next_rid fh b from r\<close>: \<open>r\<close> is the first record behind \<open>from\<close>, or the end mark if there is none.
\<close>

definition next_rid :: "rmfh \<Rightarrow> bpm \<Rightarrow> Rid \<Rightarrow> Rid \<Rightarrow> bool" where
  "next_rid fh b from r \<longleftrightarrow>
     (if scan_is_end r then \<forall>x \<in> dom (rm_abs fh b). \<not> rid_lt from x
      else r \<in> dom (rm_abs fh b) \<and> rid_lt from r \<and>
        (\<forall>x \<in> dom (rm_abs fh b). rid_lt from x \<longrightarrow> x = r \<or> rid_lt r x))"

lemma scan_from_ok:
  assumes "rm_inv fh b" and "frame_free b" and "1 \<le> p" and "- 1 \<le> s" and "s < num_records_per_page (file_hdr fh)"
  shows "\<exists>r b'. scan_from p s fh b = Ok r (fh, b') \<and> rm_inv fh b' \<and> frame_free b' \<and>
    rm_abs fh b' = rm_abs fh b \<and> next_rid fh b (Rid_of p s) r"
  using assms
proof (induction p s fh b rule: scan_from.induct)
  case (1 p s fh b)
  let ?h = "file_hdr fh" and ?n = "num_records_per_page (file_hdr fh)"
  note inv = "1.prems"(1) and free = "1.prems"(2)
  show ?case
  proof (cases "p < num_pages ?h")
    case False
    have "\<not> rid_lt (Rid_of p s) x" if "x \<in> dom (rm_abs fh b)" for x
    proof -
      have "rm_abs fh b x \<noteq> None" using that by auto
      from rm_abs_range [OF this] show ?thesis using False by (simp add: rid_lt_def data_page_def)
    qed
    then have "next_rid fh b (Rid_of p s) (Rid_of RM_NO_PAGE (- 1))" by (simp add: next_rid_def scan_is_end_def)
    then show ?thesis using False inv free by (subst scan_from.simps) simp
  next
    case True
    have dp: "data_page ?h p" using True "1.prems"(3) by (simp add: data_page_def)
    from visit [OF inv dp free] obtain f b1 b2 data where
      fp: "fetch_page_handle p fh b = Ok f (fh, b1)" and d: "pg_data (pg b1 f) = data"
      and data: "file_page fh b p = Some data" "page_ok ?h data"
      and b2: "snd (unpin_page (pg_id (pg b1 f)) False b1) = b2"
        "rm_inv fh b2" "rm_abs fh b2 = rm_abs fh b" "frame_free b2" by metis
    note h = file_invD(1) [OF rm_invD(8) [OF inv]]
    let ?s = "next_bit True (page_bitmap data) ?n s"
    note nb = next_bit_spec [OF "1.prems"(5), where b = True and bm = "page_bitmap data"]
    have bit: "is_set (page_bitmap data) (nat t) \<longleftrightarrow> rm_abs fh b (Rid_of p t) \<noteq> None" if "0 \<le> t" "t < ?n" for t
      using page_bit [OF h page_okD(1) [OF h data(2)], of "nat t"] that dp data(1)
      by (simp add: rm_abs_def file_abs_def)
    have skip: "rm_abs fh b (Rid_of p t) = None" if "s < t" "t < ?s" for t
      using nb(2) nb(3) [OF that] bit [of t] that "1.prems"(4) by force
    have eq: "scan_from p s fh b = (if ?s < ?n then Ok (Rid_of p ?s) (fh, b2) else scan_from (p + 1) (- 1) fh b2)"
      using True fp d b2(1) by (subst scan_from.simps) (simp add: Let_def)
    have same: "x = Rid_of p (rid_slot x)" if "rid_page x = p" for x using that by (simp add: Rid_eq_iff)
    show ?thesis
    proof (cases "?s < ?n")
      case True': True
      have in_dom: "rm_abs fh b (Rid_of p ?s) \<noteq> None"
        using nb(1) nb(4) [OF True'] bit [of ?s] True' "1.prems"(4) by simp
      have "x = Rid_of p ?s \<or> rid_lt (Rid_of p ?s) x"
        if "x \<in> dom (rm_abs fh b)" "rid_lt (Rid_of p s) x" for x
      proof (cases "rid_page x = p")
        case True
        then have "\<not> rid_slot x < ?s" using that skip [of "rid_slot x"] same [OF True] by (auto simp: rid_lt_def)
        then show ?thesis using True by (auto simp: rid_lt_def Rid_eq_iff)
      next
        case False
        then show ?thesis using that by (auto simp: rid_lt_def)
      qed
      then have "next_rid fh b (Rid_of p s) (Rid_of p ?s)"
        using in_dom nb(1) "1.prems"(3) by (auto simp: next_rid_def scan_is_end_def RM_NO_PAGE_def rid_lt_def dom_def)
      then show ?thesis using eq True' b2 by auto
    next
      case False
      then have s: "?s = ?n" using nb(2) by simp
      have n1: "- 1 < ?n" using hdr_okD(3) [OF h] by simp
      have "\<exists>r b'. scan_from (p + 1) (- 1) fh b2 = Ok r (fh, b') \<and> rm_inv fh b' \<and> frame_free b' \<and>
          rm_abs fh b' = rm_abs fh b2 \<and> next_rid fh b2 (Rid_of (p + 1) (- 1)) r"
        by (rule "1.IH" [OF True fp refl refl]) (use d b2 False "1.prems"(3) n1 in simp_all)
      then obtain r b' where r: "scan_from (p + 1) (- 1) fh b2 = Ok r (fh, b')" "rm_inv fh b'" "frame_free b'"
        "rm_abs fh b' = rm_abs fh b2" "next_rid fh b2 (Rid_of (p + 1) (- 1)) r" by blast
      have shift: "rid_lt (Rid_of p s) x \<longleftrightarrow> rid_lt (Rid_of (p + 1) (- 1)) x" if "x \<in> dom (rm_abs fh b)" for x
      proof -
        have x: "rm_abs fh b x \<noteq> None" using that by auto
        from rm_abs_range [OF x] have "0 \<le> rid_slot x" "rid_slot x < ?n" by auto
        moreover have "rid_page x = p \<Longrightarrow> \<not> s < rid_slot x"
          using skip [of "rid_slot x"] s same [of x] x calculation by auto
        ultimately show ?thesis by (auto simp: rid_lt_def)
      qed
      have "next_rid fh b (Rid_of p s) r"
        using r(5) shift unfolding next_rid_def b2(3) by auto
      then show ?thesis using eq False r b2(3) by auto
    qed
  qed
qed

section \<open>A whole scan\<close>

text \<open>
  The loop every user of \<open>RmScan\<close> writes: \<open>for (RmScan s(fh); !s.is_end(); s.next())\<close>, collecting
  the record ids; the fuel bounds the number of iterations.
\<close>

fun scan_collect :: "nat \<Rightarrow> Rid \<Rightarrow> rmfh \<Rightarrow> bpm \<Rightarrow> Rid list rm" where
  "scan_collect 0 r fh b = Err NoFuel (fh, b)"
| "scan_collect (Suc k) r fh b =
     (if scan_is_end r then Ok [] (fh, b)
      else bindO (scan_next r fh b) (\<lambda>r' (fh1, b1).
           bindO (scan_collect k r' fh1 b1) (\<lambda>rs s. Ok (r # rs) s)))"

definition scan_table :: "nat \<Rightarrow> rmfh \<Rightarrow> bpm \<Rightarrow> Rid list rm" where
  "scan_table k fh b = bindO (RmScan_new fh b) (\<lambda>r (fh1, b1). scan_collect k r fh1 b1)"

lemma scan_collect_ok:
  assumes "rm_inv fh b" and "frame_free b" and "next_rid fh b from r"
    and "card {x \<in> dom (rm_abs fh b). rid_lt from x} < k"
  shows "\<exists>rs b'. scan_collect k r fh b = Ok rs (fh, b') \<and> rm_inv fh b' \<and> frame_free b' \<and>
    rm_abs fh b' = rm_abs fh b \<and> set rs = {x \<in> dom (rm_abs fh b). rid_lt from x} \<and> sorted_wrt rid_lt rs"
  using assms
proof (induction k arbitrary: r b "from")
  case (Suc k)
  let ?D = "dom (rm_abs fh b)"
  show ?case
  proof (cases "scan_is_end r")
    case True
    then have "{x \<in> ?D. rid_lt from x} = {}" using Suc.prems(3) by (auto simp: next_rid_def)
    then show ?thesis using True Suc.prems by auto
  next
    case False
    then have r: "r \<in> ?D" "rid_lt from r" "\<forall>x \<in> ?D. rid_lt from x \<longrightarrow> x = r \<or> rid_lt r x"
      using Suc.prems(3) by (auto simp: next_rid_def)
    have rest: "{x \<in> ?D. rid_lt from x} = insert r {x \<in> ?D. rid_lt r x}"
      using r rid_lt_trans by blast
    have fin: "finite {x \<in> ?D. rid_lt r x}" using finite_rm_abs by simp
    have "rm_abs fh b r \<noteq> None" using r(1) by auto
    from rm_abs_range [OF this] have rng: "1 \<le> rid_page r" "- 1 \<le> rid_slot r"
      "rid_slot r < num_records_per_page (file_hdr fh)" by (auto simp: data_page_def)
    from scan_from_ok [OF Suc.prems(1,2) rng] obtain r' b1 where
      s: "scan_next r fh b = Ok r' (fh, b1)" "rm_inv fh b1" "frame_free b1" "rm_abs fh b1 = rm_abs fh b"
        "next_rid fh b r r'" by (auto simp: scan_next_def)
    have "next_rid fh b1 r r'" using s(4,5) by (simp add: next_rid_def)
    moreover have "card {x \<in> dom (rm_abs fh b1). rid_lt r x} < k"
      using Suc.prems(4) rest fin s(4) by (simp add: card_insert_if)
    ultimately obtain rs b' where rs: "scan_collect k r' fh b1 = Ok rs (fh, b')" "rm_inv fh b'" "frame_free b'"
      "rm_abs fh b' = rm_abs fh b1" "set rs = {x \<in> dom (rm_abs fh b1). rid_lt r x}" "sorted_wrt rid_lt rs"
      using Suc.IH [OF s(2,3)] by blast
    have "scan_collect (Suc k) r fh b = Ok (r # rs) (fh, b')" using False s(1) rs(1) by simp
    moreover have "set (r # rs) = {x \<in> ?D. rid_lt from x}" using rest rs(5) s(4) by simp
    moreover have "sorted_wrt rid_lt (r # rs)" using rs(5,6) by simp
    ultimately show ?thesis using rs s(4) by auto
  qed
qed simp

lemma scan_table_ok:
  assumes inv: "rm_inv fh b" and free: "frame_free b" and k: "card (dom (rm_abs fh b)) < k"
  shows "\<exists>rs b'. scan_table k fh b = Ok rs (fh, b') \<and> rm_inv fh b' \<and> frame_free b' \<and>
    rm_abs fh b' = rm_abs fh b \<and> set rs = dom (rm_abs fh b) \<and> sorted_wrt rid_lt rs"
proof -
  let ?z = "Rid_of RM_FIRST_RECORD_PAGE (- 1)"
  have n: "- 1 < num_records_per_page (file_hdr fh)"
    using hdr_okD(3) [OF file_invD(1) [OF rm_invD(8) [OF inv]]] by simp
  from scan_from_ok [OF inv free, of 1 "- 1"] n obtain r b1 where
    s: "RmScan_new fh b = Ok r (fh, b1)" "rm_inv fh b1" "frame_free b1" "rm_abs fh b1 = rm_abs fh b"
      "next_rid fh b ?z r"
    by (auto simp: RmScan_new_def scan_next_def RM_FIRST_RECORD_PAGE_def)
  have all: "{x \<in> dom (rm_abs fh b). rid_lt ?z x} = dom (rm_abs fh b)"
    using rm_abs_range [of fh b] by (force simp: rid_lt_def RM_FIRST_RECORD_PAGE_def data_page_def)
  have "next_rid fh b1 ?z r" using s(4,5) by (simp add: next_rid_def)
  from scan_collect_ok [OF s(2,3) this, of k] k all s(4) obtain rs b' where
    "scan_collect k r fh b1 = Ok rs (fh, b')" "rm_inv fh b'" "frame_free b'" "rm_abs fh b' = rm_abs fh b"
    "set rs = dom (rm_abs fh b)" "sorted_wrt rid_lt rs" by auto
  then show ?thesis using s(1) by (auto simp: scan_table_def)
qed

end
