(* ===== verification/Record_Properties.thy ===== *)
theory Record_Properties
  imports Record_Scan
begin

text \<open>
  What the users of a table file rely on. \<open>rm_abs fh b\<close> is the table: the records by record id.
\<close>

section \<open>A small table for the examples\<close>

definition ex_tab :: rmfh where
  "ex_tab = \<lparr>fh_fd = 3, file_hdr = rm_new_hdr 8\<rparr>"

definition ex_tab_pool :: bpm where
  "ex_tab_pool = BufferPoolManager_new 0 2 ((DiskManager_new ex_os)\<lparr>fd2pageno := (\<lambda>_. 1)\<rparr>)"

lemma ex_tab_inv: "rm_inv ex_tab ex_tab_pool"
proof -
  have "no_alias ((DiskManager_new ex_os)\<lparr>fd2pageno := (\<lambda>_. 1)\<rparr>)"
    by (simp add: no_alias_def DiskManager_new_def ex_os_def)
  then have "bpm_inv {} ex_tab_pool" unfolding ex_tab_pool_def by (rule bpm_inv_new)
  moreover have "file_inv (rm_new_hdr 8) v" for v
  proof -
    have "roomy (rm_new_hdr 8) v = {}" by (auto simp: roomy_def data_page_def rm_new_hdr_def)
    then show ?thesis
      by (auto simp: file_inv_def hdr_ok_def data_page_def rm_new_hdr_def RM_MAX_RECORD_SIZE_def)
  qed
  ultimately show ?thesis
    unfolding rm_inv_def
    by (auto simp: ex_tab_def ex_tab_pool_def MAX_FD_def synced_but_def BufferPoolManager_new_def
        fd_open_def DiskManager_new_def ex_os_def rm_new_hdr_def)
qed

lemma ex_tab_free: "frame_free ex_tab_pool"
  by (simp add: frame_free_def find_victim_page_def ex_tab_pool_def BufferPoolManager_new_def upt_rec [of _ "2 :: nat"])

text \<open>The table after one insertion.\<close>

definition ex_ins :: "Rid rm" where
  "ex_ins = insert_record (replicate 8 7) ex_tab ex_tab_pool"

definition ex_rid :: Rid where "ex_rid = (case ex_ins of Ok r s \<Rightarrow> r | Err e s \<Rightarrow> Rid_of 0 0)"
definition ex_tab1 :: rmfh where "ex_tab1 = fst (final_state ex_ins)"
definition ex_pool1 :: bpm where "ex_pool1 = snd (final_state ex_ins)"

lemma ex_ins_facts:
  "rm_inv ex_tab1 ex_pool1" "rm_abs ex_tab1 ex_pool1 ex_rid = Some (replicate 8 7)" "frame_free ex_pool1"
  "record_size (file_hdr ex_tab1) = 8" "rm_abs ex_tab1 ex_pool1 = (rm_abs ex_tab ex_tab_pool)(ex_rid \<mapsto> replicate 8 7)"
proof -
  have ff: "first_free_page_no (file_hdr ex_tab) = RM_NO_PAGE"
    and np: "num_pages (file_hdr ex_tab) + 1 < 2 ^ 31" and rs: "record_size (file_hdr ex_tab) = 8"
    by (simp_all add: ex_tab_def rm_new_hdr_def)
  have buf: "record_size (file_hdr ex_tab) \<le> int (length (replicate 8 (7 :: byte)))" using rs by simp
  from insert_fresh [OF ex_tab_inv ex_tab_free buf ff np] obtain rid fh' b' where
    i: "insert_record (replicate 8 7) ex_tab ex_tab_pool = Ok rid (fh', b')" "rm_inv fh' b'"
      "rm_abs fh' b' = (rm_abs ex_tab ex_tab_pool)(rid \<mapsto> take (nat (record_size (file_hdr ex_tab))) (replicate 8 7))"
      "frame_free b'" by metis
  then have "ex_tab1 = fh'" "ex_pool1 = b'" "ex_rid = rid"
    by (simp_all add: ex_tab1_def ex_pool1_def ex_rid_def ex_ins_def)
  moreover have "record_size (file_hdr fh') = 8"
    using i(1) rs by (auto simp: insert_record_def create_page_handle_def create_new_page_handle_def ff Let_def
        bindO_Ok_iff liftS_Ok_iff split: option.splits prod.splits if_splits)
  ultimately show "rm_inv ex_tab1 ex_pool1" "rm_abs ex_tab1 ex_pool1 ex_rid = Some (replicate 8 7)"
    "frame_free ex_pool1" "record_size (file_hdr ex_tab1) = 8"
    "rm_abs ex_tab1 ex_pool1 = (rm_abs ex_tab ex_tab_pool)(ex_rid \<mapsto> replicate 8 7)" using i(2-4) rs by simp_all
qed

section \<open>Properties\<close>

lemma insert_record_ok:
  assumes "rm_inv fh b" and "frame_free b" and "record_size (file_hdr fh) \<le> int (length buf)"
    and "num_pages (file_hdr fh) + 1 < 2 ^ 31"
  shows "\<exists>rid fh' b'. insert_record buf fh b = Ok rid (fh', b') \<and> rm_inv fh' b' \<and> frame_free b' \<and>
    rm_abs fh b rid = None \<and>
    rm_abs fh' b' = (rm_abs fh b)(rid \<mapsto> take (nat (record_size (file_hdr fh))) buf) \<and>
    others_kept (fh_fd fh) b b'"
proof (cases "first_free_page_no (file_hdr fh) = RM_NO_PAGE")
  case True
  then show ?thesis using insert_fresh [OF assms(1-3) True assms(4)] by metis
next
  case False
  then show ?thesis using insert_existing [OF assms(1-3) False] by metis
qed

text \<open>
  C2. \<open>insert_record\<close> refines insertion into the abstract table. On a table in a valid state it
  returns a record id that was not in use, the table afterwards has exactly one more record, with
  the given bytes, the state is valid again and the pool can still supply a frame. Pages of other
  files are untouched.
\<close>

theorem insert_record_refines:
  assumes "rm_inv fh b" and "frame_free b" and "record_size (file_hdr fh) \<le> int (length buf)"
    and "num_pages (file_hdr fh) + 1 < 2 ^ 31"
  shows "\<exists>rid fh' b'. insert_record buf fh b = Ok rid (fh', b') \<and> rm_inv fh' b' \<and> frame_free b' \<and>
    rm_abs fh b rid = None \<and>
    rm_abs fh' b' = (rm_abs fh b)(rid \<mapsto> take (nat (record_size (file_hdr fh))) buf) \<and>
    others_kept (fh_fd fh) b b'"
  by (rule insert_record_ok [OF assms])

theorem insert_record_refines_witness:
  "\<exists>rid fh' b'. insert_record (replicate 8 7) ex_tab ex_tab_pool = Ok rid (fh', b') \<and> rm_inv fh' b' \<and>
    frame_free b' \<and> rm_abs ex_tab ex_tab_pool rid = None \<and>
    rm_abs fh' b' = (rm_abs ex_tab ex_tab_pool)
      (rid \<mapsto> take (nat (record_size (file_hdr ex_tab))) (replicate 8 7)) \<and>
    others_kept (fh_fd ex_tab) ex_tab_pool b'"
  by (rule insert_record_refines [OF ex_tab_inv ex_tab_free]) (simp_all add: ex_tab_def rm_new_hdr_def)

text \<open>
  C3. \<open>delete_record\<close> refines deletion from the abstract table: the record is gone, every other
  record is unchanged, and a page that was full is linked into the list of pages with free space.
\<close>

theorem delete_record_refines:
  assumes "rm_inv fh b" and "frame_free b" and "rm_abs fh b rid = Some r"
  shows "\<exists>fh' b'. delete_record rid fh b = Ok () (fh', b') \<and> rm_inv fh' b' \<and> frame_free b' \<and>
    rm_abs fh' b' = (rm_abs fh b)(rid := None) \<and> others_kept (fh_fd fh) b b'"
  using delete_record_ok [OF assms(1,3,2)] by metis

theorem delete_record_refines_witness:
  "\<exists>fh' b'. delete_record ex_rid ex_tab1 ex_pool1 = Ok () (fh', b') \<and> rm_inv fh' b' \<and> frame_free b' \<and>
    rm_abs fh' b' = (rm_abs ex_tab1 ex_pool1)(ex_rid := None) \<and> others_kept (fh_fd ex_tab1) ex_pool1 b'"
  using delete_record_refines [OF ex_ins_facts(1,3,2)] .

text \<open>
  C4. \<open>update_record\<close> refines the update of one record of the abstract table; all other records
  and the file header are unchanged.
\<close>

theorem update_record_refines:
  assumes "rm_inv fh b" and "frame_free b" and "rm_abs fh b rid = Some r"
    and "record_size (file_hdr fh) \<le> int (length buf)"
  shows "\<exists>b'. update_record rid buf fh b = Ok () (fh, b') \<and> rm_inv fh b' \<and> frame_free b' \<and>
    rm_abs fh b' = (rm_abs fh b)(rid \<mapsto> take (nat (record_size (file_hdr fh))) buf) \<and>
    others_kept (fh_fd fh) b b'"
  using update_record_ok [OF assms(1,3,2,4)] by metis

theorem update_record_refines_witness:
  "\<exists>b'. update_record ex_rid (replicate 8 9) ex_tab1 ex_pool1 = Ok () (ex_tab1, b') \<and> rm_inv ex_tab1 b' \<and>
    frame_free b' \<and> rm_abs ex_tab1 b' = (rm_abs ex_tab1 ex_pool1)
      (ex_rid \<mapsto> take (nat (record_size (file_hdr ex_tab1))) (replicate 8 9)) \<and>
    others_kept (fh_fd ex_tab1) ex_pool1 b'"
  by (rule update_record_refines [OF ex_ins_facts(1,3,2)]) (simp add: ex_ins_facts(4))

text \<open>
  C24. \<open>get_record\<close> returns exactly the record of the abstract table, or \<open>nullptr\<close> when there is
  none, and changes no record. But it never gives the page back: the pin count of the page's frame
  is one higher after the call than before, so the frame can not be evicted any more.
\<close>

theorem get_record_correct_but_pins:
  assumes "rm_inv fh b" and "frame_free b" and "data_page (file_hdr fh) (rid_page rid)"
    and "0 \<le> rid_slot rid" and "rid_slot rid < num_records_per_page (file_hdr fh)"
  shows "\<exists>b' f. get_record rid fh b = Ok (map_option
        (\<lambda>r. \<lparr>rec_data = r, rec_size = record_size (file_hdr fh), allocated = True\<rparr>) (rm_abs fh b rid)) (fh, b') \<and>
    rm_inv fh b' \<and> rm_abs fh b' = rm_abs fh b \<and>
    page_table b' (PageId_of (fh_fd fh) (rid_page rid)) = Some f \<and>
    pin_count (pg b' f) = (if page_table b (PageId_of (fh_fd fh) (rid_page rid)) = None then 1
                           else pin_count (pg b f) + 1)"
  using get_record_ok [OF assms(1,3,2,4,5)] by metis

lemma ex_rid_range:
  "data_page (file_hdr ex_tab1) (rid_page ex_rid)" "0 \<le> rid_slot ex_rid"
  "rid_slot ex_rid < num_records_per_page (file_hdr ex_tab1)"
  using rm_abs_range [of ex_tab1 ex_pool1 ex_rid] ex_ins_facts(2) by auto

theorem get_record_correct_but_pins_witness:
  "\<exists>b' f. get_record ex_rid ex_tab1 ex_pool1 = Ok (map_option
        (\<lambda>r. \<lparr>rec_data = r, rec_size = record_size (file_hdr ex_tab1), allocated = True\<rparr>)
        (rm_abs ex_tab1 ex_pool1 ex_rid)) (ex_tab1, b') \<and>
    rm_inv ex_tab1 b' \<and> rm_abs ex_tab1 b' = rm_abs ex_tab1 ex_pool1 \<and>
    page_table b' (PageId_of (fh_fd ex_tab1) (rid_page ex_rid)) = Some f \<and>
    pin_count (pg b' f) = (if page_table ex_pool1 (PageId_of (fh_fd ex_tab1) (rid_page ex_rid)) = None then 1
                           else pin_count (pg ex_pool1 f) + 1)"
  using get_record_correct_but_pins [OF ex_ins_facts(1,3) ex_rid_range] .

text \<open>
  C5. A scan visits the whole table. The loop over \<open>RmScan\<close> ends after as many steps as the table
  has records, returns every record id exactly once, ordered by page and slot, and leaves table and
  pool as they were.
\<close>

theorem scan_visits_table:
  assumes "rm_inv fh b" and "frame_free b" and "card (dom (rm_abs fh b)) < k"
  shows "\<exists>rs b'. scan_table k fh b = Ok rs (fh, b') \<and> rm_inv fh b' \<and> frame_free b' \<and>
    rm_abs fh b' = rm_abs fh b \<and> set rs = dom (rm_abs fh b) \<and> sorted_wrt rid_lt rs"
  using scan_table_ok [OF assms] .

theorem scan_visits_table_witness:
  "\<exists>rs b'. scan_table (Suc (card (dom (rm_abs ex_tab1 ex_pool1)))) ex_tab1 ex_pool1 = Ok rs (ex_tab1, b') \<and>
    rm_inv ex_tab1 b' \<and> frame_free b' \<and> rm_abs ex_tab1 b' = rm_abs ex_tab1 ex_pool1 \<and>
    set rs = dom (rm_abs ex_tab1 ex_pool1) \<and> sorted_wrt rid_lt rs"
  using scan_visits_table [OF ex_ins_facts(1,3)] by blast

text \<open>
  C25. The page layout \<open>RmManager::create_file\<close> computes: for every record size it accepts, a page
  holds at least one record, the bitmap has a bit for every slot, and header, bitmap and slots fit
  into the page.
\<close>

theorem rm_layout_fits:
  assumes "1 \<le> rs" and "rs \<le> RM_MAX_RECORD_SIZE"
  defines "h \<equiv> rm_new_hdr rs"
  shows "1 \<le> num_records_per_page h \<and> num_records_per_page h \<le> int BITMAP_WIDTH * bitmap_size h \<and>
    get_slot h (num_records_per_page h) \<le> int PAGE_SIZE"
proof -
  have "hdr_ok h" using assms by (simp add: h_def hdr_ok_def rm_new_hdr_def)
  note b = hdr_okD [OF this]
  show ?thesis using b(3,6,7) by (simp add: BITMAP_WIDTH_def get_slot_def)
qed

theorem rm_layout_fits_witness:
  "1 \<le> num_records_per_page (rm_new_hdr 512) \<and>
   num_records_per_page (rm_new_hdr 512) \<le> int BITMAP_WIDTH * bitmap_size (rm_new_hdr 512) \<and>
   get_slot (rm_new_hdr 512) (num_records_per_page (rm_new_hdr 512)) \<le> int PAGE_SIZE"
  by (rule rm_layout_fits) (simp_all add: RM_MAX_RECORD_SIZE_def)

end
