(* ===== verification/Table_Files.thy ===== *)
theory Table_Files
  imports Record_Properties
begin

text \<open>
  Creating, opening and closing a table file: the file header survives the trip to disk, a freshly
  created table is empty and valid, and closing a table makes its pages and its header durable.
\<close>

section \<open>The header on disk\<close>

definition hdr_in_range :: "RmFileHdr \<Rightarrow> bool" where
  "hdr_in_range h \<longleftrightarrow> in_i32 (record_size h) \<and> in_i32 (num_pages h) \<and> in_i32 (num_records_per_page h) \<and>
     in_i32 (first_free_page_no h) \<and> in_i32 (bitmap_size h)"

lemma length_enc_file_hdr [simp]: "length (enc_file_hdr h) = 20"
  by (simp add: enc_file_hdr_def)

lemma dec_enc_file_hdr: "hdr_in_range h \<Longrightarrow> dec_file_hdr (enc_file_hdr h @ xs) = h"
  by (simp add: dec_file_hdr_def enc_file_hdr_def hdr_in_range_def)

lemma file_inv_range: "file_inv h v \<Longrightarrow> hdr_in_range h"
proof -
  assume inv: "file_inv h v"
  note b = hdr_okD [OF file_invD(1) [OF inv]]
  obtain qs where qs: "set qs = roomy h v" "free_chain (\<lambda>p. the (v p)) (first_free_page_no h) qs"
    using inv by (auto simp: file_inv_def)
  have "in_i32 (first_free_page_no h)"
    using chain_head [OF qs(2,1)] file_invD(3) [OF inv] by (auto simp: data_page_def RM_NO_PAGE_def)
  moreover have "bitmap_size h \<le> num_records_per_page h + 7"
  proof -
    have "bitmap_size h = (num_records_per_page h + 7) div 8"
      using file_invD(1) [OF inv] by (simp add: hdr_ok_def rm_bitmap_size_def BITMAP_WIDTH_def algebra_simps)
    then show ?thesis using b(3) by linarith
  qed
  ultimately show ?thesis using b file_invD(2,3) [OF inv] by (auto simp: hdr_in_range_def)
qed

text \<open>Writing the header: \<open>write_page\<close> of the first 20 bytes of page 0.\<close>

lemma write_header:
  assumes fd: "fds (dos d) fd = Some (ino, off)"
  shows "write_page fd RM_FILE_HDR_PAGE (enc_file_hdr h) sizeof_RmFileHdr d =
    Ok () (d\<lparr>dos := (dos d)\<lparr>fds := (fds (dos d))(fd \<mapsto> (ino, 20)),
                           idata := (idata (dos d))(ino := pwrite (idata (dos d) ino) 0 (enc_file_hdr h))\<rparr>\<rparr>)"
  using fd by (simp add: write_page_def sys_lseek_def sys_write_def RM_FILE_HDR_PAGE_def sizeof_RmFileHdr_def)

lemma write_header_pages:
  fixes h :: RmFileHdr
  assumes fd: "fds (dos d) fd = Some (ino, off)" and al: "no_alias d"
  defines "d1 \<equiv> d\<lparr>dos := (dos d)\<lparr>fds := (fds (dos d))(fd \<mapsto> (ino, 20)),
                           idata := (idata (dos d))(ino := pwrite (idata (dos d) ino) 0 (enc_file_hdr h))\<rparr>\<rparr>"
  shows "disk_frame d d1"
    and "\<And>p bs. p \<noteq> PageId_of fd 0 \<Longrightarrow> disk_page d p = Some bs \<Longrightarrow> disk_page d1 p = Some bs"
proof -
  show "disk_frame d d1" using fd by (simp add: disk_frame_def d1_def)
  fix p bs assume p: "p \<noteq> PageId_of fd 0" and bs: "disk_page d p = Some bs"
  show "disk_page d1 p = Some bs"
  proof (cases "pid_fd p = fd")
    case False
    obtain i o2 where q: "fds (dos d) (pid_fd p) = Some (i, o2)"
      using bs by (auto simp: disk_page_def split: option.splits)
    then have "i \<noteq> ino" using False fd al unfolding no_alias_def by blast
    then show ?thesis using False bs q by (simp add: disk_page_def d1_def split: if_splits)
  next
    case True
    have q: "0 \<le> page_no p" "(nat (page_no p) + 1) * PAGE_SIZE \<le> length (idata (dos d) ino)"
      and b: "bs = mem_read (idata (dos d) ino) (nat (page_no p) * PAGE_SIZE) PAGE_SIZE"
      using True bs fd by (auto simp: disk_page_def split: if_splits)
    have "page_no p \<noteq> 0" using True p by (auto intro: PageId_eqI)
    then have "1 \<le> nat (page_no p)" using q(1) by simp
    then have "PAGE_SIZE \<le> nat (page_no p) * PAGE_SIZE" by simp
    then have "mem_read (pwrite (idata (dos d) ino) 0 (enc_file_hdr h)) (nat (page_no p) * PAGE_SIZE) PAGE_SIZE = bs"
      unfolding b using q(2) by (intro pwrite_other) (auto simp: PAGE_SIZE_def)
    then show ?thesis using True q by (simp add: disk_page_def d1_def)
  qed
qed

text \<open>A change of the disk that leaves the cached pages alone keeps the pool's invariant.\<close>

lemma bpm_inv_disk:
  assumes inv: "bpm_inv L b" and al: "no_alias d"
    and op: "\<And>pid f. page_table b pid = Some f \<Longrightarrow> fd_open d (pid_fd pid) = fd_open (dm b) (pid_fd pid)"
    and dp: "\<And>pid f bs. page_table b pid = Some f \<Longrightarrow> disk_page (dm b) pid = Some bs \<Longrightarrow> disk_page d pid = Some bs"
  shows "bpm_inv L (b\<lparr>dm := d\<rparr>)"
proof -
  have m: "mapped (b\<lparr>dm := d\<rparr>) f = mapped b f" for f by (simp add: mapped_def)
  have op': "fd_open d (pid_fd (pg_id (pg b f))) = fd_open (dm b) (pid_fd (pg_id (pg b f)))" if "mapped b f" for f
    using op [of "pg_id (pg b f)" f] that by (simp add: mapped_def)
  have "sync_ok (b\<lparr>dm := d\<rparr>)"
    using bpm_inv_parts(5) [OF inv] al op' dp by (auto simp: sync_ok_def m mapped_def)
  moreover have "frames_ok (b\<lparr>dm := d\<rparr>)" using bpm_inv_parts(1) [OF inv] by (simp add: frames_ok_def m)
  moreover have "table_ok (b\<lparr>dm := d\<rparr>)" using bpm_inv_parts(2) [OF inv] by (simp add: table_ok_def)
  moreover have "free_ok L (b\<lparr>dm := d\<rparr>)" using bpm_inv_parts(3) [OF inv] by (simp add: free_ok_def m)
  moreover have "lru_ok (b\<lparr>dm := d\<rparr>)" using bpm_inv_parts(4) [OF inv] by (simp add: lru_ok_def m)
  ultimately show ?thesis by (simp add: bpm_inv_def)
qed

section \<open>Flushing leaves the header alone\<close>

lemma flush_frames_header:
  assumes "flush_frames fd is b = Ok () b'" and "map_option fst (fds (dos (dm b)) fd) = Some ino"
    and "\<And>i. i \<in> set is \<Longrightarrow> pid_fd (pg_id (pg b i)) = fd \<Longrightarrow> page_no (pg_id (pg b i)) \<noteq> INVALID_PAGE_ID \<Longrightarrow>
           1 \<le> page_no (pg_id (pg b i)) \<and> length (pg_data (pg b i)) = PAGE_SIZE"
    and "set is \<subseteq> {..<length (pages b)}" and "20 \<le> length (idata (dos (dm b)) ino)"
  shows "mem_read (idata (dos (dm b')) ino) 0 20 = mem_read (idata (dos (dm b)) ino) 0 20"
  using assms
proof (induction "is" arbitrary: b)
  case (Cons i "is")
  let ?p = "pg_id (pg b i)"
  show ?case
  proof (cases "pid_fd ?p = fd \<and> page_no ?p \<noteq> INVALID_PAGE_ID")
    case False
    then have fl: "flush_frames fd is b = Ok () b'" using Cons.prems(1) by auto
    show ?thesis by (rule Cons.IH [OF fl Cons.prems(2)]) (use Cons.prems in auto)
  next
    case True
    have pn: "1 \<le> page_no ?p" "length (pg_data (pg b i)) = PAGE_SIZE" using Cons.prems(3) [of i] True by auto
    obtain off where fd: "fds (dos (dm b)) fd = Some (ino, off)" using Cons.prems(2) by auto
    let ?o = "nat (page_no ?p) * PAGE_SIZE"
    let ?d = "(dm b)\<lparr>dos := (dos (dm b))\<lparr>fds := (fds (dos (dm b)))(fd \<mapsto> (ino, ?o + PAGE_SIZE)),
        idata := (idata (dos (dm b)))(ino := pwrite (idata (dos (dm b)) ino) ?o (pg_data (pg b i)))\<rparr>\<rparr>"
    have w: "write_page fd (page_no ?p) (pg_data (pg b i)) PAGE_SIZE (dm b) = Ok () ?d"
      using fd pn by (simp add: write_page_def sys_lseek_def sys_write_def page_offset mult_less_0_iff)
    let ?b = "upd_page i (\<lambda>p. p\<lparr>is_dirty := False\<rparr>) (b\<lparr>dm := ?d\<rparr>)"
    have fl: "flush_frames fd is ?b = Ok () b'" using Cons.prems(1) True w by simp
    have pg: "pg ?b j = (if j = i then (pg b i)\<lparr>is_dirty := False\<rparr> else pg b j)" for j
      using Cons.prems(4) by (simp add: upd_page_def nth_list_update)
    have dmb: "dm ?b = ?d" by (simp add: upd_page_def)
    have "1 \<le> nat (page_no ?p)" using pn(1) by simp
    then have "PAGE_SIZE \<le> ?o" by simp
    then have o20: "20 \<le> ?o" by (simp add: PAGE_SIZE_def)
    have "mem_read (idata (dos (dm b')) ino) 0 20 = mem_read (idata (dos (dm ?b)) ino) 0 20"
    proof (rule Cons.IH [OF fl])
      show "map_option fst (fds (dos (dm ?b)) fd) = Some ino" by (simp add: dmb)
      show "set is \<subseteq> {..<length (pages ?b)}" using Cons.prems(4) by (simp add: upd_page_def)
      show "20 \<le> length (idata (dos (dm ?b)) ino)" using Cons.prems(5) by (simp add: dmb)
      fix j assume "j \<in> set is" "pid_fd (pg_id (pg ?b j)) = fd" "page_no (pg_id (pg ?b j)) \<noteq> INVALID_PAGE_ID"
      then show "1 \<le> page_no (pg_id (pg ?b j)) \<and> length (pg_data (pg ?b j)) = PAGE_SIZE"
        using Cons.prems(3) [of j] pn by (simp add: pg split: if_splits)
    qed
    also have "\<dots> = mem_read (idata (dos (dm b)) ino) 0 20"
      unfolding dmb using pwrite_other [of 0 20 "idata (dos (dm b)) ino" ?o "pg_data (pg b i)"] Cons.prems(5) o20
      by simp
    finally show ?thesis .
  qed
qed simp

section \<open>Closing a table\<close>

lemma rm_close_file_ok:
  assumes inv: "rm_inv fh b" and inv0: "bpm_inv {} b" and p0: "page_table b (PageId_of (fh_fd fh) 0) = None"
    and fd: "fds (dos (dm b)) (fh_fd fh) = Some (ino, off)" and path: "fd2path (dm b) (fh_fd fh) = Some path"
  shows "\<exists>b'. rm_close_file fh b = Ok () b' \<and>
    dec_file_hdr (mem_read (idata (dos (dm b')) ino) 0 sizeof_RmFileHdr) = file_hdr fh \<and>
    (\<forall>p. data_page (file_hdr fh) p \<longrightarrow>
       file_page fh b p = Some (mem_read (idata (dos (dm b')) ino) (nat p * PAGE_SIZE) PAGE_SIZE)) \<and>
    \<not> fd_open (dm b') (fh_fd fh)"
proof -
  let ?fd = "fh_fd fh" and ?h = "file_hdr fh"
  define d1 where "d1 = (dm b)\<lparr>dos := (dos (dm b))\<lparr>fds := (fds (dos (dm b)))(?fd \<mapsto> (ino, 20)),
      idata := (idata (dos (dm b)))(ino := pwrite (idata (dos (dm b)) ino) 0 (enc_file_hdr ?h))\<rparr>\<rparr>"
  note wh = write_header [OF fd, of ?h, folded d1_def]
  note wp = write_header_pages [OF fd sync_okD(1) [OF inv0], where h = ?h, folded d1_def]
  let ?b1 = "b\<lparr>dm := d1\<rparr>"
  have nz: "pid \<noteq> PageId_of ?fd 0" if "page_table b pid = Some f" for pid f using that p0 by auto
  have inv1: "bpm_inv {} ?b1"
    using disk_frame_alias [OF wp(1)] sync_okD(1) [OF inv0] disk_frame_open [OF wp(1)] wp(2) nz
    by (intro bpm_inv_disk [OF inv0]) auto
  have op1: "fd_open (dm ?b1) ?fd" using rm_invD(5) [OF inv] disk_frame_open [OF wp(1)] by simp
  obtain b2 where b2: "flush_frames ?fd [0..<pool_size b] ?b1 = Ok () b2" "bpm_inv {} b2"
    "disk_frame d1 (dm b2)" "page_table b2 = page_table b"
    "\<forall>f < pool_size b. pg b2 f = pg b f \<or> pg b2 f = (pg b f)\<lparr>is_dirty := False\<rparr>"
    "view_kept ?b1 b2" "\<forall>f < pool_size b. flushed ?fd b2 f"
    using flush_frames_Ok [OF inv1 op1, of "[0..<pool_size b]"] by (auto simp: atLeast0LessThan)
  have len0: "20 \<le> length (idata (dos d1) ino)" and hd0: "mem_read (idata (dos d1) ino) 0 20 = enc_file_hdr ?h"
    using pwrite_same [of "idata (dos (dm b)) ino" 0 "enc_file_hdr ?h"] by (simp_all add: d1_def)
  have hd: "mem_read (idata (dos (dm b2)) ino) 0 20 = enc_file_hdr ?h"
  proof -
    have "mem_read (idata (dos (dm b2)) ino) 0 20 = mem_read (idata (dos (dm ?b1)) ino) 0 20"
    proof (rule flush_frames_header [OF b2(1)])
      show "map_option fst (fds (dos (dm ?b1)) ?fd) = Some ino" by (simp add: d1_def)
      show "set [0..<pool_size b] \<subseteq> {..<length (pages ?b1)}" using frames_okD(1) [OF inv0] by auto
      show "20 \<le> length (idata (dos (dm ?b1)) ino)" using len0 by simp
      fix i assume i: "i \<in> set [0..<pool_size b]" "pid_fd (pg_id (pg ?b1 i)) = ?fd"
        "page_no (pg_id (pg ?b1 i)) \<noteq> INVALID_PAGE_ID"
      then have "i \<notin> set (free_list b)" using free_okD(3) [OF inv0] by auto
      then have m: "mapped b i" using free_okD(8) [OF inv0] i(1) by auto
      then have "page_table b (pg_id (pg b i)) = Some i" by (simp add: mapped_def)
      then have "pg_id (pg b i) \<noteq> PageId_of ?fd 0" by (rule nz)
      moreover have "0 \<le> page_no (pg_id (pg b i))" using mapped_page_no [OF inv0 m] .
      ultimately show "1 \<le> page_no (pg_id (pg ?b1 i)) \<and> length (pg_data (pg ?b1 i)) = PAGE_SIZE"
        using i frames_okD(2) [OF inv0] PageId_eqI [of "pg_id (pg b i)" "PageId_of ?fd 0"] by fastforce
    qed
    then show ?thesis using hd0 by simp
  qed
  have ino2: "map_option fst (fds (dos (dm b2)) ?fd) = Some ino"
    using b2(3) by (simp add: disk_frame_def d1_def)
  have page: "disk_page (dm b2) (PageId_of ?fd p) = file_page fh b p" if dp: "data_page ?h p" for p
  proof -
    obtain data where data: "file_page fh b p = Some data" using file_invD(4) [OF rm_invD(8) [OF inv] dp] by blast
    have pz: "PageId_of ?fd p \<noteq> PageId_of ?fd 0" using dp by (simp add: data_page_def)
    show ?thesis
    proof (cases "page_table b (PageId_of ?fd p)")
      case (Some f)
      have f: "f < pool_size b" using table_okD(1) [OF inv0 Some] .
      have f2: "pg_id (pg b2 f) = PageId_of ?fd p" "mapped b2 f" using table_okD [OF b2(2)] Some b2(4) by auto
      have "pg_data (pg b2 f) = pg_data (pg b f)" using b2(5) f by auto
      then show ?thesis
        using b2(7) [rule_format, OF f] f2 data Some by (simp add: flushed_def file_page_def bpm_view_def)
    next
      case None
      then have "disk_page (dm b) (PageId_of ?fd p) = Some data" using data by (simp add: file_page_def bpm_view_def)
      then have "disk_page d1 (PageId_of ?fd p) = Some data" using wp(2) pz by blast
      then have "bpm_view ?b1 (PageId_of ?fd p) = Some data" using None by (simp add: bpm_view_def)
      then have "bpm_view b2 (PageId_of ?fd p) = Some data" using b2(6) op1 by (simp add: view_kept_def)
      then show ?thesis using None b2(4) data by (simp add: bpm_view_def)
    qed
  qed
  obtain off2 where fd2: "fds (dos (dm b2)) ?fd = Some (ino, off2)" using ino2 by auto
  have path2: "fd2path (dm b2) ?fd = Some path" using path b2(3) wp(1) by (simp add: disk_frame_def)
  let ?d3 = "(dm b2)\<lparr>dos := (dos (dm b2))\<lparr>fds := (fds (dos (dm b2)))(?fd := None)\<rparr>,
      fd2path := (fd2path (dm b2))(?fd := None), path2fd := (path2fd (dm b2))(path := None)\<rparr>"
  have cl: "close_file ?fd (dm b2) = Ok () ?d3" using path2 fd2 by (simp add: close_file_def sys_close_def)
  have "rm_close_file fh b = Ok () (b2\<lparr>dm := ?d3\<rparr>)"
    using wh b2(1) cl by (simp add: rm_close_file_def flush_all_pages_def)
  moreover have "dec_file_hdr (mem_read (idata (dos (dm b2)) ino) 0 20) = ?h"
    using hd dec_enc_file_hdr [OF file_inv_range [OF rm_invD(8) [OF inv]], of "[]"] by simp
  moreover have "file_page fh b p = Some (mem_read (idata (dos (dm b2)) ino) (nat p * PAGE_SIZE) PAGE_SIZE)"
    if "data_page ?h p" for p
    using page [OF that] fd2 file_invD(4) [OF rm_invD(8) [OF inv] that]
    by (auto simp: disk_page_def split: if_splits)
  ultimately show ?thesis by (auto simp: sizeof_RmFileHdr_def fd_open_def)
qed

section \<open>Creating and opening a table\<close>

text \<open>The disk after a table file was created and opened again.\<close>

definition opened_disk :: "string \<Rightarrow> int \<Rightarrow> int \<Rightarrow> disk \<Rightarrow> disk" where
  "opened_disk name rs fd d =
     (let n = next_ino (dos d)
      in d\<lparr>dos := (dos d)\<lparr>dirent := (dirent (dos d))(abspath (dos d) name \<mapsto> n),
             idata := (idata (dos d))(n := enc_file_hdr (rm_new_hdr rs)), next_ino := Suc n,
             fds := (fds (dos d))(fd \<mapsto> (n, 20))\<rparr>,
           path2fd := (path2fd d)(name \<mapsto> fd), fd2path := (fd2path d)(fd \<mapsto> name),
           fd2pageno := (fd2pageno d)(fd := 1)\<rparr>)"

lemma rm_new_hdr_range:
  assumes "1 \<le> rs" and "rs \<le> RM_MAX_RECORD_SIZE"
  shows "hdr_in_range (rm_new_hdr rs)"
proof -
  have roomy0: "roomy (rm_new_hdr rs) v = {}" for v by (auto simp: roomy_def data_page_def rm_new_hdr_def)
  then have "file_inv (rm_new_hdr rs) (\<lambda>_. None)"
    using assms by (auto simp: file_inv_def hdr_ok_def data_page_def rm_new_hdr_def RM_NO_PAGE_def)
  then show ?thesis by (rule file_inv_range)
qed

lemma create_open:
  assumes rs: "1 \<le> rs" "rs \<le> RM_MAX_RECORD_SIZE"
    and name: "\<not> is_file name d" "abspath (dos d) name \<notin> set (dirs (dos d))" "path2fd d name = None"
    and fd: "lowest_fd (dos d) = Some fd" and max: "fd < MAX_FD" and junk: "length junk = sizeof_RmFileHdr"
  shows "\<exists>d1. rm_create_file name rs d = Ok () d1 \<and>
    rm_open_file junk name d1 = Ok \<lparr>fh_fd = fd, file_hdr = rm_new_hdr rs\<rparr> (opened_disk name rs fd d)"
proof -
  let ?q = "abspath (dos d) name" and ?n = "next_ino (dos d)" and ?hd = "enc_file_hdr (rm_new_hdr rs)"
  have free: "fds (dos d) fd = None" using fd by (rule lowest_fd_free)
  have q: "dirent (dos d) ?q = None" using name(1) by (simp add: is_file_def)
  have fback: "(fds (dos d))(fd := None) = fds (dos d)" using free by (auto simp: fun_eq_iff)
  have pback: "(path2fd d)(name := None) = path2fd d" using name(3) by (auto simp: fun_eq_iff)
  let ?d1 = "d\<lparr>dos := (dos d)\<lparr>dirent := (dirent (dos d))(?q \<mapsto> ?n), idata := (idata (dos d))(?n := []),
      next_ino := Suc ?n\<rparr>\<rparr>"
  have c: "create_file name d = Ok () ?d1"
    using name q fd by (simp add: create_file_def is_file_def sys_open_excl_def sys_close_def fback)
  have ab: "abspath (s\<lparr>dirent := x, idata := y, next_ino := z\<rparr>) name = abspath s name" for s x y z
    by (simp add: abspath_def)
  have lf: "lowest_fd (s\<lparr>dirent := x, idata := y, next_ino := z\<rparr>) = lowest_fd s" for s x y z
    by (simp add: lowest_fd_def)
  let ?d2 = "?d1\<lparr>dos := (dos ?d1)\<lparr>fds := (fds (dos d))(fd \<mapsto> (?n, 0))\<rparr>,
      path2fd := (path2fd d)(name \<mapsto> fd), fd2path := (fd2path d)(fd \<mapsto> name)\<rparr>"
  have op: "open_file name ?d1 = Ok fd ?d2"
    using name(3) fd by (simp add: open_file_def is_file_def sys_open_def ab lf)
  have pw: "pwrite [] 0 ?hd = ?hd" by (simp add: pwrite_def mem_write_def)
  let ?d3 = "?d2\<lparr>dos := (dos ?d2)\<lparr>fds := (fds (dos d))(fd \<mapsto> (?n, 20)), idata := (idata (dos d))(?n := ?hd)\<rparr>\<rparr>"
  have w: "write_page fd RM_FILE_HDR_PAGE ?hd sizeof_RmFileHdr ?d2 = Ok () ?d3"
    using write_header [of ?d2 fd ?n 0 "rm_new_hdr rs"] pw by simp
  let ?d4 = "?d3\<lparr>dos := (dos ?d3)\<lparr>fds := fds (dos d)\<rparr>, path2fd := path2fd d, fd2path := (fd2path d)(fd := None)\<rparr>"
  have cl: "close_file fd ?d3 = Ok () ?d4" by (simp add: close_file_def sys_close_def fback pback)
  have cr: "rm_create_file name rs d = Ok () ?d4"
    using rs c op w cl by (simp add: rm_create_file_def)
  have op4: "open_file name ?d4 = Ok fd (?d4\<lparr>dos := (dos ?d4)\<lparr>fds := (fds (dos d))(fd \<mapsto> (?n, 0))\<rparr>,
      path2fd := (path2fd d)(name \<mapsto> fd), fd2path := (fd2path d)(fd \<mapsto> name)\<rparr>)"
    using name(3) fd by (simp add: open_file_def is_file_def sys_open_def abspath_def lowest_fd_def)
  have rd: "mem_read ?hd 0 20 = ?hd" by (simp add: mem_read_def)
  have mw: "mem_write junk 0 ?hd = ?hd" using junk by (simp add: mem_write_def sizeof_RmFileHdr_def)
  have dec: "dec_file_hdr ?hd = rm_new_hdr rs"
    using dec_enc_file_hdr [OF rm_new_hdr_range [OF rs], of "[]"] by simp
  have nn: "0 \<le> fd" using fd by (auto simp: lowest_fd_def find_Some_iff)
  have np: "num_pages (rm_new_hdr rs) = 1" by (simp add: rm_new_hdr_def)
  have "rm_open_file junk name ?d4 = Ok \<lparr>fh_fd = fd, file_hdr = rm_new_hdr rs\<rparr> (opened_disk name rs fd d)"
    unfolding rm_open_file_def op4
    by (simp add: RmFileHandle_new_def read_page_def sys_lseek_def sys_read_def
        RM_FILE_HDR_PAGE_def sizeof_RmFileHdr_def rd mw dec np nn max set_fd2pageno_def opened_disk_def Let_def)
  then show ?thesis using cr by blast
qed

lemma opened_disk_old:
  assumes inv: "disk_inv d" and fd: "fds (dos d) fd = None"
  shows "no_alias (opened_disk name rs fd d)"
    and "\<And>x. x \<noteq> fd \<Longrightarrow> fd_open (opened_disk name rs fd d) x = fd_open d x"
    and "\<And>p. pid_fd p \<noteq> fd \<Longrightarrow> disk_page (opened_disk name rs fd d) p = disk_page d p"
    and "fd_open (opened_disk name rs fd d) fd" and "fd2pageno (opened_disk name rs fd d) fd = 1"
proof -
  let ?d = "opened_disk name rs fd d"
  have lt: "i < next_ino (dos d)" if "fds (dos d) x = Some (i, off)" for x i off
    using disk_invD(8) [OF inv, of x i] that by (simp add: fd_ino_def)
  show "no_alias ?d"
    using disk_inv_no_alias [OF inv] lt unfolding no_alias_def opened_disk_def Let_def
    by (auto split: if_splits) fastforce+
  show "x \<noteq> fd \<Longrightarrow> fd_open ?d x = fd_open d x" for x by (simp add: fd_open_def opened_disk_def Let_def)
  show "disk_page ?d p = disk_page d p" if "pid_fd p \<noteq> fd" for p
  proof (cases "fds (dos d) (pid_fd p)")
    case (Some x)
    then obtain i off where x: "fds (dos d) (pid_fd p) = Some (i, off)" by (cases x) auto
    then show ?thesis using that lt [OF x] by (simp add: disk_page_def opened_disk_def Let_def)
  qed (use that in \<open>simp add: disk_page_def opened_disk_def Let_def\<close>)
  show "fd_open ?d fd" "fd2pageno ?d fd = 1" by (simp_all add: fd_open_def opened_disk_def Let_def)
qed

lemma opened_table:
  assumes inv: "bpm_inv L b" and sy: "synced_but {} b" and d: "disk_inv (dm b)"
    and rs: "1 \<le> rs" "rs \<le> RM_MAX_RECORD_SIZE" and fd: "fds (dos (dm b)) fd = None" "0 \<le> fd" "fd < MAX_FD"
    and none: "\<And>p. page_table b (PageId_of fd p) = None"
  shows "rm_inv \<lparr>fh_fd = fd, file_hdr = rm_new_hdr rs\<rparr> (b\<lparr>dm := opened_disk name rs fd (dm b)\<rparr>)"
    and "rm_abs \<lparr>fh_fd = fd, file_hdr = rm_new_hdr rs\<rparr> (b\<lparr>dm := opened_disk name rs fd (dm b)\<rparr>) = Map.empty"
proof -
  let ?d = "opened_disk name rs fd (dm b)" and ?fh = "\<lparr>fh_fd = fd, file_hdr = rm_new_hdr rs\<rparr>"
  note o = opened_disk_old [OF d fd(1), where name = name and rs = rs]
  have nofd: "pid_fd pid \<noteq> fd" if "page_table b pid = Some f" for pid f
    using none [of "page_no pid"] that by (cases pid) auto
  have "bpm_inv L (b\<lparr>dm := ?d\<rparr>)"
    using o nofd by (intro bpm_inv_disk [OF inv]) auto
  moreover have "synced_but {} (b\<lparr>dm := ?d\<rparr>)"
    using sy nofd o(2,3) by (simp add: synced_but_def)
  moreover have dp: "\<not> data_page (rm_new_hdr rs) p" for p by (auto simp: data_page_def rm_new_hdr_def)
  then have "file_inv (rm_new_hdr rs) v" for v
    using rs by (auto simp: file_inv_def hdr_ok_def rm_new_hdr_def roomy_def)
  ultimately show "rm_inv ?fh (b\<lparr>dm := ?d\<rparr>)"
    unfolding rm_inv_def using o(4,5) fd none by (auto simp: rm_new_hdr_def)
  show "rm_abs ?fh (b\<lparr>dm := ?d\<rparr>) = Map.empty" using dp by (simp add: rm_abs_def file_abs_def fun_eq_iff)
qed

text \<open>The tables that are open already are untouched.\<close>

lemma opened_table_others:
  assumes d: "disk_inv (dm b)" and fd: "fds (dos (dm b)) fd = None"
    and none: "\<And>p. page_table b (PageId_of fd p) = None" and inv: "rm_inv fh b"
  shows "rm_inv fh (b\<lparr>dm := opened_disk name rs fd (dm b)\<rparr>)"
    and "rm_abs fh (b\<lparr>dm := opened_disk name rs fd (dm b)\<rparr>) = rm_abs fh b"
proof -
  let ?d = "opened_disk name rs fd (dm b)"
  note o = opened_disk_old [OF d fd, where name = name and rs = rs]
  have ne: "fh_fd fh \<noteq> fd" using rm_invD(5) [OF inv] fd by (auto simp: fd_open_def)
  have nofd: "pid_fd pid \<noteq> fd" if "page_table b pid = Some f" for pid f
    using none [of "page_no pid"] that by (cases pid) auto
  obtain L where L: "bpm_inv L b" using rm_invD(1) [OF inv] by blast
  have "bpm_inv L (b\<lparr>dm := ?d\<rparr>)" using o nofd by (intro bpm_inv_disk [OF L]) auto
  moreover have "synced_but {} (b\<lparr>dm := ?d\<rparr>)"
    using rm_invD(2) [OF inv] nofd o(2,3) by (simp add: synced_but_def)
  moreover have fp: "file_page fh (b\<lparr>dm := ?d\<rparr>) = file_page fh b"
    by (rule ext) (simp add: file_page_def bpm_view_def o(3) ne split: option.split)
  moreover have "fd2pageno ?d (fh_fd fh) = fd2pageno (dm b) (fh_fd fh)" using ne by (simp add: opened_disk_def Let_def)
  ultimately show "rm_inv fh (b\<lparr>dm := ?d\<rparr>)" using inv ne o(2) by (auto simp: rm_inv_def)
  show "rm_abs fh (b\<lparr>dm := ?d\<rparr>) = rm_abs fh b" by (simp add: rm_abs_def fp)
qed

section \<open>Properties\<close>

text \<open>
  A table that is created and opened is empty and in a valid state, whatever the uninitialised
  memory its header is read into, provided the pool holds no page of the descriptor the file gets.
\<close>

theorem create_open_empty_table:
  assumes "bpm_inv L b" and "synced_but {} b" and "disk_inv (dm b)"
    and "1 \<le> rs" and "rs \<le> RM_MAX_RECORD_SIZE" and "\<not> is_file name (dm b)"
    and "abspath (dos (dm b)) name \<notin> set (dirs (dos (dm b)))" and "path2fd (dm b) name = None"
    and "lowest_fd (dos (dm b)) = Some fd" and "fd < MAX_FD" and "length junk = sizeof_RmFileHdr"
    and "\<And>p. page_table b (PageId_of fd p) = None"
  shows "\<exists>d1 d2 fh. rm_create_file name rs (dm b) = Ok () d1 \<and> rm_open_file junk name d1 = Ok fh d2 \<and>
    file_hdr fh = rm_new_hdr rs \<and> rm_inv fh (b\<lparr>dm := d2\<rparr>) \<and> rm_abs fh (b\<lparr>dm := d2\<rparr>) = Map.empty"
proof -
  obtain d1 where co: "rm_create_file name rs (dm b) = Ok () d1"
    "rm_open_file junk name d1 = Ok \<lparr>fh_fd = fd, file_hdr = rm_new_hdr rs\<rparr> (opened_disk name rs fd (dm b))"
    using create_open [OF assms(4-11)] by blast
  have "0 \<le> fd" using assms(9) by (auto simp: lowest_fd_def find_Some_iff)
  then show ?thesis
    using co opened_table [OF assms(1-5) lowest_fd_free [OF assms(9)] _ assms(10,12), of name]
    by (intro exI [of _ d1] exI [of _ "opened_disk name rs fd (dm b)"]
        exI [of _ "\<lparr>fh_fd = fd, file_hdr = rm_new_hdr rs\<rparr>"]) simp
qed

definition ex_blank_pool :: bpm where
  "ex_blank_pool = BufferPoolManager_new 0 2 (DiskManager_new
     \<lparr>cwd = [], dirs = [], dirent = Map.empty, idata = (\<lambda>_. []), next_ino = 0, fds = Map.empty, nofile = 16\<rparr>)"

theorem create_open_empty_table_witness:
  "\<exists>d1 d2 fh. rm_create_file ''t'' 8 (dm ex_blank_pool) = Ok () d1 \<and>
    rm_open_file (replicate 20 1) ''t'' d1 = Ok fh d2 \<and> file_hdr fh = rm_new_hdr 8 \<and>
    rm_inv fh (ex_blank_pool\<lparr>dm := d2\<rparr>) \<and> rm_abs fh (ex_blank_pool\<lparr>dm := d2\<rparr>) = Map.empty"
proof (rule create_open_empty_table [of "{}" _ _ _ 0])
  show "bpm_inv {} ex_blank_pool" unfolding ex_blank_pool_def
    by (rule bpm_inv_new) (simp add: no_alias_def DiskManager_new_def)
qed (simp_all add: ex_blank_pool_def BufferPoolManager_new_def DiskManager_new_def synced_but_def disk_inv_def
    fd_ino_def RM_MAX_RECORD_SIZE_def is_file_def lowest_fd_def MAX_FD_def sizeof_RmFileHdr_def upt_rec [of 0])

text \<open>
  C20. Durability of a table. Closing a valid table never fails; afterwards the bytes of its file
  decode to exactly the header in memory and every data page on disk is the page its users saw. The
  pool must hold no page 0 of the file (the header page) and no lost frames.
\<close>

theorem close_makes_durable:
  assumes "rm_inv fh b" and "bpm_inv {} b" and "page_table b (PageId_of (fh_fd fh) 0) = None"
    and "fds (dos (dm b)) (fh_fd fh) = Some (ino, off)" and "fd2path (dm b) (fh_fd fh) = Some path"
  shows "\<exists>b'. rm_close_file fh b = Ok () b' \<and>
    dec_file_hdr (mem_read (idata (dos (dm b')) ino) 0 sizeof_RmFileHdr) = file_hdr fh \<and>
    (\<forall>p. data_page (file_hdr fh) p \<longrightarrow>
       file_page fh b p = Some (mem_read (idata (dos (dm b')) ino) (nat p * PAGE_SIZE) PAGE_SIZE)) \<and>
    \<not> fd_open (dm b') (fh_fd fh)"
  using rm_close_file_ok [OF assms] .

definition ex_open_pool :: bpm where
  "ex_open_pool = BufferPoolManager_new 0 2 ((DiskManager_new ex_os)\<lparr>fd2pageno := (\<lambda>_. 1),
     path2fd := [''t'' \<mapsto> 3], fd2path := [3 \<mapsto> ''t'']\<rparr>)"

lemma ex_open_inv: "bpm_inv {} ex_open_pool"
  unfolding ex_open_pool_def
  by (rule bpm_inv_new) (simp add: no_alias_def DiskManager_new_def ex_os_def)

lemma ex_open_rm: "rm_inv ex_tab ex_open_pool"
proof -
  have "\<not> data_page (rm_new_hdr 8) p" for p by (auto simp: data_page_def rm_new_hdr_def)
  then have "file_inv (rm_new_hdr 8) v" for v
    by (auto simp: file_inv_def hdr_ok_def rm_new_hdr_def RM_MAX_RECORD_SIZE_def roomy_def)
  then show ?thesis
    unfolding rm_inv_def using ex_open_inv
    by (auto simp: ex_tab_def ex_open_pool_def MAX_FD_def synced_but_def BufferPoolManager_new_def
        fd_open_def DiskManager_new_def ex_os_def rm_new_hdr_def)
qed

theorem close_makes_durable_witness:
  "\<exists>b'. rm_close_file ex_tab ex_open_pool = Ok () b' \<and>
    dec_file_hdr (mem_read (idata (dos (dm b')) 0) 0 sizeof_RmFileHdr) = file_hdr ex_tab \<and>
    (\<forall>p. data_page (file_hdr ex_tab) p \<longrightarrow>
       file_page ex_tab ex_open_pool p = Some (mem_read (idata (dos (dm b')) 0) (nat p * PAGE_SIZE) PAGE_SIZE)) \<and>
    \<not> fd_open (dm b') (fh_fd ex_tab)"
  by (rule close_makes_durable [OF ex_open_rm ex_open_inv])
    (simp_all add: ex_tab_def ex_open_pool_def BufferPoolManager_new_def DiskManager_new_def ex_os_def)

end
