(* ===== verification/Transactions.thy ===== *)
theory Transactions
  imports Record_Manager
begin

text \<open>
  \<open>src/src/transaction\<close>: transactions, lock ids, and the transaction and lock managers. Most operations of the
  managers are empty in the source: \<open>begin\<close> returns no transaction, \<open>commit\<close> and \<open>abort\<close> do nothing, every lock is granted.
\<close>

unbundle bit_operations_syntax

section \<open>txn_defs.h\<close>

datatype TransactionState = TS_DEFAULT | TS_GROWING | TS_SHRINKING | TS_COMMITTED | TS_ABORTED

datatype IsolationLevel = READ_UNCOMMITTED | REPEATABLE_READ | READ_COMMITTED | SERIALIZABLE

datatype WType = INSERT_TUPLE | DELETE_TUPLE | UPDATE_TUPLE

record WriteRecord =
  wr_type :: WType
  wr_tab :: string
  wr_rid :: Rid
  wr_record :: RmRecord

datatype LockDataType = LOCK_TABLE | LOCK_RECORD

record LockDataId =
  ld_fd :: int
  ld_rid :: Rid
  ld_type :: LockDataType

text \<open>The two constructors assert the type they are for.\<close>

definition LockDataId_table :: "int \<Rightarrow> LockDataType \<Rightarrow> failure + LockDataId" where
  "LockDataId_table fd t =
     (if t \<noteq> LOCK_TABLE then Inl AssertionFailed
      else Inr \<lparr>ld_fd = fd, ld_rid = Rid_of (- 1) (- 1), ld_type = t\<rparr>)"

definition LockDataId_record :: "int \<Rightarrow> Rid \<Rightarrow> LockDataType \<Rightarrow> failure + LockDataId" where
  "LockDataId_record fd rid t =
     (if t \<noteq> LOCK_RECORD then Inl AssertionFailed else Inr \<lparr>ld_fd = fd, ld_rid = rid, ld_type = t\<rparr>)"

text \<open>\<open>Get\<close>: the 64-bit number that is hashed; \<open>slot_no\<close> is sign-extended before the last \<open>|\<close>.\<close>

definition LockDataId_Get :: "LockDataId \<Rightarrow> 64 word" where
  "LockDataId_Get x =
     (case ld_type x of
        LOCK_TABLE \<Rightarrow> word_of_int (ld_fd x)
      | LOCK_RECORD \<Rightarrow> push_bit 63 1 OR push_bit 31 (word_of_int (ld_fd x)) OR
          push_bit 16 (word_of_int (rid_page (ld_rid x))) OR word_of_int (rid_slot (ld_rid x)))"

definition LockDataId_eq :: "LockDataId \<Rightarrow> LockDataId \<Rightarrow> bool" where
  "LockDataId_eq x y \<longleftrightarrow>
     (if ld_type x \<noteq> ld_type y then False else if ld_fd x \<noteq> ld_fd y then False else ld_rid x = ld_rid y)"

datatype AbortReason = LOCK_ON_SHIRINKING | UPGRADE_CONFLICT | DEADLOCK_PREVENTION

fun GetInfo :: "int \<Rightarrow> AbortReason \<Rightarrow> string" where
  "GetInfo txn_id LOCK_ON_SHIRINKING = ''Transaction '' @ to_string txn_id @
     '' aborted because it cannot request locks on SHRINKING phase'' @ [CHR 0x0A]"
| "GetInfo txn_id UPGRADE_CONFLICT = ''Transaction '' @ to_string txn_id @
     '' aborted because another transaction is waiting for upgrading'' @ [CHR 0x0A]"
| "GetInfo txn_id DEADLOCK_PREVENTION = ''Transaction '' @ to_string txn_id @
     '' aborted for deadlock prevention'' @ [CHR 0x0A]"

section \<open>transaction.h\<close>

record Transaction =
  txn_mode :: bool
  txn_state :: TransactionState
  txn_isolation :: IsolationLevel
  txn_thread :: nat
  txn_prev_lsn :: int
  txn_id_of :: int
  txn_start_ts :: int
  txn_writes :: "WriteRecord list"
  txn_locks :: "LockDataId set"
  txn_latched :: "frame list"
  txn_deleted :: "frame list"

text \<open>\<open>txn_mode_\<close> and \<open>start_ts_\<close> are not initialised.\<close>

definition Transaction_new :: "bool \<Rightarrow> int \<Rightarrow> nat \<Rightarrow> int \<Rightarrow> IsolationLevel \<Rightarrow> Transaction" where
  "Transaction_new junk_mode junk_ts thread txn_id level =
     \<lparr>txn_mode = junk_mode, txn_state = TS_DEFAULT, txn_isolation = level, txn_thread = thread, txn_prev_lsn = INVALID_LSN,
      txn_id_of = txn_id, txn_start_ts = junk_ts, txn_writes = [], txn_locks = {}, txn_latched = [], txn_deleted = []\<rparr>"

definition set_txn_mode :: "bool \<Rightarrow> Transaction \<Rightarrow> Transaction" where "set_txn_mode m t = t\<lparr>txn_mode := m\<rparr>"
definition set_start_ts :: "int \<Rightarrow> Transaction \<Rightarrow> Transaction" where "set_start_ts ts t = t\<lparr>txn_start_ts := ts\<rparr>"
definition set_txn_state :: "TransactionState \<Rightarrow> Transaction \<Rightarrow> Transaction" where "set_txn_state st t = t\<lparr>txn_state := st\<rparr>"
definition set_prev_lsn :: "int \<Rightarrow> Transaction \<Rightarrow> Transaction" where "set_prev_lsn l t = t\<lparr>txn_prev_lsn := l\<rparr>"
definition append_write_record :: "WriteRecord \<Rightarrow> Transaction \<Rightarrow> Transaction" where
  "append_write_record w t = t\<lparr>txn_writes := txn_writes t @ [w]\<rparr>"
definition append_index_deleted_page :: "frame \<Rightarrow> Transaction \<Rightarrow> Transaction" where
  "append_index_deleted_page p t = t\<lparr>txn_deleted := txn_deleted t @ [p]\<rparr>"
definition append_index_latch_page_set :: "frame \<Rightarrow> Transaction \<Rightarrow> Transaction" where
  "append_index_latch_page_set p t = t\<lparr>txn_latched := txn_latched t @ [p]\<rparr>"

section \<open>transaction_manager.h, transaction_manager.cpp\<close>

datatype ConcurrencyMode = TWO_PHASE_LOCKING | BASIC_TO

record TransactionManager =
  tm_mode :: ConcurrencyMode
  next_txn_id :: int
  next_timestamp :: int
  txn_map :: "int \<rightharpoonup> Transaction option"

definition TransactionManager_new :: "ConcurrencyMode \<Rightarrow> TransactionManager" where
  "TransactionManager_new mode = \<lparr>tm_mode = mode, next_txn_id = 0, next_timestamp = 0, txn_map = Map.empty\<rparr>"

definition get_transaction :: "nat \<Rightarrow> int \<Rightarrow> TransactionManager \<Rightarrow> failure + Transaction option" where
  "get_transaction thread txn_id tm =
     (if txn_id = INVALID_TXN_ID then Inr None
      else case txn_map tm txn_id of
             None \<Rightarrow> Inl AssertionFailed
           | Some None \<Rightarrow> Inl AssertionFailed
           | Some (Some t) \<Rightarrow> if txn_thread t \<noteq> thread then Inl AssertionFailed else Inr (Some t))"

definition txn_begin :: "Transaction option \<Rightarrow> TransactionManager \<Rightarrow> Transaction option \<times> TransactionManager" where
  "txn_begin txn tm = (None, tm)"

definition txn_commit :: "Transaction option \<Rightarrow> TransactionManager \<Rightarrow> TransactionManager" where
  "txn_commit txn tm = tm"

definition txn_abort :: "Transaction option \<Rightarrow> TransactionManager \<Rightarrow> TransactionManager" where
  "txn_abort txn tm = tm"

section \<open>lock_manager.h, lock_manager.cpp\<close>

datatype LockMode = LM_SHARED | LM_EXLUCSIVE | LM_INTENTION_SHARED | LM_INTENTION_EXCLUSIVE | LM_S_IX
datatype GroupLockMode = NON_LOCK | GL_IS | GL_IX | GL_S | GL_X | GL_SIX

record LockRequest =
  lr_txn_id :: int
  lr_mode :: LockMode
  granted :: bool

definition LockRequest_new :: "int \<Rightarrow> LockMode \<Rightarrow> LockRequest" where
  "LockRequest_new txn_id mode = \<lparr>lr_txn_id = txn_id, lr_mode = mode, granted = False\<rparr>"

record LockRequestQueue =
  request_queue :: "LockRequest list"
  group_lock_mode :: GroupLockMode

type_synonym lock_table = "LockDataId \<rightharpoonup> LockRequestQueue"

definition lock_shared_on_record :: "Transaction option \<Rightarrow> Rid \<Rightarrow> int \<Rightarrow> lock_table \<Rightarrow> bool \<times> lock_table" where
  "lock_shared_on_record txn rid fd lt = (True, lt)"
definition lock_exclusive_on_record :: "Transaction option \<Rightarrow> Rid \<Rightarrow> int \<Rightarrow> lock_table \<Rightarrow> bool \<times> lock_table" where
  "lock_exclusive_on_record txn rid fd lt = (True, lt)"
definition lock_shared_on_table :: "Transaction option \<Rightarrow> int \<Rightarrow> lock_table \<Rightarrow> bool \<times> lock_table" where
  "lock_shared_on_table txn fd lt = (True, lt)"
definition lock_exclusive_on_table :: "Transaction option \<Rightarrow> int \<Rightarrow> lock_table \<Rightarrow> bool \<times> lock_table" where
  "lock_exclusive_on_table txn fd lt = (True, lt)"
definition lock_IS_on_table :: "Transaction option \<Rightarrow> int \<Rightarrow> lock_table \<Rightarrow> bool \<times> lock_table" where
  "lock_IS_on_table txn fd lt = (True, lt)"
definition lock_IX_on_table :: "Transaction option \<Rightarrow> int \<Rightarrow> lock_table \<Rightarrow> bool \<times> lock_table" where
  "lock_IX_on_table txn fd lt = (True, lt)"
definition unlock :: "Transaction option \<Rightarrow> LockDataId \<Rightarrow> lock_table \<Rightarrow> bool \<times> lock_table" where
  "unlock txn x lt = (True, lt)"

end
