(* ===== verification/Log_Records.thy ===== *)
theory Log_Records
  imports Transactions Meta
begin

text \<open>
  \<open>src/src/recovery\<close>: log records, their serial form, and the log buffer. \<open>serialize\<close> writes into memory at
  \<open>dest\<close>, a byte list; a write or a read behind its end is \<open>OutOfBounds\<close>. \<open>add_log_to_buffer\<close>, \<open>flush_log_to_disk\<close> and
  the three phases of the recovery are empty in the source.
\<close>

section \<open>log_defs.h\<close>

definition OFFSET_LOG_TYPE :: nat where "OFFSET_LOG_TYPE = 0"
definition OFFSET_LSN :: nat where "OFFSET_LSN = 4"
definition OFFSET_LOG_TOT_LEN :: nat where "OFFSET_LOG_TOT_LEN = OFFSET_LSN + 4"
definition OFFSET_LOG_TID :: nat where "OFFSET_LOG_TID = OFFSET_LOG_TOT_LEN + 4"
definition OFFSET_PREV_LSN :: nat where "OFFSET_PREV_LSN = OFFSET_LOG_TID + 4"
definition OFFSET_LOG_DATA :: nat where "OFFSET_LOG_DATA = OFFSET_PREV_LSN + 4"
definition LOG_HEADER_SIZE :: nat where "LOG_HEADER_SIZE = OFFSET_LOG_DATA"

section \<open>Memory\<close>

definition put_mem :: "nat \<Rightarrow> bytes \<Rightarrow> bytes \<Rightarrow> failure + bytes" where
  "put_mem off src dest = (if length dest < off + length src then Inl OutOfBounds else Inr (mem_write dest off src))"

definition get_mem :: "nat \<Rightarrow> nat \<Rightarrow> bytes \<Rightarrow> failure + bytes" where
  "get_mem off n src = (if length src < off + n then Inl OutOfBounds else Inr (mem_read src off n))"

text \<open>
  The two methods of \<open>InsertLogRecord\<close> keep their position in a variable \<open>int offset\<close>, which wraps
  around (\<open>i32\<close>); a negative offset leads out of the memory.
\<close>

definition put_at :: "int \<Rightarrow> bytes \<Rightarrow> bytes \<Rightarrow> failure + bytes" where
  "put_at offset src dest = (if offset < 0 then Inl OutOfBounds else put_mem (nat offset) src dest)"

definition get_at :: "int \<Rightarrow> nat \<Rightarrow> bytes \<Rightarrow> failure + bytes" where
  "get_at offset n src = (if offset < 0 then Inl OutOfBounds else get_mem (nat offset) n src)"

section \<open>LogRecord\<close>

text \<open>\<open>LogType\<close> has the underlying type \<open>int\<close>.\<close>

definition LogType_UPDATE :: int where "LogType_UPDATE = 0"
definition LogType_INSERT :: int where "LogType_INSERT = 1"
definition LogType_DELETE :: int where "LogType_DELETE = 2"
definition LogType_begin :: int where "LogType_begin = 3"
definition LogType_commit :: int where "LogType_commit = 4"
definition LogType_ABORT :: int where "LogType_ABORT = 5"

record LogRecord =
  log_type :: int
  lsn :: int
  log_tot_len :: nat
  log_tid :: int
  prev_lsn :: int

definition log_serialize :: "LogRecord \<Rightarrow> bytes \<Rightarrow> failure + bytes" where
  "log_serialize r dest =
     bindE (put_mem OFFSET_LOG_TYPE (enc32 (log_type r)) dest) (\<lambda>d1.
     bindE (put_mem OFFSET_LSN (enc32 (lsn r)) d1) (\<lambda>d2.
     bindE (put_mem OFFSET_LOG_TOT_LEN (enc_nat 4 (log_tot_len r)) d2) (\<lambda>d3.
     bindE (put_mem OFFSET_LOG_TID (enc32 (log_tid r)) d3) (\<lambda>d4.
     put_mem OFFSET_PREV_LSN (enc32 (prev_lsn r)) d4))))"

definition log_deserialize :: "bytes \<Rightarrow> failure + LogRecord" where
  "log_deserialize src =
     bindE (get_mem OFFSET_LOG_TYPE 4 src) (\<lambda>a.
     bindE (get_mem OFFSET_LSN 4 src) (\<lambda>b.
     bindE (get_mem OFFSET_LOG_TOT_LEN 4 src) (\<lambda>c.
     bindE (get_mem OFFSET_LOG_TID 4 src) (\<lambda>d.
     bindE (get_mem OFFSET_PREV_LSN 4 src) (\<lambda>e.
     Inr \<lparr>log_type = dec32 a, lsn = dec32 b, log_tot_len = le_nat c, log_tid = dec32 d, prev_lsn = dec32 e\<rparr>)))))"

definition BeginLogRecord_new :: "int \<Rightarrow> LogRecord" where
  "BeginLogRecord_new txn_id =
     \<lparr>log_type = LogType_begin, lsn = INVALID_LSN, log_tot_len = LOG_HEADER_SIZE, log_tid = txn_id, prev_lsn = INVALID_LSN\<rparr>"

section \<open>InsertLogRecord\<close>

text \<open>\<open>table_name_\<close> is a pointer to \<open>table_name_size_\<close> bytes.\<close>

record InsertLogRecord = LogRecord +
  insert_value :: RmRecord
  ins_rid :: Rid
  table_name :: bytes
  table_name_size :: nat

text \<open>\<open>log_tot_len_\<close> is a \<open>uint32_t\<close>; its additions wrap around.\<close>

definition InsertLogRecord_new :: "int \<Rightarrow> RmRecord \<Rightarrow> Rid \<Rightarrow> bytes \<Rightarrow> InsertLogRecord" where
  "InsertLogRecord_new txn_id v rid name =
     \<lparr>log_type = LogType_INSERT, lsn = INVALID_LSN,
      log_tot_len = nat ((int LOG_HEADER_SIZE + 4 + rec_size v + 8 + (8 + int (length name))) mod 2 ^ 32),
      log_tid = txn_id, prev_lsn = INVALID_LSN,
      insert_value = RmRecord_copy v, ins_rid = rid, table_name = name, table_name_size = length name\<rparr>"

definition enc_rid :: "Rid \<Rightarrow> bytes" where
  "enc_rid r = enc32 (rid_page r) @ enc32 (rid_slot r)"

definition ins_serialize :: "InsertLogRecord \<Rightarrow> bytes \<Rightarrow> failure + bytes" where
  "ins_serialize r dest =
     bindE (log_serialize (LogRecord.truncate r) dest) (\<lambda>d0.
     let off = int OFFSET_LOG_DATA; size = rec_size (insert_value r) in
     if size < 0 \<or> int (length (rec_data (insert_value r))) < size then Inl OutOfBounds
     else
       let off1 = i32 (off + 4); off2 = i32 (off1 + size); off3 = i32 (off2 + 8); off4 = i32 (off3 + 8) in
       bindE (put_at off (enc32 size) d0) (\<lambda>d1.
       bindE (put_at off1 (take (nat size) (rec_data (insert_value r))) d1) (\<lambda>d2.
       bindE (put_at off2 (enc_rid (ins_rid r)) d2) (\<lambda>d3.
       bindE (put_at off3 (enc64 (table_name_size r)) d3) (\<lambda>d4.
       put_at off4 (take (table_name_size r) (table_name r)) d4)))))"

text \<open>\<open>Deserialize\<close> leaves \<open>allocated_\<close> as it is: the value \<open>alloc\<close> the record had before.\<close>

definition ins_deserialize :: "bool \<Rightarrow> bytes \<Rightarrow> failure + InsertLogRecord" where
  "ins_deserialize alloc src =
     bindE (log_deserialize src) (\<lambda>r.
     bindE (get_mem OFFSET_LOG_DATA 4 src) (\<lambda>sz.
     let size = dec32 sz in
     if size < 0 then Inl OutOfBounds
     else
       let off2 = i32 (int OFFSET_LOG_DATA + size + 4); off3 = i32 (off2 + 8); off4 = i32 (off3 + 8) in
       bindE (get_mem (OFFSET_LOG_DATA + 4) (nat size) src) (\<lambda>v.
       bindE (get_at off2 8 src) (\<lambda>rid.
       bindE (get_at off3 8 src) (\<lambda>n.
       bindE (get_at off4 (dec64 n) src) (\<lambda>name.
       Inr (LogRecord.extend r \<lparr>insert_value = \<lparr>rec_data = v, rec_size = size, allocated = alloc\<rparr>,
              ins_rid = Rid_of (dec32 rid) (dec32 (drop 4 rid)), table_name = name, table_name_size = dec64 n\<rparr>)))))))"

section \<open>LogBuffer, LogManager, RecoveryManager\<close>

record LogBuffer =
  lb_buffer :: bytes
  lb_offset :: int

definition LogBuffer_new :: LogBuffer where
  "LogBuffer_new = \<lparr>lb_buffer = replicate (LOG_BUFFER_SIZE + 1) 0, lb_offset = 0\<rparr>"

definition log_is_full :: "int \<Rightarrow> LogBuffer \<Rightarrow> bool" where
  "log_is_full append_size b \<longleftrightarrow> lb_offset b + append_size > int LOG_BUFFER_SIZE"

record LogManager =
  global_lsn :: int
  log_buffer :: LogBuffer
  persist_lsn :: int

text \<open>\<open>persist_lsn_\<close> is not initialised.\<close>

definition LogManager_new :: "int \<Rightarrow> LogManager" where
  "LogManager_new junk = \<lparr>global_lsn = 0, log_buffer = LogBuffer_new, persist_lsn = junk\<rparr>"

definition get_log_buffer :: "LogManager \<Rightarrow> LogBuffer" where
  "get_log_buffer m = log_buffer m"

definition flush_log_to_disk :: "LogManager \<Rightarrow> LogManager" where
  "flush_log_to_disk m = m"

section \<open>Printing log records\<close>

definition LogTypeStr :: "string list" where
  "LogTypeStr = [''UPDATE'', ''INSERT'', ''DELETE'', ''BEGIN'', ''COMMIT'', ''ABORT'']"

definition log_type_str :: "int \<Rightarrow> failure + string" where
  "log_type_str t = (if 0 \<le> t \<and> t < 6 then Inr (LogTypeStr ! nat t) else Inl OutOfBounds)"

text \<open>\<open>%s\<close> reads up to a NUL; \<open>%d\<close> of a \<open>uint32_t\<close> shows it as a signed number.\<close>

definition percent_s :: "bytes \<Rightarrow> failure + string" where
  "percent_s bs = (if 0 \<in> set bs then Inr (bytes_str (takeWhile (\<lambda>b. b \<noteq> 0) bs)) else Inl OutOfBounds)"

definition percent_d_of_uint :: "nat \<Rightarrow> string" where
  "percent_d_of_uint n = to_string (if n < 2 ^ 31 then int n else int n - 2 ^ 32)"

definition log_format_print :: "LogRecord \<Rightarrow> failure + string" where
  "log_format_print r =
     bindE (log_type_str (log_type r)) (\<lambda>t.
     Inr (''log type in father_function: '' @ t @ nl @ ''Print Log Record:'' @ nl @ ''log_type_: '' @ t @ nl @
          ''lsn: '' @ to_string (lsn r) @ nl @ ''log_tot_len: '' @ percent_d_of_uint (log_tot_len r) @ nl @
          ''log_tid: '' @ to_string (log_tid r) @ nl @ ''prev_lsn: '' @ to_string (prev_lsn r) @ nl))"

definition begin_format_print :: "LogRecord \<Rightarrow> failure + string" where
  "begin_format_print r =
     bindE (log_type_str (log_type r)) (\<lambda>t.
     bindE (log_format_print r) (\<lambda>hd_txt. Inr (''log type in son_function: '' @ t @ nl @ hd_txt)))"

definition ins_format_print :: "InsertLogRecord \<Rightarrow> failure + string" where
  "ins_format_print r =
     bindE (log_format_print (LogRecord.truncate r)) (\<lambda>hd_txt.
     bindE (percent_s (rec_data (insert_value r))) (\<lambda>v.
     bindE (percent_s (table_name r)) (\<lambda>name.
     Inr (''insert record'' @ nl @ hd_txt @ ''insert_value: '' @ v @ nl @
          ''insert rid: '' @ to_string (rid_page (ins_rid r)) @ '', '' @ to_string (rid_slot (ins_rid r)) @ nl @
          ''table name: '' @ name @ nl))))"

end
