(* ===== verification/Log_Properties.thy ===== *)
theory Log_Properties
  imports Log_Records
begin

text \<open>
  The serial form of a log record, and the numbers lock ids are hashed by. A record is written field after field;
  \<open>log_image\<close> and \<open>ins_image\<close> are the bytes.
\<close>

section \<open>Writing and reading field after field\<close>

lemma put_mem_seq:
  assumes "n = length xs" and "length src \<le> length ys"
  shows "put_mem n src (xs @ ys) = Inr ((xs @ src) @ drop (length src) ys)"
  using assms by (simp add: put_mem_def mem_write_def)

lemma get_mem_seq:
  assumes "n = length xs" and "m = length src"
  shows "get_mem n m (xs @ src @ ys) = Inr src"
  using assms by (simp add: get_mem_def mem_read_def)

definition log_image :: "LogRecord \<Rightarrow> bytes" where
  "log_image r = enc32 (log_type r) @ enc32 (lsn r) @ enc_nat 4 (log_tot_len r) @ enc32 (log_tid r) @ enc32 (prev_lsn r)"

definition ins_data :: "InsertLogRecord \<Rightarrow> bytes" where
  "ins_data r = enc32 (rec_size (insert_value r)) @ rec_data (insert_value r) @ enc_rid (ins_rid r) @
     enc64 (table_name_size r) @ table_name r"

definition ins_image :: "InsertLogRecord \<Rightarrow> bytes" where
  "ins_image r = log_image (LogRecord.truncate r) @ ins_data r"

lemmas log_offsets = OFFSET_LOG_TYPE_def OFFSET_LSN_def OFFSET_LOG_TOT_LEN_def OFFSET_LOG_TID_def OFFSET_PREV_LSN_def
  OFFSET_LOG_DATA_def LOG_HEADER_SIZE_def

lemma length_enc_rid [simp]: "length (enc_rid r) = 8"
  by (simp add: enc_rid_def)

lemma length_log_image [simp]: "length (log_image r) = 20"
  by (simp add: log_image_def)

definition log_ok :: "LogRecord \<Rightarrow> bool" where
  "log_ok r \<longleftrightarrow> in_i32 (log_type r) \<and> in_i32 (lsn r) \<and> log_tot_len r < 2 ^ 32 \<and> in_i32 (log_tid r) \<and> in_i32 (prev_lsn r)"

definition ins_ok :: "InsertLogRecord \<Rightarrow> bool" where
  "ins_ok r \<longleftrightarrow> log_ok (LogRecord.truncate r) \<and> rec_size (insert_value r) = int (length (rec_data (insert_value r))) \<and>
     length (rec_data (insert_value r)) < 2 ^ 31 \<and> in_i32 (rid_page (ins_rid r)) \<and> in_i32 (rid_slot (ins_rid r)) \<and>
     table_name_size r = length (table_name r) \<and> length (table_name r) < 2 ^ 64"

lemma log_serialize_image:
  assumes "20 \<le> length dest"
  shows "log_serialize r dest = Inr (log_image r @ drop 20 dest)"
proof -
  have s: "put_mem 0 a dest = Inr (a @ drop (length a) dest)" if "length a \<le> length dest" for a
    using put_mem_seq [of 0 "[]" a dest] that by simp
  show ?thesis
    unfolding log_serialize_def log_offsets log_image_def using assms
    by (simp add: s put_mem_def mem_write_def)
qed

lemma log_deserialize_image:
  assumes "log_ok r"
  shows "log_deserialize (log_image r @ rest) = Inr r"
proof -
  let ?a = "enc32 (log_type r)" and ?b = "enc32 (lsn r)" and ?c = "enc_nat 4 (log_tot_len r)" and ?d = "enc32 (log_tid r)"
    and ?e = "enc32 (prev_lsn r)"
  have g: "get_mem 0 4 (log_image r @ rest) = Inr ?a" "get_mem 4 4 (log_image r @ rest) = Inr ?b"
    "get_mem 8 4 (log_image r @ rest) = Inr ?c" "get_mem 12 4 (log_image r @ rest) = Inr ?d"
    "get_mem 16 4 (log_image r @ rest) = Inr ?e"
    by (simp_all add: log_image_def get_mem_def mem_read_def)
  have "le_nat ?c = log_tot_len r" using assms by (simp add: le_nat_enc_nat log_ok_def)
  then show ?thesis using assms unfolding log_deserialize_def log_offsets by (simp add: g log_ok_def)
qed

section \<open>Insert records\<close>

lemma put_at_nonneg: "0 \<le> offset \<Longrightarrow> put_at offset src = put_mem (nat offset) src"
  by (simp add: fun_eq_iff put_at_def)

text \<open>
  C31. A log record for an insertion is read back from its bytes. The record the constructor builds for a record of
  fewer than \<open>2 ^ 31 - 40\<close> bytes, so that the variable \<open>offset\<close> does not overflow, and a table name of fewer than
  \<open>2 ^ 30\<close> serialises into any memory of at least \<open>log_tot_len_\<close> bytes, changes exactly its first
  \<open>log_tot_len_\<close> bytes, and \<open>deserialize\<close> returns all fields, whatever follows in memory. The flag \<open>allocated_\<close> is the
  exception: it stays unset, so the buffer that \<open>Deserialize\<close> allocates is never freed.
\<close>

theorem insert_log_round_trip:
  assumes v: "rec_size v = int (length (rec_data v))" "length (rec_data v) < 2 ^ 31 - 40"
    and n: "length name < 2 ^ 30" and t: "in_i32 tid" and rid: "in_i32 (rid_page rid)" "in_i32 (rid_slot rid)"
    and dest: "log_tot_len (InsertLogRecord_new tid v rid name) \<le> length dest"
  defines "r \<equiv> InsertLogRecord_new tid v rid name"
  shows "log_tot_len r = 40 + length (rec_data v) + length name \<and>
    (\<exists>d. ins_serialize r dest = Inr d \<and> length d = length dest \<and> drop (log_tot_len r) d = drop (log_tot_len r) dest \<and>
      ins_deserialize False d = Inr (r\<lparr>insert_value := (insert_value r)\<lparr>allocated := False\<rparr>\<rparr>))"
proof -
  have len: "log_tot_len r = 40 + length (rec_data v) + length name"
  proof -
    have "(40 + int (length (rec_data v)) + int (length name)) mod 2 ^ 32 = 40 + int (length (rec_data v)) + int (length name)"
      using v(2) n by (intro mod_pos_pos_trivial) simp_all
    then show ?thesis using v(1) by (simp add: r_def InsertLogRecord_new_def log_offsets algebra_simps)
  qed
  let ?h = "LogRecord.truncate r" and ?x = "rec_data v" and ?q = "enc_rid rid"
  have iv: "insert_value r = \<lparr>rec_data = ?x, rec_size = rec_size v, allocated = True\<rparr>" "ins_rid r = rid"
    "table_name r = name" "table_name_size r = length name"
    using v by (simp_all add: r_def InsertLogRecord_new_def RmRecord_copy_def)
  have h: "log_ok ?h" using len v n t
    by (simp add: log_ok_def r_def InsertLogRecord_new_def LogRecord.truncate_def LogType_INSERT_def INVALID_LSN_def)
  let ?t = "enc32 (rec_size v) @ ?x @ ?q @ enc64 (length name) @ name"
  let ?d = "log_image ?h @ ?t @ drop (log_tot_len r) dest"
  have d20: "20 \<le> length dest" using dest len by (simp add: r_def)
  have room: "40 + length ?x + length name \<le> length dest" using dest len by (simp add: r_def)
  let ?n = "int (length ?x)"
  have off: "i32 24 = 24" "i32 (24 + ?n) = 24 + ?n" "i32 (32 + ?n) = 32 + ?n" "i32 (40 + ?n) = 40 + ?n"
    using v(2) i32_id [of 24] i32_id [of "24 + ?n"] i32_id [of "32 + ?n"] i32_id [of "40 + ?n"] by simp_all
  have noff: "nat (24 + ?n) = 24 + length ?x" "nat (32 + ?n) = 32 + length ?x" "nat (40 + ?n) = 40 + length ?x" by auto
  have "ins_serialize r dest =
      bindE (put_mem 20 (enc32 (rec_size v)) (log_image ?h @ drop 20 dest)) (\<lambda>d1.
      bindE (put_mem 24 ?x d1) (\<lambda>d2.
      bindE (put_mem (24 + length ?x) ?q d2) (\<lambda>d3.
      bindE (put_mem (32 + length ?x) (enc64 (length name)) d3) (\<lambda>d4.
      put_mem (40 + length ?x) name d4))))"
    unfolding ins_serialize_def log_serialize_image [OF d20] log_offsets
    by (simp add: put_at_nonneg off noff Let_def iv v(1))
  also have "\<dots> = Inr ?d"
    using room len v(1) by (simp add: put_mem_def mem_write_def Let_def add.commute add.left_commute)
  finally have "ins_serialize r dest = Inr ?d" .
  moreover have "length ?d = length dest" "drop (log_tot_len r) ?d = drop (log_tot_len r) dest" using room len by simp_all
  moreover have "ins_deserialize False ?d = Inr (r\<lparr>insert_value := (insert_value r)\<lparr>allocated := False\<rparr>\<rparr>)"
  proof -
    obtain D where D: "D = ?d" by simp
    have hd: "log_deserialize D = Inr ?h" unfolding D by (rule log_deserialize_image [OF h])
    have g: "get_mem 20 4 D = Inr (enc32 (rec_size v))" "get_mem 24 (length ?x) D = Inr ?x"
      "get_mem (24 + length ?x) 8 D = Inr ?q" "get_mem (32 + length ?x) 8 D = Inr (enc64 (length name))"
      "get_mem (40 + length ?x) (length name) D = Inr name"
      by (simp_all add: D get_mem_def mem_read_def add.commute)
    have sz: "dec32 (enc32 (int (length ?x))) = int (length ?x)" using v by simp
    have nm: "dec64 (enc64 (length name)) = length name" using dec64_enc64 [of "length name" "[]"] n by simp
    have rd: "dec32 ?q = rid_page rid" "dec32 (drop 4 ?q) = rid_slot rid" using rid by (simp_all add: enc_rid_def)
    have "LogRecord.extend ?h \<lparr>insert_value = \<lparr>rec_data = ?x, rec_size = int (length ?x), allocated = False\<rparr>,
        ins_rid = Rid_of (rid_page rid) (rid_slot rid), table_name = name, table_name_size = length name\<rparr> =
        r\<lparr>insert_value := (insert_value r)\<lparr>allocated := False\<rparr>\<rparr>"
      using iv v by (simp add: LogRecord.defs r_def InsertLogRecord_new_def)
    then show ?thesis unfolding D [symmetric] ins_deserialize_def hd log_offsets
      by (simp add: get_at_def off noff g sz nm rd v(1) Let_def)
  qed
  ultimately show ?thesis using len by blast
qed

definition ex_value :: RmRecord where
  "ex_value = \<lparr>rec_data = [1, 2, 3], rec_size = 3, allocated = True\<rparr>"

theorem insert_log_round_trip_witness:
  "log_tot_len (InsertLogRecord_new 7 ex_value (Rid_of 1 2) [116]) = 44 \<and>
   (\<exists>d. ins_serialize (InsertLogRecord_new 7 ex_value (Rid_of 1 2) [116]) (replicate 50 0) = Inr d)"
  using insert_log_round_trip [of ex_value "[116]" 7 "Rid_of 1 2" "replicate 50 0"]
  by (auto simp: ex_value_def InsertLogRecord_new_def log_offsets)

section \<open>Lock ids\<close>

lemma bit_below:
  assumes "0 \<le> i" and "i < 2 ^ n" and "bit (i::int) m"
  shows "m < n"
proof -
  have "take_bit n i = i" using assms(1,2) by (simp add: take_bit_int_eq_self)
  then show ?thesis using assms(3) by (metis bit_take_bit_iff)
qed

lemma record_bits:
  assumes "ld_type x = LOCK_RECORD"
  shows "bit (LockDataId_Get x) n \<longleftrightarrow> n < 64 \<and> (n = 63 \<or> 31 \<le> n \<and> bit (ld_fd x) (n - 31) \<or>
    16 \<le> n \<and> bit (rid_page (ld_rid x)) (n - 16) \<or> bit (rid_slot (ld_rid x)) n)"
proof -
  have top: "bit (push_bit 63 1 :: 64 word) n \<longleftrightarrow> n = 63" unfolding bit_push_bit_iff bit_1_iff by auto
  show ?thesis unfolding LockDataId_Get_def assms LockDataType.case bit_or_iff top by (auto simp: bit_simps)
qed

definition small_id :: "LockDataId \<Rightarrow> bool" where
  "small_id x \<longleftrightarrow> 0 \<le> ld_fd x \<and> ld_fd x < 2 ^ 31 \<and> 0 \<le> rid_page (ld_rid x) \<and> rid_page (ld_rid x) < 2 ^ 15 \<and>
     0 \<le> rid_slot (ld_rid x) \<and> rid_slot (ld_rid x) < 2 ^ 16"

text \<open>The three fields are read back from the number.\<close>

lemma record_fields:
  assumes "ld_type x = LOCK_RECORD" and "small_id x"
  shows "bit (rid_slot (ld_rid x)) n \<longleftrightarrow> n < 16 \<and> bit (LockDataId_Get x) n"
    and "bit (rid_page (ld_rid x)) n \<longleftrightarrow> n < 15 \<and> bit (LockDataId_Get x) (n + 16)"
    and "bit (ld_fd x) n \<longleftrightarrow> n < 31 \<and> bit (LockDataId_Get x) (n + 31)"
proof -
  have f: "bit (ld_fd x) m \<Longrightarrow> m < 31" "bit (rid_page (ld_rid x)) m \<Longrightarrow> m < 15" "bit (rid_slot (ld_rid x)) m \<Longrightarrow> m < 16" for m
    using assms(2) bit_below unfolding small_id_def by blast+
  show "bit (rid_slot (ld_rid x)) n \<longleftrightarrow> n < 16 \<and> bit (LockDataId_Get x) n"
    using f(3) [of n] by (auto simp: record_bits [OF assms(1)])
  show "bit (rid_page (ld_rid x)) n \<longleftrightarrow> n < 15 \<and> bit (LockDataId_Get x) (n + 16)"
    using f(2) [of n] f(3) [of "n + 16"] by (auto simp: record_bits [OF assms(1)])
  show "bit (ld_fd x) n \<longleftrightarrow> n < 31 \<and> bit (LockDataId_Get x) (n + 31)"
    using f(1) [of n] f(2) [of "15 + n"] f(3) [of "n + 31"] by (auto simp: record_bits [OF assms(1)])
qed

text \<open>
  The number a lock id is hashed by distinguishes the records of small tables: for file descriptors below
  \<open>2 ^ 31\<close>, page numbers below \<open>2 ^ 15\<close> and slots below \<open>2 ^ 16\<close> two record ids have the same number only if they are equal
  for the code's \<open>operator==\<close>, and no record id has the number of a table.
\<close>

theorem lock_id_injective:
  assumes "LockDataId_record fd rid LOCK_RECORD = Inr x" and "LockDataId_record fd' rid' LOCK_RECORD = Inr y"
    and "LockDataId_table tab_fd LOCK_TABLE = Inr z" and "0 \<le> tab_fd" "tab_fd < 2 ^ 31"
    and "small_id x" and "small_id y"
  shows "(LockDataId_Get x = LockDataId_Get y \<longleftrightarrow> LockDataId_eq x y) \<and> LockDataId_Get x \<noteq> LockDataId_Get z"
proof -
  have t: "ld_type x = LOCK_RECORD" "ld_type y = LOCK_RECORD" "LockDataId_Get z = word_of_int tab_fd"
    using assms(1-3) by (auto simp: LockDataId_record_def LockDataId_table_def LockDataId_Get_def)
  have "LockDataId_eq x y" if g: "LockDataId_Get x = LockDataId_Get y"
  proof -
    have "ld_fd x = ld_fd y" "rid_page (ld_rid x) = rid_page (ld_rid y)" "rid_slot (ld_rid x) = rid_slot (ld_rid y)"
      by (rule bit_eqI; simp add: record_fields [OF t(1) assms(6)] record_fields [OF t(2) assms(7)] g)+
    then show ?thesis using t by (simp add: LockDataId_eq_def)
  qed
  moreover have "LockDataId_Get x = LockDataId_Get y" if "LockDataId_eq x y"
  proof -
    have "x = y" using that by (auto simp: LockDataId_eq_def intro: LockDataId.equality split: if_splits)
    then show ?thesis by simp
  qed
  moreover have "LockDataId_Get x \<noteq> LockDataId_Get z"
  proof
    assume "LockDataId_Get x = LockDataId_Get z"
    then have "bit (word_of_int tab_fd :: 64 word) 63" using record_bits [OF t(1), of 63] t(3) by simp
    then have "bit tab_fd 63" by (simp add: bit_simps)
    then show False using bit_below [OF assms(4,5)] by fastforce
  qed
  ultimately show ?thesis by blast
qed

theorem lock_id_injective_witness:
  "LockDataId_Get \<lparr>ld_fd = 3, ld_rid = Rid_of 1 2, ld_type = LOCK_RECORD\<rparr> \<noteq>
   LockDataId_Get \<lparr>ld_fd = 3, ld_rid = Rid_of 2 1, ld_type = LOCK_RECORD\<rparr>"
  using lock_id_injective [of 3 "Rid_of 1 2" "\<lparr>ld_fd = 3, ld_rid = Rid_of 1 2, ld_type = LOCK_RECORD\<rparr>" 3 "Rid_of 2 1"
      "\<lparr>ld_fd = 3, ld_rid = Rid_of 2 1, ld_type = LOCK_RECORD\<rparr>" 3 "\<lparr>ld_fd = 3, ld_rid = Rid_of (- 1) (- 1), ld_type = LOCK_TABLE\<rparr>"]
  by (simp add: LockDataId_record_def LockDataId_table_def small_id_def LockDataId_eq_def)

section \<open>Printing\<close>

text \<open>
  A record of an insertion can not be printed: its copy of the table name is not terminated, so \<open>%s\<close> reads behind it.
\<close>

lemma insert_log_print_overruns:
  assumes "0 \<notin> set name"
  shows "ins_format_print (InsertLogRecord_new txn_id v rid name) = Inl OutOfBounds"
proof -
  have p: "percent_s (table_name (InsertLogRecord_new txn_id v rid name)) = Inl OutOfBounds"
    using assms by (simp add: percent_s_def InsertLogRecord_new_def)
  have "\<exists>h. log_format_print (LogRecord.truncate (InsertLogRecord_new txn_id v rid name)) = Inr h"
    by (simp add: log_format_print_def log_type_str_def InsertLogRecord_new_def LogRecord.truncate_def LogType_INSERT_def)
  then show ?thesis using p by (auto simp: ins_format_print_def percent_s_def)
qed

lemma begin_log_print:
  "begin_format_print (BeginLogRecord_new tid) = Inr (''log type in son_function: BEGIN'' @ nl @ ''log type in father_function: BEGIN'' @ nl @
     ''Print Log Record:'' @ nl @ ''log_type_: BEGIN'' @ nl @ ''lsn: -1'' @ nl @ ''log_tot_len: 20'' @ nl @ ''log_tid: '' @ to_string tid @ nl @ ''prev_lsn: -1'' @ nl)"
  by (simp add: begin_format_print_def log_format_print_def log_type_str_def BeginLogRecord_new_def LogType_begin_def LogTypeStr_def
      percent_d_of_uint_def to_string_def nat_to_string.simps digit_char_def INVALID_LSN_def LOG_HEADER_SIZE_def OFFSET_LOG_DATA_def
      OFFSET_PREV_LSN_def OFFSET_LOG_TID_def OFFSET_LOG_TOT_LEN_def OFFSET_LSN_def) code_simp

end
