(* ===== verification/Table_Reads.thy ===== *)
theory Table_Reads
  imports Record_Scan
begin

text \<open>
  Steps that only read. \<open>room P b\<close>: the pool works on the set of pages \<open>P\<close>, which is smaller than the pool, so a frame is
  always free even though \<open>get_record\<close> never unpins. \<open>reads P F b b'\<close>: the pool moved from \<open>b\<close> to \<open>b'\<close> by reading pages of
  \<open>F\<close>; the contents of all pages are kept, and with them every open table.
\<close>

section \<open>Room in the pool\<close>

definition room :: "PageId set \<Rightarrow> bpm \<Rightarrow> bool" where
  "room P b \<longleftrightarrow> bpm_inv {} b \<and> synced_but {} b \<and> finite P \<and> card P < pool_size b \<and> dom (page_table b) \<subseteq> P"

lemma roomD:
  assumes "room P b"
  shows "bpm_inv {} b" and "synced_but {} b" and "finite P" and "card P < pool_size b" and "dom (page_table b) \<subseteq> P"
  using assms by (auto simp: room_def)

lemma room_frame_free:
  assumes "room P b"
  shows "frame_free b"
proof -
  note r = roomD [OF assms]
  let ?M = "{f. f < pool_size b \<and> mapped b f}"
  have "card ?M \<le> card (dom (page_table b))"
  proof (rule card_inj_on_le [of "\<lambda>f. pg_id (pg b f)"])
    show "inj_on (\<lambda>f. pg_id (pg b f)) ?M"
    proof (rule inj_onI)
      fix f g assume "f \<in> ?M" "g \<in> ?M" "pg_id (pg b f) = pg_id (pg b g)"
      then have "Some f = Some g" unfolding mapped_def by (metis (mono_tags, lifting) mem_Collect_eq)
      then show "f = g" by simp
    qed
    show "(\<lambda>f. pg_id (pg b f)) ` ?M \<subseteq> dom (page_table b)" by (auto simp: mapped_def)
    show "finite (dom (page_table b))" using finite_subset [OF r(5,3)] .
  qed
  also have "\<dots> \<le> card P" by (rule card_mono [OF r(3,5)])
  finally have "card ?M < card {..<pool_size b}" using r(4) by simp
  moreover have "finite ?M" by simp
  ultimately have "\<not> {..<pool_size b} \<subseteq> ?M" using card_mono [of ?M "{..<pool_size b}"] by linarith
  then obtain f where f: "f < pool_size b" "\<not> mapped b f" by auto
  then have "f \<in> set (free_list b)" using bpm_inv_parts(3) [OF r(1)] by (auto simp: free_ok_def)
  then show ?thesis using frame_free_iff [OF r(1)] by auto
qed

section \<open>Reading steps\<close>

definition reads :: "PageId set \<Rightarrow> PageId set \<Rightarrow> bpm \<Rightarrow> bpm \<Rightarrow> bool" where
  "reads P F b b' \<longleftrightarrow> room P b' \<and> view_kept b b' \<and> disk_frame (dm b) (dm b') \<and>
     (\<forall>q. q \<notin> F \<longrightarrow> page_table b q = None \<longrightarrow> page_table b' q = None)"

lemma reads_refl: "room P b \<Longrightarrow> reads P F b b"
  by (simp add: reads_def)

lemma reads_trans [trans]:
  assumes "reads P F b b1" and "reads P F b1 b2"
  shows "reads P F b b2"
proof -
  have "fd_open (dm b1) k = fd_open (dm b) k" for k using assms(1) disk_frame_open by (simp add: reads_def)
  then have "view_kept b b2" using assms by (auto simp: reads_def view_kept_def)
  then show ?thesis using assms disk_frame_trans unfolding reads_def by blast
qed

lemma reads_mono: "reads P F b b' \<Longrightarrow> F \<subseteq> G \<Longrightarrow> reads P G b b'"
  by (auto simp: reads_def)

lemma fetch_pool_size: "fetch_page pid b = Ok fo b' \<Longrightarrow> pool_size b' = pool_size b"
  by (auto simp: fetch_page_def find_victim_page_def write_back_def drop_entry_def upd_page_def Let_def
      split: option.splits prod.splits list.splits outcome.splits if_splits)

lemma fetch_reads:
  assumes r: "room P b" and pid: "pid \<in> P" and v: "bpm_view b pid = Some data"
  obtains f b1 where "fetch_page pid b = Ok (Some f) b1" and "reads P {pid} b b1" and "page_table b1 pid = Some f"
    and "pg_data (pg b1 f) = data" and "0 < pin_count (pg b1 f)"
  using roomD(1) [OF r]
proof (cases rule: fetch_page_cases [where pid = pid])
  case full
  then show ?thesis using room_frame_free [OF r] by (simp add: frame_free_def)
next
  case (lost f b' e)
  then show ?thesis using v by simp
next
  case (got f b1 L)
  note rd = roomD [OF r]
  have "L = {}" using got(3) by simp
  moreover have "dom (page_table b1) \<subseteq> P" 
  proof
    fix q assume "q \<in> dom (page_table b1)"
    then have "q = pid \<or> q \<in> dom (page_table b)" using got(11) [of q] by (cases "page_table b q"; cases "q = pid") auto
    then show "q \<in> P" using rd(5) pid by blast
  qed
  ultimately have room1: "room P b1" using got(2,10) rd fetch_pool_size [OF got(1)] by (simp add: room_def)
  have "0 < pin_count (pg b1 f)"
  proof (cases "page_table b pid")
    case (Some g)
    then have "g = f" using fetch_page_hit [OF Some] got(1) by simp
    then show ?thesis using got(6) Some frames_okD(3) [OF rd(1) table_okD(1) [OF rd(1) Some]] by simp
  qed (use got(6) in simp)
  moreover have "reads P {pid} b b1" using room1 got(7,9,11) by (simp add: reads_def)
  ultimately show ?thesis using that got(1,4,5) v by auto
qed

lemma unpin_reads:
  assumes r: "room P b" and pt: "page_table b pid = Some f" and pin: "0 < pin_count (pg b f)" and op: "fd_open (dm b) (pid_fd pid)"
  shows "reads P {} b (snd (unpin_page pid False b))"
proof -
  note rd = roomD [OF r]
  let ?b2 = "snd (unpin_page pid False b)"
  have sy: "is_dirty (pg b f) \<or> disk_page (dm b) pid = Some (pg_data (pg b f))"
    using rd(2) pt op unfolding synced_but_def by blast
  then have "unpin_ok pid False b" using pt op by (simp add: unpin_ok_def)
  then have inv2: "bpm_inv {} ?b2" by (rule unpin_page_inv [OF rd(1)])
  have b2: "?b2 = put_page f ((pg b f)\<lparr>pin_count := pin_count (pg b f) - 1\<rparr>)
      (if pin_count (pg b f) = 1 then lru_unpin f (repl b) else repl b) (dm b) b"
    using unpin_page_eq [OF rd(1) pt pin, of False] by simp
  have sy2: "synced_but {} ?b2" unfolding b2 by (rule put_page_synced [OF rd(1) pt _ _ rd(2)]) (use sy in auto)
  have "view_kept b ?b2" using unpin_page_view [OF rd(1)] by (simp add: view_kept_def)
  moreover have "dm ?b2 = dm b" "page_table ?b2 = page_table b" "pool_size ?b2 = pool_size b" by (simp_all add: b2)
  ultimately show ?thesis using inv2 sy2 rd(3-5) by (simp add: reads_def room_def)
qed

text \<open>Reading keeps every open table whose future pages are not read.\<close>

lemma reads_table:
  assumes inv: "rm_inv fh b" and rd: "reads P F b b'" and new: "\<And>p. num_pages (file_hdr fh) \<le> p \<Longrightarrow> PageId_of (fh_fd fh) p \<notin> F"
  shows "rm_inv fh b'" and "rm_abs fh b' = rm_abs fh b"
proof -
  have k: "room P b'" "view_kept b b'" "disk_frame (dm b) (dm b')" "\<And>q. q \<notin> F \<Longrightarrow> page_table b q = None \<Longrightarrow> page_table b' q = None"
    using rd by (auto simp: reads_def)
  have pages: "file_page fh b q = file_page fh b' q" if "data_page (file_hdr fh) q" for q
    using pages_kept [OF inv k(2) that] by simp
  have "file_inv (file_hdr fh) (file_page fh b')" using file_inv_cong [OF pages rm_invD(8) [OF inv]] .
  then show "rm_inv fh b'" unfolding rm_inv_def
    using roomD(1,2) [OF k(1)] rm_invD(3-6) [OF inv] rm_invD(7) [OF inv] new k(4) disk_frame_open [OF k(3)] disk_frame_pageno [OF k(3)] by auto
  show "rm_abs fh b' = rm_abs fh b" unfolding rm_abs_def by (rule file_abs_cong) (erule pages [symmetric])
qed

section \<open>get_record and the scan\<close>

definition file_pids :: "rmfh \<Rightarrow> PageId set" where
  "file_pids fh = {PageId_of (fh_fd fh) p | p. data_page (file_hdr fh) p}"

lemma file_pids_new: "num_pages (file_hdr fh) \<le> p \<Longrightarrow> PageId_of (fh_fd fh) p \<notin> file_pids fh"
  by (auto simp: file_pids_def data_page_def)

lemma file_pids_other: "fh_fd fh' \<noteq> fh_fd fh \<Longrightarrow> PageId_of (fh_fd fh') p \<notin> file_pids fh"
  by (auto simp: file_pids_def)

lemma handle_reads:
  assumes inv: "rm_inv fh b" and r: "room P b" and sub: "file_pids fh \<subseteq> P" and p: "data_page (file_hdr fh) p"
  obtains f b1 where "fetch_page_handle p fh b = Ok f (fh, b1)" and "reads P (file_pids fh) b b1"
    and "page_table b1 (PageId_of (fh_fd fh) p) = Some f" and "0 < pin_count (pg b1 f)"
proof -
  obtain data where "bpm_view b (PageId_of (fh_fd fh) p) = Some data"
    using file_invD(4) [OF rm_invD(8) [OF inv] p] by (auto simp: file_page_def)
  moreover have mem: "PageId_of (fh_fd fh) p \<in> file_pids fh" using p by (auto simp: file_pids_def)
  ultimately obtain f b1 where g: "fetch_page (PageId_of (fh_fd fh) p) b = Ok (Some f) b1" "reads P {PageId_of (fh_fd fh) p} b b1"
    "page_table b1 (PageId_of (fh_fd fh) p) = Some f" "0 < pin_count (pg b1 f)"
    using fetch_reads [OF r] sub by blast
  have "fetch_page_handle p fh b = Ok f (fh, b1)"
    using g(1) p by (simp add: fetch_page_handle_def RmPageHandle_new_def data_page_def)
  moreover have "reads P (file_pids fh) b b1" using reads_mono [OF g(2)] mem by blast
  ultimately show ?thesis using that g(3,4) by blast
qed

lemma get_record_reads:
  assumes inv: "rm_inv fh b" and r: "room P b" and sub: "file_pids fh \<subseteq> P" and x: "rm_abs fh b rid = Some x"
  shows "\<exists>b'. get_record rid fh b = Ok (Some \<lparr>rec_data = x, rec_size = record_size (file_hdr fh), allocated = True\<rparr>) (fh, b') \<and>
    reads P (file_pids fh) b b'"
proof -
  have rng: "data_page (file_hdr fh) (rid_page rid)" "0 \<le> rid_slot rid" "rid_slot rid < num_records_per_page (file_hdr fh)"
    using rm_abs_range [of fh b rid] x by auto
  obtain f b1 where g: "get_record rid fh b = Ok (Some \<lparr>rec_data = x, rec_size = record_size (file_hdr fh), allocated = True\<rparr>) (fh, b1)"
    using get_record_ok [OF inv rng(1) room_frame_free [OF r] rng(2,3)] x by (metis option.simps(9))
  obtain f' b1' where h: "fetch_page_handle (rid_page rid) fh b = Ok f' (fh, b1')" "reads P (file_pids fh) b b1'"
    using handle_reads [OF inv r sub rng(1)] by blast
  have "b1' = b1" using g h(1) by (auto simp: get_record_def split: if_splits)
  then show ?thesis using g h(2) by blast
qed

lemma scan_from_reads:
  assumes "rm_inv fh b" and "room P b" and "file_pids fh \<subseteq> P" and "1 \<le> p" and "scan_from p s fh b = Ok r (fh', b')"
  shows "reads P (file_pids fh) b b'"
  using assms
proof (induction p s fh b rule: scan_from.induct)
  case (1 p s fh b)
  show ?case
  proof (cases "p < num_pages (file_hdr fh)")
    case False
    then have "b' = b" using "1.prems"(5) by (subst (asm) scan_from.simps) simp
    then show ?thesis using reads_refl [OF "1.prems"(2)] by simp
  next
    case True
    have dp: "data_page (file_hdr fh) p" using True "1.prems"(4) by (simp add: data_page_def)
    obtain f b1 where f: "fetch_page_handle p fh b = Ok f (fh, b1)" "reads P (file_pids fh) b b1"
      "page_table b1 (PageId_of (fh_fd fh) p) = Some f" "0 < pin_count (pg b1 f)"
      using handle_reads [OF "1.prems"(1-3) dp] by blast
    have room1: "room P b1" using f(2) by (simp add: reads_def)
    have id: "pg_id (pg b1 f) = PageId_of (fh_fd fh) p" using table_okD(2) [OF roomD(1) [OF room1] f(3)] .
    let ?b2 = "snd (unpin_page (pg_id (pg b1 f)) False b1)"
    have op: "fd_open (dm b1) (pid_fd (PageId_of (fh_fd fh) p))"
      using rm_invD(5) [OF "1.prems"(1)] f(2) disk_frame_open by (auto simp: reads_def)
    have "reads P {} b1 ?b2" unfolding id by (rule unpin_reads [OF room1 f(3,4) op])
    then have b2: "reads P (file_pids fh) b ?b2" using f(2) reads_mono reads_trans by blast
    have inv2: "rm_inv fh ?b2" using reads_table(1) [OF "1.prems"(1) b2] file_pids_new by blast
    have room2: "room P ?b2" using b2 by (simp add: reads_def)
    let ?n = "num_records_per_page (file_hdr fh)" and ?s = "next_bit True (page_bitmap (pg_data (pg b1 f))) (num_records_per_page (file_hdr fh)) s"
    have eq: "scan_from p s fh b = (if ?s < ?n then Ok (Rid_of p ?s) (fh, ?b2) else scan_from (p + 1) (- 1) fh ?b2)"
      using True f(1) by (subst scan_from.simps) (simp add: Let_def)
    show ?thesis
    proof (cases "?s < ?n")
      case True
      then show ?thesis using eq "1.prems"(5) b2 by simp
    next
      case False
      have "reads P (file_pids fh) ?b2 b'"
        by (rule "1.IH" [OF True f(1) refl refl]) (use False inv2 room2 "1.prems" eq in simp_all)
      then show ?thesis using b2 reads_trans by blast
    qed
  qed
qed

end
