(* ===== verification/Ast.thy ===== *)
theory Ast
  imports Meta
begin

text \<open>
  \<open>src/src/parser/ast.h\<close>: the syntax tree the parser delivers, and \<open>src/src/parser/ast_printer.h\<close>, the
  printer of trees. A class derived from \<open>TreeNode\<close> is a constructor; a shared pointer that the
  grammar always sets is the tree it points to. \<open>Parser\<close> builds these trees.
\<close>

datatype JoinType = INNER_JOIN | LEFT_JOIN | RIGHT_JOIN | FULL_JOIN
datatype SvType = SV_TYPE_INT | SV_TYPE_FLOAT | SV_TYPE_STRING
datatype SvCompOp = SV_OP_EQ | SV_OP_NE | SV_OP_LT | SV_OP_GT | SV_OP_LE | SV_OP_GE
datatype OrderByDir = OrderBy_DEFAULT | OrderBy_ASC | OrderBy_DESC

record TypeLen =
  tl_type :: SvType
  tl_len :: int

text \<open>\<open>Field\<close> has one subclass.\<close>

datatype Field = AstColDef string TypeLen

datatype AstValue = IntLit int | FloatLit "32 word" | StringLit string

record Col =
  col_tab :: string
  col_nm :: string

datatype Expr = ValueExpr AstValue | ColExpr Col

record AstSetClause =
  as_col :: string
  as_val :: AstValue

record BinaryExpr =
  be_lhs :: Col
  be_op :: SvCompOp
  be_rhs :: Expr

record OrderBy =
  ob_col :: Col
  ob_dir :: OrderByDir

record SelectStmt =
  sel_cols :: "Col list"
  sel_tabs :: "string list"
  sel_conds :: "BinaryExpr list"
  sel_order :: "OrderBy option"

definition has_sort :: "SelectStmt \<Rightarrow> bool" where
  "has_sort x \<longleftrightarrow> sel_order x \<noteq> None"

datatype stmt_tree =
    Help
  | ShowTables
  | TxnBegin
  | TxnCommit
  | TxnAbort
  | TxnRollback
  | CreateTable string "Field list"
  | DropTable string
  | DescTable string
  | CreateIndex string "string list"
  | DropIndex string "string list"
  | InsertStmt string "AstValue list"
  | DeleteStmt string "BinaryExpr list"
  | UpdateStmt string "AstSetClause list" "BinaryExpr list"
  | Select SelectStmt

section \<open>The tree printer\<close>

text \<open>
  \<open>TreePrinter\<close> writes one line per node, indented by two characters per level. Printing a \<open>float\<close> to a stream
  is the argument \<open>fshow\<close>.
\<close>

definition offset2string :: "nat \<Rightarrow> string" where
  "offset2string n = replicate n CHR '' ''"

definition print_val :: "string \<Rightarrow> nat \<Rightarrow> string" where
  "print_val v off = offset2string off @ v @ nl"

definition print_val_list :: "string list \<Rightarrow> nat \<Rightarrow> string" where
  "print_val_list vs off = offset2string off @ ''LIST'' @ nl @ concat (map (\<lambda>v. print_val v (off + 2)) vs)"

fun type2str :: "SvType \<Rightarrow> string" where
  "type2str SV_TYPE_INT = ''INT''" | "type2str SV_TYPE_FLOAT = ''FLOAT''" | "type2str SV_TYPE_STRING = ''STRING''"

fun op2str :: "SvCompOp \<Rightarrow> string" where
  "op2str SV_OP_EQ = ''==''" | "op2str SV_OP_NE = ''!=''" | "op2str SV_OP_LT = ''<''"
| "op2str SV_OP_GT = ''>''" | "op2str SV_OP_LE = ''<=''" | "op2str SV_OP_GE = ''>=''"

definition print_node_list :: "('n \<Rightarrow> nat \<Rightarrow> string) \<Rightarrow> 'n list \<Rightarrow> nat \<Rightarrow> string" where
  "print_node_list pn nodes off = offset2string off @ ''LIST'' @ nl @ concat (map (\<lambda>n. pn n (off + 2)) nodes)"

definition print_head :: "string \<Rightarrow> nat \<Rightarrow> string" where
  "print_head h off = offset2string off @ h @ nl"

definition print_typelen :: "TypeLen \<Rightarrow> nat \<Rightarrow> string" where
  "print_typelen x off = print_head ''TYPE_LEN'' off @ print_val (type2str (tl_type x)) (off + 2) @
     print_val (to_string (tl_len x)) (off + 2)"

fun print_field :: "Field \<Rightarrow> nat \<Rightarrow> string" where
  "print_field (AstColDef n ty) off = print_head ''COL_DEF'' off @ print_val n (off + 2) @ print_typelen ty (off + 2)"

definition print_col :: "Col \<Rightarrow> nat \<Rightarrow> string" where
  "print_col c off = print_head ''COL'' off @ print_val (col_tab c) (off + 2) @ print_val (col_nm c) (off + 2)"

fun print_value :: "(32 word \<Rightarrow> string) \<Rightarrow> AstValue \<Rightarrow> nat \<Rightarrow> string" where
  "print_value fshow (IntLit i) off = print_head ''INT_LIT'' off @ print_val (to_string i) (off + 2)"
| "print_value fshow (FloatLit f) off = print_head ''FLOAT_LIT'' off @ print_val (fshow f) (off + 2)"
| "print_value fshow (StringLit s) off = print_head ''STRING_LIT'' off @ print_val s (off + 2)"

fun print_expr :: "(32 word \<Rightarrow> string) \<Rightarrow> Expr \<Rightarrow> nat \<Rightarrow> string" where
  "print_expr fshow (ValueExpr v) off = print_value fshow v off"
| "print_expr fshow (ColExpr c) off = print_col c off"

definition print_set :: "(32 word \<Rightarrow> string) \<Rightarrow> AstSetClause \<Rightarrow> nat \<Rightarrow> string" where
  "print_set fshow x off = print_head ''SET_CLAUSE'' off @ print_val (as_col x) (off + 2) @ print_value fshow (as_val x) (off + 2)"

definition print_binary :: "(32 word \<Rightarrow> string) \<Rightarrow> BinaryExpr \<Rightarrow> nat \<Rightarrow> string" where
  "print_binary fshow x off = print_head ''BINARY_EXPR'' off @ print_col (be_lhs x) (off + 2) @
     print_val (op2str (be_op x)) (off + 2) @ print_expr fshow (be_rhs x) (off + 2)"

fun print_node :: "(32 word \<Rightarrow> string) \<Rightarrow> stmt_tree \<Rightarrow> nat \<Rightarrow> string" where
  "print_node fshow Help off = print_head ''HELP'' off"
| "print_node fshow ShowTables off = print_head ''SHOW_TABLES'' off"
| "print_node fshow TxnBegin off = print_head ''BEGIN'' off"
| "print_node fshow TxnCommit off = print_head ''COMMIT'' off"
| "print_node fshow TxnAbort off = print_head ''ABORT'' off"
| "print_node fshow TxnRollback off = print_head ''ROLLBACK'' off"
| "print_node fshow (CreateTable t fs) off =
     print_head ''CREATE_TABLE'' off @ print_val t (off + 2) @ print_node_list print_field fs (off + 2)"
| "print_node fshow (DropTable t) off = print_head ''DROP_TABLE'' off @ print_val t (off + 2)"
| "print_node fshow (DescTable t) off = print_head ''DESC_TABLE'' off @ print_val t (off + 2)"
| "print_node fshow (CreateIndex t cs) off =
     print_head ''CREATE_INDEX'' off @ print_val t (off + 2) @ concat (map (\<lambda>c. print_val c (off + 2)) cs)"
| "print_node fshow (DropIndex t cs) off =
     print_head ''DROP_INDEX'' off @ print_val t (off + 2) @ concat (map (\<lambda>c. print_val c (off + 2)) cs)"
| "print_node fshow (InsertStmt t vs) off =
     print_head ''INSERT'' off @ print_val t (off + 2) @ print_node_list (print_value fshow) vs (off + 2)"
| "print_node fshow (DeleteStmt t cs) off =
     print_head ''DELETE'' off @ print_val t (off + 2) @ print_node_list (print_binary fshow) cs (off + 2)"
| "print_node fshow (UpdateStmt t ss cs) off =
     print_head ''UPDATE'' off @ print_val t (off + 2) @ print_node_list (print_set fshow) ss (off + 2) @
     print_node_list (print_binary fshow) cs (off + 2)"
| "print_node fshow (Select x) off =
     print_head ''SELECT'' off @ print_node_list print_col (sel_cols x) (off + 2) @
     print_val_list (sel_tabs x) (off + 2) @ print_node_list (print_binary fshow) (sel_conds x) (off + 2)"

definition print_tree :: "(32 word \<Rightarrow> string) \<Rightarrow> stmt_tree \<Rightarrow> string" where
  "print_tree fshow node = print_node fshow node 0"

end
