(* ===== verification/Analyze.thy ===== *)
theory Analyze
  imports Ast
begin

text \<open>
  \<open>src/src/analyze\<close>: the semantic analysis of a statement. \<open>Analyze\<close> only reads the catalogue, so its
  methods are functions into a failure or a result. The bytes of \<open>new char[]\<close> that \<open>init_raw\<close> leaves
  undetermined are the argument \<open>junk\<close>.
\<close>

record Query =
  q_parse :: stmt_tree
  q_conds :: "Condition list"
  q_cols :: "TabCol list"
  q_tables :: "string list"
  q_sets :: "SetClause list"
  q_values :: "Val list"

definition Query_new :: "stmt_tree \<Rightarrow> Query" where
  "Query_new p = \<lparr>q_parse = p, q_conds = [], q_cols = [], q_tables = [], q_sets = [], q_values = []\<rparr>"

definition throwing :: "rmdb_error + 'a \<Rightarrow> failure + 'a" where
  "throwing m = (case m of Inl e \<Rightarrow> Inl (Throw e) | Inr a \<Rightarrow> Inr a)"

text \<open>Every class derived from \<open>ast::Value\<close> is one of the three literals.\<close>

fun convert_sv_value :: "AstValue \<Rightarrow> Val" where
  "convert_sv_value (IntLit i) = set_int i (Val_new TYPE_INT 0 [])"
| "convert_sv_value (FloatLit f) = set_float f (Val_new TYPE_FLOAT 0 [])"
| "convert_sv_value (StringLit s) = set_str s (Val_new TYPE_STRING 0 [])"

fun convert_sv_comp_op :: "SvCompOp \<Rightarrow> CompOp" where
  "convert_sv_comp_op SV_OP_EQ = OP_EQ" | "convert_sv_comp_op SV_OP_NE = OP_NE"
| "convert_sv_comp_op SV_OP_LT = OP_LT" | "convert_sv_comp_op SV_OP_GT = OP_GT"
| "convert_sv_comp_op SV_OP_LE = OP_LE" | "convert_sv_comp_op SV_OP_GE = OP_GE"

text \<open>The members a condition does not use keep their default: empty names, an unset value.\<close>

definition get_cond :: "BinaryExpr \<Rightarrow> Condition" where
  "get_cond e =
     (let lhs = TabCol_of (col_tab (be_lhs e)) (col_nm (be_lhs e)); oper = convert_sv_comp_op (be_op e) in
      case be_rhs e of
        ValueExpr v \<Rightarrow> \<lparr>lhs_col = lhs, cop = oper, is_rhs_val = True, rhs_col = TabCol_of [] [], rhs_val = convert_sv_value v\<rparr>
      | ColExpr c \<Rightarrow> \<lparr>lhs_col = lhs, cop = oper, is_rhs_val = False, rhs_col = TabCol_of (col_tab c) (col_nm c),
                      rhs_val = Val_new TYPE_INT 0 []\<rparr>)"

definition get_clause :: "BinaryExpr list \<Rightarrow> Condition list" where
  "get_clause es = map get_cond es"

definition get_all_cols :: "DbMeta \<Rightarrow> string list \<Rightarrow> failure + ColMeta list" where
  "get_all_cols db tabs = bindE (mapE (\<lambda>t. throwing (get_table t db)) tabs) (\<lambda>ms. Inr (concat (map tm_cols ms)))"

text \<open>The loop that looks for the one table with a column of that name; \<open>tab\<close> is the table found so far.\<close>

fun infer_table :: "string \<Rightarrow> ColMeta list \<Rightarrow> string \<Rightarrow> failure + string" where
  "infer_table col [] tab = Inr tab"
| "infer_table col (c # cs) tab =
     (if cm_name c = col
      then if tab \<noteq> [] then Inl (Throw (AmbiguousColumnError col)) else infer_table col cs (cm_tab c)
      else infer_table col cs tab)"

definition check_column :: "DbMeta \<Rightarrow> ColMeta list \<Rightarrow> TabCol \<Rightarrow> failure + TabCol" where
  "check_column db all_cols target =
     (if tc_tab target = [] then
        bindE (infer_table (tc_col target) all_cols []) (\<lambda>tab.
          if tab = [] then Inl (Throw (ColumnNotFoundError (tc_col target)))
          else Inr (target\<lparr>tc_tab := tab\<rparr>))
      else
        case get_table (tc_tab target) db of
          Inr m \<Rightarrow>
            if is_col (tc_col target) m then Inr target
            else Inl (Throw (ColumnNotFoundError (tc_tab target @ ''.'' @ tc_col target)))
        | Inl e \<Rightarrow> Inl (Throw (ColumnNotFoundError (tc_tab target @ ''.'' @ tc_col target))))"

definition find_col :: "DbMeta \<Rightarrow> TabCol \<Rightarrow> failure + ColMeta" where
  "find_col db c = bindE (throwing (get_table (tc_tab c) db)) (\<lambda>m. throwing (tab_get_col (tc_col c) m))"

definition run_init_raw :: "(nat \<Rightarrow> byte) \<Rightarrow> int \<Rightarrow> Val \<Rightarrow> failure + Val" where
  "run_init_raw junk len v = (case init_raw junk len v of Ok _ v' \<Rightarrow> Inr v' | Err e v' \<Rightarrow> Inl e)"

definition check_types :: "ColType \<Rightarrow> ColType \<Rightarrow> failure + unit" where
  "check_types l r = (if l \<noteq> r then Inl (Throw (IncompatibleTypeError (coltype2str l) (coltype2str r))) else Inr ())"

definition check_cond :: "(nat \<Rightarrow> byte) \<Rightarrow> DbMeta \<Rightarrow> ColMeta list \<Rightarrow> Condition \<Rightarrow> failure + Condition" where
  "check_cond junk db all_cols c =
     bindE (check_column db all_cols (lhs_col c)) (\<lambda>l.
     bindE (if is_rhs_val c then Inr (rhs_col c) else check_column db all_cols (rhs_col c)) (\<lambda>r.
     bindE (find_col db l) (\<lambda>lm.
     let c1 = c\<lparr>lhs_col := l, rhs_col := r\<rparr> in
     if is_rhs_val c then
       bindE (run_init_raw junk (cm_len lm) (rhs_val c)) (\<lambda>v.
       bindE (check_types (cm_type lm) (vtype v)) (\<lambda>_. Inr (c1\<lparr>rhs_val := v\<rparr>)))
     else
       bindE (find_col db r) (\<lambda>rm.
       bindE (check_types (cm_type lm) (cm_type rm)) (\<lambda>_. Inr c1)))))"

definition check_clause :: "(nat \<Rightarrow> byte) \<Rightarrow> DbMeta \<Rightarrow> string list \<Rightarrow> Condition list \<Rightarrow> failure + Condition list" where
  "check_clause junk db tabs conds =
     bindE (get_all_cols db tabs) (\<lambda>all_cols. mapE (check_cond junk db all_cols) conds)"

definition check_tables :: "DbMeta \<Rightarrow> string list \<Rightarrow> failure + unit" where
  "check_tables db tabs =
     (case find (\<lambda>t. \<not> is_table t db) tabs of Some t \<Rightarrow> Inl (Throw (TableNotFoundError t)) | None \<Rightarrow> Inr ())"

definition analyze_set :: "(nat \<Rightarrow> byte) \<Rightarrow> TabMeta \<Rightarrow> SetClause \<Rightarrow> failure + SetClause" where
  "analyze_set junk m sc =
     bindE (throwing (tab_get_col (tc_col (sc_lhs sc)) m)) (\<lambda>c.
     bindE (check_types (cm_type c) (vtype (sc_rhs sc))) (\<lambda>_.
     bindE (run_init_raw junk (cm_len c) (sc_rhs sc)) (\<lambda>v. Inr (sc\<lparr>sc_rhs := v\<rparr>))))"

definition do_analyze :: "(nat \<Rightarrow> byte) \<Rightarrow> DbMeta \<Rightarrow> stmt_tree \<Rightarrow> failure + Query" where
  "do_analyze junk db parse =
     (case parse of
        Select x \<Rightarrow>
          bindE (check_tables db (sel_tabs x)) (\<lambda>_.
          bindE (get_all_cols db (sel_tabs x)) (\<lambda>all_cols.
          bindE (if sel_cols x = [] then Inr (map (\<lambda>c. TabCol_of (cm_tab c) (cm_name c)) all_cols)
                 else mapE (\<lambda>c. check_column db all_cols (TabCol_of (col_tab c) (col_nm c))) (sel_cols x)) (\<lambda>cols.
          bindE (check_clause junk db (sel_tabs x) (get_clause (sel_conds x))) (\<lambda>conds.
          Inr ((Query_new parse)\<lparr>q_tables := sel_tabs x, q_cols := cols, q_conds := conds\<rparr>)))))
      | UpdateStmt tab sets conds \<Rightarrow>
          bindE (throwing (get_table tab db)) (\<lambda>m.
          bindE (mapE (\<lambda>s. analyze_set junk m \<lparr>sc_lhs = TabCol_of [] (as_col s), sc_rhs = convert_sv_value (as_val s)\<rparr>) sets) (\<lambda>ss.
          bindE (check_clause junk db [tab] (get_clause conds)) (\<lambda>cs.
          Inr ((Query_new parse)\<lparr>q_sets := ss, q_conds := cs\<rparr>))))
      | DeleteStmt tab conds \<Rightarrow>
          bindE (check_clause junk db [tab] (get_clause conds)) (\<lambda>cs.
          Inr ((Query_new parse)\<lparr>q_conds := cs\<rparr>))
      | InsertStmt tab vals \<Rightarrow> Inr ((Query_new parse)\<lparr>q_values := map convert_sv_value vals\<rparr>)
      | _ \<Rightarrow> Inr (Query_new parse))"

end
