(* ===== verification/Record_Printer.thy ===== *)
theory Record_Printer
  imports Config
begin

text \<open>
  \<open>src/src/record_printer.h\<close> and the part of \<open>src/src/common/context.h\<close> it writes to: the reply of
  the server, a buffer of \<open>BUFFER_LENGTH\<close> characters, the number of characters written
  (\<open>*offset_\<close>, zero when a statement starts) and the flag that says that rows have been left out.
  A copy that would end behind the buffer is the failure \<open>OutOfBounds\<close>.
\<close>

named_theorems print_simps \<open>the printing operations\<close>

record ctx =
  data_send :: string
  send_offset :: nat
  ellipsis :: bool

definition Context_new :: "string \<Rightarrow> ctx" where
  "Context_new buf = \<lparr>data_send = buf, send_offset = 0, ellipsis = False\<rparr>"

definition RECORD_COUNT_LENGTH :: nat where "RECORD_COUNT_LENGTH = 40"
definition COL_WIDTH :: nat where "COL_WIDTH = 16"

text \<open>\<open>memcpy(data_send_ + *offset_, str, len)\<close> and the step of the offset.\<close>

definition send_copy :: "string \<Rightarrow> ctx \<Rightarrow> (unit, ctx) res" where
  "send_copy str c =
     (if send_offset c + length str \<le> length (data_send c)
      then Ok () (c\<lparr>data_send := take (send_offset c) (data_send c) @ str @
                      drop (send_offset c + length str) (data_send c),
                    send_offset := send_offset c + length str\<rparr>)
      else Err OutOfBounds c)"

definition send_fits :: "string \<Rightarrow> ctx \<Rightarrow> bool" where
  "send_fits str c \<longleftrightarrow> \<not> ellipsis c \<and> send_offset c + RECORD_COUNT_LENGTH + length str < BUFFER_LENGTH"

definition send_or_ellipsis :: "string \<Rightarrow> ctx \<Rightarrow> (unit, ctx) res" where
  "send_or_ellipsis str c = (if send_fits str c then send_copy str c else Ok () (c\<lparr>ellipsis := True\<rparr>))"

text \<open>The constructor asserts that there is a column.\<close>

definition RecordPrinter_new :: "nat \<Rightarrow> 's \<Rightarrow> (nat, 's) res" where
  "RecordPrinter_new n s = (if 0 < n then Ok n s else Err AssertionFailed s)"

fun send_times :: "nat \<Rightarrow> string \<Rightarrow> ctx \<Rightarrow> (unit, ctx) res" where
  "send_times 0 str c = Ok () c"
| "send_times (Suc n) str c = bindO (send_or_ellipsis str c) (\<lambda>_. send_times n str)"

definition print_separator :: "nat \<Rightarrow> ctx \<Rightarrow> (unit, ctx) res" where
  "print_separator num_cols c =
     bindO (send_times num_cols (''+'' @ replicate (COL_WIDTH + 2) CHR ''-'') c) (\<lambda>_ c1.
     send_or_ellipsis [CHR ''+'', CHR 0x0A] c1)"

text \<open>A cell: too long a text is cut, a short one is right-aligned by \<open>setw\<close>.\<close>

definition cell_text :: "string \<Rightarrow> string" where
  "cell_text col =
     (let col' = (if COL_WIDTH < length col then take (COL_WIDTH - 3) col @ ''...'' else col)
      in ''| '' @ replicate (COL_WIDTH - length col') CHR '' '' @ col' @ '' '')"

fun send_cells :: "string list \<Rightarrow> ctx \<Rightarrow> (unit, ctx) res" where
  "send_cells [] c = Ok () c"
| "send_cells (col # cols) c = bindO (send_or_ellipsis (cell_text col) c) (\<lambda>_. send_cells cols)"

text \<open>The end of the line is the one text whose omission does not set the flag.\<close>

definition print_record_row :: "nat \<Rightarrow> string list \<Rightarrow> ctx \<Rightarrow> (unit, ctx) res" where
  "print_record_row num_cols rec_str c =
     (if length rec_str \<noteq> num_cols then Err AssertionFailed c
      else bindO (send_cells rec_str c) (\<lambda>_ c1.
        let str = [CHR 0x7C, CHR 0x0A] in
        if send_fits str c1 then send_copy str c1 else Ok () c1))"

definition print_record_count :: "nat \<Rightarrow> ctx \<Rightarrow> (unit, ctx) res" where
  "print_record_count num_rec c =
     send_copy ((if ellipsis c then ''... ...'' @ [CHR 0x0A] else []) @
                ''Total record(s): '' @ nat_to_string num_rec @ [CHR 0x0A]) c"

section \<open>The buffer is never exceeded\<close>

text \<open>Room for the record count is kept free until it is printed.\<close>

definition ctx_ok :: "ctx \<Rightarrow> bool" where
  "ctx_ok c \<longleftrightarrow> length (data_send c) = BUFFER_LENGTH \<and> send_offset c + RECORD_COUNT_LENGTH < BUFFER_LENGTH"

text \<open>What the client will read.\<close>

definition sent :: "ctx \<Rightarrow> string" where
  "sent c = take (send_offset c) (data_send c)"

lemma ctx_ok_new [simp]: "length buf = BUFFER_LENGTH \<Longrightarrow> ctx_ok (Context_new buf)"
  by (simp add: ctx_ok_def Context_new_def RECORD_COUNT_LENGTH_def BUFFER_LENGTH_def)

lemma sent_new [simp]: "sent (Context_new buf) = []"
  by (simp add: sent_def Context_new_def)

lemma send_copy_Ok:
  assumes "send_offset c + length str \<le> length (data_send c)"
  shows "\<exists>c'. send_copy str c = Ok () c' \<and> sent c' = sent c @ str \<and>
    length (data_send c') = length (data_send c) \<and> send_offset c' = send_offset c + length str \<and>
    ellipsis c' = ellipsis c"
  using assms by (auto simp: send_copy_def sent_def)

lemma ctx_ok_offset: "ctx_ok c \<Longrightarrow> send_offset c = length (sent c)"
  by (simp add: ctx_ok_def sent_def)

text \<open>
  A context that takes no further text: the flag is set, or there is no room even for the end of a
  line. Every print operation succeeds, keeps the room free and appends its text or, when it
  stops early, a prefix of it, after which nothing more is appended.
\<close>

definition stuck :: "ctx \<Rightarrow> bool" where
  "stuck c \<longleftrightarrow> ellipsis c \<or> BUFFER_LENGTH \<le> send_offset c + RECORD_COUNT_LENGTH + 2"

definition has_room :: "ctx \<Rightarrow> string \<Rightarrow> bool" where
  "has_room c str \<longleftrightarrow> \<not> ellipsis c \<and> length (sent c) + RECORD_COUNT_LENGTH + length str < BUFFER_LENGTH"

definition appended :: "ctx \<Rightarrow> ctx \<Rightarrow> string \<Rightarrow> bool" where
  "appended c c' str \<longleftrightarrow> ctx_ok c' \<and>
     (sent c' = sent c @ str \<or> (\<exists>k. sent c' = sent c @ take k str) \<and> stuck c') \<and>
     (stuck c \<longrightarrow> stuck c' \<and> sent c' = sent c) \<and>
     (has_room c str \<longrightarrow> sent c' = sent c @ str \<and> \<not> ellipsis c')"

definition print_ok :: "(unit, ctx) res \<Rightarrow> ctx \<Rightarrow> string \<Rightarrow> bool" where
  "print_ok r c str \<longleftrightarrow> (\<exists>c'. r = Ok () c' \<and> appended c c' str)"

lemma appended_refl: "ctx_ok c \<Longrightarrow> appended c c []"
  by (simp add: appended_def has_room_def)

lemma appended_trans:
  assumes "appended c c1 s" and "appended c1 c2 t"
  shows "appended c c2 (s @ t)"
proof -
  have "sent c2 = sent c @ s @ t \<or> (\<exists>k. sent c2 = sent c @ take k (s @ t)) \<and> stuck c2"
  proof (cases "sent c1 = sent c @ s")
    case True
    then show ?thesis
      using assms(2) by (auto simp: appended_def intro: exI [of _ "length s + k" for k])
  next
    case False
    then obtain k where "sent c1 = sent c @ take k s" "stuck c1" using assms(1) by (auto simp: appended_def)
    moreover have "take k s = take (min k (length s)) (s @ t)" by (simp add: min_def)
    ultimately show ?thesis using assms(2) unfolding appended_def by metis
  qed
  moreover have "has_room c (s @ t) \<Longrightarrow> has_room c s" by (simp add: has_room_def)
  moreover have "has_room c (s @ t) \<Longrightarrow> has_room c1 t" using calculation assms(1) by (auto simp: has_room_def appended_def)
  ultimately show ?thesis using assms unfolding appended_def by auto
qed

lemma print_ok_bind [intro]:
  assumes r: "print_ok r c s" and k: "\<And>c1. ctx_ok c1 \<Longrightarrow> print_ok (k () c1) c1 t"
  shows "print_ok (bindO r k) c (s @ t)"
proof -
  obtain c1 where c1: "r = Ok () c1" "appended c c1 s" using r by (auto simp: print_ok_def)
  then obtain c2 where "k () c1 = Ok () c2" "appended c1 c2 t"
    using k [of c1] by (auto simp: print_ok_def appended_def)
  then show ?thesis using c1 appended_trans by (auto simp: print_ok_def)
qed

lemma send_fits_ok:
  assumes c: "ctx_ok c" and len: "2 \<le> length str" and fits: "send_fits str c"
  shows "print_ok (send_copy str c) c str"
proof -
  have b: "send_offset c + RECORD_COUNT_LENGTH + length str < BUFFER_LENGTH" "\<not> ellipsis c"
    using fits by (simp_all add: send_fits_def)
  with c obtain c1 where c1: "send_copy str c = Ok () c1" "sent c1 = sent c @ str"
    "length (data_send c1) = length (data_send c)" "send_offset c1 = send_offset c + length str"
    "ellipsis c1 = ellipsis c"
    using send_copy_Ok [of c str] by (auto simp: ctx_ok_def)
  have "\<not> stuck c" using b len by (auto simp: stuck_def)
  then have "appended c c1 str" using c b c1 by (auto simp: appended_def ctx_ok_def)
  then show ?thesis using c1(1) by (auto simp: print_ok_def)
qed

lemma skip_appended:
  assumes c: "ctx_ok c" and fits: "\<not> send_fits str c" and e: "ellipsis c \<Longrightarrow> e" and stk: "stuck (c\<lparr>ellipsis := e\<rparr>)"
  shows "print_ok (Ok () (c\<lparr>ellipsis := e\<rparr>)) c str"
proof -
  have s: "sent (c\<lparr>ellipsis := e\<rparr>) = sent c" by (simp add: sent_def)
  have "\<exists>k. sent c = sent c @ take k str" by (rule exI [of _ 0]) simp
  moreover have "\<not> has_room c str" using c fits by (simp add: has_room_def send_fits_def ctx_ok_offset)
  moreover have "ctx_ok (c\<lparr>ellipsis := e\<rparr>)" using c by (simp add: ctx_ok_def)
  ultimately show ?thesis using stk by (simp add: print_ok_def appended_def s)
qed

lemma send_or_ellipsis_ok: "ctx_ok c \<Longrightarrow> 2 \<le> length str \<Longrightarrow> print_ok (send_or_ellipsis str c) c str"
  using send_fits_ok skip_appended [of c str True] by (simp add: send_or_ellipsis_def stuck_def)

lemma end_of_line_ok:
  "ctx_ok c \<Longrightarrow> length str = 2 \<Longrightarrow> print_ok (if send_fits str c then send_copy str c else Ok () c) c str"
  using send_fits_ok [of c str] skip_appended [of c str "ellipsis c"]
  by (auto simp: stuck_def send_fits_def)

text \<open>The texts of the two print operations.\<close>

definition separator_text :: "nat \<Rightarrow> string" where
  "separator_text n = concat (replicate n (''+'' @ replicate (COL_WIDTH + 2) CHR ''-'')) @ [CHR ''+'', CHR 0x0A]"

definition record_text :: "string list \<Rightarrow> string" where
  "record_text cols = concat (map cell_text cols) @ [CHR 0x7C, CHR 0x0A]"

lemma send_times_ok: "ctx_ok c \<Longrightarrow> 2 \<le> length str \<Longrightarrow> print_ok (send_times n str c) c (concat (replicate n str))"
proof (induction n arbitrary: c)
  case 0
  then show ?case by (auto simp: print_ok_def intro: appended_refl)
next
  case (Suc n)
  then show ?case using print_ok_bind [OF send_or_ellipsis_ok [OF Suc.prems]] by simp
qed

lemma length_cell_text: "2 \<le> length (cell_text col)"
  by (simp add: cell_text_def Let_def)

lemma send_cells_ok: "ctx_ok c \<Longrightarrow> print_ok (send_cells cols c) c (concat (map cell_text cols))"
proof (induction cols arbitrary: c)
  case Nil
  then show ?case by (auto simp: print_ok_def intro: appended_refl)
next
  case (Cons col cols)
  then show ?case
    using print_ok_bind [OF send_or_ellipsis_ok [OF Cons.prems length_cell_text [of col]], of "\<lambda>_. send_cells cols"]
    by simp
qed

lemma print_separator_ok: "ctx_ok c \<Longrightarrow> print_ok (print_separator n c) c (separator_text n)"
  unfolding print_separator_def separator_text_def
  by (rule print_ok_bind) (auto intro!: send_times_ok send_or_ellipsis_ok simp: COL_WIDTH_def)

lemma print_record_row_ok:
  assumes "ctx_ok c" and "length cols = n"
  shows "print_ok (print_record_row n cols c) c (record_text cols)"
proof -
  let ?k = "\<lambda>_ c1. if send_fits [CHR 0x7C, CHR 0x0A] c1 then send_copy [CHR 0x7C, CHR 0x0A] c1 else Ok () c1"
  have "print_ok (bindO (send_cells cols c) ?k) c (concat (map cell_text cols) @ [CHR 0x7C, CHR 0x0A])"
    by (rule print_ok_bind [OF send_cells_ok [OF assms(1)]]) (rule end_of_line_ok, simp_all)
  then show ?thesis using assms(2) by (simp add: print_record_row_def record_text_def Let_def)
qed

text \<open>The record count fits for every count of at most fourteen digits, and leaves room for a NUL.\<close>

lemma print_record_count_ok:
  assumes "ctx_ok c" and "n < 10 ^ 14"
  shows "\<exists>c'. print_record_count n c = Ok () c' \<and> send_offset c' < BUFFER_LENGTH \<and>
    length (data_send c') = BUFFER_LENGTH \<and>
    sent c' = sent c @ (if ellipsis c then ''... ...'' @ [CHR 0x0A] else []) @
                ''Total record(s): '' @ nat_to_string n @ [CHR 0x0A]"
proof -
  have "length (nat_to_string n) \<le> 14" using assms(2) by (intro length_nat_to_string) simp_all
  then show ?thesis
    using assms(1) send_copy_Ok [of c "(if ellipsis c then ''... ...'' @ [CHR 0x0A] else []) @
                ''Total record(s): '' @ nat_to_string n @ [CHR 0x0A]"]
    by (auto simp: print_record_count_def ctx_ok_def RECORD_COUNT_LENGTH_def)
qed

end
