(* ===== verification/System_Manager.thy ===== *)
theory System_Manager
  imports Index Record_Printer
begin

text \<open>
  \<open>src/src/system/sm_manager.h\<close> and \<open>sm_manager.cpp\<close>: creating, opening and closing a database, and
  the statements that change the catalogue. \<open>SmManager\<close> is the record \<open>sm\<close>; the hash maps \<open>fhs_\<close> and \<open>ihs_\<close>
  are association lists (the order in which the code walks over them is their order). A file
  stream writes its text when it is closed; it fails silently when the file cannot be opened. What
  \<open>operator>>\<close> leaves in the catalogue when the text is malformed is the argument \<open>junk_db\<close>.
\<close>

section \<open>File streams and directories\<close>

definition stream_put :: "bool \<Rightarrow> string \<Rightarrow> string \<Rightarrow> os \<Rightarrow> os" where
  "stream_put app name text s =
     (if abspath s name \<in> set (dirs s) \<or> lowest_fd s = None then s
      else case dirent s (abspath s name) of
             Some ino \<Rightarrow> s\<lparr>idata := (idata s)(ino := (if app then idata s ino else []) @ str_bytes text)\<rparr>
           | None \<Rightarrow> s\<lparr>dirent := (dirent s)(abspath s name \<mapsto> next_ino s),
                       idata := (idata s)(next_ino s := str_bytes text), next_ino := Suc (next_ino s)\<rparr>)"

definition stream_get :: "string \<Rightarrow> os \<Rightarrow> string option" where
  "stream_get name s =
     (if lowest_fd s = None then None
      else map_option (\<lambda>ino. bytes_str (idata s ino)) (dirent s (abspath s name)))"

definition sys_chdir :: "string \<Rightarrow> os \<Rightarrow> errno option \<times> os" where
  "sys_chdir p s =
     (if p = ''..'' then (None, s\<lparr>cwd := butlast (cwd s)\<rparr>)
      else if abspath s p \<in> set (dirs s) then (None, s\<lparr>cwd := abspath s p\<rparr>)
      else (Some ENOENT, s))"

definition chdir :: "string \<Rightarrow> disk \<Rightarrow> (unit, disk) res" where
  "chdir p d =
     (case sys_chdir p (dos d) of
        (None, s) \<Rightarrow> Ok () (d\<lparr>dos := s\<rparr>)
      | (Some e, s) \<Rightarrow> Err (Throw (UnixError e)) (d\<lparr>dos := s\<rparr>))"

section \<open>SmManager\<close>

record ColDef =
  cd_name :: string
  cd_type :: ColType
  cd_len :: int

record sm =
  sm_db :: DbMeta
  fhs :: "(string \<times> rmfh) list"
  ihs :: "(string \<times> ixih) list"
  sm_bpm :: bpm

abbreviation sm_disk :: "sm \<Rightarrow> disk" where
  "sm_disk s \<equiv> dm (sm_bpm s)"

definition upd_disk :: "disk \<Rightarrow> sm \<Rightarrow> sm" where
  "upd_disk d s = s\<lparr>sm_bpm := (sm_bpm s)\<lparr>dm := d\<rparr>\<rparr>"

definition on_disk :: "(disk \<Rightarrow> ('a, disk) res) \<Rightarrow> sm \<Rightarrow> ('a, sm) res" where
  "on_disk m s = liftS (\<lambda>d. upd_disk d s) (m (sm_disk s))"

definition on_bpm :: "(bpm \<Rightarrow> ('a, bpm) res) \<Rightarrow> sm \<Rightarrow> ('a, sm) res" where
  "on_bpm m s = liftS (\<lambda>b. s\<lparr>sm_bpm := b\<rparr>) (m (sm_bpm s))"

text \<open>\<open>emplace\<close> keeps an entry that is there.\<close>

definition emplace :: "'k \<Rightarrow> 'v \<Rightarrow> ('k \<times> 'v) list \<Rightarrow> ('k \<times> 'v) list" where
  "emplace k v m = (if map_of m k = None then m @ [(k, v)] else m)"

definition map_erase :: "'k \<Rightarrow> ('k \<times> 'v) list \<Rightarrow> ('k \<times> 'v) list" where
  "map_erase k m = filter (\<lambda>e. fst e \<noteq> k) m"

definition sm_is_dir :: "string \<Rightarrow> sm \<Rightarrow> bool" where
  "sm_is_dir db s = is_dir db (sm_disk s)"

definition create_db :: "string \<Rightarrow> sm \<Rightarrow> (unit, sm) res" where
  "create_db db s =
     (if sm_is_dir db s then Err (Throw (DatabaseExistsError db)) s
      else
        let d1 = (sm_disk s)\<lparr>dos := sh_mkdir db (dos (sm_disk s))\<rparr> in
        on_disk (\<lambda>_. bindO (chdir db d1) (\<lambda>_ d2.
          let d3 = d2\<lparr>dos := stream_put False DB_META_NAME (put_db \<lparr>db_name = db, db_tabs = []\<rparr>) (dos d2)\<rparr> in
          bindO (create_file LOG_FILE_NAME d3) (\<lambda>_ d4. chdir ''..'' d4))) s)"

definition drop_db :: "string \<Rightarrow> sm \<Rightarrow> (unit, sm) res" where
  "drop_db db s =
     (if \<not> sm_is_dir db s then Err (Throw (DatabaseNotFoundError db)) s
      else Ok () (upd_disk ((sm_disk s)\<lparr>dos := sh_rm_r db (dos (sm_disk s))\<rparr>) s))"

text \<open>The two loops of \<open>open_db\<close>.\<close>

fun open_indexes :: "string \<Rightarrow> IndexMeta list \<Rightarrow> sm \<Rightarrow> (unit, sm) res" where
  "open_indexes tab [] s = Ok () s"
| "open_indexes tab (i # is) s =
     bindO (on_disk (ix_open_index tab (im_cols i)) s) (\<lambda>ih s1.
       open_indexes tab is (s1\<lparr>ihs := emplace (index_file tab (im_cols i)) ih (ihs s1)\<rparr>))"

fun open_tables :: "bytes \<Rightarrow> (string \<times> TabMeta) list \<Rightarrow> sm \<Rightarrow> (unit, sm) res" where
  "open_tables junk [] s = Ok () s"
| "open_tables junk ((tab, m) # ts) s =
     bindO (on_disk (rm_open_file junk tab) s) (\<lambda>fh s1.
     bindO (open_indexes tab (tm_indexes m) (s1\<lparr>fhs := emplace tab fh (fhs s1)\<rparr>)) (\<lambda>_.
       open_tables junk ts))"

definition open_db :: "bytes \<Rightarrow> DbMeta \<Rightarrow> string \<Rightarrow> sm \<Rightarrow> (unit, sm) res" where
  "open_db junk junk_db db s =
     (if \<not> sm_is_dir db s then Err (Throw (DatabaseNotFoundError db)) s
      else bindO (on_disk (chdir db) s) (\<lambda>_ s1.
        case stream_get DB_META_NAME (dos (sm_disk s1)) of
          None \<Rightarrow> Err (Throw (UnixError ENOENT)) s1
        | Some text \<Rightarrow>
            let db' = (case get_dbmeta (sm_db s1) text of None \<Rightarrow> junk_db | Some (m, rest) \<Rightarrow> m);
                s2 = s1\<lparr>sm_db := db'\<rparr>
            in open_tables junk (db_tabs (sm_db s2)) s2))"

definition flush_meta :: "sm \<Rightarrow> sm" where
  "flush_meta s =
     upd_disk ((sm_disk s)\<lparr>dos := stream_put False DB_META_NAME (put_db (sm_db s)) (dos (sm_disk s))\<rparr>) s"

fun close_indexes :: "(string \<times> ixih) list \<Rightarrow> sm \<Rightarrow> (unit, sm) res" where
  "close_indexes [] s = Ok () s"
| "close_indexes ((n, ih) # is) s = bindO (on_bpm (ix_close_index ih) s) (\<lambda>_. close_indexes is)"

fun close_tables :: "(string \<times> rmfh) list \<Rightarrow> sm \<Rightarrow> (unit, sm) res" where
  "close_tables [] s = Ok () s"
| "close_tables ((n, fh) # fs) s = bindO (on_bpm (rm_close_file fh) s) (\<lambda>_. close_tables fs)"

definition close_db :: "sm \<Rightarrow> (unit, sm) res" where
  "close_db s0 =
     (let s = flush_meta s0 in
      bindO (close_indexes (ihs s) s) (\<lambda>_ s1.
      let s2 = s1\<lparr>ihs := []\<rparr> in
      bindO (close_tables (fhs s2) s2) (\<lambda>_ s3.
      Ok () (s3\<lparr>fhs := []\<rparr>))))"

section \<open>Statements on the catalogue\<close>

type_synonym 'a stmt = "('a, sm \<times> ctx) res"

definition on_ctx :: "(ctx \<Rightarrow> ('a, ctx) res) \<Rightarrow> sm \<times> ctx \<Rightarrow> 'a stmt" where
  "on_ctx m s = liftS (Pair (fst s)) (m (snd s))"

definition on_sm :: "(sm \<Rightarrow> ('a, sm) res) \<Rightarrow> sm \<times> ctx \<Rightarrow> 'a stmt" where
  "on_sm m s = liftS (\<lambda>x. (x, snd s)) (m (fst s))"

definition OUTPUT_FILE :: string where "OUTPUT_FILE = ''output.txt''"

definition outfile_put :: "string \<Rightarrow> sm \<Rightarrow> sm" where
  "outfile_put text s =
     upd_disk ((sm_disk s)\<lparr>dos := stream_put True OUTPUT_FILE text (dos (sm_disk s))\<rparr>) s"

text \<open>A loop that prints one row after the other.\<close>

fun print_rows :: "nat \<Rightarrow> string list list \<Rightarrow> ctx \<Rightarrow> (unit, ctx) res" where
  "print_rows n [] c = Ok () c"
| "print_rows n (r # rs) c = bindO (print_record_row n r c) (\<lambda>_. print_rows n rs)"

definition print_table :: "string list \<Rightarrow> string list list \<Rightarrow> ctx \<Rightarrow> (unit, ctx) res" where
  "print_table captions rows c =
     bindO (RecordPrinter_new (length captions) c) (\<lambda>n c1.
     bindO (print_separator n c1) (\<lambda>_ c2.
     bindO (print_record_row n captions c2) (\<lambda>_ c3.
     bindO (print_separator n c3) (\<lambda>_ c4.
     bindO (print_rows n rows c4) (\<lambda>_ c5.
     print_separator n c5)))))"

definition out_row :: "string list \<Rightarrow> string" where
  "out_row cells = [CHR 0x7C] @ concat (map (\<lambda>c. '' '' @ c @ [CHR 0x20, CHR 0x7C]) cells) @ [CHR 0x0A]"

definition show_tables :: "sm \<Rightarrow> ctx \<Rightarrow> unit stmt" where
  "show_tables s c =
     (let names = map (\<lambda>e. tm_name (snd e)) (db_tabs (sm_db s)) in
      bindO (on_ctx (print_table [''Tables''] (map (\<lambda>n. [n]) names)) (s, c)) (\<lambda>_ (s1, c1).
        Ok () (outfile_put (concat (map (\<lambda>n. out_row [n]) (''Tables'' # names))) s1, c1)))"

definition desc_table :: "string \<Rightarrow> sm \<Rightarrow> ctx \<Rightarrow> unit stmt" where
  "desc_table tab s c =
     (case get_table tab (sm_db s) of
        Inl e \<Rightarrow> Err (Throw e) (s, c)
      | Inr m \<Rightarrow>
          on_ctx (print_table [''Field'', ''Type'', ''Index'']
                   (map (\<lambda>col. [cm_name col, coltype2str (cm_type col), if cm_index col then ''YES'' else ''NO'']) (tm_cols m)))
            (s, c))"

text \<open>The columns of a new table: each begins where the one before it ends.\<close>

fun make_cols :: "string \<Rightarrow> ColDef list \<Rightarrow> int \<Rightarrow> ColMeta list" where
  "make_cols tab [] off = []"
| "make_cols tab (c # cs) off =
     \<lparr>cm_tab = tab, cm_name = cd_name c, cm_type = cd_type c, cm_len = cd_len c, cm_offset = off, cm_index = False\<rparr> #
     make_cols tab cs (off + cd_len c)"

definition create_table :: "bytes \<Rightarrow> string \<Rightarrow> ColDef list \<Rightarrow> sm \<Rightarrow> (unit, sm) res" where
  "create_table junk tab defs s =
     (if is_table tab (sm_db s) then Err (Throw (TableExistsError tab)) s
      else
        let m = \<lparr>tm_name = tab, tm_cols = make_cols tab defs 0, tm_indexes = []\<rparr>;
            record_size = sum_list (map cd_len defs)
        in bindO (on_disk (rm_create_file tab record_size) s) (\<lambda>_ s1.
             let s2 = s1\<lparr>sm_db := SetTabMeta tab m (sm_db s1)\<rparr> in
             bindO (on_disk (rm_open_file junk tab) s2) (\<lambda>fh s3.
               Ok () (flush_meta (s3\<lparr>fhs := emplace tab fh (fhs s3)\<rparr>)))))"

text \<open>The loop of \<open>drop_table\<close> over the indexes.\<close>

fun drop_indexes :: "string \<Rightarrow> IndexMeta list \<Rightarrow> sm \<Rightarrow> (unit, sm) res" where
  "drop_indexes tab [] s = Ok () s"
| "drop_indexes tab (i # is) s =
     (let name = index_file tab (im_cols i) in
      bindO (case map_of (ihs s) name of
               None \<Rightarrow> Ok () s
             | Some ih \<Rightarrow>
                 bindO (on_bpm (ix_close_index ih) s) (\<lambda>_ s1. Ok () (s1\<lparr>ihs := map_erase name (ihs s1)\<rparr>))) (\<lambda>_ s2.
      bindO (on_disk (ix_destroy_index tab (im_cols i)) s2) (\<lambda>_. drop_indexes tab is)))"

definition drop_table :: "string \<Rightarrow> sm \<Rightarrow> (unit, sm) res" where
  "drop_table tab s =
     (case get_table tab (sm_db s) of
        Inl e \<Rightarrow> Err (Throw e) s
      | Inr m \<Rightarrow>
          bindO (drop_indexes tab (tm_indexes m) s) (\<lambda>_ s1.
          bindO (case map_of (fhs s1) tab of
                   None \<Rightarrow> Ok () s1
                 | Some fh \<Rightarrow>
                     bindO (on_bpm (rm_close_file fh) s1) (\<lambda>_ s2. Ok () (s2\<lparr>fhs := map_erase tab (fhs s2)\<rparr>))) (\<lambda>_ s3.
          bindO (on_disk (rm_destroy_file tab) s3) (\<lambda>_ s4.
          Ok () (flush_meta (s4\<lparr>sm_db := (sm_db s4)\<lparr>db_tabs := map_erase tab (db_tabs (sm_db s4))\<rparr>\<rparr>))))))"

text \<open>\<open>create_index\<close> and the two overloads of \<open>drop_index\<close> have empty bodies.\<close>

definition sm_create_index :: "string \<Rightarrow> string list \<Rightarrow> sm \<Rightarrow> (unit, sm) res" where
  "sm_create_index tab col_names s = Ok () s"

definition sm_drop_index :: "string \<Rightarrow> string list \<Rightarrow> sm \<Rightarrow> (unit, sm) res" where
  "sm_drop_index tab col_names s = Ok () s"

end
