(* ===== verification/Planner.thy ===== *)
theory Planner
  imports Analyze System_Manager
begin

text \<open>
  \<open>src/src/optimizer\<close>: query plans, the planner and the optimizer. A class derived from \<open>Plan\<close> is a
  constructor; \<open>NullPlan\<close> is the null pointer, which \<open>pop_scan\<close> returns for a table that is not scanned.
  A plan is changed in place only by \<open>push_conds\<close>, which here returns the changed plan. The planner
  only reads the catalogue.
\<close>

section \<open>plan.h\<close>

datatype PlanTag = T_Invalid | T_Help | T_ShowTable | T_DescTable | T_CreateTable | T_DropTable
  | T_CreateIndex | T_DropIndex | T_Insert | T_Update | T_Delete | T_select | T_Transaction_begin
  | T_Transaction_commit | T_Transaction_abort | T_Transaction_rollback | T_SeqScan | T_IndexScan
  | T_NestLoop | T_Sort | T_Projection

datatype plan =
    NullPlan
  | ScanPlan PlanTag string "ColMeta list" "Condition list" int "string list"
  | JoinPlan PlanTag plan plan "Condition list"
  | ProjectionPlan PlanTag plan "TabCol list"
  | SortPlan PlanTag plan TabCol bool
  | DMLPlan PlanTag plan string "Val list" "Condition list" "SetClause list"
  | DDLPlan PlanTag string "string list" "ColDef list"
  | OtherPlan PlanTag string

text \<open>The constructor of \<open>ScanPlan\<close> reads the catalogue and the last column.\<close>

definition ScanPlan_new :: "DbMeta \<Rightarrow> PlanTag \<Rightarrow> string \<Rightarrow> Condition list \<Rightarrow> string list \<Rightarrow> failure + plan" where
  "ScanPlan_new db tag tab conds index_cols =
     bindE (throwing (get_table tab db)) (\<lambda>m.
       if tm_cols m = [] then Inl OutOfBounds
       else Inr (ScanPlan tag tab (tm_cols m) conds
                   (cm_offset (last (tm_cols m)) + cm_len (last (tm_cols m))) index_cols))"

section \<open>planner.cpp\<close>

definition get_index_cols :: "DbMeta \<Rightarrow> string \<Rightarrow> Condition list \<Rightarrow> failure + bool \<times> string list" where
  "get_index_cols db tab curr_conds =
     (let names = map (\<lambda>c. tc_col (lhs_col c))
                    (filter (\<lambda>c. is_rhs_val c \<and> cop c = OP_EQ \<and> tc_tab (lhs_col c) = tab) curr_conds)
      in bindE (throwing (get_table tab db)) (\<lambda>m. Inr (is_index names m, names)))"

text \<open>\<open>pop_conds\<close> returns the conditions for the table and leaves the others.\<close>

definition pops :: "string \<Rightarrow> Condition \<Rightarrow> bool" where
  "pops tab c \<longleftrightarrow> tab = tc_tab (lhs_col c) \<and> is_rhs_val c \<or> tc_tab (lhs_col c) = tc_tab (rhs_col c)"

definition pop_conds :: "Condition list \<Rightarrow> string \<Rightarrow> Condition list \<times> Condition list" where
  "pop_conds conds tab = (filter (pops tab) conds, filter (\<lambda>c. \<not> pops tab c) conds)"

text \<open>Exchange of the two sides of a condition between columns.\<close>

definition flip_cond :: "Condition \<Rightarrow> Condition" where
  "flip_cond c = c\<lparr>lhs_col := rhs_col c, rhs_col := lhs_col c, cop := swap_op (cop c)\<rparr>"

fun push_conds :: "Condition \<Rightarrow> plan \<Rightarrow> int \<times> plan" where
  "push_conds c (ScanPlan tag tab cols conds len ix) =
     (if tab = tc_tab (lhs_col c) then 1 else if tab = tc_tab (rhs_col c) then 2 else 0,
      ScanPlan tag tab cols conds len ix)"
| "push_conds c (JoinPlan tag l r conds) =
     (let (lres, l') = push_conds c l in
      if lres = 3 then (3, JoinPlan tag l' r conds)
      else
        let (rres, r') = push_conds c r in
        if rres = 3 then (3, JoinPlan tag l' r' conds)
        else if lres = 0 \<or> rres = 0 then (lres + rres, JoinPlan tag l' r' conds)
        else (3, JoinPlan tag l' r' (conds @ [if lres = 2 then flip_cond c else c])))"
| "push_conds c p = (0, p)"

text \<open>
  \<open>pop_scan\<close>: the first scan of the table; \<open>scantbl\<close> remembers which scans are used, \<open>joined\<close> their
  tables. \<open>find_index\<close> is the loop.
\<close>

record join_state =
  scantbl :: "bool list"
  joined :: "string list"

fun find_index :: "('a \<Rightarrow> bool) \<Rightarrow> 'a list \<Rightarrow> nat option" where
  "find_index P [] = None"
| "find_index P (x # xs) = (if P x then Some 0 else map_option Suc (find_index P xs))"

fun scan_tab :: "plan \<Rightarrow> string" where
  "scan_tab (ScanPlan tag tab cols conds len ix) = tab"
| "scan_tab _ = []"

definition pop_scan :: "plan list \<Rightarrow> string \<Rightarrow> join_state \<Rightarrow> plan \<times> join_state" where
  "pop_scan plans tab s =
     (case find_index (\<lambda>p. scan_tab p = tab) plans of
        None \<Rightarrow> (NullPlan, s)
      | Some i \<Rightarrow> (plans ! i, \<lparr>scantbl = (scantbl s)[i := True], joined = joined s @ [scan_tab (plans ! i)]\<rparr>))"

definition logical_optimization :: "Query \<Rightarrow> Query" where
  "logical_optimization q = q"

definition make_scan :: "DbMeta \<Rightarrow> string \<Rightarrow> Condition list \<Rightarrow> failure + plan" where
  "make_scan db tab conds =
     bindE (get_index_cols db tab conds) (\<lambda>(index_exist, names).
       if \<not> index_exist then ScanPlan_new db T_SeqScan tab conds []
       else ScanPlan_new db T_IndexScan tab conds names)"

text \<open>The first loop: one scan per table, with the conditions that remain.\<close>

fun make_scans :: "DbMeta \<Rightarrow> string list \<Rightarrow> Condition list \<Rightarrow> failure + plan list \<times> Condition list" where
  "make_scans db [] conds = Inr ([], conds)"
| "make_scans db (t # ts) conds =
     bindE (make_scan db t (fst (pop_conds conds t))) (\<lambda>p.
     bindE (make_scans db ts (snd (pop_conds conds t))) (\<lambda>(ps, rest). Inr (p # ps, rest)))"

text \<open>One round of the loop over the conditions after the first.\<close>

definition join_cond :: "plan list \<Rightarrow> Condition \<Rightarrow> plan \<times> join_state \<Rightarrow> plan \<times> join_state" where
  "join_cond plans c st =
     (let (tree, s) = st;
          (left, s1) = (if tc_tab (lhs_col c) \<notin> set (joined s) then pop_scan plans (tc_tab (lhs_col c)) s else (NullPlan, s));
          reverse = (tc_tab (rhs_col c) \<notin> set (joined s1));
          (right, s2) = (if reverse then pop_scan plans (tc_tab (rhs_col c)) s1 else (NullPlan, s1))
      in if left \<noteq> NullPlan \<and> right \<noteq> NullPlan then
           (JoinPlan T_NestLoop (JoinPlan T_NestLoop left right [c]) tree [], s2)
         else if left \<noteq> NullPlan \<or> right \<noteq> NullPlan then
           (if reverse then JoinPlan T_NestLoop right tree [flip_cond c]
            else JoinPlan T_NestLoop left tree [c], s2)
         else (snd (push_conds c tree), s2))"

definition first_join :: "plan list \<Rightarrow> Condition \<Rightarrow> join_state \<Rightarrow> plan \<times> join_state" where
  "first_join plans c s =
     (let (left, s1) = pop_scan plans (tc_tab (lhs_col c)) s;
          (right, s2) = pop_scan plans (tc_tab (rhs_col c)) s1
      in (JoinPlan T_NestLoop left right [c], s2))"

text \<open>The last loop: tables that no condition mentions.\<close>

fun join_rest :: "(plan \<times> bool) list \<Rightarrow> plan \<Rightarrow> plan" where
  "join_rest [] tree = tree"
| "join_rest ((p, used) # ps) tree = join_rest ps (if used then tree else JoinPlan T_NestLoop p tree [])"

definition make_one_rel :: "DbMeta \<Rightarrow> Query \<Rightarrow> failure + plan" where
  "make_one_rel db q =
     bindE (make_scans db (q_tables q) (q_conds q)) (\<lambda>(plans, conds).
       if length (q_tables q) = 1 then Inr (plans ! 0)
       else
         let s0 = \<lparr>scantbl = replicate (length plans) False, joined = replicate (length plans) []\<rparr> in
         case conds of
           c # cs \<Rightarrow>
             let (tree, s) = fold (join_cond plans) cs (first_join plans c s0)
             in Inr (join_rest (zip plans (scantbl s)) tree)
         | [] \<Rightarrow>
             if plans = [] then Inl OutOfBounds
             else Inr (join_rest (zip plans ((scantbl s0)[0 := True])) (plans ! 0)))"

definition generate_sort_plan :: "DbMeta \<Rightarrow> Query \<Rightarrow> SelectStmt \<Rightarrow> plan \<Rightarrow> failure + plan" where
  "generate_sort_plan db q x p =
     (case sel_order x of
        None \<Rightarrow> Inr p
      | Some ob \<Rightarrow>
          bindE (get_all_cols db (q_tables q)) (\<lambda>all_cols.
            let hits = filter (\<lambda>c. cm_name c = col_nm (ob_col ob)) all_cols;
                sel_col = (if hits = [] then TabCol_of [] [] else TabCol_of (cm_tab (last hits)) (cm_name (last hits)))
            in Inr (SortPlan T_Sort p sel_col (ob_dir ob = OrderBy_DESC))))"

definition physical_optimization :: "DbMeta \<Rightarrow> Query \<Rightarrow> SelectStmt \<Rightarrow> failure + plan" where
  "physical_optimization db q x = bindE (make_one_rel db q) (generate_sort_plan db q x)"

definition generate_select_plan :: "DbMeta \<Rightarrow> Query \<Rightarrow> SelectStmt \<Rightarrow> failure + plan" where
  "generate_select_plan db q0 x =
     (let q = logical_optimization q0 in
      bindE (physical_optimization db q x) (\<lambda>p. Inr (ProjectionPlan T_Projection p (q_cols q))))"

fun interp_sv_type :: "SvType \<Rightarrow> ColType" where
  "interp_sv_type SV_TYPE_INT = TYPE_INT" | "interp_sv_type SV_TYPE_FLOAT = TYPE_FLOAT"
| "interp_sv_type SV_TYPE_STRING = TYPE_STRING"

fun field_def :: "Field \<Rightarrow> ColDef" where
  "field_def (AstColDef n ty) = \<lparr>cd_name = n, cd_type = interp_sv_type (tl_type ty), cd_len = tl_len ty\<rparr>"

definition do_planner :: "DbMeta \<Rightarrow> Query \<Rightarrow> failure + plan" where
  "do_planner db q =
     (case q_parse q of
        CreateTable tab fs \<Rightarrow> Inr (DDLPlan T_CreateTable tab [] (map field_def fs))
      | DropTable tab \<Rightarrow> Inr (DDLPlan T_DropTable tab [] [])
      | CreateIndex tab cols \<Rightarrow> Inr (DDLPlan T_CreateIndex tab cols [])
      | DropIndex tab cols \<Rightarrow> Inr (DDLPlan T_DropIndex tab cols [])
      | InsertStmt tab vals \<Rightarrow> Inr (DMLPlan T_Insert NullPlan tab (q_values q) [] [])
      | DeleteStmt tab conds \<Rightarrow>
          bindE (make_scan db tab (q_conds q)) (\<lambda>p. Inr (DMLPlan T_Delete p tab [] (q_conds q) []))
      | UpdateStmt tab sets conds \<Rightarrow>
          bindE (make_scan db tab (q_conds q)) (\<lambda>p. Inr (DMLPlan T_Update p tab [] (q_conds q) (q_sets q)))
      | Select x \<Rightarrow>
          bindE (generate_select_plan db q x) (\<lambda>p. Inr (DMLPlan T_select p [] [] [] []))
      | _ \<Rightarrow> Inl (Throw (InternalError ''Unexpected AST root'')))"

section \<open>optimizer.h\<close>

definition plan_query :: "DbMeta \<Rightarrow> Query \<Rightarrow> failure + plan" where
  "plan_query db q =
     (case q_parse q of
        Help \<Rightarrow> Inr (OtherPlan T_Help [])
      | ShowTables \<Rightarrow> Inr (OtherPlan T_ShowTable [])
      | DescTable tab \<Rightarrow> Inr (OtherPlan T_DescTable tab)
      | TxnBegin \<Rightarrow> Inr (OtherPlan T_Transaction_begin [])
      | TxnAbort \<Rightarrow> Inr (OtherPlan T_Transaction_abort [])
      | TxnCommit \<Rightarrow> Inr (OtherPlan T_Transaction_commit [])
      | TxnRollback \<Rightarrow> Inr (OtherPlan T_Transaction_rollback [])
      | _ \<Rightarrow> do_planner db q)"

end
