(* ===== verification/Executors.thy ===== *)
theory Executors
  imports Planner
begin

text \<open>
  \<open>src/src/execution\<close>: the executors. An object of a class derived from \<open>AbstractExecutor\<close> is a value of
  \<open>exec\<close> with its fields; \<open>NullExec\<close> is the null pointer. The pointer \<open>fh_\<close> to a table file is the table's name, and the
  file handle is looked up in \<open>fhs\<close>. \<open>beginTuple\<close> and \<open>nextTuple\<close> are \<open>run_op\<close>; its first argument bounds the depth of the
  tree, the second the iterations of each loop.
\<close>

section \<open>Access to table files and records\<close>

definition map_set :: "'k \<Rightarrow> 'v \<Rightarrow> ('k \<times> 'v) list \<Rightarrow> ('k \<times> 'v) list" where
  "map_set k v m = map (\<lambda>(j, w). if j = k then (j, v) else (j, w)) m"

definition on_fh :: "string \<Rightarrow> (rmfh \<Rightarrow> bpm \<Rightarrow> 'a rm) \<Rightarrow> sm \<Rightarrow> ('a, sm) res" where
  "on_fh tab m s =
     (case map_of (fhs s) tab of
        None \<Rightarrow> Err StdOutOfRange s
      | Some fh \<Rightarrow> liftS (\<lambda>(fh', b). s\<lparr>fhs := map_set tab fh' (fhs s), sm_bpm := b\<rparr>) (m fh (sm_bpm s)))"

text \<open>A read of \<open>n\<close> bytes at \<open>data + off\<close>.\<close>

definition peek :: "bytes \<Rightarrow> int \<Rightarrow> int \<Rightarrow> failure + bytes" where
  "peek data off n =
     (if off < 0 \<or> n < 0 \<or> int (length data) < off + n then Inl OutOfBounds
      else Inr (mem_read data (nat off) (nat n)))"

definition poke :: "bytes \<Rightarrow> int \<Rightarrow> bytes \<Rightarrow> failure + bytes" where
  "poke data off src =
     (if off < 0 \<or> int (length data) < off + int (length src) then Inl OutOfBounds
      else Inr (mem_write data (nat off) src))"

definition deref :: "RmRecord option \<Rightarrow> failure + bytes" where
  "deref r = (case r of None \<Rightarrow> Inl NullDeref | Some x \<Rightarrow> Inr (rec_data x))"

text \<open>The bytes \<open>ix_compare\<close> reads of each argument.\<close>

definition cmp_width :: "ColType \<Rightarrow> int \<Rightarrow> int" where
  "cmp_width t len = (if t = TYPE_STRING then len else 4)"

section \<open>executor_abstract.h\<close>

definition exec_get_col :: "ColMeta list \<Rightarrow> TabCol \<Rightarrow> failure + nat \<times> ColMeta" where
  "exec_get_col rec_cols target =
     (case find_index (\<lambda>c. cm_tab c = tc_tab target \<and> cm_name c = tc_col target) rec_cols of
        None \<Rightarrow> Inl (Throw (ColumnNotFoundError (tc_tab target @ ''.'' @ tc_col target)))
      | Some i \<Rightarrow> Inr (i, rec_cols ! i))"

section \<open>Conditions\<close>

text \<open>\<open>SeqScanExecutor::eval_cond\<close>; \<open>all_of\<close> stops at the first condition that fails.\<close>

definition scan_eval_cond :: "RmRecord option \<Rightarrow> ColMeta list \<Rightarrow> Condition \<Rightarrow> failure + bool" where
  "scan_eval_cond rec rec_cols c =
     bindE (exec_get_col rec_cols (lhs_col c)) (\<lambda>(_, lhs).
     bindE (deref rec) (\<lambda>data.
     bindE (if is_rhs_val c then bindE (deref (raw (rhs_val c))) (\<lambda>d. Inr (d, 0))
            else bindE (exec_get_col rec_cols (rhs_col c)) (\<lambda>(_, rhs). Inr (data, cm_offset rhs))) (\<lambda>(rdata, roff).
     let w = cmp_width (cm_type lhs) (cm_len lhs) in
     bindE (peek data (cm_offset lhs) w) (\<lambda>a.
     bindE (peek rdata roff w) (\<lambda>b.
     Inr (op_holds (cop c) (ix_compare a b (cm_type lhs) (cm_len lhs))))))))"

fun all_of :: "('a \<Rightarrow> failure + bool) \<Rightarrow> 'a list \<Rightarrow> failure + bool" where
  "all_of P [] = Inr True"
| "all_of P (x # xs) = bindE (P x) (\<lambda>b. if b then all_of P xs else Inr False)"

definition scan_eval_conds :: "RmRecord option \<Rightarrow> Condition list \<Rightarrow> ColMeta list \<Rightarrow> failure + bool" where
  "scan_eval_conds rec conds rec_cols = all_of (scan_eval_cond rec rec_cols) conds"

text \<open>
  \<open>NestedLoopJoinExecutor::eval_cond\<close>: the offset in the joined record decides from which of the two
  records a column is read. The offset is compared as a \<open>size_t\<close>.
\<close>

definition join_side :: "int \<Rightarrow> RmRecord option \<Rightarrow> RmRecord option \<Rightarrow> ColMeta \<Rightarrow> failure + bytes \<times> int" where
  "join_side llen lrec rrec c =
     (if cm_offset c mod 2 ^ 64 < llen then bindE (deref lrec) (\<lambda>d. Inr (d, cm_offset c))
      else bindE (deref rrec) (\<lambda>d. Inr (d, cm_offset c - llen)))"

definition join_eval_cond :: "int \<Rightarrow> RmRecord option \<Rightarrow> RmRecord option \<Rightarrow> ColMeta list \<Rightarrow> Condition \<Rightarrow> failure + bool" where
  "join_eval_cond llen lrec rrec rec_cols c =
     bindE (exec_get_col rec_cols (lhs_col c)) (\<lambda>(_, lhs).
     bindE (join_side llen lrec rrec lhs) (\<lambda>(ldata, loff).
     bindE (if is_rhs_val c then bindE (deref (raw (rhs_val c))) (\<lambda>d. Inr (d, 0))
            else bindE (exec_get_col rec_cols (rhs_col c)) (\<lambda>(_, rhs). join_side llen lrec rrec rhs)) (\<lambda>(rdata, roff).
     let w = cmp_width (cm_type lhs) (cm_len lhs) in
     bindE (peek ldata loff w) (\<lambda>a.
     bindE (peek rdata roff w) (\<lambda>b.
     Inr (op_holds (cop c) (ix_compare a b (cm_type lhs) (cm_len lhs))))))))"

definition join_eval_conds :: "int \<Rightarrow> RmRecord option \<Rightarrow> RmRecord option \<Rightarrow> Condition list \<Rightarrow> ColMeta list \<Rightarrow> failure + bool" where
  "join_eval_conds llen lrec rrec conds rec_cols = all_of (join_eval_cond llen lrec rrec rec_cols) conds"

section \<open>Executor trees\<close>

record SeqScan =
  ss_tab :: string
  ss_conds :: "Condition list"
  ss_cols :: "ColMeta list"
  ss_len :: int
  ss_rid :: Rid
  ss_scan :: "Rid option"

datatype exec =
    NullExec
  | SeqScanExec SeqScan
  | IndexScanExec string "Condition list" "ColMeta list" int IndexMeta
  | JoinExec exec exec "ColMeta list" int "Condition list" bool
  | ProjectionExec exec "ColMeta list" int "nat list"
  | SortExec exec TabCol bool
  | InsertExec TabMeta "Val list" string
  | DeleteExec string "Rid list"
  | UpdateExec TabMeta string "SetClause list" "Rid list"

text \<open>\<open>tupleLen\<close> and \<open>cols\<close>; the versions of \<open>AbstractExecutor\<close> return 0 and a null reference.\<close>

fun tupleLen :: "exec \<Rightarrow> failure + int" where
  "tupleLen NullExec = Inl NullDeref"
| "tupleLen (SeqScanExec e) = Inr (ss_len e)"
| "tupleLen (JoinExec l r cols len conds isend) = Inr len"
| "tupleLen (ProjectionExec p cols len idxs) = Inr len"
| "tupleLen _ = Inr 0"

fun exec_cols :: "exec \<Rightarrow> failure + ColMeta list" where
  "exec_cols (SeqScanExec e) = Inr (ss_cols e)"
| "exec_cols (JoinExec l r cols len conds isend) = Inr cols"
| "exec_cols (ProjectionExec p cols len idxs) = Inr cols"
| "exec_cols _ = Inl NullDeref"

fun is_end :: "exec \<Rightarrow> failure + bool" where
  "is_end NullExec = Inl NullDeref"
| "is_end (SeqScanExec e) = (case ss_scan e of None \<Rightarrow> Inl NullDeref | Some r \<Rightarrow> Inr (scan_is_end r))"
| "is_end (JoinExec l r cols len conds isend) = Inr isend"
| "is_end (ProjectionExec p cols len idxs) = is_end p"
| "is_end _ = Inr True"

text \<open>\<open>rid()\<close>: the other executors return \<open>_abstract_rid\<close>, which nobody sets; here \<open>junk\<close>.\<close>

fun exec_rid :: "Rid \<Rightarrow> exec \<Rightarrow> failure + Rid" where
  "exec_rid junk NullExec = Inl NullDeref"
| "exec_rid junk (SeqScanExec e) = Inr (ss_rid e)"
| "exec_rid junk _ = Inr junk"

section \<open>Constructors\<close>

definition pure_sm :: "failure + 'a \<Rightarrow> sm \<Rightarrow> ('a, sm) res" where
  "pure_sm m s = (case m of Inl e \<Rightarrow> Err e s | Inr a \<Rightarrow> Ok a s)"

definition fhs_at :: "string \<Rightarrow> sm \<Rightarrow> failure + unit" where
  "fhs_at tab s = (if map_of (fhs s) tab = None then Inl StdOutOfRange else Inr ())"

definition rec_len :: "ColMeta list \<Rightarrow> failure + int" where
  "rec_len cols = (if cols = [] then Inl OutOfBounds else Inr (cm_offset (last cols) + cm_len (last cols)))"

definition SeqScan_new :: "sm \<Rightarrow> string \<Rightarrow> Condition list \<Rightarrow> Rid \<Rightarrow> failure + exec" where
  "SeqScan_new s tab conds junk =
     bindE (throwing (get_table tab (sm_db s))) (\<lambda>m.
     bindE (fhs_at tab s) (\<lambda>_.
     bindE (rec_len (tm_cols m)) (\<lambda>len.
     Inr (SeqScanExec \<lparr>ss_tab = tab, ss_conds = conds, ss_cols = tm_cols m, ss_len = len, ss_rid = junk, ss_scan = None\<rparr>))))"

definition swap_cond :: "string \<Rightarrow> Condition \<Rightarrow> failure + Condition" where
  "swap_cond tab c =
     (if tc_tab (lhs_col c) = tab then Inr c
      else if \<not> is_rhs_val c \<and> tc_tab (rhs_col c) = tab then Inr (flip_cond c)
      else Inl AssertionFailed)"

definition IndexScan_new :: "sm \<Rightarrow> string \<Rightarrow> Condition list \<Rightarrow> string list \<Rightarrow> failure + exec" where
  "IndexScan_new s tab conds index_cols =
     bindE (throwing (get_table tab (sm_db s))) (\<lambda>m.
     bindE (throwing (get_index_meta index_cols m)) (\<lambda>im.
     bindE (fhs_at tab s) (\<lambda>_.
     bindE (rec_len (tm_cols m)) (\<lambda>len.
     bindE (mapE (swap_cond tab) conds) (\<lambda>conds'.
     Inr (IndexScanExec tab conds' (tm_cols m) len im))))))"

definition Join_new :: "exec \<Rightarrow> exec \<Rightarrow> Condition list \<Rightarrow> failure + exec" where
  "Join_new l r conds =
     bindE (tupleLen l) (\<lambda>ll.
     bindE (tupleLen r) (\<lambda>rl.
     bindE (exec_cols l) (\<lambda>lc.
     bindE (exec_cols r) (\<lambda>rc.
     Inr (JoinExec l r (lc @ map (\<lambda>c. c\<lparr>cm_offset := cm_offset c + ll\<rparr>) rc) (ll + rl) conds False)))))"

fun project_cols :: "ColMeta list \<Rightarrow> int \<Rightarrow> TabCol list \<Rightarrow> failure + (nat \<times> ColMeta) list \<times> int" where
  "project_cols prev off [] = Inr ([], off)"
| "project_cols prev off (t # ts) =
     bindE (exec_get_col prev t) (\<lambda>(i, c).
     bindE (project_cols prev (off + cm_len c) ts) (\<lambda>(xs, len). Inr ((i, c\<lparr>cm_offset := off\<rparr>) # xs, len)))"

definition Projection_new :: "exec \<Rightarrow> TabCol list \<Rightarrow> failure + exec" where
  "Projection_new prev targets =
     (if prev = NullExec then Inl NullDeref
      else if targets = [] then Inr (ProjectionExec prev [] 0 [])
      else bindE (exec_cols prev) (\<lambda>pc.
           bindE (project_cols pc 0 targets) (\<lambda>(xs, len). Inr (ProjectionExec prev (map snd xs) len (map fst xs)))))"

text \<open>\<open>get_col_offset\<close> is not overridden: the sort key is an empty \<open>ColMeta\<close>, which is not read again.\<close>

definition Sort_new :: "exec \<Rightarrow> TabCol \<Rightarrow> bool \<Rightarrow> failure + exec" where
  "Sort_new prev sel_col desc = (if prev = NullExec then Inl NullDeref else Inr (SortExec prev sel_col desc))"

definition Insert_new :: "sm \<Rightarrow> string \<Rightarrow> Val list \<Rightarrow> failure + exec" where
  "Insert_new s tab vals =
     bindE (throwing (get_table tab (sm_db s))) (\<lambda>m.
       if length vals \<noteq> length (tm_cols m) then Inl (Throw InvalidValueCountError)
       else bindE (fhs_at tab s) (\<lambda>_. Inr (InsertExec m vals tab)))"

definition Delete_new :: "sm \<Rightarrow> string \<Rightarrow> Rid list \<Rightarrow> failure + exec" where
  "Delete_new s tab rids =
     bindE (throwing (get_table tab (sm_db s))) (\<lambda>m. bindE (fhs_at tab s) (\<lambda>_. Inr (DeleteExec tab rids)))"

definition Update_new :: "sm \<Rightarrow> string \<Rightarrow> SetClause list \<Rightarrow> Rid list \<Rightarrow> failure + exec" where
  "Update_new s tab sets rids =
     bindE (throwing (get_table tab (sm_db s))) (\<lambda>m. bindE (fhs_at tab s) (\<lambda>_. Inr (UpdateExec m tab sets rids)))"

section \<open>Next\<close>

definition on_rec :: "(nat \<Rightarrow> byte) \<Rightarrow> int \<Rightarrow> (bytes \<Rightarrow> failure + bytes) \<Rightarrow> failure + RmRecord option" where
  "on_rec junk len f =
     (let r = RmRecord_alloc junk len in bindE (f (rec_data r)) (\<lambda>d. Inr (Some (r\<lparr>rec_data := d\<rparr>))))"

text \<open>The loop of \<open>ProjectionExecutor::Next\<close>.\<close>

fun project_fill :: "bytes \<Rightarrow> ColMeta list \<Rightarrow> (ColMeta \<times> nat) list \<Rightarrow> bytes \<Rightarrow> failure + bytes" where
  "project_fill src prev [] dst = Inr dst"
| "project_fill src prev ((c, i) # cs) dst =
     (if length prev \<le> i then Inl OutOfBounds
      else bindE (peek src (cm_offset (prev ! i)) (cm_len c)) (\<lambda>x.
           bindE (poke dst (cm_offset c) x) (project_fill src prev cs)))"

fun exec_tuple :: "(nat \<Rightarrow> byte) \<Rightarrow> exec \<Rightarrow> sm \<Rightarrow> (RmRecord option, sm) res" where
  "exec_tuple junk NullExec s = Err NullDeref s"
| "exec_tuple junk (SeqScanExec e) s = on_fh (ss_tab e) (get_record (ss_rid e)) s"
| "exec_tuple junk (JoinExec l r cols len conds isend) s =
     bindO (exec_tuple junk l s) (\<lambda>lrec s1.
     bindO (exec_tuple junk r s1) (\<lambda>rrec s2.
     pure_sm (bindE (tupleLen l) (\<lambda>ll. bindE (tupleLen r) (\<lambda>rl.
       bindE (deref lrec) (\<lambda>ld. bindE (peek ld 0 ll) (\<lambda>a.
       bindE (deref rrec) (\<lambda>rd. bindE (peek rd 0 rl) (\<lambda>b.
       on_rec junk len (\<lambda>d. bindE (poke d 0 a) (\<lambda>d1. poke d1 ll b))))))))) s2))"
| "exec_tuple junk (ProjectionExec p cols len idxs) s =
     bindO (exec_tuple junk p s) (\<lambda>prec s1.
     pure_sm (on_rec junk len (\<lambda>d.
       if idxs = [] then Inr d
       else bindE (deref prec) (\<lambda>pd. bindE (exec_cols p) (\<lambda>pc. project_fill pd pc (zip cols idxs) d)))) s1)"
| "exec_tuple junk _ s = Ok None s"

section \<open>beginTuple and nextTuple\<close>

text \<open>The loop of \<open>SeqScanExecutor\<close>: the next record that satisfies the conditions.\<close>

fun seq_seek :: "nat \<Rightarrow> SeqScan \<Rightarrow> sm \<Rightarrow> (SeqScan, sm) res" where
  "seq_seek 0 e s = Err NoFuel s"
| "seq_seek (Suc k) e s =
     (case ss_scan e of
        None \<Rightarrow> Err NullDeref s
      | Some r \<Rightarrow>
          if scan_is_end r then Ok e s
          else
            let e1 = e\<lparr>ss_rid := r\<rparr> in
            bindO (on_fh (ss_tab e) (get_record r) s) (\<lambda>rec s1.
            bindO (pure_sm (scan_eval_conds rec (ss_conds e) (ss_cols e)) s1) (\<lambda>hit s2.
              if hit then Ok e1 s2
              else bindO (on_fh (ss_tab e) (scan_next r) s2) (\<lambda>r'. seq_seek k (e1\<lparr>ss_scan := Some r'\<rparr>)))))"

definition seq_begin :: "nat \<Rightarrow> SeqScan \<Rightarrow> sm \<Rightarrow> (SeqScan, sm) res" where
  "seq_begin k e s = bindO (on_fh (ss_tab e) RmScan_new s) (\<lambda>r. seq_seek k (e\<lparr>ss_scan := Some r\<rparr>))"

definition seq_next :: "nat \<Rightarrow> SeqScan \<Rightarrow> sm \<Rightarrow> (SeqScan, sm) res" where
  "seq_next k e s =
     (case ss_scan e of
        None \<Rightarrow> Err AssertionFailed s
      | Some r \<Rightarrow> bindO (on_fh (ss_tab e) (scan_next r) s) (\<lambda>r'. seq_seek k (e\<lparr>ss_scan := Some r'\<rparr>)))"

datatype tuple_op = BeginTuple | NextTuple

type_synonym op_fun = "tuple_op \<Rightarrow> exec \<Rightarrow> sm \<Rightarrow> (exec, sm) res"

text \<open>
  The inner loop of the join: from the current right tuple on, the first that joins with the current left tuple; the
  flag says whether there is one. \<open>ops\<close> is \<open>run_op\<close> for the children.
\<close>

fun right_loop :: "(nat \<Rightarrow> byte) \<Rightarrow> op_fun \<Rightarrow> Condition list \<Rightarrow> ColMeta list \<Rightarrow> nat \<Rightarrow> exec \<Rightarrow> exec \<Rightarrow> sm \<Rightarrow>
    (exec \<times> bool, sm) res" where
  "right_loop junk ops conds cols 0 l r s = Err NoFuel s"
| "right_loop junk ops conds cols (Suc k) l r s =
     bindO (pure_sm (is_end r) s) (\<lambda>fin s1.
       if fin then Ok (r, False) s1
       else
         bindO (exec_tuple junk l s1) (\<lambda>lrec s2.
         bindO (exec_tuple junk r s2) (\<lambda>rrec s3.
         bindO (pure_sm (bindE (tupleLen l) (\<lambda>ll. join_eval_conds ll lrec rrec conds cols)) s3) (\<lambda>hit s4.
           if hit then Ok (r, True) s4
           else bindO (ops NextTuple r s4) (right_loop junk ops conds cols k l)))))"

text \<open>The outer loops of \<open>beginTuple\<close> and of \<open>nextTuple\<close>.\<close>

fun begin_loop :: "(nat \<Rightarrow> byte) \<Rightarrow> op_fun \<Rightarrow> Condition list \<Rightarrow> ColMeta list \<Rightarrow> nat \<Rightarrow> nat \<Rightarrow> exec \<Rightarrow> exec \<Rightarrow> sm \<Rightarrow>
    (exec \<times> exec \<times> bool, sm) res" where
  "begin_loop junk ops conds cols m 0 l r s = Err NoFuel s"
| "begin_loop junk ops conds cols m (Suc k) l r s =
     bindO (pure_sm (is_end l) s) (\<lambda>fin s1.
       if fin then Ok (l, r, False) s1
       else
         bindO (right_loop junk ops conds cols m l r s1) (\<lambda>(r1, hit) s2.
           if hit then Ok (l, r1, True) s2
           else
             bindO (ops NextTuple l s2) (\<lambda>l1 s3.
             bindO (pure_sm (is_end l1) s3) (\<lambda>fin1 s4.
             bindO (if fin1 then Ok r1 s4 else ops BeginTuple r1 s4) (\<lambda>r2.
               begin_loop junk ops conds cols m k l1 r2)))))"

fun next_loop :: "(nat \<Rightarrow> byte) \<Rightarrow> op_fun \<Rightarrow> Condition list \<Rightarrow> ColMeta list \<Rightarrow> nat \<Rightarrow> nat \<Rightarrow> exec \<Rightarrow> exec \<Rightarrow> sm \<Rightarrow>
    (exec \<times> exec \<times> bool, sm) res" where
  "next_loop junk ops conds cols m 0 l r s = Err NoFuel s"
| "next_loop junk ops conds cols m (Suc k) l r s =
     bindO (pure_sm (is_end l) s) (\<lambda>fin s1.
       if fin then Ok (l, r, False) s1
       else
         bindO (ops BeginTuple r s1) (\<lambda>r1 s2.
         bindO (right_loop junk ops conds cols m l r1 s2) (\<lambda>(r2, hit) s3.
           if hit then Ok (l, r2, True) s3
           else bindO (ops NextTuple l s3) (\<lambda>l1. next_loop junk ops conds cols m k l1 r2))))"

definition join_begin :: "(nat \<Rightarrow> byte) \<Rightarrow> op_fun \<Rightarrow> nat \<Rightarrow> exec \<Rightarrow> exec \<Rightarrow> ColMeta list \<Rightarrow> int \<Rightarrow> Condition list \<Rightarrow> bool \<Rightarrow>
    sm \<Rightarrow> (exec, sm) res" where
  "join_begin junk ops k l r cols len conds isend s =
     bindO (ops BeginTuple l s) (\<lambda>l1 s1.
     bindO (pure_sm (is_end l1) s1) (\<lambda>fin s2.
       if fin then Ok (JoinExec l1 r cols len conds True) s2
       else
         bindO (ops BeginTuple r s2) (\<lambda>r1 s3.
         bindO (begin_loop junk ops conds cols k k l1 r1 s3) (\<lambda>(l2, r2, hit) s4.
           if hit then Ok (JoinExec l2 r2 cols len conds isend) s4
           else bindO (pure_sm (is_end l2) s4) (\<lambda>fin1 s5. Ok (JoinExec l2 r2 cols len conds fin1) s5)))))"

definition join_next :: "(nat \<Rightarrow> byte) \<Rightarrow> op_fun \<Rightarrow> nat \<Rightarrow> exec \<Rightarrow> exec \<Rightarrow> ColMeta list \<Rightarrow> int \<Rightarrow> Condition list \<Rightarrow> bool \<Rightarrow>
    sm \<Rightarrow> (exec, sm) res" where
  "join_next junk ops k l r cols len conds isend s =
     bindO (pure_sm (is_end l) s) (\<lambda>fin s1.
       if fin then Err AssertionFailed s1
       else
         bindO (ops NextTuple r s1) (\<lambda>r1 s2.
         bindO (right_loop junk ops conds cols k l r1 s2) (\<lambda>(r2, hit) s3.
           if hit then Ok (JoinExec l r2 cols len conds isend) s3
           else
             bindO (ops NextTuple l s3) (\<lambda>l1 s4.
             bindO (next_loop junk ops conds cols k k l1 r2 s4) (\<lambda>(l2, r3, hit2) s5.
               Ok (JoinExec l2 r3 cols len conds (if hit2 then isend else True)) s5)))))"

fun run_op :: "(nat \<Rightarrow> byte) \<Rightarrow> nat \<Rightarrow> nat \<Rightarrow> op_fun" where
  "run_op junk 0 k oper e s = Err NoFuel s"
| "run_op junk (Suc d) k oper e s =
     (case e of
        NullExec \<Rightarrow> Err NullDeref s
      | SeqScanExec x \<Rightarrow>
          bindO (if oper = BeginTuple then seq_begin k x s else seq_next k x s) (\<lambda>x' s1. Ok (SeqScanExec x') s1)
      | JoinExec l r cols len conds isend \<Rightarrow>
          if oper = BeginTuple then join_begin junk (run_op junk d k) k l r cols len conds isend s
          else join_next junk (run_op junk d k) k l r cols len conds isend s
      | ProjectionExec p cols len idxs \<Rightarrow>
          bindO (run_op junk d k oper p s) (\<lambda>p' s1. Ok (ProjectionExec p' cols len idxs) s1)
      | _ \<Rightarrow> Ok e s)"

section \<open>Insert, delete, update\<close>

definition fill_value :: "(nat \<Rightarrow> byte) \<Rightarrow> ColMeta \<Rightarrow> Val \<Rightarrow> failure + bytes \<Rightarrow> failure + bytes" where
  "fill_value junk col v dst =
     bindE (check_types (cm_type col) (vtype v)) (\<lambda>_.
     bindE (run_init_raw junk (cm_len col) v) (\<lambda>v'.
     bindE (deref (raw v')) (\<lambda>x.
     bindE (peek x 0 (cm_len col)) (\<lambda>y.
     bindE dst (\<lambda>d. poke d (cm_offset col) y)))))"

fun fill_values :: "(nat \<Rightarrow> byte) \<Rightarrow> (ColMeta \<times> Val) list \<Rightarrow> bytes \<Rightarrow> failure + bytes" where
  "fill_values junk [] d = Inr d"
| "fill_values junk ((col, v) # cvs) d = bindE (fill_value junk col v (Inr d)) (fill_values junk cvs)"

text \<open>The key of an index: the bytes of its columns one after the other.\<close>

fun index_key :: "bytes \<Rightarrow> ColMeta list \<Rightarrow> failure + bytes" where
  "index_key d [] = Inr []"
| "index_key d (c # cs) = bindE (peek d (cm_offset c) (cm_len c)) (\<lambda>x. bindE (index_key d cs) (\<lambda>k. Inr (x @ k)))"

fun insert_indexes :: "string \<Rightarrow> bytes \<Rightarrow> Rid \<Rightarrow> IndexMeta list \<Rightarrow> sm \<Rightarrow> (unit, sm) res" where
  "insert_indexes tab d rid [] s = Ok () s"
| "insert_indexes tab d rid (i # is) s =
     (case map_of (ihs s) (index_file tab (im_cols i)) of
        None \<Rightarrow> Err StdOutOfRange s
      | Some ih \<Rightarrow>
          if im_num i < 0 \<or> int (length (im_cols i)) < im_num i then Err OutOfBounds s
          else
            bindO (pure_sm (index_key d (take (nat (im_num i)) (im_cols i))) s) (\<lambda>key s1.
              if im_tot_len i < int (length key) then Err OutOfBounds s1
              else bindO (liftS (\<lambda>(ih', b). s1\<lparr>ihs := map_set (index_file tab (im_cols i)) ih' (ihs s1), sm_bpm := b\<rparr>)
                            (insert_entry key rid ih (sm_bpm s1)))
                     (\<lambda>_. insert_indexes tab d rid is)))"

definition insert_next :: "(nat \<Rightarrow> byte) \<Rightarrow> TabMeta \<Rightarrow> Val list \<Rightarrow> string \<Rightarrow> sm \<Rightarrow> (RmRecord option, sm) res" where
  "insert_next junk m vals tab s =
     (case map_of (fhs s) tab of
        None \<Rightarrow> Err StdOutOfRange s
      | Some fh \<Rightarrow>
          bindO (pure_sm (fill_values junk (zip (tm_cols m) vals) (map junk [0..<nat (record_size (file_hdr fh))])) s) (\<lambda>d s1.
          bindO (on_fh tab (insert_record d) s1) (\<lambda>rid s2.
          bindO (insert_indexes tab d rid (tm_indexes m) s2) (\<lambda>_ s3. Ok None s3))))"

fun delete_rids :: "string \<Rightarrow> Rid list \<Rightarrow> sm \<Rightarrow> (unit, sm) res" where
  "delete_rids tab [] s = Ok () s"
| "delete_rids tab (r # rs) s = bindO (on_fh tab (delete_record r) s) (\<lambda>_. delete_rids tab rs)"

text \<open>\<open>UpdateExecutor\<close>: the new value is encoded again for every record; \<open>reset\<close> drops the old encoding.\<close>

fun apply_sets :: "(nat \<Rightarrow> byte) \<Rightarrow> TabMeta \<Rightarrow> SetClause list \<Rightarrow> failure + bytes \<Rightarrow> failure + bytes" where
  "apply_sets junk m [] dst = dst"
| "apply_sets junk m (sc # scs) dst =
     bindE (throwing (tab_get_col (tc_col (sc_lhs sc)) m)) (\<lambda>col.
     bindE (fill_value junk col ((sc_rhs sc)\<lparr>raw := None\<rparr>) dst) (\<lambda>d. apply_sets junk m scs (Inr d)))"

fun update_rids :: "(nat \<Rightarrow> byte) \<Rightarrow> TabMeta \<Rightarrow> string \<Rightarrow> SetClause list \<Rightarrow> Rid list \<Rightarrow> sm \<Rightarrow> (unit, sm) res" where
  "update_rids junk m tab sets [] s = Ok () s"
| "update_rids junk m tab sets (r # rs) s =
     bindO (on_fh tab (get_record r) s) (\<lambda>rec s1.
     bindO (pure_sm (apply_sets junk m sets (deref rec)) s1) (\<lambda>d s2.
     bindO (on_fh tab (update_record r d) s2) (\<lambda>_. update_rids junk m tab sets rs)))"

text \<open>\<open>Next\<close> of every executor.\<close>

definition exec_next :: "(nat \<Rightarrow> byte) \<Rightarrow> exec \<Rightarrow> sm \<Rightarrow> (RmRecord option, sm) res" where
  "exec_next junk e s =
     (case e of
        InsertExec m vals tab \<Rightarrow> insert_next junk m vals tab s
      | DeleteExec tab rids \<Rightarrow> bindO (delete_rids tab rids s) (\<lambda>_. Ok None)
      | UpdateExec m tab sets rids \<Rightarrow> bindO (update_rids junk m tab sets rids s) (\<lambda>_. Ok None)
      | _ \<Rightarrow> exec_tuple junk e s)"

section \<open>Rules\<close>

lemma pure_sm_Ok_iff [outcome_simps]: "pure_sm m s = Ok a t \<longleftrightarrow> m = Inr a \<and> t = s"
  by (cases m) (auto simp: pure_sm_def)

lemma pure_sm_simps [simp]: "pure_sm (Inr a) s = Ok a s" "pure_sm (Inl e) s = Err e s"
  by (simp_all add: pure_sm_def)

end
