(* ===== verification/Execution.thy ===== *)
theory Execution
  imports Executors Transactions
begin

text \<open>
  \<open>src/src/portal.h\<close>, \<open>src/src/execution/execution_manager.cpp\<close> and the request loop of \<open>src/src/rmdb.cpp\<close>: from a
  plan to executors, running them, printing the result, and answering a client. A \<open>session\<close> is what a client thread works on:
  the system manager, the context with the reply and the transaction, and the transaction manager. Fuel is in three arguments:
  \<open>d\<close> the depth of the executor tree, \<open>k\<close> the iterations of the loops of one executor, \<open>n\<close> the rows of a loop over the root.
\<close>

section \<open>Values as text\<close>

text \<open>
  \<open>std::to_string(float)\<close> prints with \<open>%f\<close>: six decimals of the exact value, rounded to nearest, ties to even.
\<close>

definition pad6 :: "nat \<Rightarrow> string" where
  "pad6 n = (let s = nat_to_string n in replicate (6 - length s) CHR ''0'' @ s)"

definition float_to_string :: "32 word \<Rightarrow> string" where
  "float_to_string w =
     (let mag = nat (float_mag w); ex = mag div 2 ^ 23; frac = mag mod 2 ^ 23;
          sign = (if float_neg w then ''-'' else [])
      in if ex = 255 then sign @ (if frac = 0 then ''inf'' else ''nan'')
         else
           let m = (if ex = 0 then frac else frac + 2 ^ 23);
               e = (if ex = 0 then 1 else ex);
               micros = (if 150 \<le> e then m * 2 ^ (e - 150) * 10 ^ 6 else round_half_even (m * 10 ^ 6) (2 ^ (150 - e)))
           in sign @ nat_to_string (micros div 10 ^ 6) @ ''.'' @ pad6 (micros mod 10 ^ 6))"

text \<open>One column of a tuple: a string ends at its first NUL.\<close>

definition col_text :: "RmRecord option \<Rightarrow> ColMeta \<Rightarrow> failure + string" where
  "col_text tuple c =
     bindE (deref tuple) (\<lambda>data.
       case cm_type c of
         TYPE_INT \<Rightarrow> bindE (peek data (cm_offset c) 4) (\<lambda>x. Inr (to_string (dec32 x)))
       | TYPE_FLOAT \<Rightarrow> bindE (peek data (cm_offset c) 4) (\<lambda>x. Inr (float_to_string (dec_word x)))
       | TYPE_STRING \<Rightarrow> bindE (peek data (cm_offset c) (cm_len c)) (\<lambda>x. Inr (bytes_str (takeWhile (\<lambda>b. b \<noteq> 0) x))))"

section \<open>portal.h: executors\<close>

fun convert_plan_executor :: "Rid \<Rightarrow> plan \<Rightarrow> sm \<Rightarrow> failure + exec" where
  "convert_plan_executor junk (ProjectionPlan tag p targets) s =
     bindE (convert_plan_executor junk p s) (\<lambda>e. Projection_new e targets)"
| "convert_plan_executor junk (ScanPlan tag tab cols conds len index_cols) s =
     (if tag = T_SeqScan then SeqScan_new s tab conds junk else IndexScan_new s tab conds index_cols)"
| "convert_plan_executor junk (JoinPlan tag l r conds) s =
     bindE (convert_plan_executor junk l s) (\<lambda>el.
     bindE (convert_plan_executor junk r s) (\<lambda>er. Join_new el er conds))"
| "convert_plan_executor junk (SortPlan tag p c desc) s = bindE (convert_plan_executor junk p s) (\<lambda>e. Sort_new e c desc)"
| "convert_plan_executor junk _ s = Inr NullExec"

text \<open>The loop that collects the record ids to change.\<close>

fun rids_loop :: "(nat \<Rightarrow> byte) \<Rightarrow> Rid \<Rightarrow> nat \<Rightarrow> nat \<Rightarrow> nat \<Rightarrow> exec \<Rightarrow> sm \<Rightarrow> (Rid list, sm) res" where
  "rids_loop junk jr d k 0 e s = Err NoFuel s"
| "rids_loop junk jr d k (Suc n) e s =
     bindO (pure_sm (is_end e) s) (\<lambda>fin s1.
       if fin then Ok [] s1
       else
         bindO (pure_sm (exec_rid jr e) s1) (\<lambda>rid s2.
         bindO (run_op junk d k NextTuple e s2) (\<lambda>e1 s3.
         bindO (rids_loop junk jr d k n e1 s3) (\<lambda>rids s4. Ok (rid # rids) s4))))"

definition collect_rids :: "(nat \<Rightarrow> byte) \<Rightarrow> Rid \<Rightarrow> nat \<Rightarrow> nat \<Rightarrow> nat \<Rightarrow> exec \<Rightarrow> sm \<Rightarrow> (Rid list, sm) res" where
  "collect_rids junk jr d k n e s = bindO (run_op junk d k BeginTuple e s) (rids_loop junk jr d k n)"

datatype portalTag = PORTAL_Invalid_Query | PORTAL_ONE_SELECT | PORTAL_DML_WITHOUT_SELECT | PORTAL_MULTI_QUERY | PORTAL_CMD_UTILITY

record PortalStmt =
  ps_tag :: portalTag
  ps_cols :: "TabCol list"
  ps_root :: exec
  ps_plan :: plan

definition PortalStmt_new :: "portalTag \<Rightarrow> TabCol list \<Rightarrow> exec \<Rightarrow> plan \<Rightarrow> PortalStmt" where
  "PortalStmt_new tag cols root p = \<lparr>ps_tag = tag, ps_cols = cols, ps_root = root, ps_plan = p\<rparr>"

text \<open>A \<open>SELECT\<close> plan always has a projection at its root; any other root is a failed cast and a null pointer.\<close>

definition portal_start :: "(nat \<Rightarrow> byte) \<Rightarrow> Rid \<Rightarrow> nat \<Rightarrow> nat \<Rightarrow> nat \<Rightarrow> plan \<Rightarrow> sm \<Rightarrow> (PortalStmt, sm) res" where
  "portal_start junk jr d k n p s =
     (case p of
        OtherPlan tag tab \<Rightarrow> Ok (PortalStmt_new PORTAL_CMD_UTILITY [] NullExec p) s
      | DDLPlan tag tab cols defs \<Rightarrow> Ok (PortalStmt_new PORTAL_MULTI_QUERY [] NullExec p) s
      | DMLPlan tag sub tab vals conds sets \<Rightarrow>
          (case tag of
             T_select \<Rightarrow>
               (case sub of
                  ProjectionPlan ptag pp targets \<Rightarrow>
                    bindO (pure_sm (convert_plan_executor jr sub s) s) (\<lambda>root s1.
                    Ok (PortalStmt_new PORTAL_ONE_SELECT targets root p) s1)
                | _ \<Rightarrow> Err NullDeref s)
           | T_Update \<Rightarrow>
               bindO (pure_sm (convert_plan_executor jr sub s) s) (\<lambda>scan s1.
               bindO (collect_rids junk jr d k n scan s1) (\<lambda>rids s2.
               bindO (pure_sm (Update_new s2 tab sets rids) s2) (\<lambda>root s3.
               Ok (PortalStmt_new PORTAL_DML_WITHOUT_SELECT [] root p) s3)))
           | T_Delete \<Rightarrow>
               bindO (pure_sm (convert_plan_executor jr sub s) s) (\<lambda>scan s1.
               bindO (collect_rids junk jr d k n scan s1) (\<lambda>rids s2.
               bindO (pure_sm (Delete_new s2 tab rids) s2) (\<lambda>root s3.
               Ok (PortalStmt_new PORTAL_DML_WITHOUT_SELECT [] root p) s3)))
           | T_Insert \<Rightarrow>
               bindO (pure_sm (Insert_new s tab vals) s) (\<lambda>root s1.
               Ok (PortalStmt_new PORTAL_DML_WITHOUT_SELECT [] root p) s1)
           | _ \<Rightarrow> Err (Throw (InternalError ''Unexpected field type'')) s)
      | _ \<Rightarrow> Err (Throw (InternalError ''Unexpected field type'')) s)"

section \<open>execution_manager.cpp\<close>

definition help_info :: string where
  "help_info = concat (map (\<lambda>l. l @ [CHR 0x0A])
     [''Supported SQL syntax:'',
      ''  command ;'',
      ''command:'',
      ''  CREATE TABLE table_name (column_name type [, column_name type ...])'',
      ''  DROP TABLE table_name'',
      ''  CREATE INDEX table_name (column_name)'',
      ''  DROP INDEX table_name (column_name)'',
      ''  INSERT INTO table_name VALUES (value [, value ...])'',
      ''  DELETE FROM table_name [WHERE where_clause]'',
      ''  UPDATE table_name SET column_name = value [, column_name = value ...] [WHERE where_clause]'',
      ''  SELECT selector FROM table_name [WHERE where_clause]'',
      ''type:'',
      ''  {INT | FLOAT | CHAR(n)}'',
      ''where_clause:'',
      ''  condition [AND condition ...]'',
      ''condition:'',
      ''  column op {column | value}'',
      ''column:'',
      ''  [table_name.]column_name'',
      ''op:'',
      ''  {= | <> | < | > | <= | >=}'',
      ''selector:'',
      ''  {* | column [, column ...]}''])"

definition run_mutli_query :: "bytes \<Rightarrow> plan \<Rightarrow> sm \<Rightarrow> (unit, sm) res" where
  "run_mutli_query junk p s =
     (case p of
        DDLPlan tag tab cols defs \<Rightarrow>
          (case tag of
             T_CreateTable \<Rightarrow> create_table junk tab defs s
           | T_DropTable \<Rightarrow> drop_table tab s
           | T_CreateIndex \<Rightarrow> sm_create_index tab cols s
           | T_DropIndex \<Rightarrow> sm_drop_index tab cols s
           | _ \<Rightarrow> Err (Throw (InternalError ''Unexpected field type'')) s)
      | _ \<Rightarrow> Ok () s)"

record session =
  se_sm :: sm
  se_ctx :: ctx
  se_txn :: "Transaction option"
  se_tm :: TransactionManager

definition on_stmt :: "(sm \<times> ctx \<Rightarrow> 'a stmt) \<Rightarrow> session \<Rightarrow> ('a, session) res" where
  "on_stmt m se = liftS (\<lambda>(s, c). se\<lparr>se_sm := s, se_ctx := c\<rparr>) (m (se_sm se, se_ctx se))"

definition on_sess_sm :: "(sm \<Rightarrow> ('a, sm) res) \<Rightarrow> session \<Rightarrow> ('a, session) res" where
  "on_sess_sm m se = liftS (\<lambda>s. se\<lparr>se_sm := s\<rparr>) (m (se_sm se))"

text \<open>\<open>commit\<close>, \<open>abort\<close> and \<open>rollback\<close> look up the transaction of the client first.\<close>

definition end_txn :: "(Transaction option \<Rightarrow> TransactionManager \<Rightarrow> TransactionManager) \<Rightarrow> nat \<Rightarrow> int \<Rightarrow> session \<Rightarrow> (unit, session) res" where
  "end_txn oper thread txn_id se =
     (case get_transaction thread txn_id (se_tm se) of
        Inl e \<Rightarrow> Err e se
      | Inr t \<Rightarrow> Ok () (se\<lparr>se_txn := t, se_tm := oper t (se_tm se)\<rparr>))"

definition run_cmd_utility :: "plan \<Rightarrow> nat \<Rightarrow> int \<Rightarrow> session \<Rightarrow> (unit, session) res" where
  "run_cmd_utility p thread txn_id se =
     (case p of
        OtherPlan tag tab \<Rightarrow>
          (case tag of
             T_Help \<Rightarrow>
               bindO (on_stmt (on_ctx (send_copy help_info)) se) (\<lambda>_ se1.
               Ok () (se1\<lparr>se_ctx := (se_ctx se1)\<lparr>send_offset := length help_info\<rparr>\<rparr>))
           | T_ShowTable \<Rightarrow> on_stmt (\<lambda>(s, c). show_tables s c) se
           | T_DescTable \<Rightarrow> on_stmt (\<lambda>(s, c). desc_table tab s c) se
           | T_Transaction_begin \<Rightarrow>
               (case se_txn se of
                  None \<Rightarrow> Err NullDeref se
                | Some t \<Rightarrow> Ok () (se\<lparr>se_txn := Some (set_txn_mode True t)\<rparr>))
           | T_Transaction_commit \<Rightarrow> end_txn txn_commit thread txn_id se
           | T_Transaction_rollback \<Rightarrow> end_txn txn_abort thread txn_id se
           | T_Transaction_abort \<Rightarrow> end_txn txn_abort thread txn_id se
           | _ \<Rightarrow> Err (Throw (InternalError ''Unexpected field type'')) se)
      | _ \<Rightarrow> Ok () se)"

text \<open>
  The loop of \<open>select_from\<close>. The third part of the state is the text that waits in the stream \<open>outfile\<close>; it reaches the file when
  the stream is closed, also when an exception leaves the function.
\<close>

definition on_fst :: "('s \<Rightarrow> ('a, 's) res) \<Rightarrow> 's \<times> ctx \<times> string \<Rightarrow> ('a, 's \<times> ctx \<times> string) res" where
  "on_fst m st = liftS (\<lambda>s. (s, snd st)) (m (fst st))"

definition on_snd :: "(ctx \<Rightarrow> ('a, ctx) res) \<Rightarrow> 's \<times> ctx \<times> string \<Rightarrow> ('a, 's \<times> ctx \<times> string) res" where
  "on_snd m st = liftS (\<lambda>c. (fst st, c, snd (snd st))) (m (fst (snd st)))"

fun select_loop :: "(nat \<Rightarrow> byte) \<Rightarrow> nat \<Rightarrow> nat \<Rightarrow> nat \<Rightarrow> nat \<Rightarrow> exec \<Rightarrow> nat \<Rightarrow> sm \<times> ctx \<times> string \<Rightarrow> (nat, sm \<times> ctx \<times> string) res" where
  "select_loop junk d k 0 w e num_rec st = Err NoFuel st"
| "select_loop junk d k (Suc n) w e num_rec st =
     bindO (on_fst (pure_sm (is_end e)) st) (\<lambda>fin st1.
       if fin then Ok num_rec st1
       else
         bindO (on_fst (exec_next junk e) st1) (\<lambda>tuple st2.
         bindO (on_fst (pure_sm (bindE (exec_cols e) (mapE (col_text tuple)))) st2) (\<lambda>columns st3.
         bindO (on_snd (print_record_row w columns) st3) (\<lambda>_ (s4, c4, out).
         bindO (on_fst (run_op junk d k NextTuple e) (s4, c4, out @ out_row columns)) (\<lambda>e1.
         select_loop junk d k n w e1 (num_rec + 1))))))"

definition select_from :: "(nat \<Rightarrow> byte) \<Rightarrow> nat \<Rightarrow> nat \<Rightarrow> nat \<Rightarrow> exec \<Rightarrow> TabCol list \<Rightarrow> sm \<times> ctx \<Rightarrow> unit stmt" where
  "select_from junk d k n root targets st =
     (let captions = map tc_col targets in
      bindO (RecordPrinter_new (length targets) st) (\<lambda>w st0.
      bindO (on_ctx (\<lambda>c.
        bindO (print_separator w c) (\<lambda>_ c1.
        bindO (print_record_row w captions c1) (\<lambda>_ c2.
        print_separator w c2))) st0) (\<lambda>_ (s1, c1).
      bindO (liftS (\<lambda>(s, c, out). (outfile_put out s, c))
               (bindO (on_fst (run_op junk d k BeginTuple root) (s1, c1, out_row captions)) (\<lambda>e.
                 select_loop junk d k n w e 0))) (\<lambda>num_rec st2.
      on_ctx (\<lambda>c. bindO (print_separator w c) (\<lambda>_. print_record_count num_rec)) st2))))"

definition run_dml :: "(nat \<Rightarrow> byte) \<Rightarrow> exec \<Rightarrow> sm \<Rightarrow> (unit, sm) res" where
  "run_dml junk e s = (if e = NullExec then Err NullDeref s else bindO (exec_next junk e s) (\<lambda>_. Ok ()))"

definition portal_run :: "(nat \<Rightarrow> byte) \<Rightarrow> bytes \<Rightarrow> nat \<Rightarrow> nat \<Rightarrow> nat \<Rightarrow> PortalStmt \<Rightarrow> nat \<Rightarrow> int \<Rightarrow> session \<Rightarrow> (unit, session) res" where
  "portal_run junk jb d k n stmt thread txn_id se =
     (case ps_tag stmt of
        PORTAL_ONE_SELECT \<Rightarrow> on_stmt (select_from junk d k n (ps_root stmt) (ps_cols stmt)) se
      | PORTAL_DML_WITHOUT_SELECT \<Rightarrow> on_sess_sm (run_dml junk (ps_root stmt)) se
      | PORTAL_MULTI_QUERY \<Rightarrow> on_sess_sm (run_mutli_query jb (ps_plan stmt)) se
      | PORTAL_CMD_UTILITY \<Rightarrow> run_cmd_utility (ps_plan stmt) thread txn_id se
      | PORTAL_Invalid_Query \<Rightarrow> Err (Throw (InternalError ''Unexpected field type'')) se)"

end
