(* ===== verification/Scan_Properties.thy ===== *)
theory Scan_Properties
  imports Table_Reads Execution
begin

text \<open>
  The sequential scan on an open database. \<open>open_ok P s\<close>: every open table is valid, tables have different names and files, and the
  pages in use and those of the tables, the set \<open>P\<close>, fit into the pool. \<open>quiet s s'\<close>: a step that changed no table.
\<close>

section \<open>The open database\<close>

definition open_ok :: "PageId set \<Rightarrow> sm \<Rightarrow> bool" where
  "open_ok P s \<longleftrightarrow> room P (sm_bpm s) \<and> distinct (map fst (fhs s)) \<and> distinct (map (\<lambda>e. fh_fd (snd e)) (fhs s)) \<and>
     (\<forall>(t, fh) \<in> set (fhs s). rm_inv fh (sm_bpm s) \<and> file_pids fh \<subseteq> P)"

definition quiet :: "sm \<Rightarrow> sm \<Rightarrow> bool" where
  "quiet s s' \<longleftrightarrow> fhs s' = fhs s \<and> ihs s' = ihs s \<and> sm_db s' = sm_db s \<and>
     (\<forall>(t, fh) \<in> set (fhs s). rm_abs fh (sm_bpm s') = rm_abs fh (sm_bpm s))"

lemma quiet_refl [simp]: "quiet s s"
  by (auto simp: quiet_def)

lemma quiet_trans [trans]: "quiet a b \<Longrightarrow> quiet b c \<Longrightarrow> quiet a c"
  by (fastforce simp: quiet_def)

lemma map_set_same: "map_of m k = Some v \<Longrightarrow> distinct (map fst m) \<Longrightarrow> map_set k v m = m"
  unfolding map_set_def by (rule map_idI) (auto simp: eq_key_imp_eq_value dest: map_of_SomeD)

lemma db_table:
  assumes "open_ok P s" and "map_of (fhs s) t = Some fh"
  shows "rm_inv fh (sm_bpm s)" and "file_pids fh \<subseteq> P" and "room P (sm_bpm s)"
  using assms map_of_SomeD by (fastforce simp: open_ok_def)+

text \<open>An operation that reads the pages of one table is a quiet step of the database.\<close>

lemma on_fh_reads:
  assumes ok: "open_ok P s" and t: "map_of (fhs s) t = Some fh" and m: "m fh (sm_bpm s) = Ok a (fh, b')"
    and rd: "reads P (file_pids fh) (sm_bpm s) b'"
  shows "on_fh t m s = Ok a (s\<lparr>sm_bpm := b'\<rparr>)" and "open_ok P (s\<lparr>sm_bpm := b'\<rparr>)" and "quiet s (s\<lparr>sm_bpm := b'\<rparr>)"
proof -
  have d: "distinct (map fst (fhs s))" "distinct (map (\<lambda>e. fh_fd (snd e)) (fhs s))" using ok by (auto simp: open_ok_def)
  show "on_fh t m s = Ok a (s\<lparr>sm_bpm := b'\<rparr>)" using t m map_set_same [OF t d(1)] by (simp add: on_fh_def)
  have keep: "rm_inv fh' b' \<and> rm_abs fh' b' = rm_abs fh' (sm_bpm s)" if e: "(t', fh') \<in> set (fhs s)" for t' fh'
  proof -
    have inv: "rm_inv fh' (sm_bpm s)" using ok e by (auto simp: open_ok_def)
    have "PageId_of (fh_fd fh') p \<notin> file_pids fh" if p: "num_pages (file_hdr fh') \<le> p" for p
    proof (cases "fh_fd fh' = fh_fd fh")
      case True
      have "(t, fh) \<in> set (fhs s)" using map_of_SomeD [OF t] .
      moreover have "inj_on (\<lambda>e. fh_fd (snd e)) (set (fhs s))" using d(2) by (simp add: distinct_map)
      ultimately have "(t', fh') = (t, fh)" 
        using e True by (intro inj_onD [of "\<lambda>e. fh_fd (snd e)" "set (fhs s)"]) simp_all
      then show ?thesis using file_pids_new p by blast
    qed (use file_pids_other in blast)
    then show ?thesis using reads_table [OF inv rd] by blast
  qed
  show "open_ok P (s\<lparr>sm_bpm := b'\<rparr>)" using ok keep rd by (auto simp: open_ok_def reads_def)
  show "quiet s (s\<lparr>sm_bpm := b'\<rparr>)" using keep by (auto simp: quiet_def)
qed

definition rec_of :: "rmfh \<Rightarrow> bytes \<Rightarrow> RmRecord" where
  "rec_of fh x = \<lparr>rec_data = x, rec_size = record_size (file_hdr fh), allocated = True\<rparr>"

lemma get_record_quiet:
  assumes ok: "open_ok P s" and t: "map_of (fhs s) t = Some fh" and x: "rm_abs fh (sm_bpm s) rid = Some x"
  shows "\<exists>s'. on_fh t (get_record rid) s = Ok (Some (rec_of fh x)) s' \<and> open_ok P s' \<and> quiet s s'"
proof -
  note d = db_table [OF ok t]
  obtain b' where "get_record rid fh (sm_bpm s) = Ok (Some (rec_of fh x)) (fh, b')" "reads P (file_pids fh) (sm_bpm s) b'"
    using get_record_reads [OF d(1,3,2) x] by (auto simp: rec_of_def)
  from on_fh_reads [OF ok t, where m = "get_record rid", OF this] show ?thesis by blast
qed

lemma scan_from_quiet:
  assumes ok: "open_ok P s" and t: "map_of (fhs s) t = Some fh" and p: "1 \<le> p" "- 1 \<le> i" "i < num_records_per_page (file_hdr fh)"
  shows "\<exists>r s'. on_fh t (scan_from p i) s = Ok r s' \<and> open_ok P s' \<and> quiet s s' \<and> next_rid fh (sm_bpm s) (Rid_of p i) r"
proof -
  note d = db_table [OF ok t]
  obtain r b' where r: "scan_from p i fh (sm_bpm s) = Ok r (fh, b')" "next_rid fh (sm_bpm s) (Rid_of p i) r"
    using scan_from_ok [OF d(1) room_frame_free [OF d(3)] p] by blast
  have "reads P (file_pids fh) (sm_bpm s) b'" using scan_from_reads [OF d(1,3,2) p(1) r(1)] .
  from on_fh_reads [OF ok t, where m = "scan_from p i", OF r(1) this] r(2) show ?thesis by blast
qed

text \<open>A quiet step keeps the handles and the contents of the tables.\<close>

lemma quiet_table:
  assumes "quiet s s'" and "map_of (fhs s) t = Some fh"
  shows "map_of (fhs s') t = Some fh" and "rm_abs fh (sm_bpm s') = rm_abs fh (sm_bpm s)"
  using assms map_of_SomeD by (fastforce simp: quiet_def)+

section \<open>Seeking\<close>

text \<open>
  \<open>sel\<close> says which records satisfy the conditions of the scan; \<open>hit T sel from r\<close>: \<open>r\<close> is the first such record behind \<open>from\<close>,
  or the end mark.
\<close>

definition hit :: "(Rid \<rightharpoonup> bytes) \<Rightarrow> (bytes \<Rightarrow> bool) \<Rightarrow> Rid \<Rightarrow> Rid \<Rightarrow> bool" where
  "hit T sel from r \<longleftrightarrow>
     (if scan_is_end r then \<forall>x v. T x = Some v \<longrightarrow> rid_lt from x \<longrightarrow> \<not> sel v
      else (\<exists>v. T r = Some v \<and> sel v) \<and> rid_lt from r \<and>
        (\<forall>x v. T x = Some v \<longrightarrow> rid_lt from x \<longrightarrow> sel v \<longrightarrow> x = r \<or> rid_lt r x))"

definition scan_sel :: "rmfh \<Rightarrow> SeqScan \<Rightarrow> (Rid \<rightharpoonup> bytes) \<Rightarrow> (bytes \<Rightarrow> bool) \<Rightarrow> bool" where
  "scan_sel fh e T sel \<longleftrightarrow>
     (\<forall>x \<in> ran T. scan_eval_conds (Some (rec_of fh x)) (ss_conds e) (ss_cols e) = Inr (sel x))"

definition same_scan :: "SeqScan \<Rightarrow> SeqScan \<Rightarrow> bool" where
  "same_scan e e' \<longleftrightarrow> ss_tab e' = ss_tab e \<and> ss_conds e' = ss_conds e \<and> ss_cols e' = ss_cols e \<and> ss_len e' = ss_len e"

lemma hit_skip:
  assumes "T r = Some v" and "\<not> sel v" and "rid_lt from r" and "\<forall>x \<in> dom T. rid_lt from x \<longrightarrow> x = r \<or> rid_lt r x"
    and "hit T sel r r'"
  shows "hit T sel from r'"
proof -
  have beyond: "rid_lt r x" if "T x = Some w" "rid_lt from x" "sel w" for x w using assms(1,2,4) that by auto
  show ?thesis
  proof (cases "scan_is_end r'")
    case True
    then have "\<forall>x w. T x = Some w \<longrightarrow> rid_lt r x \<longrightarrow> \<not> sel w" using assms(5) by (simp add: hit_def)
    then show ?thesis using True beyond unfolding hit_def by auto
  next
    case False
    then have h: "\<exists>w. T r' = Some w \<and> sel w" "rid_lt r r'" "\<forall>x w. T x = Some w \<longrightarrow> rid_lt r x \<longrightarrow> sel w \<longrightarrow> x = r' \<or> rid_lt r' x"
      using assms(5) by (simp_all add: hit_def)
    have "rid_lt from r'" using assms(3) h(2) by (rule rid_lt_trans)
    then show ?thesis using False h(1,3) beyond unfolding hit_def by auto
  qed
qed

lemma seq_seek_ok:
  assumes "open_ok P s" and "map_of (fhs s) (ss_tab e) = Some fh" and "ss_scan e = Some r"
    and "next_rid fh (sm_bpm s) from r" and "scan_sel fh e (rm_abs fh (sm_bpm s)) sel"
    and "card {x \<in> dom (rm_abs fh (sm_bpm s)). rid_lt from x} < k"
  shows "\<exists>e' s' r'. seq_seek k e s = Ok e' s' \<and> open_ok P s' \<and> quiet s s' \<and> same_scan e e' \<and> ss_scan e' = Some r' \<and>
    hit (rm_abs fh (sm_bpm s)) sel from r' \<and> (\<not> scan_is_end r' \<longrightarrow> ss_rid e' = r')"
  using assms
proof (induction k arbitrary: e s r "from")
  case (Suc k)
  let ?T = "rm_abs fh (sm_bpm s)" and ?t = "ss_tab e"
  show ?case
  proof (cases "scan_is_end r")
    case True
    then have "hit ?T sel from r" using Suc.prems(4) by (auto simp: next_rid_def hit_def)
    then show ?thesis using True Suc.prems by (auto simp: same_scan_def)
  next
    case False
    then have r: "r \<in> dom ?T" "rid_lt from r" "\<forall>x \<in> dom ?T. rid_lt from x \<longrightarrow> x = r \<or> rid_lt r x"
      using Suc.prems(4) by (auto simp: next_rid_def)
    then obtain v where v: "?T r = Some v" by auto
    let ?e1 = "e\<lparr>ss_rid := r\<rparr>"
    obtain s1 where s1: "on_fh ?t (get_record r) s = Ok (Some (rec_of fh v)) s1" "open_ok P s1" "quiet s s1"
      using get_record_quiet [OF Suc.prems(1,2) v] by blast
    have ev: "scan_eval_conds (Some (rec_of fh v)) (ss_conds e) (ss_cols e) = Inr (sel v)"
      using Suc.prems(5) v by (auto simp: scan_sel_def ran_def)
    show ?thesis
    proof (cases "sel v")
      case True
      then have "seq_seek (Suc k) e s = Ok ?e1 s1" using Suc.prems(3) False s1(1) ev by simp
      moreover have "hit ?T sel from r" using False True v r by (auto simp: hit_def)
      ultimately show ?thesis using s1 Suc.prems(3) by (intro exI [of _ ?e1] exI [of _ s1] exI [of _ r]) (simp add: same_scan_def)
    next
      case nsel: False
      note t1 = quiet_table [OF s1(3) Suc.prems(2)]
      have rng: "1 \<le> rid_page r" "- 1 \<le> rid_slot r" "rid_slot r < num_records_per_page (file_hdr fh)"
        using rm_abs_range [of fh "sm_bpm s" r] v by (auto simp: data_page_def)
      obtain r' s2 where s2: "on_fh ?t (scan_next r) s1 = Ok r' s2" "open_ok P s2" "quiet s1 s2" "next_rid fh (sm_bpm s1) r r'"
        using scan_from_quiet [OF s1(2) t1(1) rng] by (auto simp: scan_next_def [abs_def])
      note t2 = quiet_table [OF s2(3) t1(1)]
      let ?e2 = "?e1\<lparr>ss_scan := Some r'\<rparr>"
      have T2: "rm_abs fh (sm_bpm s2) = ?T" using t1(2) t2(2) by simp
      have rest: "{x \<in> dom ?T. rid_lt from x} = insert r {x \<in> dom ?T. rid_lt r x}" using r rid_lt_trans by blast
      have "finite {x \<in> dom ?T. rid_lt r x}" using finite_rm_abs by simp
      then have card: "card {x \<in> dom (rm_abs fh (sm_bpm s2)). rid_lt r x} < k"
        using Suc.prems(6) rest by (simp add: T2 card_insert_if)
      have nx: "next_rid fh (sm_bpm s2) r r'" using s2(4) unfolding next_rid_def T2 t1(2) .
      have t2': "map_of (fhs s2) (ss_tab ?e2) = Some fh" using t2(1) by simp
      have sc: "scan_sel fh ?e2 (rm_abs fh (sm_bpm s2)) sel" using Suc.prems(5) by (simp add: scan_sel_def T2)
      have "\<exists>e' s' r''. seq_seek k ?e2 s2 = Ok e' s' \<and> open_ok P s' \<and> quiet s2 s' \<and> same_scan ?e2 e' \<and> ss_scan e' = Some r'' \<and>
          hit (rm_abs fh (sm_bpm s2)) sel r r'' \<and> (\<not> scan_is_end r'' \<longrightarrow> ss_rid e' = r'')"
        by (rule Suc.IH [OF s2(2) t2' _ nx sc card]) simp
      then obtain e' s' r'' where f: "seq_seek k ?e2 s2 = Ok e' s'" "open_ok P s'" "quiet s2 s'" "same_scan ?e2 e'"
        "ss_scan e' = Some r''" "hit ?T sel r r''" "\<not> scan_is_end r'' \<longrightarrow> ss_rid e' = r''" unfolding T2 by blast
      have "seq_seek (Suc k) e s = Ok e' s'" using Suc.prems(3) False s1(1) ev nsel s2(1) f(1) by simp
      moreover have "hit ?T sel from r''" by (rule hit_skip [OF v nsel r(2,3) f(6)])
      moreover have "quiet s s'" using s1(3) s2(3) f(3) quiet_trans by blast
      ultimately show ?thesis using f by (intro exI [of _ e'] exI [of _ s'] exI [of _ r'']) (simp add: same_scan_def)
    qed
  qed
qed simp

section \<open>The scan as a cursor\<close>

text \<open>
  \<open>scan_at\<close>: the scan stands on the first of the records \<open>rs\<close>, the remaining ones among the selected records of the table;
  \<open>all_rids\<close> lists the selected records behind a position in the order of record ids.
\<close>

definition all_rids :: "(Rid \<rightharpoonup> bytes) \<Rightarrow> (bytes \<Rightarrow> bool) \<Rightarrow> Rid \<Rightarrow> Rid list \<Rightarrow> bool" where
  "all_rids T sel from rs \<longleftrightarrow> sorted_wrt rid_lt rs \<and> set rs = {r. rid_lt from r \<and> (\<exists>v. T r = Some v \<and> sel v)}"

definition scan_at :: "PageId set \<Rightarrow> rmfh \<Rightarrow> (bytes \<Rightarrow> bool) \<Rightarrow> nat \<Rightarrow> SeqScan \<Rightarrow> Rid list \<Rightarrow> sm \<Rightarrow> bool" where
  "scan_at P fh sel k e rs s \<longleftrightarrow> open_ok P s \<and> map_of (fhs s) (ss_tab e) = Some fh \<and>
     scan_sel fh e (rm_abs fh (sm_bpm s)) sel \<and> card (dom (rm_abs fh (sm_bpm s))) < k \<and>
     (\<exists>from. all_rids (rm_abs fh (sm_bpm s)) sel from rs) \<and>
     (\<exists>r. ss_scan e = Some r \<and> (case rs of [] \<Rightarrow> scan_is_end r | x # _ \<Rightarrow> r = x \<and> ss_rid e = x))"

lemma sorted_rids: "finite (A :: Rid set) \<Longrightarrow> \<exists>rs. sorted_wrt rid_lt rs \<and> set rs = A"
proof (induction A rule: finite_induct)
  case (insert a A)
  then obtain rs where rs: "sorted_wrt rid_lt rs" "set rs = A" by blast
  let ?xs = "filter (\<lambda>x. rid_lt x a) rs @ [a] @ filter (\<lambda>x. rid_lt a x) rs"
  have tot: "rid_lt x a \<or> x = a \<or> rid_lt a x" for x
    using Rid.equality [of x a] by (cases "rid_slot x = rid_slot a") (auto simp: rid_lt_def)
  have "sorted_wrt rid_lt ?xs"
    using rs(1) by (auto simp: sorted_wrt_append sorted_wrt_filter intro: rid_lt_trans)
  moreover have "set ?xs = insert a A" using rs(2) tot by auto
  ultimately show ?case by blast
qed simp

lemma all_rids_ex: "finite (dom T) \<Longrightarrow> \<exists>rs. all_rids T sel from rs"
proof -
  assume "finite (dom T)"
  then have "finite {r. rid_lt from r \<and> (\<exists>v. T r = Some v \<and> sel v)}" by (rule rev_finite_subset) auto
  then show ?thesis using sorted_rids by (auto simp: all_rids_def)
qed

lemma rids_unique: "sorted_wrt rid_lt xs \<Longrightarrow> sorted_wrt rid_lt ys \<Longrightarrow> set xs = set ys \<Longrightarrow> xs = ys"
proof (induction xs arbitrary: ys)
  case (Cons x xs)
  then obtain y ys' where ys: "ys = y # ys'" by (cases ys) auto
  have na: "\<not> (rid_lt a b \<and> rid_lt b a)" for a b using rid_lt_trans rid_lt_irrefl by blast
  have "x = y" using Cons.prems ys na [of x y] by auto
  moreover have "set xs = set ys'"
  proof -
    have "x \<notin> set xs" "y \<notin> set ys'" using Cons.prems(1,2) ys by auto
    then show ?thesis using Cons.prems(3) ys \<open>x = y\<close> by auto
  qed
  ultimately show ?case using Cons ys by simp
qed simp

text \<open>The position a seek stops at is the head of the remaining list.\<close>

lemma hit_head:
  assumes "all_rids T sel from rs" and "hit T sel from r"
  shows "case rs of [] \<Rightarrow> scan_is_end r | x # _ \<Rightarrow> \<not> scan_is_end r \<and> r = x"
proof (cases rs)
  case Nil
  then show ?thesis using assms by (auto simp: all_rids_def hit_def split: if_splits)
next
  case (Cons x xs)
  have x: "rid_lt from x" "\<exists>v. T x = Some v \<and> sel v" using assms(1) Cons unfolding all_rids_def by auto
  then have ne: "\<not> scan_is_end r" using assms(2) by (auto simp: hit_def)
  then have r: "\<exists>v. T r = Some v \<and> sel v" "rid_lt from r" "x = r \<or> rid_lt r x" using assms(2) x by (auto simp: hit_def)
  then have "r \<in> set rs" using assms(1) by (simp add: all_rids_def)
  then have "r = x \<or> rid_lt x r" using assms(1) Cons by (auto simp: all_rids_def)
  then have "r = x" using r(3) rid_lt_trans rid_lt_irrefl by blast
  then show ?thesis using ne Cons by simp
qed

lemma all_rids_tl:
  assumes "all_rids T sel from (x # xs)"
  shows "all_rids T sel x xs"
proof -
  have s: "sorted_wrt rid_lt xs" "\<forall>y \<in> set xs. rid_lt x y" "set (x # xs) = {r. rid_lt from r \<and> (\<exists>v. T r = Some v \<and> sel v)}"
    using assms by (auto simp: all_rids_def)
  have "r \<in> set xs" if "rid_lt x r" "\<exists>v. T r = Some v \<and> sel v" for r
  proof -
    have "rid_lt from x" using s(3) by auto
    then have "r \<in> set (x # xs)" using s(3) that rid_lt_trans by blast
    then show ?thesis using that(1) by auto
  qed
  then show ?thesis using s unfolding all_rids_def by auto
qed

lemma seek_at:
  assumes ok: "open_ok P s" and t: "map_of (fhs s) (ss_tab e) = Some fh" and nx: "next_rid fh (sm_bpm s) from r"
    and sel: "scan_sel fh e (rm_abs fh (sm_bpm s)) sel" and k: "card (dom (rm_abs fh (sm_bpm s))) < k"
    and rs: "all_rids (rm_abs fh (sm_bpm s)) sel from rs"
  shows "\<exists>e' s'. seq_seek k (e\<lparr>ss_scan := Some r\<rparr>) s = Ok e' s' \<and> quiet s s' \<and> same_scan e e' \<and> scan_at P fh sel k e' rs s'"
proof -
  let ?T = "rm_abs fh (sm_bpm s)" and ?e1 = "e\<lparr>ss_scan := Some r\<rparr>"
  have "card {x \<in> dom ?T. rid_lt from x} \<le> card (dom ?T)" by (rule card_mono [OF finite_rm_abs]) auto
  then have card: "card {x \<in> dom ?T. rid_lt from x} < k" using k by simp
  have sc: "scan_sel fh ?e1 ?T sel" using sel by (simp add: scan_sel_def)
  have t1: "map_of (fhs s) (ss_tab ?e1) = Some fh" using t by simp
  have "ss_scan ?e1 = Some r" by simp
  from seq_seek_ok [OF ok t1 this nx sc card] obtain e' s' r' where f: "seq_seek k ?e1 s = Ok e' s'" "open_ok P s'" "quiet s s'"
    "same_scan ?e1 e'" "ss_scan e' = Some r'" "hit ?T sel from r'" "\<not> scan_is_end r' \<longrightarrow> ss_rid e' = r'" by blast
  note t' = quiet_table [OF f(3) t]
  have tab: "ss_tab e' = ss_tab e" "same_scan e e'" using f(4) by (simp_all add: same_scan_def)
  have "scan_at P fh sel k e' rs s'" unfolding scan_at_def
    using f t' tab sel k rs hit_head [OF rs f(6)] by (auto simp: scan_sel_def same_scan_def split: list.splits)
  then show ?thesis using f(1,3) tab(2) by blast
qed

text \<open>A quiet step keeps what \<open>seek_at\<close> asks for.\<close>

lemma quiet_scan:
  assumes "quiet s s1" and "map_of (fhs s) t = Some fh"
  shows "next_rid fh (sm_bpm s1) = next_rid fh (sm_bpm s)" and "rm_abs fh (sm_bpm s1) = rm_abs fh (sm_bpm s)"
  unfolding next_rid_def [abs_def] quiet_table(2) [OF assms] by (rule refl)+

lemma scan_at_begin:
  assumes ok: "open_ok P s" and t: "map_of (fhs s) (ss_tab e) = Some fh" and sel: "scan_sel fh e (rm_abs fh (sm_bpm s)) sel"
    and k: "card (dom (rm_abs fh (sm_bpm s))) < k" and rs: "all_rids (rm_abs fh (sm_bpm s)) sel (Rid_of 1 (- 1)) rs"
  shows "\<exists>e' s'. seq_begin k e s = Ok e' s' \<and> quiet s s' \<and> same_scan e e' \<and> scan_at P fh sel k e' rs s'"
proof -
  have n: "- 1 < num_records_per_page (file_hdr fh)"
    using hdr_okD(3) [OF file_invD(1) [OF rm_invD(8) [OF db_table(1) [OF ok t]]]] by simp
  obtain r s1 where s1: "on_fh (ss_tab e) RmScan_new s = Ok r s1" "open_ok P s1" "quiet s s1" "next_rid fh (sm_bpm s) (Rid_of 1 (- 1)) r"
    using scan_from_quiet [OF ok t, of 1 "- 1"] n by (auto simp: RmScan_new_def [abs_def] scan_next_def RM_FIRST_RECORD_PAGE_def)
  note q = quiet_scan [OF s1(3) t]
  obtain e' s' where "seq_seek k (e\<lparr>ss_scan := Some r\<rparr>) s1 = Ok e' s'" "quiet s1 s'" "same_scan e e'" "scan_at P fh sel k e' rs s'"
    using seek_at [OF s1(2) quiet_table(1) [OF s1(3) t], of "Rid_of 1 (- 1)" r sel k rs] s1(4) sel k rs q by auto
  then show ?thesis using s1(1,3) quiet_trans by (auto simp: seq_begin_def)
qed

lemma scan_at_next:
  assumes at: "scan_at P fh sel k e (x # xs) s"
  shows "\<exists>e' s'. seq_next k e s = Ok e' s' \<and> quiet s s' \<and> same_scan e e' \<and> scan_at P fh sel k e' xs s'"
proof -
  let ?T = "rm_abs fh (sm_bpm s)"
  obtain "from" where a: "open_ok P s" "map_of (fhs s) (ss_tab e) = Some fh" "scan_sel fh e ?T sel" "card (dom ?T) < k"
    "all_rids ?T sel from (x # xs)" "ss_scan e = Some x" using at by (auto simp: scan_at_def)
  obtain v where v: "?T x = Some v" using a(5) unfolding all_rids_def by auto
  have rng: "1 \<le> rid_page x" "- 1 \<le> rid_slot x" "rid_slot x < num_records_per_page (file_hdr fh)"
    using rm_abs_range [of fh "sm_bpm s" x] v by (auto simp: data_page_def)
  obtain r s1 where s1: "on_fh (ss_tab e) (scan_next x) s = Ok r s1" "open_ok P s1" "quiet s s1" "next_rid fh (sm_bpm s) x r"
    using scan_from_quiet [OF a(1,2) rng] by (auto simp: scan_next_def [abs_def])
  note q = quiet_scan [OF s1(3) a(2)]
  obtain e' s' where "seq_seek k (e\<lparr>ss_scan := Some r\<rparr>) s1 = Ok e' s'" "quiet s1 s'" "same_scan e e'" "scan_at P fh sel k e' xs s'"
    using seek_at [OF s1(2) quiet_table(1) [OF s1(3) a(2)], of x r sel k xs] s1(4) a(3,4) all_rids_tl [OF a(5)] q by auto
  then show ?thesis using a(6) s1(1,3) quiet_trans by (auto simp: seq_next_def)
qed

end
