(* ===== verification/Row_Values.thy ===== *)
theory Row_Values
  imports Execution
begin

text \<open>
  Rows as byte strings. \<open>cols_ok n cols\<close>: the columns lie within rows of \<open>n\<close> bytes. On such rows the evaluation of conditions, the
  text of a column and the projection never fail, and they are given here as total functions of the row: \<open>cond_holds\<close>,
  \<open>row_text\<close>, \<open>project_row\<close>. A join evaluates its conditions on the two halves of a row as on the whole row.
\<close>

section \<open>Columns\<close>

definition cols_ok :: "int \<Rightarrow> ColMeta list \<Rightarrow> bool" where
  "cols_ok n cols \<longleftrightarrow> 0 \<le> n \<and> list_all (\<lambda>c. 0 \<le> cm_offset c \<and> 0 \<le> cm_len c \<and> cm_offset c + cm_len c \<le> n \<and>
     (cm_type c \<noteq> TYPE_STRING \<longrightarrow> cm_len c = 4)) cols"

definition col_val :: "ColMeta \<Rightarrow> bytes \<Rightarrow> bytes" where
  "col_val c x = mem_read x (nat (cm_offset c)) (nat (cm_len c))"

lemma cols_okD:
  assumes "cols_ok n cols" and "c \<in> set cols"
  shows "0 \<le> cm_offset c" and "0 \<le> cm_len c" and "cm_offset c + cm_len c \<le> n" and "cmp_width (cm_type c) (cm_len c) = cm_len c"
  using assms by (auto simp: cols_ok_def list_all_iff cmp_width_def)

lemma peek_col:
  assumes "cols_ok (int (length x)) cols" and "c \<in> set cols"
  shows "peek x (cm_offset c) (cm_len c) = Inr (col_val c x)"
  using cols_okD [OF assms] by (simp add: peek_def col_val_def)

lemma peek_all: "int (length x) = n \<Longrightarrow> peek x 0 n = Inr x"
  by (auto simp: peek_def mem_read_def)

lemma find_index_nth: "find_index p xs = Some i \<Longrightarrow> i < length xs \<and> p (xs ! i)"
  by (induction xs arbitrary: i) (auto split: if_splits option.splits)

lemma exec_get_col_in:
  assumes "exec_get_col cols t = Inr (i, c)"
  shows "i < length cols" and "c = cols ! i" and "c \<in> set cols"
proof -
  show i: "i < length cols" and c: "c = cols ! i" using assms find_index_nth by (auto simp: exec_get_col_def split: option.splits)
  show "c \<in> set cols" using i c by simp
qed

section \<open>Conditions\<close>

text \<open>What the analysis leaves: the columns are found and have the same length, the constant is encoded in that length.\<close>

definition cond_wf :: "ColMeta list \<Rightarrow> Condition \<Rightarrow> bool" where
  "cond_wf cols c \<longleftrightarrow>
     (case exec_get_col cols (lhs_col c) of
        Inl _ \<Rightarrow> False
      | Inr (_, lhs) \<Rightarrow>
          if is_rhs_val c then (case raw (rhs_val c) of None \<Rightarrow> False | Some r \<Rightarrow> int (length (rec_data r)) = cm_len lhs)
          else (case exec_get_col cols (rhs_col c) of Inl _ \<Rightarrow> False | Inr (_, rhs) \<Rightarrow> cm_len rhs = cm_len lhs))"

definition cond_holds :: "ColMeta list \<Rightarrow> Condition \<Rightarrow> bytes \<Rightarrow> bool" where
  "cond_holds cols c x =
     (case exec_get_col cols (lhs_col c) of
        Inl _ \<Rightarrow> False
      | Inr (_, lhs) \<Rightarrow>
          op_holds (cop c) (ix_compare (col_val lhs x)
            (if is_rhs_val c then raw_bytes (rhs_val c)
             else case exec_get_col cols (rhs_col c) of Inl _ \<Rightarrow> [] | Inr (_, rhs) \<Rightarrow> col_val rhs x)
            (cm_type lhs) (cm_len lhs)))"

definition conds_hold :: "ColMeta list \<Rightarrow> Condition list \<Rightarrow> bytes \<Rightarrow> bool" where
  "conds_hold cols conds x = list_all (\<lambda>c. cond_holds cols c x) conds"

lemma cond_wfE:
  assumes "cond_wf cols c"
  obtains (const) i lhs r where "exec_get_col cols (lhs_col c) = Inr (i, lhs)" "is_rhs_val c" "raw (rhs_val c) = Some r"
      "int (length (rec_data r)) = cm_len lhs"
  | (col) i lhs j rhs where "exec_get_col cols (lhs_col c) = Inr (i, lhs)" "\<not> is_rhs_val c"
      "exec_get_col cols (rhs_col c) = Inr (j, rhs)" "cm_len rhs = cm_len lhs"
  using assms unfolding cond_wf_def
  by (cases "exec_get_col cols (lhs_col c)"; cases "raw (rhs_val c)"; cases "exec_get_col cols (rhs_col c)"; cases "is_rhs_val c") auto

lemma scan_eval_cond_row:
  assumes ok: "cols_ok (int (length (rec_data r))) cols" and c: "cond_wf cols c"
  shows "scan_eval_cond (Some r) cols c = Inr (cond_holds cols c (rec_data r))"
  using c
proof (cases rule: cond_wfE)
  case (const i lhs v)
  note m = exec_get_col_in(3) [OF const(1)]
  have "peek (rec_data v) 0 (cm_len lhs) = Inr (rec_data v)" by (rule peek_all [OF const(4)])
  then show ?thesis using const cols_okD(4) [OF ok m] peek_col [OF ok m]
    by (simp add: scan_eval_cond_def cond_holds_def deref_def raw_bytes_def)
next
  case (col i lhs j rhs)
  note m = exec_get_col_in(3) [OF col(1)] exec_get_col_in(3) [OF col(3)]
  show ?thesis using col cols_okD(4) [OF ok m(1)] peek_col [OF ok m(1)] peek_col [OF ok m(2)]
    by (simp add: scan_eval_cond_def cond_holds_def deref_def)
qed

lemma all_of_total: "(\<And>x. x \<in> set xs \<Longrightarrow> P x = Inr (q x)) \<Longrightarrow> all_of P xs = Inr (list_all q xs)"
  by (induction xs) auto

lemma scan_eval_conds_row:
  assumes "cols_ok (int (length (rec_data r))) cols" and "list_all (cond_wf cols) conds"
  shows "scan_eval_conds (Some r) conds cols = Inr (conds_hold cols conds (rec_data r))"
  unfolding scan_eval_conds_def conds_hold_def
  by (rule all_of_total) (use assms scan_eval_cond_row in \<open>auto simp: list_all_iff\<close>)

section \<open>Joined rows\<close>

definition join_cols :: "ColMeta list \<Rightarrow> int \<Rightarrow> ColMeta list \<Rightarrow> ColMeta list" where
  "join_cols lc ll rc = lc @ map (\<lambda>c. c\<lparr>cm_offset := cm_offset c + ll\<rparr>) rc"

lemma join_cols_ok: "cols_ok ll lc \<Longrightarrow> cols_ok rl rc \<Longrightarrow> cols_ok (ll + rl) (join_cols lc ll rc)"
  by (fastforce simp: cols_ok_def join_cols_def list_all_iff)

text \<open>A column of a joined row lies in one half, and is read from that half.\<close>

lemma join_side_row:
  assumes l: "cols_ok ll lc" and r: "cols_ok rl rc" and c: "c \<in> set (join_cols lc ll rc)"
    and len: "int (length (rec_data a)) = ll" "int (length (rec_data b)) = rl" and small: "ll + rl < 2 ^ 63"
  shows "\<exists>d off. join_side ll (Some a) (Some b) c = Inr (d, off) \<and> peek d off (cm_len c) = Inr (col_val c (rec_data a @ rec_data b))"
proof -
  note k = cols_okD [OF join_cols_ok [OF l r] c]
  have off: "cm_offset c mod 2 ^ 64 = cm_offset c" using k(1-3) small by simp
  show ?thesis
  proof (cases "cm_offset c < ll")
    case True
    have "cm_offset c + cm_len c \<le> ll" using c True r unfolding join_cols_def
      by (auto simp: cols_okD [OF l] dest: cols_okD(1) [OF r])
    then show ?thesis using True off k(1,2) len(1)
      by (auto simp: join_side_def deref_def peek_def col_val_def mem_read_append1)
  next
    case False
    have "length (rec_data a) \<le> nat (cm_offset c)" "nat (cm_offset c) - length (rec_data a) = nat (cm_offset c - ll)"
      using False len(1) by arith+
    then have "mem_read (rec_data a @ rec_data b) (nat (cm_offset c)) (nat (cm_len c)) =
        mem_read (rec_data b) (nat (cm_offset c - ll)) (nat (cm_len c))" by (simp add: mem_read_append2)
    then show ?thesis using False off k(2,3) len by (auto simp: join_side_def deref_def peek_def col_val_def)
  qed
qed

lemma join_eval_cond_row:
  assumes l: "cols_ok ll lc" and r: "cols_ok rl rc" and c: "cond_wf (join_cols lc ll rc) c"
    and len: "int (length (rec_data a)) = ll" "int (length (rec_data b)) = rl" and small: "ll + rl < 2 ^ 63"
  shows "join_eval_cond ll (Some a) (Some b) (join_cols lc ll rc) c = Inr (cond_holds (join_cols lc ll rc) c (rec_data a @ rec_data b))"
  using c
proof (cases rule: cond_wfE)
  case (const i lhs v)
  note m = exec_get_col_in(3) [OF const(1)]
  obtain d off where "join_side ll (Some a) (Some b) lhs = Inr (d, off)" "peek d off (cm_len lhs) = Inr (col_val lhs (rec_data a @ rec_data b))"
    using join_side_row [OF l r m len small] by blast
  moreover have "peek (rec_data v) 0 (cm_len lhs) = Inr (rec_data v)" by (rule peek_all [OF const(4)])
  ultimately show ?thesis using const cols_okD(4) [OF join_cols_ok [OF l r] m]
    by (simp add: join_eval_cond_def cond_holds_def deref_def raw_bytes_def)
next
  case (col i lhs j rhs)
  note m = exec_get_col_in(3) [OF col(1)] exec_get_col_in(3) [OF col(3)]
  obtain d off where "join_side ll (Some a) (Some b) lhs = Inr (d, off)" "peek d off (cm_len lhs) = Inr (col_val lhs (rec_data a @ rec_data b))"
    using join_side_row [OF l r m(1) len small] by blast
  moreover obtain d' off' where "join_side ll (Some a) (Some b) rhs = Inr (d', off')"
    "peek d' off' (cm_len lhs) = Inr (col_val rhs (rec_data a @ rec_data b))"
    using join_side_row [OF l r m(2) len small] col(4) by metis
  ultimately show ?thesis using col cols_okD(4) [OF join_cols_ok [OF l r] m(1)]
    by (simp add: join_eval_cond_def cond_holds_def deref_def)
qed

lemma join_eval_conds_row:
  assumes "cols_ok ll lc" and "cols_ok rl rc" and "list_all (cond_wf (join_cols lc ll rc)) conds"
    and "int (length (rec_data a)) = ll" and "int (length (rec_data b)) = rl" and "ll + rl < 2 ^ 63"
  shows "join_eval_conds ll (Some a) (Some b) conds (join_cols lc ll rc) =
    Inr (conds_hold (join_cols lc ll rc) conds (rec_data a @ rec_data b))"
  unfolding join_eval_conds_def conds_hold_def
  by (rule all_of_total) (use assms(3) join_eval_cond_row [OF assms(1,2) _ assms(4-6)] in \<open>auto simp: list_all_iff\<close>)

section \<open>Text of a row\<close>

definition col_str :: "ColMeta \<Rightarrow> bytes \<Rightarrow> string" where
  "col_str c x =
     (case cm_type c of
        TYPE_INT \<Rightarrow> to_string (dec32 (col_val c x))
      | TYPE_FLOAT \<Rightarrow> float_to_string (dec_word (col_val c x))
      | TYPE_STRING \<Rightarrow> bytes_str (takeWhile (\<lambda>b. b \<noteq> 0) (col_val c x)))"

definition row_text :: "ColMeta list \<Rightarrow> bytes \<Rightarrow> string list" where
  "row_text cols x = map (\<lambda>c. col_str c x) cols"

lemma mapE_total: "(\<And>x. x \<in> set xs \<Longrightarrow> f x = Inr (g x)) \<Longrightarrow> mapE f xs = Inr (map g xs)"
  by (induction xs) auto

lemma row_text_ok:
  assumes "cols_ok (int (length (rec_data r))) cols"
  shows "mapE (col_text (Some r)) cols = Inr (row_text cols (rec_data r))"
proof -
  have "col_text (Some r) c = Inr (col_str c (rec_data r))" if c: "c \<in> set cols" for c
    using peek_col [OF assms c] cols_okD(4) [OF assms c]
    by (cases "cm_type c") (simp_all add: col_text_def col_str_def deref_def cmp_width_def)
  then show ?thesis unfolding row_text_def by (rule mapE_total)
qed

section \<open>Projection\<close>

definition project_row :: "ColMeta list \<Rightarrow> nat list \<Rightarrow> bytes \<Rightarrow> bytes" where
  "project_row prev idxs x = concat (map (\<lambda>i. col_val (prev ! i) x) idxs)"

lemma col_val_length:
  assumes "cols_ok (int (length x)) cols" and "c \<in> set cols"
  shows "int (length (col_val c x)) = cm_len c"
  using cols_okD [OF assms] by (simp add: col_val_def)

lemma project_cols_index:
  "project_cols prev off ts = Inr (xs, len) \<Longrightarrow> list_all2 (\<lambda>t i. exec_get_col prev t = Inr (i, prev ! i)) ts (map fst xs)"
proof (induction ts arbitrary: off xs len)
  case (Cons t ts)
  then obtain i c ys where "exec_get_col prev t = Inr (i, c)" "project_cols prev (off + cm_len c) ts = Inr (ys, len)"
    "xs = (i, c\<lparr>cm_offset := off\<rparr>) # ys" by (auto simp: bindE_Inr_iff split: prod.splits)
  then show ?case using Cons.IH exec_get_col_in(2) by auto
qed simp

text \<open>The projected columns lie one behind the other.\<close>

lemma project_cols_ok:
  assumes "project_cols prev off ts = Inr (xs, len)" and "cols_ok n prev" and "0 \<le> off"
  shows "off \<le> len \<and> cols_ok len (map snd xs)"
  using assms
proof (induction ts arbitrary: off xs)
  case Nil
  then show ?case by (simp add: cols_ok_def)
next
  case (Cons t ts)
  then obtain i c ys where f: "exec_get_col prev t = Inr (i, c)" "project_cols prev (off + cm_len c) ts = Inr (ys, len)"
    "xs = (i, c\<lparr>cm_offset := off\<rparr>) # ys" by (auto simp: bindE_Inr_iff split: prod.splits)
  note m = exec_get_col_in(3) [OF f(1)]
  note k = cols_okD [OF Cons.prems(2) m]
  have "off + cm_len c \<le> len \<and> cols_ok len (map snd ys)" using Cons.IH [OF f(2) Cons.prems(2)] k(2) Cons.prems(3) by simp
  moreover have "cm_type c \<noteq> TYPE_STRING \<longrightarrow> cm_len c = 4" using Cons.prems(2) m by (auto simp: cols_ok_def list_all_iff)
  ultimately show ?case using f(3) k(2) Cons.prems(3) by (simp add: cols_ok_def)
qed

lemma project_fill_row:
  assumes "project_cols prev off ts = Inr (xs, len)" and "cols_ok (int (length src)) prev" and "0 \<le> off" and "int (length dst) = len"
  shows "project_fill src prev (zip (map snd xs) (map fst xs)) dst = Inr (take (nat off) dst @ project_row prev (map fst xs) src)"
  using assms
proof (induction ts arbitrary: off xs dst)
  case Nil
  then show ?case by (auto simp: project_row_def)
next
  case (Cons t ts)
  then obtain i c ys where f: "exec_get_col prev t = Inr (i, c)" "project_cols prev (off + cm_len c) ts = Inr (ys, len)"
    "xs = (i, c\<lparr>cm_offset := off\<rparr>) # ys" by (auto simp: bindE_Inr_iff split: prod.splits)
  note m = exec_get_col_in [OF f(1)]
  note k = cols_okD [OF Cons.prems(2) m(3)]
  let ?x = "col_val c src" and ?off = "off + cm_len c"
  have len: "int (length ?x) = cm_len c" using col_val_length [OF Cons.prems(2) m(3)] .
  have le: "?off \<le> len" using project_cols_ok [OF f(2) Cons.prems(2)] k(2) Cons.prems(3) by simp
  have fits: "nat off + length ?x \<le> length dst" using le len Cons.prems(3,4) by linarith
  have pk: "poke dst off ?x = Inr (mem_write dst (nat off) ?x)" using le len Cons.prems(3,4) by (simp add: poke_def)
  have "length (mem_write dst (nat off) ?x) = length dst" using fits by simp
  then have "int (length (mem_write dst (nat off) ?x)) = len" using Cons.prems(4) by simp
  from Cons.IH [OF f(2) Cons.prems(2) _ this] k(2) Cons.prems(3)
  have rest: "project_fill src prev (zip (map snd ys) (map fst ys)) (mem_write dst (nat off) ?x) =
      Inr (take (nat ?off) (mem_write dst (nat off) ?x) @ project_row prev (map fst ys) src)" by simp
  have "nat ?off = nat off + length ?x" using len Cons.prems(3) k(2) by linarith
  then have "take (nat ?off) (mem_write dst (nat off) ?x) = take (nat off) dst @ ?x"
    using fits by (simp add: mem_write_def)
  then show ?case using f(3) m(1,2) peek_col [OF Cons.prems(2) m(3)] pk rest by (simp add: project_row_def)
qed

lemma project_row_length:
  assumes "project_cols prev off ts = Inr (xs, len)" and "cols_ok (int (length src)) prev"
  shows "int (length (project_row prev (map fst xs) src)) = len - off"
  using assms
proof (induction ts arbitrary: off xs)
  case (Cons t ts)
  then obtain i c ys where f: "exec_get_col prev t = Inr (i, c)" "project_cols prev (off + cm_len c) ts = Inr (ys, len)"
    "xs = (i, c\<lparr>cm_offset := off\<rparr>) # ys" by (auto simp: bindE_Inr_iff split: prod.splits)
  note m = exec_get_col_in [OF f(1)]
  show ?case using Cons.IH [OF f(2) Cons.prems(2)] f(3) m(2) col_val_length [OF Cons.prems(2) m(3)] by (simp add: project_row_def)
qed (simp add: project_row_def)

text \<open>The text of the projected row is the text of the chosen columns.\<close>

lemma col_str_cong: "cm_type c = cm_type c' \<Longrightarrow> col_val c x = col_val c' y \<Longrightarrow> col_str c x = col_str c' y"
  by (simp add: col_str_def split: ColType.splits)

lemma project_row_text:
  assumes "project_cols prev off ts = Inr (xs, len)" and "cols_ok (int (length src)) prev" and "int (length pre) = off"
  shows "row_text (map snd xs) (pre @ project_row prev (map fst xs) src) = map (\<lambda>i. col_str (prev ! i) src) (map fst xs)"
  using assms
proof (induction ts arbitrary: off xs pre)
  case (Cons t ts)
  then obtain i c ys where f: "exec_get_col prev t = Inr (i, c)" "project_cols prev (off + cm_len c) ts = Inr (ys, len)"
    "xs = (i, c\<lparr>cm_offset := off\<rparr>) # ys" by (auto simp: bindE_Inr_iff split: prod.splits)
  note m = exec_get_col_in [OF f(1)]
  let ?x = "col_val c src" and ?c = "c\<lparr>cm_offset := off\<rparr>" and ?rest = "project_row prev (map fst ys) src"
  have len: "int (length ?x) = cm_len c" using col_val_length [OF Cons.prems(2) m(3)] .
  have "nat off = length pre" "nat (cm_len c) = length ?x" using Cons.prems(3) len by linarith+
  then have "col_val ?c (pre @ ?x @ ?rest) = ?x" by (simp add: col_val_def mem_read_def)
  then have "col_str ?c (pre @ ?x @ ?rest) = col_str c src" by (intro col_str_cong) simp_all
  moreover have "row_text (map snd ys) ((pre @ ?x) @ ?rest) = map (\<lambda>i. col_str (prev ! i) src) (map fst ys)"
    by (rule Cons.IH [OF f(2) Cons.prems(2)]) (use Cons.prems(3) len in simp)
  ultimately show ?case using f(3) m(2) by (simp add: row_text_def project_row_def)
qed (simp add: row_text_def)

end
