(* ===== verification/Cursors.thy ===== *)
theory Cursors
  imports Row_Values
begin

text \<open>
  The contract between an executor and the loop that drives it. \<open>at e xs s\<close>: in state \<open>s\<close> the executor \<open>e\<close> stands before the rows
  \<open>xs\<close>, the first of which is the current one; \<open>calm\<close> relates states between which no table changed. A client that calls
  \<open>is_end\<close>, \<open>Next\<close> and \<open>nextTuple\<close> in turn sees exactly the rows. A \<open>source\<close> can be started by \<open>beginTuple\<close>, a
  \<open>restartable\<close> one also after it has been used. The nested-loop join and the projection make sources from sources.
\<close>

section \<open>Rows of an executor\<close>

text \<open>The rows of the loop of \<open>select_from\<close> without the printing.\<close>

fun fetch_rows :: "(nat \<Rightarrow> byte) \<Rightarrow> nat \<Rightarrow> nat \<Rightarrow> nat \<Rightarrow> exec \<Rightarrow> sm \<Rightarrow> (string list list, sm) res" where
  "fetch_rows junk d k 0 e s = Err NoFuel s"
| "fetch_rows junk d k (Suc n) e s =
     bindO (pure_sm (is_end e) s) (\<lambda>fin s1.
       if fin then Ok [] s1
       else
         bindO (exec_next junk e s1) (\<lambda>tuple s2.
         bindO (pure_sm (bindE (exec_cols e) (mapE (col_text tuple))) s2) (\<lambda>columns s3.
         bindO (run_op junk d k NextTuple e s3) (\<lambda>e1 s4.
         bindO (fetch_rows junk d k n e1 s4) (\<lambda>rows s5. Ok (columns # rows) s5)))))"

text \<open>Executors with columns are not the ones that change tables.\<close>

lemma exec_next_tuple: "exec_cols e = Inr cols \<Longrightarrow> exec_next junk e s = exec_tuple junk e s"
  by (cases e) (simp_all add: exec_next_def)

locale cursor =
  fixes junk :: "nat \<Rightarrow> byte" and d k :: nat and calm :: "sm \<Rightarrow> sm \<Rightarrow> bool"
    and at :: "exec \<Rightarrow> bytes list \<Rightarrow> sm \<Rightarrow> bool" and cols :: "ColMeta list" and len :: int
  assumes calm_refl: "calm s s"
    and calm_trans: "calm s1 s2 \<Longrightarrow> calm s2 s3 \<Longrightarrow> calm s1 s3"
    and at_calm: "at e xs s \<Longrightarrow> calm s s' \<Longrightarrow> at e xs s'"
    and at_cols: "at e xs s \<Longrightarrow> exec_cols e = Inr cols" "at e xs s \<Longrightarrow> tupleLen e = Inr len" "at e xs s \<Longrightarrow> cols_ok len cols"
    and at_len: "at e xs s \<Longrightarrow> x \<in> set xs \<Longrightarrow> int (length x) = len"
    and at_end: "at e xs s \<Longrightarrow> is_end e = Inr (xs = [])"
    and at_tuple: "at e (x # xs) s \<Longrightarrow> \<exists>r s'. exec_tuple junk e s = Ok (Some r) s' \<and> rec_data r = x \<and> calm s s'"
    and at_next: "at e (x # xs) s \<Longrightarrow> \<exists>e' s'. run_op junk d k NextTuple e s = Ok e' s' \<and> calm s s' \<and> at e' xs s'"
begin

lemma fetch_all:
  assumes "at e xs s" and "length xs < n"
  shows "\<exists>s'. fetch_rows junk d k n e s = Ok (map (row_text cols) xs) s' \<and> calm s s'"
  using assms
proof (induction n arbitrary: e xs s)
  case (Suc n)
  show ?case
  proof (cases xs)
    case Nil
    then show ?thesis using Suc.prems(1) at_end calm_refl by fastforce
  next
    case (Cons x ys)
    obtain r s1 where r: "exec_tuple junk e s = Ok (Some r) s1" "rec_data r = x" "calm s s1"
      using at_tuple [OF Suc.prems(1) [unfolded Cons]] by blast
    have at1: "at e (x # ys) s1" using at_calm [OF Suc.prems(1) r(3)] Cons by simp
    obtain e' s2 where n: "run_op junk d k NextTuple e s1 = Ok e' s2" "calm s1 s2" "at e' ys s2" using at_next [OF at1] by blast
    obtain s' where f: "fetch_rows junk d k n e' s2 = Ok (map (row_text cols) ys) s'" "calm s2 s'"
      using Suc.IH [OF n(3)] Suc.prems(2) Cons by auto
    have "cols_ok (int (length (rec_data r))) cols" using at_cols(3) [OF at1] at_len [OF at1, of x] r(2) by simp
    note t = row_text_ok [OF this, unfolded r(2)]
    have "fetch_rows junk d k (Suc n) e s = Ok (map (row_text cols) xs) s'"
      using at_end [OF Suc.prems(1)] Cons r(1) n(1) f(1) t at_cols(1) [OF at1] exec_next_tuple [OF at_cols(1) [OF at1]] by simp
    then show ?thesis using r(3) n(2) f(2) calm_trans by blast
  qed
qed simp

end

locale source = cursor +
  fixes idle :: "exec \<Rightarrow> sm \<Rightarrow> bool" and zs :: "bytes list"
  assumes idle_calm: "idle e s \<Longrightarrow> calm s s' \<Longrightarrow> idle e s'"
    and start: "idle e s \<Longrightarrow> \<exists>e' s'. run_op junk d k BeginTuple e s = Ok e' s' \<and> calm s s' \<and> at e' zs s'"

locale restartable = source +
  assumes at_idle: "at e xs s \<Longrightarrow> idle e s"

text \<open>A side condition on the query, carried with a position.\<close>

definition guarded :: "bool \<Rightarrow> ('a \<Rightarrow> 'b \<Rightarrow> 'c \<Rightarrow> bool) \<Rightarrow> 'a \<Rightarrow> 'b \<Rightarrow> 'c \<Rightarrow> bool" where
  "guarded G at e xs s \<longleftrightarrow> G \<and> at e xs s"

definition guarded_idle :: "bool \<Rightarrow> ('a \<Rightarrow> 'c \<Rightarrow> bool) \<Rightarrow> 'a \<Rightarrow> 'c \<Rightarrow> bool" where
  "guarded_idle G idle e s \<longleftrightarrow> G \<and> idle e s"

context source
begin

lemma guarded_source: "source junk d k calm (guarded G at) cols len (guarded_idle G idle) zs"
  unfolding guarded_def guarded_idle_def
proof
  fix e x xs s
  show "G \<and> at e (x # xs) s \<Longrightarrow> \<exists>e' s'. run_op junk d k NextTuple e s = Ok e' s' \<and> calm s s' \<and> G \<and> at e' xs s'"
    using at_next by blast
  show "G \<and> idle e s \<Longrightarrow> \<exists>e' s'. run_op junk d k BeginTuple e s = Ok e' s' \<and> calm s s' \<and> G \<and> at e' zs s'" using start by blast
  show "G \<and> at e (x # xs) s \<Longrightarrow> \<exists>r s'. exec_tuple junk e s = Ok (Some r) s' \<and> rec_data r = x \<and> calm s s'" using at_tuple by blast
qed (erule conjE | rule conjI calm_refl | assumption | erule at_calm at_cols at_len at_end idle_calm | erule (1) calm_trans)+

end

section \<open>Nested loops\<close>

text \<open>
  The right input is started again for every left row. A scan promises that; a join that has been exhausted does not keep it.
  \<open>k\<close> bounds the iterations over each input.
\<close>

locale loop_join = left: source junk d k calm at_l lc ll idle_l as0 + right: restartable junk d k calm at_r rc rl idle_r zs
  for junk d k calm at_l lc ll idle_l as0 at_r rc rl idle_r zs +
  fixes conds :: "Condition list"
  assumes conds_ok: "at_l e xs s \<Longrightarrow> list_all (cond_wf (join_cols lc ll rc)) conds"
    and small: "at_l e xs s \<Longrightarrow> at_r e' ys s' \<Longrightarrow> ll + rl < 2 ^ 63"
    and fuel: "at_l e xs s \<Longrightarrow> length xs < k" "at_r e ys s \<Longrightarrow> length ys < k"
begin

definition jcols :: "ColMeta list" where "jcols = join_cols lc ll rc"

definition m :: "bytes \<Rightarrow> bytes \<Rightarrow> bool" where "m a b = conds_hold jcols conds (a @ b)"

text \<open>The rows for one left row, and for a list of them.\<close>

definition rows_of :: "bytes \<Rightarrow> bytes list \<Rightarrow> bytes list" where
  "rows_of a bs = map (\<lambda>b. a @ b) (filter (m a) bs)"

definition joined :: "bytes list \<Rightarrow> bytes list" where
  "joined as = concat (map (\<lambda>a. rows_of a zs) as)"

lemma matches:
  assumes "at_l e (a # as) s" and "at_r e' (b # bs) s'" and "rec_data x = a" and "rec_data y = b"
  shows "join_eval_conds ll (Some x) (Some y) conds jcols = Inr (m a b)"
  unfolding jcols_def m_def
  using join_eval_conds_row [OF left.at_cols(3) [OF assms(1)] right.at_cols(3) [OF assms(2)] conds_ok [OF assms(1)], of x y]
    left.at_len [OF assms(1), of a] right.at_len [OF assms(2), of b] small [OF assms(1,2)] assms(3,4) by simp

lemma right_loop_ok:
  assumes "at_l l (a # as) s" and "at_r r bs s" and "length bs < n"
  shows "\<exists>r' s'. right_loop junk (run_op junk d k) conds jcols n l r s = Ok (r', dropWhile (\<lambda>b. \<not> m a b) bs \<noteq> []) s' \<and> calm s s' \<and>
    at_r r' (dropWhile (\<lambda>b. \<not> m a b) bs) s'"
  using assms
proof (induction n arbitrary: r bs s)
  case (Suc n)
  show ?case
  proof (cases bs)
    case Nil
    then show ?thesis using Suc.prems(2) right.at_end [OF Suc.prems(2)] left.calm_refl by auto
  next
    case (Cons b cs)
    obtain lrec s1 where l1: "exec_tuple junk l s = Ok (Some lrec) s1" "rec_data lrec = a" "calm s s1"
      using left.at_tuple [OF Suc.prems(1)] by blast
    have r1: "at_r r (b # cs) s1" using right.at_calm [OF Suc.prems(2) l1(3)] Cons by simp
    obtain rrec s2 where r2: "exec_tuple junk r s1 = Ok (Some rrec) s2" "rec_data rrec = b" "calm s1 s2"
      using right.at_tuple [OF r1] by blast
    have c2: "calm s s2" using left.calm_trans [OF l1(3) r2(3)] .
    have at2: "at_l l (a # as) s2" "at_r r (b # cs) s2"
      using left.at_calm [OF Suc.prems(1) c2] right.at_calm [OF r1 r2(3)] by simp_all
    note ev = matches [OF at2 l1(2) r2(2)]
    have fin: "is_end r = Inr False" using right.at_end [OF Suc.prems(2)] Cons by simp
    note len = left.at_cols(2) [OF Suc.prems(1)]
    show ?thesis
    proof (cases "m a b")
      case True
      then show ?thesis using Cons fin l1(1) r2(1) ev len c2 at2(2) by simp
    next
      case False
      obtain r' s3 where n: "run_op junk d k NextTuple r s2 = Ok r' s3" "calm s2 s3" "at_r r' cs s3"
        using right.at_next [OF at2(2)] by blast
      have at3: "at_l l (a # as) s3" using left.at_calm [OF at2(1) n(2)] .
      from Suc.IH [OF at3 n(3)] Suc.prems(3) Cons obtain r'' s' where
        f: "right_loop junk (run_op junk d k) conds jcols n l r' s3 = Ok (r'', dropWhile (\<lambda>b. \<not> m a b) cs \<noteq> []) s'" "calm s3 s'"
          "at_r r'' (dropWhile (\<lambda>b. \<not> m a b) cs) s'" by auto
      have "calm s s'" using c2 n(2) f(2) left.calm_trans by blast
      then show ?thesis using Cons False fin l1(1) r2(1) ev len n(1) f by simp
    qed
  qed
qed simp

text \<open>
  The state in which a join stands before the rows \<open>vs\<close>: on a pair of rows that join, or, when \<open>found\<close> is false, at the end.
\<close>

definition join_pos :: "exec \<Rightarrow> exec \<Rightarrow> bool \<Rightarrow> bytes list \<Rightarrow> sm \<Rightarrow> bool" where
  "join_pos l r found vs s \<longleftrightarrow>
     (if found then \<exists>a as b bs. at_l l (a # as) s \<and> at_r r (b # bs) s \<and> m a b \<and> vs = rows_of a (b # bs) @ joined as
      else vs = [] \<and> is_end l = Inr True)"

lemma rows_of_drop: "rows_of a bs = rows_of a (dropWhile (\<lambda>b. \<not> m a b) bs)"
  by (induction bs) (auto simp: rows_of_def)

lemma joined_simps [simp]: "joined [] = []" "joined (a # as) = rows_of a zs @ joined as"
  by (simp_all add: joined_def)

lemma rows_of_Nil [simp]: "rows_of a [] = []"
  by (simp add: rows_of_def)

text \<open>The right input from a position on: a pair, or nothing left for this left row.\<close>

lemma right_loop_pos:
  assumes l: "at_l l (a # as) s" and r: "at_r r bs s"
  obtains r' s' where "right_loop junk (run_op junk d k) conds jcols k l r s = Ok (r', True) s'" and "calm s s'"
      and "join_pos l r' True (rows_of a bs @ joined as) s'"
  | r' s' where "right_loop junk (run_op junk d k) conds jcols k l r s = Ok (r', False) s'" and "calm s s'"
      and "at_l l (a # as) s'" and "at_r r' [] s'" and "rows_of a bs = []"
proof -
  let ?bs = "dropWhile (\<lambda>b. \<not> m a b) bs"
  obtain r' s' where r': "right_loop junk (run_op junk d k) conds jcols k l r s = Ok (r', ?bs \<noteq> []) s'" "calm s s'" "at_r r' ?bs s'"
    using right_loop_ok [OF l r fuel(2) [OF r]] by blast
  have l': "at_l l (a # as) s'" using left.at_calm [OF l r'(2)] .
  show thesis
  proof (cases ?bs)
    case Nil
    then show thesis using that(2) [of r' s'] r' l' rows_of_drop [of a bs] by (simp del: dropWhile_eq_Nil_conv)
  next
    case (Cons b cs)
    have "m a b" using hd_dropWhile [of "\<lambda>b. \<not> m a b" bs] Cons by simp
    then have "join_pos l r' True (rows_of a bs @ joined as) s'"
      using l' r'(3) Cons rows_of_drop [of a bs] unfolding join_pos_def by auto
    then show thesis using that(1) r' Cons by simp
  qed
qed

lemma next_loop_ok:
  assumes "at_l l as s" and "at_r r bs s" and "length as < n"
  shows "\<exists>l' r' found s'. next_loop junk (run_op junk d k) conds jcols k n l r s = Ok (l', r', found) s' \<and> calm s s' \<and>
    join_pos l' r' found (joined as) s'"
  using assms
proof (induction n arbitrary: l as r bs s)
  case (Suc n)
  show ?case
  proof (cases as)
    case Nil
    then show ?thesis using Suc.prems left.at_end [OF Suc.prems(1)] left.calm_refl by (auto simp: join_pos_def)
  next
    case (Cons a as')
    have fin: "is_end l = Inr False" using left.at_end [OF Suc.prems(1)] Cons by simp
    obtain r1 s1 where r1: "run_op junk d k BeginTuple r s = Ok r1 s1" "calm s s1" "at_r r1 zs s1"
      using right.start [OF right.at_idle [OF Suc.prems(2)]] by blast
    have l1: "at_l l (a # as') s1" using left.at_calm [OF Suc.prems(1) r1(2)] Cons by simp
    from l1 r1(3) show ?thesis
    proof (cases rule: right_loop_pos)
      case (1 r2 s2)
      then show ?thesis using Cons fin r1(1) left.calm_trans [OF r1(2) 1(2)] by auto
    next
      case (2 r2 s2)
      obtain l3 s3 where l3: "run_op junk d k NextTuple l s2 = Ok l3 s3" "calm s2 s3" "at_l l3 as' s3" using left.at_next [OF 2(3)] by blast
      have r3: "at_r r2 [] s3" using right.at_calm [OF 2(4) l3(2)] .
      from Suc.IH [OF l3(3) r3] Suc.prems(3) Cons obtain l' r' found s' where
        f: "next_loop junk (run_op junk d k) conds jcols k n l3 r2 s3 = Ok (l', r', found) s'" "calm s3 s'"
          "join_pos l' r' found (joined as') s'" by auto
      have "calm s s'" using r1(2) 2(2) l3(2) f(2) left.calm_trans by blast
      then show ?thesis using fin r1(1) 2(1,5) l3(1) f(1,3) Cons by auto
    qed
  qed
qed simp

lemma begin_loop_ok:
  assumes "at_l l as s" and "at_r r bs s" and "as = [] \<or> bs = zs" and "length as < n"
  shows "\<exists>l' r' found s'. begin_loop junk (run_op junk d k) conds jcols k n l r s = Ok (l', r', found) s' \<and> calm s s' \<and>
    join_pos l' r' found (joined as) s'"
  using assms
proof (induction n arbitrary: l as r bs s)
  case (Suc n)
  show ?case
  proof (cases as)
    case Nil
    then show ?thesis using Suc.prems left.at_end [OF Suc.prems(1)] left.calm_refl by (auto simp: join_pos_def)
  next
    case (Cons a as')
    have fin: "is_end l = Inr False" using left.at_end [OF Suc.prems(1)] Cons by simp
    have l1: "at_l l (a # as') s" and r1: "at_r r zs s" using Suc.prems Cons by simp_all
    from l1 r1 show ?thesis
    proof (cases rule: right_loop_pos)
      case (1 r2 s2)
      then show ?thesis using Cons fin by auto
    next
      case (2 r2 s2)
      obtain l3 s3 where l3: "run_op junk d k NextTuple l s2 = Ok l3 s3" "calm s2 s3" "at_l l3 as' s3" using left.at_next [OF 2(3)] by blast
      have r3: "at_r r2 [] s3" using right.at_calm [OF 2(4) l3(2)] .
      have fin3: "is_end l3 = Inr (as' = [])" using left.at_end [OF l3(3)] .
      have "\<exists>r4 s4 bs'. (if as' = [] then Ok r2 s3 else run_op junk d k BeginTuple r2 s3) = Ok r4 s4 \<and> calm s3 s4 \<and> at_r r4 bs' s4 \<and>
          (as' = [] \<or> bs' = zs)"
        using right.start [OF right.at_idle [OF r3]] r3 left.calm_refl by (cases "as' = []") auto
      then obtain r4 s4 bs' where r4: "(if as' = [] then Ok r2 s3 else run_op junk d k BeginTuple r2 s3) = Ok r4 s4" "calm s3 s4"
        "at_r r4 bs' s4" "as' = [] \<or> bs' = zs" by blast
      have l4: "at_l l3 as' s4" using left.at_calm [OF l3(3) r4(2)] .
      from Suc.IH [OF l4 r4(3,4)] Suc.prems(4) Cons obtain l' r' found s' where
        f: "begin_loop junk (run_op junk d k) conds jcols k n l3 r4 s4 = Ok (l', r', found) s'" "calm s4 s'"
          "join_pos l' r' found (joined as') s'" by auto
      have "calm s s'" using 2(2) l3(2) r4(2) f(2) left.calm_trans by blast
      then show ?thesis using fin 2(1,5) l3(1) fin3 r4(1) f(1,3) Cons by auto
    qed
  qed
qed simp

lemma joined_rows: "joined as = filter (conds_hold (join_cols lc ll rc) conds) (concat (map (\<lambda>a. map (\<lambda>b. a @ b) zs) as))"
  by (induction as) (simp_all add: rows_of_def filter_map comp_def m_def [abs_def] jcols_def)

text \<open>The join as an executor that is itself a source.\<close>

definition join_at :: "exec \<Rightarrow> bytes list \<Rightarrow> sm \<Rightarrow> bool" where
  "join_at e vs s \<longleftrightarrow> (\<exists>l r isend. e = JoinExec l r jcols (ll + rl) conds isend \<and> cols_ok (ll + rl) jcols \<and> join_pos l r (\<not> isend) vs s)"

definition join_idle :: "exec \<Rightarrow> sm \<Rightarrow> bool" where
  "join_idle e s \<longleftrightarrow> (\<exists>l r. e = JoinExec l r jcols (ll + rl) conds False \<and> cols_ok (ll + rl) jcols \<and> idle_l l s \<and> idle_r r s)"

lemma join_pos_calm: "join_pos l r found vs s \<Longrightarrow> calm s s' \<Longrightarrow> join_pos l r found vs s'"
  unfolding join_pos_def using left.at_calm right.at_calm by (cases found) (simp_all, blast)

lemma join_pos_end: "join_pos l r found vs s \<Longrightarrow> found = (vs \<noteq> [])"
  by (auto simp: join_pos_def rows_of_def split: if_splits)

lemma join_pos_len:
  assumes "join_pos l r found vs s" and "x \<in> set vs"
  shows "int (length x) = ll + rl"
proof -
  have found: "found" using assms by (cases found) (simp_all add: join_pos_def)
  then obtain a as b bs where p: "at_l l (a # as) s" "at_r r (b # bs) s" "vs = rows_of a (b # bs) @ joined as"
    using assms(1) by (auto simp: join_pos_def)
  obtain r1 s1 where r1: "at_r r1 zs s1" using right.start [OF right.at_idle [OF p(2)]] by blast
  obtain y z where "x = y @ z" "y \<in> set (a # as)" "z \<in> set (b # bs) \<or> z \<in> set zs"
    using p(3) assms(2) by (auto simp: rows_of_def joined_def split: if_splits)
  then show ?thesis using left.at_len [OF p(1)] right.at_len [OF r1] right.at_len [OF p(2)] by auto
qed

lemma join_tuple:
  assumes l: "at_l l (a # as) s" and r: "at_r r (b # bs) s"
  shows "\<exists>x s'. exec_tuple junk (JoinExec l r jcols (ll + rl) conds isend) s = Ok (Some x) s' \<and> rec_data x = a @ b \<and> calm s s'"
proof -
  obtain x s1 where x: "exec_tuple junk l s = Ok (Some x) s1" "rec_data x = a" "calm s s1" using left.at_tuple [OF l] by blast
  obtain y s2 where y: "exec_tuple junk r s1 = Ok (Some y) s2" "rec_data y = b" "calm s1 s2"
    using right.at_tuple [OF right.at_calm [OF r x(3)]] by blast
  have len: "ll = int (length a)" "rl = int (length b)" using left.at_len [OF l, of a] right.at_len [OF r, of b] by simp_all
  let ?d = "map junk [0..<length a + length b]"
  have al: "rec_data (RmRecord_alloc junk (ll + rl)) = ?d" by (simp add: len RmRecord_alloc_def nat_int_add)
  have "mem_write (mem_write ?d 0 a) (length a) b = a @ b" by (simp add: mem_write_def)
  moreover have "poke ?d 0 a = Inr (mem_write ?d 0 a)" "poke (mem_write ?d 0 a) ll b = Inr (mem_write (mem_write ?d 0 a) (length a) b)"
    by (simp_all add: poke_def len)
  moreover have "peek a 0 ll = Inr a" "peek b 0 rl = Inr b" by (simp_all add: peek_def len mem_read_def)
  ultimately show ?thesis
    using x(1,2) y(1,2) left.at_cols(2) [OF l] right.at_cols(2) [OF r] left.calm_trans [OF x(3) y(3)]
    by (simp add: deref_def on_rec_def al Let_def)
qed

lemma join_next_ok:
  assumes l: "at_l l (a # as) s" and r: "at_r r (b # bs) s"
  shows "\<exists>l' r' isend s'. join_next junk (run_op junk d k) k l r jcols (ll + rl) conds False s =
      Ok (JoinExec l' r' jcols (ll + rl) conds isend) s' \<and> calm s s' \<and> join_pos l' r' (\<not> isend) (rows_of a bs @ joined as) s'"
proof -
  have fin: "is_end l = Inr False" using left.at_end [OF l] by simp
  obtain r1 s1 where r1: "run_op junk d k NextTuple r s = Ok r1 s1" "calm s s1" "at_r r1 bs s1" using right.at_next [OF r] by blast
  have l1: "at_l l (a # as) s1" using left.at_calm [OF l r1(2)] .
  from l1 r1(3) show ?thesis
  proof (cases rule: right_loop_pos)
    case (1 r2 s2)
    have "join_next junk (run_op junk d k) k l r jcols (ll + rl) conds False s = Ok (JoinExec l r2 jcols (ll + rl) conds False) s2"
      using fin r1(1) 1(1) by (simp add: join_next_def)
    moreover have "calm s s2" using left.calm_trans [OF r1(2) 1(2)] .
    ultimately show ?thesis using 1(3)
      by (intro exI [of _ l] exI [of _ r2] exI [of _ False] exI [of _ s2]) simp
  next
    case (2 r2 s2)
    obtain l3 s3 where l3: "run_op junk d k NextTuple l s2 = Ok l3 s3" "calm s2 s3" "at_l l3 as s3" using left.at_next [OF 2(3)] by blast
    have r3: "at_r r2 [] s3" using right.at_calm [OF 2(4) l3(2)] .
    obtain l' r' found s' where f: "next_loop junk (run_op junk d k) conds jcols k k l3 r2 s3 = Ok (l', r', found) s'" "calm s3 s'"
      "join_pos l' r' found (joined as) s'" using next_loop_ok [OF l3(3) r3 fuel(1) [OF l3(3)]] by blast
    have "join_next junk (run_op junk d k) k l r jcols (ll + rl) conds False s = Ok (JoinExec l' r' jcols (ll + rl) conds (\<not> found)) s'"
      using fin r1(1) 2(1) l3(1) f(1) by (simp add: join_next_def)
    moreover have "calm s s'" using r1(2) 2(2) l3(2) f(2) left.calm_trans by blast
    ultimately show ?thesis using 2(5) f(3)
      by (intro exI [of _ l'] exI [of _ r'] exI [of _ "\<not> found"] exI [of _ s']) simp
  qed
qed

lemma join_begin_ok:
  assumes l: "idle_l l s" and r: "idle_r r s"
  shows "\<exists>l' r' isend s'. join_begin junk (run_op junk d k) k l r jcols (ll + rl) conds False s =
      Ok (JoinExec l' r' jcols (ll + rl) conds isend) s' \<and> calm s s' \<and> join_pos l' r' (\<not> isend) (joined as0) s'"
proof -
  obtain l1 s1 where l1: "run_op junk d k BeginTuple l s = Ok l1 s1" "calm s s1" "at_l l1 as0 s1" using left.start [OF l] by blast
  have fin: "is_end l1 = Inr (as0 = [])" using left.at_end [OF l1(3)] .
  show ?thesis
  proof (cases "as0 = []")
    case True
    then show ?thesis using l1(1,2) fin
      by (intro exI [of _ l1] exI [of _ r] exI [of _ True] exI [of _ s1]) (simp add: join_begin_def join_pos_def)
  next
    case False
    obtain r2 s2 where r2: "run_op junk d k BeginTuple r s1 = Ok r2 s2" "calm s1 s2" "at_r r2 zs s2"
      using right.start [OF right.idle_calm [OF r l1(2)]] by blast
    have l2: "at_l l1 as0 s2" using left.at_calm [OF l1(3) r2(2)] .
    obtain l' r' found s' where f: "begin_loop junk (run_op junk d k) conds jcols k k l1 r2 s2 = Ok (l', r', found) s'" "calm s2 s'"
      "join_pos l' r' found (joined as0) s'" using begin_loop_ok [OF l2 r2(3) _ fuel(1) [OF l2]] by blast
    have "join_begin junk (run_op junk d k) k l r jcols (ll + rl) conds False s = Ok (JoinExec l' r' jcols (ll + rl) conds (\<not> found)) s'"
      using l1(1) fin False r2(1) f(1,3) by (cases found) (auto simp: join_begin_def join_pos_def)
    moreover have "calm s s'" using l1(2) r2(2) f(2) left.calm_trans by blast
    ultimately show ?thesis using f(3)
      by (intro exI [of _ l'] exI [of _ r'] exI [of _ "\<not> found"] exI [of _ s']) simp
  qed
qed

lemma join_at_next:
  assumes "join_at e (x # vs) s"
  shows "\<exists>e' s'. run_op junk (Suc d) k NextTuple e s = Ok e' s' \<and> calm s s' \<and> join_at e' vs s'"
proof -
  obtain l r isend where e: "e = JoinExec l r jcols (ll + rl) conds isend" "cols_ok (ll + rl) jcols" "join_pos l r (\<not> isend) (x # vs) s"
    using assms by (auto simp: join_at_def)
  have ne: "\<not> isend" using join_pos_end [OF e(3)] by simp
  then obtain a as b bs where p: "at_l l (a # as) s" "at_r r (b # bs) s" "m a b" "x # vs = rows_of a (b # bs) @ joined as"
    using e(3) by (auto simp: join_pos_def)
  have vs: "vs = rows_of a bs @ joined as" using p(3,4) by (simp add: rows_of_def)
  obtain l' r' isend' s' where "join_next junk (run_op junk d k) k l r jcols (ll + rl) conds False s =
      Ok (JoinExec l' r' jcols (ll + rl) conds isend') s'" "calm s s'" "join_pos l' r' (\<not> isend') vs s'"
    using join_next_ok [OF p(1,2)] vs by blast
  then show ?thesis using e(1,2) ne unfolding join_at_def by auto
qed

lemma join_at_tuple:
  assumes "join_at e (x # vs) s"
  shows "\<exists>r s'. exec_tuple junk e s = Ok (Some r) s' \<and> rec_data r = x \<and> calm s s'"
proof -
  obtain l r isend where e: "e = JoinExec l r jcols (ll + rl) conds isend" "join_pos l r (\<not> isend) (x # vs) s"
    using assms by (auto simp: join_at_def)
  then obtain a as b bs where p: "at_l l (a # as) s" "at_r r (b # bs) s" "m a b" "x # vs = rows_of a (b # bs) @ joined as"
    by (auto simp: join_pos_def split: if_splits)
  have "x = a @ b" using p(3,4) by (simp add: rows_of_def)
  then show ?thesis using join_tuple [OF p(1,2)] e(1) by blast
qed

lemma join_at_start:
  assumes "join_idle e s"
  shows "\<exists>e' s'. run_op junk (Suc d) k BeginTuple e s = Ok e' s' \<and> calm s s' \<and> join_at e' (joined as0) s'"
proof -
  obtain l r where e: "e = JoinExec l r jcols (ll + rl) conds False" "cols_ok (ll + rl) jcols" "idle_l l s" "idle_r r s"
    using assms by (auto simp: join_idle_def)
  obtain l' r' isend s' where "join_begin junk (run_op junk d k) k l r jcols (ll + rl) conds False s =
      Ok (JoinExec l' r' jcols (ll + rl) conds isend) s'" "calm s s'" "join_pos l' r' (\<not> isend) (joined as0) s'"
    using join_begin_ok [OF e(3,4)] by blast
  then show ?thesis using e(1,2) unfolding join_at_def by auto
qed

lemma join_source: "source junk (Suc d) k calm join_at jcols (ll + rl) join_idle (joined as0)"
proof
  fix e xs x s s' s1 s2 s3
  show "calm s s" by (rule left.calm_refl)
  show "calm s1 s2 \<Longrightarrow> calm s2 s3 \<Longrightarrow> calm s1 s3" by (rule left.calm_trans)
  show "join_at e xs s \<Longrightarrow> calm s s' \<Longrightarrow> join_at e xs s'" unfolding join_at_def
    by (elim exE conjE, intro exI conjI, assumption, assumption, erule join_pos_calm)
  show "join_at e xs s \<Longrightarrow> exec_cols e = Inr jcols" "join_at e xs s \<Longrightarrow> tupleLen e = Inr (ll + rl)"
    "join_at e xs s \<Longrightarrow> cols_ok (ll + rl) jcols" by (auto simp: join_at_def)
  show "join_at e xs s \<Longrightarrow> x \<in> set xs \<Longrightarrow> int (length x) = ll + rl" unfolding join_at_def using join_pos_len by blast
  show "join_at e xs s \<Longrightarrow> is_end e = Inr (xs = [])" using join_pos_end by (fastforce simp: join_at_def)
  show "join_at e (x # xs) s \<Longrightarrow> \<exists>r s'. exec_tuple junk e s = Ok (Some r) s' \<and> rec_data r = x \<and> calm s s'" by (rule join_at_tuple)
  show "join_at e (x # xs) s \<Longrightarrow> \<exists>e' s'. run_op junk (Suc d) k NextTuple e s = Ok e' s' \<and> calm s s' \<and> join_at e' xs s'"
    by (rule join_at_next)
  show "join_idle e s \<Longrightarrow> calm s s' \<Longrightarrow> join_idle e s'" unfolding join_idle_def using left.idle_calm right.idle_calm by blast
  show "join_idle e s \<Longrightarrow> \<exists>e' s'. run_op junk (Suc d) k BeginTuple e s = Ok e' s' \<and> calm s s' \<and> join_at e' (joined as0) s'"
    by (rule join_at_start)
qed

end

sublocale loop_join \<subseteq> join: source junk "Suc d" k calm join_at jcols "ll + rl" join_idle "joined as0"
  by (rule join_source)

section \<open>Projection\<close>

locale projection = source +
  fixes targets :: "TabCol list" and pcols :: "(nat \<times> ColMeta) list" and plen :: int
  assumes targets: "at e xs s \<Longrightarrow> project_cols cols 0 targets = Inr (pcols, plen)" "at e xs s \<Longrightarrow> targets \<noteq> []"
begin

definition proj_exec :: "exec \<Rightarrow> exec" where
  "proj_exec e = ProjectionExec e (map snd pcols) plen (map fst pcols)"

definition proj :: "bytes \<Rightarrow> bytes" where
  "proj x = project_row cols (map fst pcols) x"

definition proj_at :: "exec \<Rightarrow> bytes list \<Rightarrow> sm \<Rightarrow> bool" where
  "proj_at e ys s \<longleftrightarrow> (\<exists>e0 xs. e = proj_exec e0 \<and> at e0 xs s \<and> ys = map proj xs)"

definition proj_idle :: "exec \<Rightarrow> sm \<Rightarrow> bool" where
  "proj_idle e s \<longleftrightarrow> (\<exists>e0. e = proj_exec e0 \<and> idle e0 s)"

lemma row_ok: "at e xs s \<Longrightarrow> x \<in> set xs \<Longrightarrow> cols_ok (int (length x)) cols"
  using at_cols(3) at_len by metis

lemma proj_len:
  assumes "at e xs s" and "x \<in> set xs"
  shows "int (length (proj x)) = plen"
  using project_row_length [OF targets(1) [OF assms(1)] row_ok [OF assms]] by (simp add: proj_def)

lemma proj_text:
  assumes "at e xs s" and "x \<in> set xs"
  shows "row_text (map snd pcols) (proj x) = map (\<lambda>i. col_str (cols ! i) x) (map fst pcols)"
  using project_row_text [OF targets(1) [OF assms(1)] row_ok [OF assms], of "[]"] by (simp add: proj_def)

lemma proj_tuple:
  assumes a: "at e (x # xs) s"
  shows "\<exists>r s'. exec_tuple junk (proj_exec e) s = Ok (Some r) s' \<and> rec_data r = proj x \<and> calm s s'"
proof -
  obtain y s1 where y: "exec_tuple junk e s = Ok (Some y) s1" "rec_data y = x" "calm s s1" using at_tuple [OF a] by blast
  note t = targets(1) [OF a]
  have ok: "cols_ok (int (length x)) cols" using row_ok [OF a] by simp
  have "0 \<le> plen" using project_cols_ok [OF t ok] by simp
  then have "project_fill x cols (zip (map snd pcols) (map fst pcols)) (map junk [0..<nat plen]) = Inr (proj x)"
    using project_fill_row [OF t ok, of "map junk [0..<nat plen]"] by (simp add: proj_def)
  moreover have "map fst pcols \<noteq> []" using project_cols_index [OF t] targets(2) [OF a] by auto
  ultimately show ?thesis using y at_cols(1) [OF a]
    by (auto simp: proj_exec_def on_rec_def RmRecord_alloc_def deref_def Let_def)
qed

lemma proj_source: "source junk (Suc d) k calm proj_at (map snd pcols) plen proj_idle (map proj zs)"
proof
  fix e xs x s s' s1 s2 s3
  show "calm s s" by (rule calm_refl)
  show "calm s1 s2 \<Longrightarrow> calm s2 s3 \<Longrightarrow> calm s1 s3" by (rule calm_trans)
  show "proj_at e xs s \<Longrightarrow> calm s s' \<Longrightarrow> proj_at e xs s'" unfolding proj_at_def using at_calm by blast
  show "proj_at e xs s \<Longrightarrow> exec_cols e = Inr (map snd pcols)" "proj_at e xs s \<Longrightarrow> tupleLen e = Inr plen"
    by (auto simp: proj_at_def proj_exec_def)
  show "proj_at e xs s \<Longrightarrow> cols_ok plen (map snd pcols)"
    unfolding proj_at_def using project_cols_ok [OF targets(1) at_cols(3)] by fastforce
  show "proj_at e xs s \<Longrightarrow> x \<in> set xs \<Longrightarrow> int (length x) = plen" unfolding proj_at_def using proj_len by auto
  show "proj_at e xs s \<Longrightarrow> is_end e = Inr (xs = [])" unfolding proj_at_def using at_end by (auto simp: proj_exec_def)
  show "proj_at e (x # xs) s \<Longrightarrow> \<exists>r s'. exec_tuple junk e s = Ok (Some r) s' \<and> rec_data r = x \<and> calm s s'"
    unfolding proj_at_def using proj_tuple by (fastforce simp: Cons_eq_map_conv)
  show "proj_at e (x # xs) s \<Longrightarrow> \<exists>e' s'. run_op junk (Suc d) k NextTuple e s = Ok e' s' \<and> calm s s' \<and> proj_at e' xs s'"
    unfolding proj_at_def using at_next by (fastforce simp: Cons_eq_map_conv proj_exec_def)
  show "proj_idle e s \<Longrightarrow> calm s s' \<Longrightarrow> proj_idle e s'" unfolding proj_idle_def using idle_calm by blast
  show "proj_idle e s \<Longrightarrow> \<exists>e' s'. run_op junk (Suc d) k BeginTuple e s = Ok e' s' \<and> calm s s' \<and> proj_at e' (map proj zs) s'"
    unfolding proj_idle_def proj_at_def using start by (fastforce simp: proj_exec_def)
qed

lemma proj_fetch:
  assumes "idle e s" and "length zs < n"
  shows "\<exists>e1 s1 s2. run_op junk (Suc d) k BeginTuple (proj_exec e) s = Ok e1 s1 \<and>
    fetch_rows junk (Suc d) k n e1 s1 = Ok (map (\<lambda>x. map (\<lambda>i. col_str (cols ! i) x) (map fst pcols)) zs) s2 \<and> calm s s2"
proof -
  obtain e' s1 where e': "run_op junk d k BeginTuple e s = Ok e' s1" "calm s s1" "at e' zs s1" using start [OF assms(1)] by blast
  have at1: "proj_at (proj_exec e') (map proj zs) s1" using e'(3) by (auto simp: proj_at_def)
  obtain s2 where "fetch_rows junk (Suc d) k n (proj_exec e') s1 = Ok (map (row_text (map snd pcols)) (map proj zs)) s2" "calm s1 s2"
    using cursor.fetch_all [OF source.axioms(1) [OF proj_source] at1, of n] assms(2) by auto
  moreover have "map (row_text (map snd pcols)) (map proj zs) = map (\<lambda>x. map (\<lambda>i. col_str (cols ! i) x) (map fst pcols)) zs"
    using proj_text [OF e'(3)] by simp
  moreover have "run_op junk (Suc d) k BeginTuple (proj_exec e) s = Ok (proj_exec e') s1" using e'(1) by (simp add: proj_exec_def)
  ultimately show ?thesis using calm_trans [OF e'(2)] by metis
qed

end

sublocale projection \<subseteq> proj: source junk "Suc d" k calm proj_at "map snd pcols" plen proj_idle "map proj zs"
  by (rule proj_source)

end
