(* ===== verification/Select_Cursors.thy ===== *)
theory Select_Cursors
  imports Scan_Properties Cursors
begin

text \<open>
  The executors of the model keep the contracts of \<open>Cursors\<close>: a sequential scan is restartable and delivers the selected records
  of its table in the order of record ids; a join of two scans and a projection are sources.
\<close>

section \<open>The rows of a table\<close>

lemma rm_abs_length:
  assumes inv: "rm_inv fh b" and x: "rm_abs fh b r = Some x"
  shows "int (length x) = record_size (file_hdr fh)"
proof -
  have f: "file_abs (file_hdr fh) (file_page fh b) (Rid_of (rid_page r) (rid_slot r)) = Some x" using x by (simp add: rm_abs_def)
  obtain data where d: "data_page (file_hdr fh) (rid_page r)" "file_page fh b (rid_page r) = Some data" "0 \<le> rid_slot r"
    "rid_slot r < num_records_per_page (file_hdr fh)" "x = rec_at (file_hdr fh) data (rid_slot r)" by (rule file_absD [OF f])
  note fi = rm_invD(8) [OF inv]
  have "length data = PAGE_SIZE" using file_invD(4) [OF fi d(1)] d(2) by (auto simp: page_ok_def)
  then show ?thesis using slot_bounds(2) [OF file_invD(1) [OF fi] d(3,4)] hdr_okD(1) [OF file_invD(1) [OF fi]] d(5)
    by (simp add: rec_at_def)
qed

text \<open>\<open>table_rows T sel zs\<close>: the selected records of the table \<open>T\<close> in the order of record ids.\<close>

definition table_rids :: "(Rid \<rightharpoonup> bytes) \<Rightarrow> (bytes \<Rightarrow> bool) \<Rightarrow> Rid list \<Rightarrow> bool" where
  "table_rids T sel rs \<longleftrightarrow> sorted_wrt rid_lt rs \<and> set rs = {r. \<exists>v. T r = Some v \<and> sel v}"

definition table_rows :: "(Rid \<rightharpoonup> bytes) \<Rightarrow> (bytes \<Rightarrow> bool) \<Rightarrow> bytes list \<Rightarrow> bool" where
  "table_rows T sel zs \<longleftrightarrow> (\<exists>rs. table_rids T sel rs \<and> zs = map (\<lambda>r. the (T r)) rs)"

lemma all_rids_table: "all_rids (rm_abs fh b) sel (Rid_of 1 (- 1)) rs \<longleftrightarrow> table_rids (rm_abs fh b) sel rs"
proof -
  have "rid_lt (Rid_of 1 (- 1)) r" if "rm_abs fh b r = Some v" for r v
    using rm_abs_range [of fh b r] that by (auto simp: rid_lt_def data_page_def)
  then have "{r. rid_lt (Rid_of 1 (- 1)) r \<and> (\<exists>v. rm_abs fh b r = Some v \<and> sel v)} = {r. \<exists>v. rm_abs fh b r = Some v \<and> sel v}" by blast
  then show ?thesis by (simp add: all_rids_def table_rids_def)
qed

lemma table_rids_ex: "\<exists>rs. table_rids (rm_abs fh b) sel rs"
  using all_rids_ex [OF finite_rm_abs] all_rids_table by blast

lemma table_rows_unique: "table_rows T sel xs \<Longrightarrow> table_rows T sel ys \<Longrightarrow> xs = ys"
  using rids_unique by (fastforce simp: table_rows_def table_rids_def)

lemma rids_distinct: "sorted_wrt rid_lt rs \<Longrightarrow> distinct rs"
  by (induction rs) auto

lemma rids_length:
  assumes "sorted_wrt rid_lt rs" and "set rs \<subseteq> dom (rm_abs fh b)"
  shows "length rs \<le> card (dom (rm_abs fh b))"
  using card_mono [OF finite_rm_abs assms(2)] distinct_card [OF rids_distinct [OF assms(1)]] by simp

lemma table_rids_length: "table_rids (rm_abs fh b) sel rs \<Longrightarrow> length rs \<le> card (dom (rm_abs fh b))"
  by (rule rids_length) (auto simp: table_rids_def)

section \<open>The scan\<close>

text \<open>A table that can be scanned for the conditions: it is open, and columns and conditions fit its records.\<close>

definition scannable :: "PageId set \<Rightarrow> nat \<Rightarrow> rmfh \<Rightarrow> SeqScan \<Rightarrow> sm \<Rightarrow> bool" where
  "scannable P k fh c s \<longleftrightarrow> open_ok P s \<and> map_of (fhs s) (ss_tab c) = Some fh \<and> ss_len c = record_size (file_hdr fh) \<and>
     cols_ok (ss_len c) (ss_cols c) \<and> list_all (cond_wf (ss_cols c)) (ss_conds c) \<and> card (dom (rm_abs fh (sm_bpm s))) < k"

definition selected :: "SeqScan \<Rightarrow> bytes \<Rightarrow> bool" where
  "selected c = conds_hold (ss_cols c) (ss_conds c)"

definition scan_idle :: "PageId set \<Rightarrow> nat \<Rightarrow> rmfh \<Rightarrow> SeqScan \<Rightarrow> bytes list \<Rightarrow> exec \<Rightarrow> sm \<Rightarrow> bool" where
  "scan_idle P k fh c zs e s \<longleftrightarrow> scannable P k fh c s \<and> table_rows (rm_abs fh (sm_bpm s)) (selected c) zs \<and>
     (\<exists>x. e = SeqScanExec x \<and> same_scan c x)"

definition scan_cur :: "PageId set \<Rightarrow> nat \<Rightarrow> rmfh \<Rightarrow> SeqScan \<Rightarrow> bytes list \<Rightarrow> exec \<Rightarrow> bytes list \<Rightarrow> sm \<Rightarrow> bool" where
  "scan_cur P k fh c zs e xs s \<longleftrightarrow> scan_idle P k fh c zs e s \<and>
     (\<exists>x rs. e = SeqScanExec x \<and> scan_at P fh (selected c) k x rs s \<and> xs = map (\<lambda>r. the (rm_abs fh (sm_bpm s) r)) rs)"

definition calm_sm :: "PageId set \<Rightarrow> sm \<Rightarrow> sm \<Rightarrow> bool" where
  "calm_sm P s s' \<longleftrightarrow> quiet s s' \<and> (open_ok P s \<longrightarrow> open_ok P s')"

lemma scannable_sel:
  assumes "scannable P k fh c s" and "same_scan c x"
  shows "scan_sel fh x (rm_abs fh (sm_bpm s)) (selected c)"
proof -
  have a: "open_ok P s" "map_of (fhs s) (ss_tab c) = Some fh" "ss_len c = record_size (file_hdr fh)" "cols_ok (ss_len c) (ss_cols c)"
    "list_all (cond_wf (ss_cols c)) (ss_conds c)" using assms(1) unfolding scannable_def by blast+
  have "int (length v) = ss_len c" if "v \<in> ran (rm_abs fh (sm_bpm s))" for v
    using that rm_abs_length [OF db_table(1) [OF a(1,2)]] a(3) by (auto simp: ran_def)
  then show ?thesis using scan_eval_conds_row [of "rec_of fh _" "ss_cols c" "ss_conds c"] a(4,5) assms(2)
    by (simp add: scan_sel_def selected_def same_scan_def rec_of_def)
qed

lemma scannable_calm: "scannable P k fh c s \<Longrightarrow> calm_sm P s s' \<Longrightarrow> scannable P k fh c s'"
  using quiet_table by (auto simp: scannable_def calm_sm_def)

lemma scan_idle_calm: "scan_idle P k fh c zs e s \<Longrightarrow> calm_sm P s s' \<Longrightarrow> scan_idle P k fh c zs e s'"
  using scannable_calm [of P k fh c s s'] quiet_table(2) [of s s' "ss_tab c" fh]
  by (auto simp: scan_idle_def calm_sm_def scannable_def)

lemma scan_cur_idle: "scan_cur P k fh c zs e xs s \<Longrightarrow> scan_idle P k fh c zs e s"
  by (simp add: scan_cur_def)

lemma scan_curE:
  assumes "scan_cur P k fh c zs e xs s"
  obtains x rs "from" where "e = SeqScanExec x" and "same_scan c x" and "scannable P k fh c s" and "scan_at P fh (selected c) k x rs s"
    and "xs = map (\<lambda>r. the (rm_abs fh (sm_bpm s) r)) rs" and "all_rids (rm_abs fh (sm_bpm s)) (selected c) from rs"
  using assms by (auto simp: scan_cur_def scan_idle_def scan_at_def)

lemma scan_cur_calm:
  assumes "scan_cur P k fh c zs e xs s" and "calm_sm P s s'"
  shows "scan_cur P k fh c zs e xs s'"
proof -
  obtain x rs "from" where x: "e = SeqScanExec x" "same_scan c x" "scannable P k fh c s" "scan_at P fh (selected c) k x rs s"
    "xs = map (\<lambda>r. the (rm_abs fh (sm_bpm s) r)) rs" by (rule scan_curE [OF assms(1)])
  have t: "map_of (fhs s) (ss_tab c) = Some fh" using x(3) by (simp add: scannable_def)
  have q: "quiet s s'" "open_ok P s'" using assms(2) x(3) by (auto simp: calm_sm_def scannable_def)
  note k = quiet_table [OF q(1) t]
  have "scan_at P fh (selected c) k x rs s'" using x(2,4) k q(2) by (simp add: scan_at_def same_scan_def)
  then show ?thesis using scan_idle_calm [OF scan_cur_idle [OF assms(1)] assms(2)] x(1,5) k(2) by (auto simp: scan_cur_def)
qed

lemma scan_cur_step:
  assumes "scan_idle P k fh c zs (SeqScanExec x) s" and "quiet s s'" and "same_scan x x'" and "scan_at P fh (selected c) k x' rs s'"
  shows "calm_sm P s s'" and "scan_cur P k fh c zs (SeqScanExec x') (map (\<lambda>r. the (rm_abs fh (sm_bpm s) r)) rs) s'"
proof -
  show calm: "calm_sm P s s'" using assms(2,4) by (simp add: calm_sm_def scan_at_def)
  have t: "map_of (fhs s) (ss_tab c) = Some fh" using assms(1) by (simp add: scan_idle_def scannable_def)
  have "scan_idle P k fh c zs (SeqScanExec x') s'" using scan_idle_calm [OF assms(1) calm] assms(3)
    by (auto simp: scan_idle_def same_scan_def)
  then show "scan_cur P k fh c zs (SeqScanExec x') (map (\<lambda>r. the (rm_abs fh (sm_bpm s) r)) rs) s'"
    using assms(4) quiet_table(2) [OF assms(2) t] by (auto simp: scan_cur_def)
qed

lemma scan_cur_start:
  assumes i: "scan_idle P k fh c zs e s"
  shows "\<exists>e' s'. run_op junk (Suc d) k BeginTuple e s = Ok e' s' \<and> calm_sm P s s' \<and> scan_cur P k fh c zs e' zs s'"
proof -
  obtain x rs where x: "e = SeqScanExec x" "same_scan c x" "scannable P k fh c s" "table_rids (rm_abs fh (sm_bpm s)) (selected c) rs"
    "zs = map (\<lambda>r. the (rm_abs fh (sm_bpm s) r)) rs" using i by (auto simp: scan_idle_def table_rows_def)
  have a: "open_ok P s" "map_of (fhs s) (ss_tab x) = Some fh" "card (dom (rm_abs fh (sm_bpm s))) < k"
    using x(2,3) by (auto simp: scannable_def same_scan_def)
  obtain x' s' where b: "seq_begin k x s = Ok x' s'" "quiet s s'" "same_scan x x'" "scan_at P fh (selected c) k x' rs s'"
    using scan_at_begin [OF a(1,2) scannable_sel [OF x(3,2)] a(3)] x(4) all_rids_table by blast
  show ?thesis using b(1) x(1) scan_cur_step [OF i [unfolded x(1)] b(2-4)] x(5) by simp
qed

lemma scan_cur_next:
  assumes a: "scan_cur P k fh c zs e (v # vs) s"
  shows "\<exists>e' s'. run_op junk (Suc d) k NextTuple e s = Ok e' s' \<and> calm_sm P s s' \<and> scan_cur P k fh c zs e' vs s'"
proof -
  obtain x rs "from" where x: "e = SeqScanExec x" "scan_at P fh (selected c) k x rs s" "v # vs = map (\<lambda>r. the (rm_abs fh (sm_bpm s) r)) rs"
    by (rule scan_curE [OF a])
  obtain r rs' where rs: "rs = r # rs'" "vs = map (\<lambda>r. the (rm_abs fh (sm_bpm s) r)) rs'" using x(3) by (auto simp: Cons_eq_map_conv)
  obtain x' s' where b: "seq_next k x s = Ok x' s'" "quiet s s'" "same_scan x x'" "scan_at P fh (selected c) k x' rs' s'"
    using scan_at_next [OF x(2) [unfolded rs(1)]] by blast
  show ?thesis using b(1) x(1) scan_cur_step [OF scan_cur_idle [OF a, unfolded x(1)] b(2-4)] rs(2) by simp
qed

lemma scan_cur_tuple:
  assumes a: "scan_cur P k fh c zs e (v # vs) s"
  shows "\<exists>r s'. exec_tuple junk e s = Ok (Some r) s' \<and> rec_data r = v \<and> calm_sm P s s'"
proof -
  obtain x rs "from" where x: "e = SeqScanExec x" "same_scan c x" "scannable P k fh c s" "scan_at P fh (selected c) k x rs s"
    "v # vs = map (\<lambda>r. the (rm_abs fh (sm_bpm s) r)) rs" "all_rids (rm_abs fh (sm_bpm s)) (selected c) from rs"
    by (rule scan_curE [OF a])
  obtain r rs' where rs: "rs = r # rs'" "v = the (rm_abs fh (sm_bpm s) r)" using x(5) by (auto simp: Cons_eq_map_conv)
  have rid: "ss_rid x = r" using x(4) rs(1) by (auto simp: scan_at_def)
  have v: "rm_abs fh (sm_bpm s) r = Some v" 
  proof -
    have "r \<in> set rs" using rs(1) by simp
    then show ?thesis using x(6) rs(2) unfolding all_rids_def by auto
  qed
  have o: "open_ok P s" "map_of (fhs s) (ss_tab x) = Some fh" using x(2,3) by (auto simp: scannable_def same_scan_def)
  obtain s' where "on_fh (ss_tab x) (get_record r) s = Ok (Some (rec_of fh v)) s'" "open_ok P s'" "quiet s s'"
    using get_record_quiet [OF o v] by blast
  then show ?thesis using x(1) rid by (auto simp: calm_sm_def rec_of_def)
qed

lemma scan_cur_end:
  assumes "scan_cur P k fh c zs e xs s"
  shows "is_end e = Inr (xs = [])"
proof -
  obtain x rs "from" where x: "e = SeqScanExec x" "scan_at P fh (selected c) k x rs s" "xs = map (\<lambda>r. the (rm_abs fh (sm_bpm s) r)) rs"
    "all_rids (rm_abs fh (sm_bpm s)) (selected c) from rs" by (rule scan_curE [OF assms])
  show ?thesis
  proof (cases rs)
    case Nil
    then show ?thesis using x(1-3) by (auto simp: scan_at_def)
  next
    case (Cons r rs')
    have "\<exists>v. rm_abs fh (sm_bpm s) r = Some v" using x(4) Cons unfolding all_rids_def by auto
    then have "\<not> scan_is_end r" using rm_abs_range [of fh "sm_bpm s" r] by (auto simp: data_page_def scan_is_end_def RM_NO_PAGE_def)
    then show ?thesis using x(1-3) Cons by (auto simp: scan_at_def)
  qed
qed

lemma scan_cur_rows:
  assumes "scan_cur P k fh c zs e xs s"
  shows "length xs < k" and "v \<in> set xs \<Longrightarrow> int (length v) = ss_len c" and "ss_len c \<le> 512"
proof -
  obtain x rs "from" where x: "scannable P k fh c s" "xs = map (\<lambda>r. the (rm_abs fh (sm_bpm s) r)) rs"
    "all_rids (rm_abs fh (sm_bpm s)) (selected c) from rs" by (rule scan_curE [OF assms])
  have inv: "rm_inv fh (sm_bpm s)" using x(1) db_table(1) by (auto simp: scannable_def)
  have sub: "set rs \<subseteq> dom (rm_abs fh (sm_bpm s))" using x(3) by (auto simp: all_rids_def)
  have "length rs \<le> card (dom (rm_abs fh (sm_bpm s)))" using x(3) by (intro rids_length [OF _ sub]) (simp add: all_rids_def)
  then show "length xs < k" using x(1,2) by (simp add: scannable_def)
  show "int (length v) = ss_len c" if "v \<in> set xs"
    using that x(1,2) sub rm_abs_length [OF inv] by (fastforce simp: scannable_def)
  show "ss_len c \<le> 512" using x(1) hdr_okD(2) [OF file_invD(1) [OF rm_invD(8) [OF inv]]] by (simp add: scannable_def)
qed

interpretation scan: restartable junk "Suc d" k "calm_sm P" "scan_cur P k fh c zs" "ss_cols c" "ss_len c" "scan_idle P k fh c zs" zs
proof
  fix e xs v s s' s1 s2 s3
  show "calm_sm P s s" by (simp add: calm_sm_def)
  show "calm_sm P s1 s2 \<Longrightarrow> calm_sm P s2 s3 \<Longrightarrow> calm_sm P s1 s3" using quiet_trans by (auto simp: calm_sm_def)
  show "scan_cur P k fh c zs e xs s \<Longrightarrow> exec_cols e = Inr (ss_cols c)" "scan_cur P k fh c zs e xs s \<Longrightarrow> tupleLen e = Inr (ss_len c)"
    "scan_cur P k fh c zs e xs s \<Longrightarrow> cols_ok (ss_len c) (ss_cols c)"
    by (auto simp: scan_cur_def scan_idle_def same_scan_def scannable_def)
qed (fact scan_cur_calm scan_cur_rows(2) scan_cur_end scan_cur_tuple scan_cur_next scan_idle_calm scan_cur_start scan_cur_idle)+

section \<open>Joins and projections\<close>

lemma scan_source: "source junk (Suc d) k (calm_sm P) (scan_cur P k fh c zs) (ss_cols c) (ss_len c) (scan_idle P k fh c zs) zs"
  by (rule scan.source_axioms)

abbreviation join_guard :: "SeqScan \<Rightarrow> SeqScan \<Rightarrow> Condition list \<Rightarrow> bool" where
  "join_guard c1 c2 conds \<equiv> list_all (cond_wf (join_cols (ss_cols c1) (ss_len c1) (ss_cols c2))) conds"

interpretation nl: loop_join junk "Suc d" k "calm_sm P" "guarded (join_guard c1 c2 conds) (scan_cur P k fh1 c1 zs1)" "ss_cols c1" "ss_len c1"
  "guarded_idle (join_guard c1 c2 conds) (scan_idle P k fh1 c1 zs1)" zs1 "scan_cur P k fh2 c2 zs2" "ss_cols c2" "ss_len c2"
  "scan_idle P k fh2 c2 zs2" zs2 conds
proof (intro loop_join.intro loop_join_axioms.intro)
  fix e e' xs ys s s'
  show "source junk (Suc d) k (calm_sm P) (guarded (join_guard c1 c2 conds) (scan_cur P k fh1 c1 zs1)) (ss_cols c1) (ss_len c1)
      (guarded_idle (join_guard c1 c2 conds) (scan_idle P k fh1 c1 zs1)) zs1" by (rule scan.guarded_source)
  show "restartable junk (Suc d) k (calm_sm P) (scan_cur P k fh2 c2 zs2) (ss_cols c2) (ss_len c2) (scan_idle P k fh2 c2 zs2) zs2"
    by (rule scan.restartable_axioms)
  show "guarded (join_guard c1 c2 conds) (scan_cur P k fh1 c1 zs1) e xs s \<Longrightarrow> join_guard c1 c2 conds" by (simp add: guarded_def)
  show "guarded (join_guard c1 c2 conds) (scan_cur P k fh1 c1 zs1) e xs s \<Longrightarrow> scan_cur P k fh2 c2 zs2 e' ys s' \<Longrightarrow>
      ss_len c1 + ss_len c2 < 2 ^ 63" 
    using scan_cur_rows(3) [of P k fh1 c1 zs1 e xs s] scan_cur_rows(3) [of P k fh2 c2 zs2 e' ys s'] by (simp add: guarded_def)
  show "guarded (join_guard c1 c2 conds) (scan_cur P k fh1 c1 zs1) e xs s \<Longrightarrow> length xs < k" using scan_cur_rows(1) unfolding guarded_def by blast
  show "scan_cur P k fh2 c2 zs2 e ys s \<Longrightarrow> length ys < k" by (rule scan_cur_rows(1))
qed

text \<open>\<open>project_guard\<close>: the columns of the select list are found.\<close>

definition project_guard :: "ColMeta list \<Rightarrow> TabCol list \<Rightarrow> (nat \<times> ColMeta) list \<Rightarrow> int \<Rightarrow> bool" where
  "project_guard cols targets pcols plen \<longleftrightarrow> project_cols cols 0 targets = Inr (pcols, plen) \<and> targets \<noteq> []"

interpretation scan_project: projection junk "Suc d" k "calm_sm P" "guarded (project_guard (ss_cols c) targets pcols plen) (scan_cur P k fh c zs)"
  "ss_cols c" "ss_len c" "guarded_idle (project_guard (ss_cols c) targets pcols plen) (scan_idle P k fh c zs)" zs targets pcols plen
  by (intro projection.intro projection_axioms.intro scan.guarded_source) (simp_all add: guarded_def project_guard_def)

abbreviation join_cur where
  "join_cur P k fh1 c1 zs1 fh2 c2 zs2 conds \<equiv> loop_join.join_at (guarded (join_guard c1 c2 conds) (scan_cur P k fh1 c1 zs1))
     (ss_cols c1) (ss_len c1) (scan_cur P k fh2 c2 zs2) (ss_cols c2) (ss_len c2) zs2 conds"

abbreviation join_idle where
  "join_idle P k fh1 c1 zs1 fh2 c2 zs2 conds \<equiv> loop_join.join_idle (ss_cols c1) (ss_len c1)
     (guarded_idle (join_guard c1 c2 conds) (scan_idle P k fh1 c1 zs1)) (ss_cols c2) (ss_len c2) (scan_idle P k fh2 c2 zs2) conds"

definition join_rows :: "ColMeta list \<Rightarrow> Condition list \<Rightarrow> bytes list \<Rightarrow> bytes list \<Rightarrow> bytes list" where
  "join_rows cols conds as bs = filter (conds_hold cols conds) (concat (map (\<lambda>a. map (\<lambda>b. a @ b) bs) as))"

lemma join_of_scans:
  "source junk (Suc (Suc d)) k (calm_sm P) (join_cur P k fh1 c1 zs1 fh2 c2 zs2 conds)
     (join_cols (ss_cols c1) (ss_len c1) (ss_cols c2)) (ss_len c1 + ss_len c2) (join_idle P k fh1 c1 zs1 fh2 c2 zs2 conds)
     (join_rows (join_cols (ss_cols c1) (ss_len c1) (ss_cols c2)) conds zs1 zs2)"
  using nl.join_source [of junk d k P c1 c2 conds fh1 zs1 fh2 zs2] unfolding nl.joined_rows nl.jcols_def join_rows_def .

interpretation join_project: projection junk "Suc (Suc d)" k "calm_sm P"
  "guarded (project_guard (join_cols (ss_cols c1) (ss_len c1) (ss_cols c2)) targets pcols plen) (join_cur P k fh1 c1 zs1 fh2 c2 zs2 conds)"
  "join_cols (ss_cols c1) (ss_len c1) (ss_cols c2)" "ss_len c1 + ss_len c2"
  "guarded_idle (project_guard (join_cols (ss_cols c1) (ss_len c1) (ss_cols c2)) targets pcols plen) (join_idle P k fh1 c1 zs1 fh2 c2 zs2 conds)"
  "join_rows (join_cols (ss_cols c1) (ss_len c1) (ss_cols c2)) conds zs1 zs2" targets pcols plen
  by (intro projection.intro projection_axioms.intro source.guarded_source join_of_scans) (simp_all add: guarded_def project_guard_def)

end
