(* ===== verification/Lexer.thy ===== *)
theory Lexer
  imports Ast
begin

text \<open>
  \<open>src/src/parser/lex.l\<close>, the rules of the scanner. flex takes the rule with the longest match, and among those the first; \<open>rules\<close>
  lists the rules of a start condition in the order of the file, each as the length of its match at the front of the input (0 for none)
  and its action. The start condition is a static variable of the scanner: it survives the end of the input. Locations, which only the
  error message on the console uses, are left out.
\<close>

section \<open>Tokens\<close>

datatype token =
    KW_SHOW | KW_TXN_BEGIN | KW_TXN_COMMIT | KW_TXN_ABORT | KW_TXN_ROLLBACK | KW_TABLES | KW_CREATE | KW_TABLE | KW_DROP | KW_DESC
  | KW_INSERT | KW_INTO | KW_VALUES | KW_DELETE | KW_FROM | KW_WHERE | KW_UPDATE | KW_SET | KW_SELECT | KW_INT | KW_CHAR | KW_FLOAT
  | KW_INDEX | KW_AND | KW_JOIN | KW_EXIT | KW_HELP | KW_ORDER | KW_BY | KW_ASC
  | GEQ | LEQ | NEQ | SingleOp char
  | IDENTIFIER string | VALUE_INT int | VALUE_FLOAT "32 word" | VALUE_STRING string
  | T_EOF

section \<open>Numbers\<close>

text \<open>
  \<open>atoi\<close>: \<open>strtol\<close>, which clamps to 64 bits, and the conversion to \<open>int\<close>. \<open>atof\<close> gives the \<open>double\<close> nearest to the decimal
  number, and the assignment to \<open>sv_float\<close> the \<open>float\<close> nearest to that; both round ties to even. A binary number \<open>m * 2 ^ e\<close>
  is the pair of \<open>m\<close> and \<open>e\<close>.
\<close>

definition split_sign :: "string \<Rightarrow> bool \<times> string" where
  "split_sign s = (case s of c # cs \<Rightarrow> if c = CHR ''-'' then (True, cs) else if c = CHR ''+'' then (False, cs) else (False, s) | [] \<Rightarrow> (False, []))"

definition atoi :: "string \<Rightarrow> int" where
  "atoi s =
     (let (neg, ds) = split_sign s;
          v = int (digits_val 0 ds);
          l = (if neg then max (- (2 ^ 63)) (- v) else min (2 ^ 63 - 1) v)
      in (l + 2 ^ 31) mod 2 ^ 32 - 2 ^ 31)"

fun bitlen :: "nat \<Rightarrow> nat" where
  "bitlen n = (if n = 0 then 0 else Suc (bitlen (n div 2)))"

declare bitlen.simps [simp del]

definition floor_log2 :: "nat \<Rightarrow> nat \<Rightarrow> int" where
  "floor_log2 n d =
     (let k = int (bitlen n) - int (bitlen d)
      in if (if 0 \<le> k then d * 2 ^ nat k \<le> n else d \<le> n * 2 ^ nat (- k)) then k else k - 1)"

definition fp_round :: "nat \<Rightarrow> int \<Rightarrow> nat \<Rightarrow> nat \<Rightarrow> nat \<times> int" where
  "fp_round p emin n d =
     (if n = 0 then (0, emin)
      else
        let e = max emin (floor_log2 n d - (int p - 1));
            m = (if 0 \<le> e then round_half_even n (d * 2 ^ nat e) else round_half_even (n * 2 ^ nat (- e)) d)
        in if m = 2 ^ p then (2 ^ (p - 1), e + 1) else (m, e))"

definition double_to_float :: "nat \<times> int \<Rightarrow> nat" where
  "double_to_float x =
     (let (m, e) = x;
          (m', e') = (if 971 < e then (2 ^ 23, 105)
                      else if 0 \<le> e then fp_round 24 (- 149) (m * 2 ^ nat e) 1
                      else fp_round 24 (- 149) m (2 ^ nat (- e)))
      in if 104 < e' then 255 * 2 ^ 23
         else if m' < 2 ^ 23 then m'
         else nat (e' + 150) * 2 ^ 23 + (m' - 2 ^ 23))"

definition atof :: "string \<Rightarrow> 32 word" where
  "atof s =
     (let (neg, t) = split_sign s;
          whole = takeWhile is_digit t;
          frac = takeWhile is_digit (drop (length whole + 1) t);
          bits = double_to_float (fp_round 53 (- 1074) (digits_val 0 (whole @ frac)) (10 ^ length frac))
      in word_of_nat ((if neg then 2 ^ 31 else 0) + bits))"

section \<open>Patterns\<close>

definition is_alpha :: "char \<Rightarrow> bool" where
  "is_alpha c \<longleftrightarrow> (65 \<le> (of_char c :: nat) \<and> (of_char c :: nat) \<le> 90) \<or> (97 \<le> (of_char c :: nat) \<and> (of_char c :: nat) \<le> 122)"

definition lower :: "char \<Rightarrow> char" where
  "lower c = (if 65 \<le> (of_char c :: nat) \<and> (of_char c :: nat) \<le> 90 then char_of (of_char c + 32 :: nat) else c)"

definition is_word :: "char \<Rightarrow> bool" where
  "is_word c \<longleftrightarrow> c = CHR ''_'' \<or> is_alpha c \<or> is_digit c"

text \<open>A literal pattern; the scanner is built with \<open>caseless\<close>.\<close>

definition m_lit :: "string \<Rightarrow> string \<Rightarrow> nat" where
  "m_lit w s = (if map lower (take (length w) s) = map lower w then length w else 0)"

definition m_line_comment :: "string \<Rightarrow> nat" where
  "m_line_comment s = (if m_lit ''--'' s = 2 then 2 + length (takeWhile (\<lambda>c. c \<noteq> CHR 0x0A) (drop 2 s)) else 0)"

definition m_white_space :: "string \<Rightarrow> nat" where
  "m_white_space s = length (takeWhile (\<lambda>c. c = CHR '' '' \<or> c = CHR 0x09) s)"

definition m_new_line :: "string \<Rightarrow> nat" where
  "m_new_line s =
     (case s of
        c # cs \<Rightarrow> if c = CHR 0x0D then (if cs \<noteq> [] \<and> hd cs = CHR 0x0A then 2 else 1) else if c = CHR 0x0A then 1 else 0
      | [] \<Rightarrow> 0)"

definition single_ops :: string where
  "single_ops = '';(),*=><.''"

definition m_single_op :: "string \<Rightarrow> nat" where
  "m_single_op s = (case s of c # cs \<Rightarrow> if c \<in> set single_ops then 1 else 0 | [] \<Rightarrow> 0)"

definition m_identifier :: "string \<Rightarrow> nat" where
  "m_identifier s = (case s of c # cs \<Rightarrow> if is_alpha c then 1 + length (takeWhile is_word cs) else 0 | [] \<Rightarrow> 0)"

definition sign_len :: "string \<Rightarrow> nat" where
  "sign_len s = (case s of c # cs \<Rightarrow> if c = CHR ''+'' \<or> c = CHR ''-'' then 1 else 0 | [] \<Rightarrow> 0)"

definition m_value_int :: "string \<Rightarrow> nat" where
  "m_value_int s =
     (let k = sign_len s; n = length (takeWhile is_digit (drop k s)) in if n = 0 then 0 else k + n)"

definition m_value_float :: "string \<Rightarrow> nat" where
  "m_value_float s =
     (let k = m_value_int s; r = drop k s
      in if k = 0 \<or> r = [] \<or> hd r \<noteq> CHR ''.'' then 0 else k + 1 + length (takeWhile is_digit (tl r)))"

definition m_value_string :: "string \<Rightarrow> nat" where
  "m_value_string s =
     (case s of
        c # cs \<Rightarrow>
          if c \<noteq> CHR 0x27 then 0
          else let n = length (takeWhile (\<lambda>c. c \<noteq> CHR 0x27) cs) in if n < length cs then n + 2 else 0
      | [] \<Rightarrow> 0)"

definition m_any :: "string \<Rightarrow> nat" where
  "m_any s = (case s of c # cs \<Rightarrow> if c = CHR 0x0A then 0 else 1 | [] \<Rightarrow> 0)"

definition m_not_star :: "string \<Rightarrow> nat" where
  "m_not_star s = (case s of c # cs \<Rightarrow> if c = CHR ''*'' then 0 else 1 | [] \<Rightarrow> 0)"

section \<open>Rules\<close>

datatype startcond = INITIAL | STATE_COMMENT

datatype lexact = Ignore | Begin startcond | Return token | Make "string \<Rightarrow> token"

definition kw_table :: "(string \<times> token) list" where
  "kw_table =
     [(''SHOW'', KW_SHOW), (''BEGIN'', KW_TXN_BEGIN), (''COMMIT'', KW_TXN_COMMIT), (''ABORT'', KW_TXN_ABORT),
      (''ROLLBACK'', KW_TXN_ROLLBACK), (''TABLES'', KW_TABLES), (''CREATE'', KW_CREATE), (''TABLE'', KW_TABLE), (''DROP'', KW_DROP),
      (''DESC'', KW_DESC), (''INSERT'', KW_INSERT), (''INTO'', KW_INTO), (''VALUES'', KW_VALUES), (''DELETE'', KW_DELETE),
      (''FROM'', KW_FROM), (''WHERE'', KW_WHERE), (''UPDATE'', KW_UPDATE), (''SET'', KW_SET), (''SELECT'', KW_SELECT), (''INT'', KW_INT),
      (''CHAR'', KW_CHAR), (''FLOAT'', KW_FLOAT), (''INDEX'', KW_INDEX), (''AND'', KW_AND), (''JOIN'', KW_JOIN), (''EXIT'', KW_EXIT),
      (''HELP'', KW_HELP), (''ORDER'', KW_ORDER), (''BY'', KW_BY), (''ASC'', KW_ASC)]"

definition initial_rules :: "((string \<Rightarrow> nat) \<times> lexact) list" where
  "initial_rules =
     [(m_lit ''/*'', Begin STATE_COMMENT), (m_line_comment, Ignore), (m_white_space, Ignore), (m_new_line, Ignore)] @
     map (\<lambda>(w, t). (m_lit w, Return t)) kw_table @
     [(m_lit ''>='', Return GEQ), (m_lit ''<='', Return LEQ), (m_lit ''<>'', Return NEQ),
      (m_single_op, Make (\<lambda>yytext. SingleOp (hd yytext))),
      (m_identifier, Make IDENTIFIER),
      (m_value_int, Make (\<lambda>yytext. VALUE_INT (atoi yytext))),
      (m_value_float, Make (\<lambda>yytext. VALUE_FLOAT (atof yytext))),
      (m_value_string, Make (\<lambda>yytext. VALUE_STRING (butlast (tl yytext)))),
      (m_any, Ignore)]"

definition comment_rules :: "((string \<Rightarrow> nat) \<times> lexact) list" where
  "comment_rules = [(m_lit ''*/'', Begin INITIAL), (m_not_star, Ignore), (m_lit ''*'', Ignore)]"

fun rules :: "startcond \<Rightarrow> ((string \<Rightarrow> nat) \<times> lexact) list" where
  "rules INITIAL = initial_rules" | "rules STATE_COMMENT = comment_rules"

fun longest :: "((string \<Rightarrow> nat) \<times> lexact) list \<Rightarrow> string \<Rightarrow> nat \<times> lexact" where
  "longest [] s = (0, Ignore)"
| "longest ((m, a) # rs) s = (let (n, b) = longest rs s in if n \<le> m s \<and> 0 < m s then (m s, a) else (n, b))"

section \<open>Scanning\<close>

text \<open>One call of \<open>yylex\<close>: the token, and the start condition and the input it leaves.\<close>

function yylex :: "startcond \<Rightarrow> string \<Rightarrow> token \<times> startcond \<times> string" where
  "yylex sc s =
     (if s = [] then (T_EOF, sc, [])
      else
        let (n, a) = longest (rules sc) s; yytext = take n s; r = drop (max 1 n) s
        in case a of
             Ignore \<Rightarrow> yylex sc r
           | Begin sc' \<Rightarrow> yylex sc' r
           | Return t \<Rightarrow> (t, sc, r)
           | Make f \<Rightarrow> (f yytext, sc, r))"
  by pat_completeness auto
termination by (relation "measure (\<lambda>(sc, s). length s)") auto

declare yylex.simps [simp del]

lemma yylex_shorter: "yylex sc s = (t, sc', r) \<Longrightarrow> t \<noteq> T_EOF \<Longrightarrow> length r < length s"
proof (induction sc s rule: yylex.induct)
  case (1 sc s)
  show ?case
  proof (cases "s = []")
    case True
    then show ?thesis using "1.prems" by (simp add: yylex.simps)
  next
    case False
    obtain n a where na: "longest (rules sc) s = (n, a)" by fastforce
    have lt: "length (drop (max 1 n) s) < length s" using False by simp
    show ?thesis
    proof (cases a)
      case Ignore
      have y: "yylex sc (drop (max 1 n) s) = (t, sc', r)" using "1.prems" False na Ignore by (simp add: yylex.simps [of sc s])
      from "1.IH"(1) [OF False na [symmetric] refl refl refl Ignore this "1.prems"(2)] show ?thesis using lt by simp
    next
      case (Begin sc2)
      have y: "yylex sc2 (drop (max 1 n) s) = (t, sc', r)" using "1.prems" False na Begin by (simp add: yylex.simps [of sc s])
      from "1.IH"(2) [OF False na [symmetric] refl refl refl Begin this "1.prems"(2)] show ?thesis using lt by simp
    qed (use "1.prems" False na in \<open>auto simp: yylex.simps [of sc s]\<close>)
  qed
qed

text \<open>The tokens of an input with the start condition after each, up to the first \<open>T_EOF\<close>.\<close>

function tokens :: "startcond \<Rightarrow> string \<Rightarrow> (token \<times> startcond) list" where
  "tokens sc s =
     (let (t, sc', r) = yylex sc s
      in if t = T_EOF then [(T_EOF, sc')] else (t, sc') # tokens sc' r)"
  by pat_completeness auto
termination by (relation "measure (\<lambda>(sc, s). length s)") (auto dest: yylex_shorter [OF sym])

declare tokens.simps [simp del]

end
