(* ===== verification/Parser.thy ===== *)
theory Parser
  imports Lexer
begin

text \<open>
  \<open>src/src/parser/yacc.y\<close>. The grammar is given twice: as inductive predicates with one rule per production and its action, and as
  functions that compute the tree. The parser that bison generates accepts the first sentence of the grammar at the front of the
  tokens: after the production of \<open>start\<close> it returns without asking for another token. On a syntax error it stops at the first token
  that does not continue a sentence. A rule without symbols leaves \<open>$$\<close> as the stack slot above the top, which is a value
  constructed by default or one without conditions and order: an empty list, a null pointer.
\<close>

abbreviation SEMI :: token where "SEMI \<equiv> SingleOp (CHR '';'')"
abbreviation LPAREN :: token where "LPAREN \<equiv> SingleOp (CHR ''('')"
abbreviation RPAREN :: token where "RPAREN \<equiv> SingleOp (CHR '')'')"
abbreviation COMMA :: token where "COMMA \<equiv> SingleOp (CHR '','')"
abbreviation STAR :: token where "STAR \<equiv> SingleOp (CHR ''*'')"
abbreviation EQUALS :: token where "EQUALS \<equiv> SingleOp (CHR ''='')"
abbreviation LESS :: token where "LESS \<equiv> SingleOp (CHR ''<'')"
abbreviation GREATER :: token where "GREATER \<equiv> SingleOp (CHR ''>'')"
abbreviation DOT :: token where "DOT \<equiv> SingleOp (CHR ''.'')"

section \<open>The grammar\<close>

text \<open>The left-recursive lists: elements with a separator between them.\<close>

inductive g_list :: "(token \<Rightarrow> bool) \<Rightarrow> (token list \<Rightarrow> 'a \<Rightarrow> bool) \<Rightarrow> token list \<Rightarrow> 'a list \<Rightarrow> bool"
  for sep and R where
  first: "R us x \<Longrightarrow> g_list sep R us [x]"
| more: "g_list sep R us xs \<Longrightarrow> sep s \<Longrightarrow> R vs x \<Longrightarrow> g_list sep R (us @ s # vs) (xs @ [x])"

inductive g_tbName :: "token list \<Rightarrow> string \<Rightarrow> bool" where
  "g_tbName [IDENTIFIER x] x"

inductive g_type :: "token list \<Rightarrow> TypeLen \<Rightarrow> bool" where
  "g_type [KW_INT] \<lparr>tl_type = SV_TYPE_INT, tl_len = 4\<rparr>"
| "g_type [KW_CHAR, LPAREN, VALUE_INT n, RPAREN] \<lparr>tl_type = SV_TYPE_STRING, tl_len = n\<rparr>"
| "g_type [KW_FLOAT] \<lparr>tl_type = SV_TYPE_FLOAT, tl_len = 4\<rparr>"

inductive g_field :: "token list \<Rightarrow> Field \<Rightarrow> bool" where
  "g_type us ty \<Longrightarrow> g_field (IDENTIFIER c # us) (AstColDef c ty)"

inductive g_value :: "token list \<Rightarrow> AstValue \<Rightarrow> bool" where
  "g_value [VALUE_INT i] (IntLit i)"
| "g_value [VALUE_FLOAT f] (FloatLit f)"
| "g_value [VALUE_STRING s] (StringLit s)"

inductive g_col :: "token list \<Rightarrow> Col \<Rightarrow> bool" where
  "g_col [IDENTIFIER t, DOT, IDENTIFIER c] \<lparr>col_tab = t, col_nm = c\<rparr>"
| "g_col [IDENTIFIER c] \<lparr>col_tab = [], col_nm = c\<rparr>"

inductive g_op :: "token list \<Rightarrow> SvCompOp \<Rightarrow> bool" where
  "g_op [EQUALS] SV_OP_EQ"
| "g_op [LESS] SV_OP_LT"
| "g_op [GREATER] SV_OP_GT"
| "g_op [NEQ] SV_OP_NE"
| "g_op [LEQ] SV_OP_LE"
| "g_op [GEQ] SV_OP_GE"

inductive g_expr :: "token list \<Rightarrow> Expr \<Rightarrow> bool" where
  "g_value us v \<Longrightarrow> g_expr us (ValueExpr v)"
| "g_col us c \<Longrightarrow> g_expr us (ColExpr c)"

inductive g_condition :: "token list \<Rightarrow> BinaryExpr \<Rightarrow> bool" where
  "g_col us c \<Longrightarrow> g_op vs oper \<Longrightarrow> g_expr ws e \<Longrightarrow> g_condition (us @ vs @ ws) \<lparr>be_lhs = c, be_op = oper, be_rhs = e\<rparr>"

inductive g_optWhereClause :: "token list \<Rightarrow> BinaryExpr list \<Rightarrow> bool" where
  "g_optWhereClause [] []"
| "g_list (\<lambda>s. s = KW_AND) g_condition us cs \<Longrightarrow> g_optWhereClause (KW_WHERE # us) cs"

inductive g_setClause :: "token list \<Rightarrow> AstSetClause \<Rightarrow> bool" where
  "g_value us v \<Longrightarrow> g_setClause (IDENTIFIER c # EQUALS # us) \<lparr>as_col = c, as_val = v\<rparr>"

inductive g_selector :: "token list \<Rightarrow> Col list \<Rightarrow> bool" where
  "g_selector [STAR] []"
| "g_list (\<lambda>s. s = COMMA) g_col us cs \<Longrightarrow> g_selector us cs"

inductive g_opt_asc_desc :: "token list \<Rightarrow> OrderByDir \<Rightarrow> bool" where
  "g_opt_asc_desc [KW_ASC] OrderBy_ASC"
| "g_opt_asc_desc [KW_DESC] OrderBy_DESC"
| "g_opt_asc_desc [] OrderBy_DEFAULT"

inductive g_opt_order_clause :: "token list \<Rightarrow> OrderBy option \<Rightarrow> bool" where
  "g_col us c \<Longrightarrow> g_opt_asc_desc vs d \<Longrightarrow> g_opt_order_clause (KW_ORDER # KW_BY # us @ vs) (Some \<lparr>ob_col = c, ob_dir = d\<rparr>)"
| "g_opt_order_clause [] None"

inductive g_txnStmt :: "token list \<Rightarrow> stmt_tree \<Rightarrow> bool" where
  "g_txnStmt [KW_TXN_BEGIN] TxnBegin"
| "g_txnStmt [KW_TXN_COMMIT] TxnCommit"
| "g_txnStmt [KW_TXN_ABORT] TxnAbort"
| "g_txnStmt [KW_TXN_ROLLBACK] TxnRollback"

inductive g_dbStmt :: "token list \<Rightarrow> stmt_tree \<Rightarrow> bool" where
  "g_dbStmt [KW_SHOW, KW_TABLES] ShowTables"

inductive g_ddl :: "token list \<Rightarrow> stmt_tree \<Rightarrow> bool" where
  "g_list (\<lambda>s. s = COMMA) g_field us fs \<Longrightarrow>
     g_ddl ([KW_CREATE, KW_TABLE, IDENTIFIER t, LPAREN] @ us @ [RPAREN]) (CreateTable t fs)"
| "g_ddl [KW_DROP, KW_TABLE, IDENTIFIER t] (DropTable t)"
| "g_ddl [KW_DESC, IDENTIFIER t] (DescTable t)"
| "g_list (\<lambda>s. s = COMMA) g_tbName us cs \<Longrightarrow>
     g_ddl ([KW_CREATE, KW_INDEX, IDENTIFIER t, LPAREN] @ us @ [RPAREN]) (CreateIndex t cs)"
| "g_list (\<lambda>s. s = COMMA) g_tbName us cs \<Longrightarrow>
     g_ddl ([KW_DROP, KW_INDEX, IDENTIFIER t, LPAREN] @ us @ [RPAREN]) (DropIndex t cs)"

inductive g_dml :: "token list \<Rightarrow> stmt_tree \<Rightarrow> bool" where
  "g_list (\<lambda>s. s = COMMA) g_value us vs \<Longrightarrow>
     g_dml ([KW_INSERT, KW_INTO, IDENTIFIER t, KW_VALUES, LPAREN] @ us @ [RPAREN]) (InsertStmt t vs)"
| "g_optWhereClause us cs \<Longrightarrow> g_dml ([KW_DELETE, KW_FROM, IDENTIFIER t] @ us) (DeleteStmt t cs)"
| "g_list (\<lambda>s. s = COMMA) g_setClause us ss \<Longrightarrow> g_optWhereClause vs cs \<Longrightarrow>
     g_dml ([KW_UPDATE, IDENTIFIER t, KW_SET] @ us @ vs) (UpdateStmt t ss cs)"
| "g_selector us cols \<Longrightarrow> g_list (\<lambda>s. s = COMMA \<or> s = KW_JOIN) g_tbName vs tabs \<Longrightarrow> g_optWhereClause ws cs \<Longrightarrow>
   g_opt_order_clause os ob \<Longrightarrow>
     g_dml ([KW_SELECT] @ us @ [KW_FROM] @ vs @ ws @ os) (Select \<lparr>sel_cols = cols, sel_tabs = tabs, sel_conds = cs, sel_order = ob\<rparr>)"

inductive g_stmt :: "token list \<Rightarrow> stmt_tree \<Rightarrow> bool" where
  "g_dbStmt us t \<Longrightarrow> g_stmt us t"
| "g_ddl us t \<Longrightarrow> g_stmt us t"
| "g_dml us t \<Longrightarrow> g_stmt us t"
| "g_txnStmt us t \<Longrightarrow> g_stmt us t"

text \<open>The tree of a whole request; \<open>None\<close> is the null pointer.\<close>

inductive g_start :: "token list \<Rightarrow> stmt_tree option \<Rightarrow> bool" where
  "g_stmt us t \<Longrightarrow> g_start (us @ [SEMI]) (Some t)"
| "g_start [KW_HELP] (Some Help)"
| "g_start [KW_EXIT] None"
| "g_start [T_EOF] None"

section \<open>The parser\<close>

text \<open>A parser returns the value and the remaining tokens, or the tokens from the one that is not expected on.\<close>

type_synonym 'a parse = "token list \<Rightarrow> token list + 'a \<times> token list"

definition bindP :: "'a parse \<Rightarrow> ('a \<Rightarrow> 'b parse) \<Rightarrow> 'b parse" where
  "bindP p f ts = (case p ts of Inl e \<Rightarrow> Inl e | Inr (x, r) \<Rightarrow> f x r)"

definition ret :: "'a \<Rightarrow> 'a parse" where
  "ret x ts = Inr (x, ts)"

definition p_tok :: "token \<Rightarrow> unit parse" where
  "p_tok t ts = (case ts of [] \<Rightarrow> Inl [] | u # r \<Rightarrow> if u = t then Inr ((), r) else Inl ts)"

fun p_tbName :: "string parse" where
  "p_tbName (IDENTIFIER x # r) = Inr (x, r)"
| "p_tbName ts = Inl ts"

fun sep_list :: "nat \<Rightarrow> (token \<Rightarrow> bool) \<Rightarrow> 'a parse \<Rightarrow> 'a list parse" where
  "sep_list 0 sep p ts = Inl ts"
| "sep_list (Suc n) sep p ts =
     bindP p (\<lambda>x r.
       case r of
         [] \<Rightarrow> Inr ([x], r)
       | s # r' \<Rightarrow> if sep s then bindP (sep_list n sep p) (\<lambda>xs. ret (x # xs)) r' else Inr ([x], r)) ts"

text \<open>Every element takes a token, so the number of tokens bounds the number of elements.\<close>

definition p_list :: "(token \<Rightarrow> bool) \<Rightarrow> 'a parse \<Rightarrow> 'a list parse" where
  "p_list sep p ts = sep_list (length ts + 1) sep p ts"

fun p_int :: "int parse" where
  "p_int (VALUE_INT n # r) = Inr (n, r)"
| "p_int ts = Inl ts"

fun p_type :: "TypeLen parse" where
  "p_type (KW_INT # r) = Inr (\<lparr>tl_type = SV_TYPE_INT, tl_len = 4\<rparr>, r)"
| "p_type (KW_FLOAT # r) = Inr (\<lparr>tl_type = SV_TYPE_FLOAT, tl_len = 4\<rparr>, r)"
| "p_type (KW_CHAR # r) =
     bindP (p_tok LPAREN) (\<lambda>_. bindP p_int (\<lambda>n. bindP (p_tok RPAREN) (\<lambda>_. ret \<lparr>tl_type = SV_TYPE_STRING, tl_len = n\<rparr>))) r"
| "p_type ts = Inl ts"

definition p_field :: "Field parse" where
  "p_field = bindP p_tbName (\<lambda>c. bindP p_type (\<lambda>ty. ret (AstColDef c ty)))"

fun p_value :: "AstValue parse" where
  "p_value (VALUE_INT i # r) = Inr (IntLit i, r)"
| "p_value (VALUE_FLOAT f # r) = Inr (FloatLit f, r)"
| "p_value (VALUE_STRING s # r) = Inr (StringLit s, r)"
| "p_value ts = Inl ts"

definition p_col :: "Col parse" where
  "p_col = bindP p_tbName (\<lambda>t r.
     case r of
       [] \<Rightarrow> Inr (\<lparr>col_tab = [], col_nm = t\<rparr>, r)
     | s # r' \<Rightarrow> if s = DOT then bindP p_tbName (\<lambda>c. ret \<lparr>col_tab = t, col_nm = c\<rparr>) r' else Inr (\<lparr>col_tab = [], col_nm = t\<rparr>, r))"

definition op_of :: "token \<Rightarrow> SvCompOp option" where
  "op_of t = map_of [(EQUALS, SV_OP_EQ), (LESS, SV_OP_LT), (GREATER, SV_OP_GT), (NEQ, SV_OP_NE), (LEQ, SV_OP_LE), (GEQ, SV_OP_GE)] t"

definition p_op :: "SvCompOp parse" where
  "p_op ts = (case ts of [] \<Rightarrow> Inl [] | t # r \<Rightarrow> case op_of t of None \<Rightarrow> Inl ts | Some x \<Rightarrow> Inr (x, r))"

definition p_expr :: "Expr parse" where
  "p_expr ts = (case ts of IDENTIFIER x # r \<Rightarrow> bindP p_col (\<lambda>c. ret (ColExpr c)) ts | _ \<Rightarrow> bindP p_value (\<lambda>v. ret (ValueExpr v)) ts)"

definition p_condition :: "BinaryExpr parse" where
  "p_condition = bindP p_col (\<lambda>c. bindP p_op (\<lambda>oper. bindP p_expr (\<lambda>e. ret \<lparr>be_lhs = c, be_op = oper, be_rhs = e\<rparr>)))"

fun p_optWhereClause :: "BinaryExpr list parse" where
  "p_optWhereClause (KW_WHERE # r) = p_list (\<lambda>s. s = KW_AND) p_condition r"
| "p_optWhereClause ts = Inr ([], ts)"

definition p_setClause :: "AstSetClause parse" where
  "p_setClause = bindP p_tbName (\<lambda>c. bindP (p_tok EQUALS) (\<lambda>_. bindP p_value (\<lambda>v. ret \<lparr>as_col = c, as_val = v\<rparr>)))"

definition p_selector :: "Col list parse" where
  "p_selector ts = (if ts \<noteq> [] \<and> hd ts = STAR then Inr ([], tl ts) else p_list (\<lambda>s. s = COMMA) p_col ts)"

fun p_opt_asc_desc :: "OrderByDir parse" where
  "p_opt_asc_desc (KW_ASC # r) = Inr (OrderBy_ASC, r)"
| "p_opt_asc_desc (KW_DESC # r) = Inr (OrderBy_DESC, r)"
| "p_opt_asc_desc ts = Inr (OrderBy_DEFAULT, ts)"

fun p_opt_order_clause :: "OrderBy option parse" where
  "p_opt_order_clause (KW_ORDER # r) =
     bindP (p_tok KW_BY) (\<lambda>_. bindP p_col (\<lambda>c. bindP p_opt_asc_desc (\<lambda>d. ret (Some \<lparr>ob_col = c, ob_dir = d\<rparr>)))) r"
| "p_opt_order_clause ts = Inr (None, ts)"

definition p_parens :: "'a parse \<Rightarrow> 'a parse" where
  "p_parens p = bindP (p_tok LPAREN) (\<lambda>_. bindP p (\<lambda>x. bindP (p_tok RPAREN) (\<lambda>_. ret x)))"

fun p_create :: "stmt_tree parse" where
  "p_create (KW_TABLE # r) = bindP p_tbName (\<lambda>t. bindP (p_parens (p_list (\<lambda>s. s = COMMA) p_field)) (\<lambda>fs. ret (CreateTable t fs))) r"
| "p_create (KW_INDEX # r) = bindP p_tbName (\<lambda>t. bindP (p_parens (p_list (\<lambda>s. s = COMMA) p_tbName)) (\<lambda>cs. ret (CreateIndex t cs))) r"
| "p_create ts = Inl ts"

fun p_drop :: "stmt_tree parse" where
  "p_drop (KW_TABLE # r) = bindP p_tbName (\<lambda>t. ret (DropTable t)) r"
| "p_drop (KW_INDEX # r) = bindP p_tbName (\<lambda>t. bindP (p_parens (p_list (\<lambda>s. s = COMMA) p_tbName)) (\<lambda>cs. ret (DropIndex t cs))) r"
| "p_drop ts = Inl ts"

definition p_insert :: "stmt_tree parse" where
  "p_insert = bindP (p_tok KW_INTO) (\<lambda>_. bindP p_tbName (\<lambda>t. bindP (p_tok KW_VALUES) (\<lambda>_.
     bindP (p_parens (p_list (\<lambda>s. s = COMMA) p_value)) (\<lambda>vs. ret (InsertStmt t vs)))))"

definition p_delete :: "stmt_tree parse" where
  "p_delete = bindP (p_tok KW_FROM) (\<lambda>_. bindP p_tbName (\<lambda>t. bindP p_optWhereClause (\<lambda>cs. ret (DeleteStmt t cs))))"

definition p_update :: "stmt_tree parse" where
  "p_update = bindP p_tbName (\<lambda>t. bindP (p_tok KW_SET) (\<lambda>_. bindP (p_list (\<lambda>s. s = COMMA) p_setClause) (\<lambda>ss.
     bindP p_optWhereClause (\<lambda>cs. ret (UpdateStmt t ss cs)))))"

definition p_select :: "stmt_tree parse" where
  "p_select = bindP p_selector (\<lambda>cols. bindP (p_tok KW_FROM) (\<lambda>_.
     bindP (p_list (\<lambda>s. s = COMMA \<or> s = KW_JOIN) p_tbName) (\<lambda>tabs. bindP p_optWhereClause (\<lambda>cs. bindP p_opt_order_clause (\<lambda>ob.
     ret (Select \<lparr>sel_cols = cols, sel_tabs = tabs, sel_conds = cs, sel_order = ob\<rparr>))))))"

fun p_stmt :: "stmt_tree parse" where
  "p_stmt (KW_SHOW # r) = bindP (p_tok KW_TABLES) (\<lambda>_. ret ShowTables) r"
| "p_stmt (KW_CREATE # r) = p_create r"
| "p_stmt (KW_DROP # r) = p_drop r"
| "p_stmt (KW_DESC # r) = bindP p_tbName (\<lambda>t. ret (DescTable t)) r"
| "p_stmt (KW_INSERT # r) = p_insert r"
| "p_stmt (KW_DELETE # r) = p_delete r"
| "p_stmt (KW_UPDATE # r) = p_update r"
| "p_stmt (KW_SELECT # r) = p_select r"
| "p_stmt (KW_TXN_BEGIN # r) = Inr (TxnBegin, r)"
| "p_stmt (KW_TXN_COMMIT # r) = Inr (TxnCommit, r)"
| "p_stmt (KW_TXN_ABORT # r) = Inr (TxnAbort, r)"
| "p_stmt (KW_TXN_ROLLBACK # r) = Inr (TxnRollback, r)"
| "p_stmt ts = Inl ts"

fun p_start :: "stmt_tree option parse" where
  "p_start (KW_HELP # r) = Inr (Some Help, r)"
| "p_start (KW_EXIT # r) = Inr (None, r)"
| "p_start (T_EOF # r) = Inr (None, r)"
| "p_start ts = bindP p_stmt (\<lambda>t. bindP (p_tok SEMI) (\<lambda>_. ret (Some t))) ts"

text \<open>
  \<open>yyparse\<close> on the text given to \<open>yy_scan_string\<close>: \<open>None\<close> for a syntax error, otherwise \<open>parse_tree\<close>; and the start condition the
  scanner is left in, after the last token of the sentence or the token that was not expected.
\<close>

definition yyparse :: "startcond \<Rightarrow> string \<Rightarrow> stmt_tree option option \<times> startcond" where
  "yyparse sc txt =
     (let ts = tokens sc txt; n = length ts
      in case p_start (map fst ts) of
           Inl r \<Rightarrow> (None, snd (ts ! (n - length r)))
         | Inr (t, r) \<Rightarrow> (Some t, snd (ts ! (n - length r - 1))))"

end
