(* ===== verification/Server.thy ===== *)
theory Server
  imports Execution Log_Records Parser
begin

text \<open>
  \<open>src/src/rmdb.cpp\<close>: starting the server and answering requests. Requests are answered one after the other, each with the start
  condition in which the last one left the scanner; sockets, signals and threads are not modelled.
\<close>

text \<open>The arguments that stand for uninitialised memory and the bounds of the loops.\<close>

record env =
  env_junk :: "nat \<Rightarrow> byte"
  env_rid :: Rid
  env_hdr :: bytes
  env_depth :: nat
  env_loop :: nat
  env_rows :: nat

section \<open>One statement\<close>

definition execute_query :: "env \<Rightarrow> stmt_tree \<Rightarrow> nat \<Rightarrow> int \<Rightarrow> session \<Rightarrow> (unit, session) res" where
  "execute_query v tree thread txn_id se =
     bindO (on_sess_sm (\<lambda>s. pure_sm (do_analyze (env_junk v) (sm_db s) tree) s) se) (\<lambda>q se1.
     bindO (on_sess_sm (\<lambda>s. pure_sm (plan_query (sm_db s) q) s) se1) (\<lambda>p se2.
     bindO (on_sess_sm (portal_start (env_junk v) (env_rid v) (env_depth v) (env_loop v) (env_rows v) p) se2) (\<lambda>stmt se3.
     portal_run (env_junk v) (env_hdr v) (env_depth v) (env_loop v) (env_rows v) stmt thread txn_id se3)))"

text \<open>The handler of \<open>RMDBError\<close>: the message goes to the client, \<open>failure\<close> to the output file.\<close>

definition error_reply :: "rmdb_error \<Rightarrow> ctx \<Rightarrow> (unit, ctx) res" where
  "error_reply e c =
     (let n = get_msg_len e in
      if length (data_send c) < n + 2 then Err OutOfBounds c
      else Ok () (c\<lparr>data_send := what e @ [CHR 0x0A, CHR 0x00] @ drop (n + 2) (data_send c), send_offset := n + 1\<rparr>))"

definition run_statement :: "env \<Rightarrow> stmt_tree \<Rightarrow> nat \<Rightarrow> int \<Rightarrow> session \<Rightarrow> (unit, session) res" where
  "run_statement v tree thread txn_id se =
     (case execute_query v tree thread txn_id se of
        Err (Throw e) se1 \<Rightarrow>
          bindO (on_stmt (on_ctx (error_reply e)) se1) (\<lambda>_.
          on_sess_sm (\<lambda>s. Ok () (outfile_put (''failure'' @ [CHR 0x0A]) s)))
      | r \<Rightarrow> r)"

text \<open>
  \<open>SetTransaction\<close>, whose call in the request loop is commented out: it fails whenever the client has no transaction, because
  \<open>begin\<close> returns a null pointer.
\<close>

definition SetTransaction :: "nat \<Rightarrow> int \<Rightarrow> session \<Rightarrow> (int, session) res" where
  "SetTransaction thread txn_id se =
     (case get_transaction thread txn_id (se_tm se) of
        Inl e \<Rightarrow> Err e se
      | Inr t \<Rightarrow>
          (if t = None \<or> txn_state (the t) = TS_COMMITTED \<or> txn_state (the t) = TS_ABORTED then
             (case txn_begin None (se_tm se) of
                (None, tm) \<Rightarrow> Err NullDeref (se\<lparr>se_txn := None, se_tm := tm\<rparr>)
              | (Some t', tm) \<Rightarrow> Ok (txn_id_of t') (se\<lparr>se_txn := Some (set_txn_mode False t'), se_tm := tm\<rparr>))
           else Ok txn_id (se\<lparr>se_txn := t\<rparr>)))"

section \<open>One request\<close>

datatype answer = Reply string | Closed | Exit

text \<open>\<open>received\<close> is what \<open>read\<close> returned: \<open>None\<close> for an error, an empty text when the client has closed.\<close>

definition handle_request ::
  "env \<Rightarrow> string option \<Rightarrow> nat \<Rightarrow> int \<Rightarrow> TransactionManager \<Rightarrow> startcond \<Rightarrow> sm \<Rightarrow> (answer \<times> startcond, sm) res" where
  "handle_request v received thread txn_id tm sc s =
     (case received of
        None \<Rightarrow> Ok (Closed, sc) s
      | Some txt \<Rightarrow>
          if txt = [] then Ok (Closed, sc) s
          else
            let data_recv = take BUFFER_LENGTH txt @ replicate (BUFFER_LENGTH - length txt) (CHR 0x00);
                cmd = takeWhile (\<lambda>c. c \<noteq> CHR 0x00) data_recv
            in if length cmd = BUFFER_LENGTH then Err OutOfBounds s
               else if cmd = ''exit'' then Ok (Closed, sc) s
               else if cmd = ''crash'' then Ok (Exit, sc) s
               else
                 let se = \<lparr>se_sm = s, se_ctx = Context_new (replicate BUFFER_LENGTH (CHR 0x00)), se_txn = None, se_tm = tm\<rparr>;
                     (parsed, sc') = yyparse sc cmd
                 in
                 liftS se_sm
                   (bindO (case parsed of
                             Some (Some tree) \<Rightarrow> run_statement v tree thread txn_id se
                           | _ \<Rightarrow> Ok () se) (\<lambda>_ se1.
                    let n = send_offset (se_ctx se1) + 1 in
                    if length (data_send (se_ctx se1)) < n then Err OutOfBounds se1
                    else Ok (Reply (take n (data_send (se_ctx se1))), sc') se1)))"

text \<open>A client's requests one after the other; the id of its transaction is never set.\<close>

fun client_handler ::
  "env \<Rightarrow> string option list \<Rightarrow> nat \<Rightarrow> TransactionManager \<Rightarrow> startcond \<Rightarrow> sm \<Rightarrow> (string list \<times> startcond, sm) res" where
  "client_handler v [] thread tm sc s = Ok ([], sc) s"
| "client_handler v (r # rs) thread tm sc s =
     bindO (handle_request v r thread INVALID_TXN_ID tm sc s) (\<lambda>(a, sc1) s1.
       case a of
         Reply txt \<Rightarrow> bindO (client_handler v rs thread tm sc1 s1) (\<lambda>(ts, sc2) s2. Ok (txt # ts, sc2) s2)
       | _ \<Rightarrow> Ok ([], sc1) s1)"

section \<open>Start\<close>

definition recovery_analyze :: "sm \<Rightarrow> sm" where "recovery_analyze s = s"
definition recovery_redo :: "sm \<Rightarrow> sm" where "recovery_redo s = s"
definition recovery_undo :: "sm \<Rightarrow> sm" where "recovery_undo s = s"

definition start_database :: "bytes \<Rightarrow> DbMeta \<Rightarrow> string \<Rightarrow> sm \<Rightarrow> (unit, sm) res" where
  "start_database junk junk_db db s =
     bindO (if sm_is_dir db s then Ok () s else create_db db s) (\<lambda>_ s1.
     bindO (open_db junk junk_db db s1) (\<lambda>_ s2.
     Ok () (recovery_undo (recovery_redo (recovery_analyze s2)))))"

end
