(* ===== verification/Analyze_Properties.thy ===== *)
theory Analyze_Properties
  imports Analyze
begin

text \<open>
  What the analysis guarantees to the planner: every column that is left in a query exists, and
  the two sides of every condition have the same type.
\<close>

section \<open>Resolution of names\<close>

text \<open>The columns of the catalogue carry the name of their table, which is not empty.\<close>

definition cat_ok :: "DbMeta \<Rightarrow> bool" where
  "cat_ok db \<longleftrightarrow> (\<forall>t m. get_table t db = Inr m \<longrightarrow> t \<noteq> [] \<and> (\<forall>c \<in> set (tm_cols m). cm_tab c = t))"

lemma throwing_Inr [simp]: "throwing m = Inr a \<longleftrightarrow> m = Inr a"
  by (cases m) (simp_all add: throwing_def)

lemma is_col_iff: "is_col c m \<longleftrightarrow> (\<exists>x \<in> set (tm_cols m). cm_name x = c)"
  by (auto simp: is_col_def find_None_iff)

lemma tab_get_col_Inr: "tab_get_col c m = Inr x \<Longrightarrow> x \<in> set (tm_cols m) \<and> cm_name x = c"
  by (auto simp: tab_get_col_def find_Some_iff split: option.splits)

lemma tab_get_col_exists: "x \<in> set (tm_cols m) \<Longrightarrow> cm_name x = c \<Longrightarrow> \<exists>y. tab_get_col c m = Inr y"
  by (cases "find (\<lambda>m. cm_name m = c) (tm_cols m)") (auto simp: tab_get_col_def find_None_iff)

lemma get_all_cols_member:
  assumes "get_all_cols db tabs = Inr cs" and "c \<in> set cs"
  shows "\<exists>t m. t \<in> set tabs \<and> get_table t db = Inr m \<and> c \<in> set (tm_cols m)"
proof -
  obtain ms where ms: "list_all2 (\<lambda>t m. get_table t db = Inr m) tabs ms" "cs = concat (map tm_cols ms)"
    using assms(1) by (auto simp: get_all_cols_def bindE_Inr_iff mapE_Inr_iff)
  then obtain m where "m \<in> set ms" "c \<in> set (tm_cols m)" using assms(2) by auto
  then show ?thesis using ms(1) by (auto simp: list_all2_conv_all_nth in_set_conv_nth) (metis nth_mem)
qed

text \<open>The search over all columns against a filter: the reference for unqualified names.\<close>

definition resolve_spec :: "ColMeta list \<Rightarrow> string \<Rightarrow> failure + TabCol" where
  "resolve_spec all_cols col =
     (case filter (\<lambda>c. cm_name c = col) all_cols of
        [] \<Rightarrow> Inl (Throw (ColumnNotFoundError col))
      | [c] \<Rightarrow> Inr (TabCol_of (cm_tab c) col)
      | _ \<Rightarrow> Inl (Throw (AmbiguousColumnError col)))"

lemma infer_table_found:
  "tab \<noteq> [] \<Longrightarrow> infer_table col cs tab =
     (if filter (\<lambda>c. cm_name c = col) cs = [] then Inr tab else Inl (Throw (AmbiguousColumnError col)))"
  by (induction cs) auto

lemma infer_table_spec:
  "\<forall>c \<in> set cs. cm_tab c \<noteq> [] \<Longrightarrow> infer_table col cs [] =
     (case filter (\<lambda>c. cm_name c = col) cs of
        [] \<Rightarrow> Inr [] | [c] \<Rightarrow> Inr (cm_tab c) | _ \<Rightarrow> Inl (Throw (AmbiguousColumnError col)))"
proof (induction cs)
  case (Cons c cs)
  show ?case
  proof (cases "cm_name c = col")
    case True
    then show ?thesis using Cons.prems by (cases "filter (\<lambda>c. cm_name c = col) cs") (simp_all add: infer_table_found)
  next
    case False
    then show ?thesis using Cons by simp
  qed
qed simp

text \<open>
  C30. Unqualified column names: over columns that carry a table name, the loop of \<open>check_column\<close> is
  the reference definition. A name that no column has is \<open>ColumnNotFoundError\<close>, a name that exactly one
  column has gets that column's table, and a name of two or more columns is \<open>AmbiguousColumnError\<close>.
\<close>

theorem check_column_unqualified:
  assumes "\<forall>c \<in> set all_cols. cm_tab c \<noteq> []"
  shows "check_column db all_cols (TabCol_of [] col) = resolve_spec all_cols col"
proof (cases "filter (\<lambda>c. cm_name c = col) all_cols")
  case Nil
  then show ?thesis using infer_table_spec [OF assms, of col] by (simp add: check_column_def resolve_spec_def)
next
  case (Cons c cs)
  have "c \<in> set (filter (\<lambda>c. cm_name c = col) all_cols)" unfolding Cons by simp
  then have "c \<in> set all_cols" by simp
  then show ?thesis
    using Cons infer_table_spec [OF assms, of col] assms
    by (cases cs) (simp_all add: check_column_def resolve_spec_def)
qed

definition ex_acols :: "ColMeta list" where
  "ex_acols = [\<lparr>cm_tab = ''a'', cm_name = ''x'', cm_type = TYPE_INT, cm_len = 4, cm_offset = 0, cm_index = False\<rparr>,
     \<lparr>cm_tab = ''a'', cm_name = ''s'', cm_type = TYPE_STRING, cm_len = 8, cm_offset = 4, cm_index = False\<rparr>]"

definition ex_bcols :: "ColMeta list" where
  "ex_bcols = [\<lparr>cm_tab = ''b'', cm_name = ''x'', cm_type = TYPE_INT, cm_len = 4, cm_offset = 0, cm_index = False\<rparr>]"

definition ex_cat :: DbMeta where
  "ex_cat = \<lparr>db_name = ''d'', db_tabs = [(''a'', \<lparr>tm_name = ''a'', tm_cols = ex_acols, tm_indexes = []\<rparr>),
     (''b'', \<lparr>tm_name = ''b'', tm_cols = ex_bcols, tm_indexes = []\<rparr>)]\<rparr>"

theorem check_column_unqualified_witness:
  "check_column ex_cat (ex_acols @ ex_bcols) (TabCol_of [] ''x'') = Inl (Throw (AmbiguousColumnError ''x'')) \<and>
   check_column ex_cat ex_acols (TabCol_of [] ''x'') = Inr (TabCol_of ''a'' ''x'')"
  using check_column_unqualified [of "ex_acols @ ex_bcols" ex_cat "''x''"] check_column_unqualified [of ex_acols ex_cat "''x''"]
  by (simp add: ex_acols_def ex_bcols_def resolve_spec_def)

lemma check_column_resolves:
  assumes ok: "cat_ok db" and cs: "get_all_cols db tabs = Inr cs" and c: "check_column db cs t = Inr r"
  shows "\<exists>m. find_col db r = Inr m \<and> cm_tab m = tc_tab r \<and> cm_name m = tc_col r"
proof -
  have "\<exists>m x. get_table (tc_tab r) db = Inr m \<and> x \<in> set (tm_cols m) \<and> cm_name x = tc_col r"
  proof (cases "tc_tab t = []")
    case True
    have tabs: "\<forall>c \<in> set cs. cm_tab c \<noteq> []" using get_all_cols_member [OF cs] ok unfolding cat_ok_def by metis
    have t: "t = TabCol_of [] (tc_col t)" using True by (cases t) simp
    have "resolve_spec cs (tc_col t) = Inr r"
    proof (cases "filter (\<lambda>c. cm_name c = tc_col t) cs")
      case Nil
      then show ?thesis using infer_table_spec [OF tabs, of "tc_col t"] c True
        by (simp add: check_column_def)
    next
      case (Cons x xs)
      have "x \<in> set (filter (\<lambda>c. cm_name c = tc_col t) cs)" unfolding Cons by simp
      then have "cm_tab x \<noteq> []" using tabs by simp
      then show ?thesis using Cons infer_table_spec [OF tabs, of "tc_col t"] c True t
        by (cases xs; cases t) (simp_all add: check_column_def resolve_spec_def)
    qed
    then obtain x where x: "filter (\<lambda>c. cm_name c = tc_col t) cs = [x]" "r = TabCol_of (cm_tab x) (tc_col t)"
      by (auto simp: resolve_spec_def split: list.splits)
    have "x \<in> set (filter (\<lambda>c. cm_name c = tc_col t) cs)" unfolding x(1) by simp
    then have x': "x \<in> set cs" "cm_name x = tc_col t" by auto
    then obtain tn m where "get_table tn db = Inr m" "x \<in> set (tm_cols m)" using get_all_cols_member [OF cs] by blast
    moreover have "cm_tab x = tn" using ok calculation by (auto simp: cat_ok_def)
    ultimately show ?thesis using x(2) x'(2) by auto
  next
    case False
    then show ?thesis using c by (auto simp: check_column_def is_col_iff split: sum.splits if_splits)
  qed
  then obtain m x where m: "get_table (tc_tab r) db = Inr m" "x \<in> set (tm_cols m)" "cm_name x = tc_col r" by blast
  obtain y where y: "tab_get_col (tc_col r) m = Inr y" using tab_get_col_exists [OF m(2,3)] by blast
  then show ?thesis using m(1) tab_get_col_Inr [OF y] ok by (auto simp: find_col_def cat_ok_def throwing_def)
qed

section \<open>Well-typed conditions\<close>

definition cond_typed :: "DbMeta \<Rightarrow> Condition \<Rightarrow> bool" where
  "cond_typed db c \<longleftrightarrow> (\<exists>lm. find_col db (lhs_col c) = Inr lm \<and>
     (if is_rhs_val c
      then vtype (rhs_val c) = cm_type lm \<and> (\<exists>r. raw (rhs_val c) = Some r \<and> int (length (rec_data r)) = max 0 (cm_len lm))
      else \<exists>rm. find_col db (rhs_col c) = Inr rm \<and> cm_type rm = cm_type lm))"

lemma init_raw_length:
  "init_raw junk len v = Ok () v' \<Longrightarrow> vtype v' = vtype v \<and> (\<exists>r. raw v' = Some r \<and> length (rec_data r) = nat len)"
  by (auto simp: init_raw_def Let_def RmRecord_alloc_def split: if_splits ColType.splits)

lemma check_cond_typed:
  assumes ok: "cat_ok db" and cs: "get_all_cols db tabs = Inr cs" and c: "check_cond junk db cs x = Inr c"
  shows "cond_typed db c"
proof (cases "is_rhs_val x")
  case True
  then obtain l lm v where l: "find_col db l = Inr lm" "run_init_raw junk (cm_len lm) (rhs_val x) = Inr v"
    "cm_type lm = vtype v" "c = x\<lparr>lhs_col := l, rhs_col := rhs_col x, rhs_val := v\<rparr>"
    using c by (auto simp: check_cond_def bindE_Inr_iff check_types_def Let_def split: if_splits)
  then have "init_raw junk (cm_len lm) (rhs_val x) = Ok () v" by (auto simp: run_init_raw_def split: outcome.splits)
  from init_raw_length [OF this] show ?thesis using l True by (auto simp: cond_typed_def)
next
  case False
  then show ?thesis using c
    by (auto simp: check_cond_def bindE_Inr_iff check_types_def cond_typed_def Let_def split: if_splits)
qed

lemma check_clause_typed:
  assumes "cat_ok db" and "check_clause junk db tabs xs = Inr cs" and "c \<in> set cs"
  shows "cond_typed db c"
  using assms check_cond_typed
  by (fastforce simp: check_clause_def bindE_Inr_iff mapE_Inr_iff list_all2_conv_all_nth in_set_conv_nth)

text \<open>
  C29. In a catalogue whose columns carry the name of their table, a \<open>SELECT\<close> that passes the analysis is resolved and well typed: the tables of its \<open>FROM\<close> list exist;
  every output column names an existing table and an existing column of it; in every
  condition the column exists; a column it is compared with exists and has the same type (not
  necessarily the same length: \<open>CHAR(4)\<close> against \<open>CHAR(8)\<close> passes), and a literal it is compared
  with has its type and is encoded with exactly its length.
\<close>

theorem analyze_select_resolved:
  assumes ok: "cat_ok db" and q: "do_analyze junk db (Select x) = Inr q"
  shows "q_tables q = sel_tabs x \<and> (\<forall>t \<in> set (q_tables q). is_table t db) \<and>
    (\<forall>c \<in> set (q_cols q). \<exists>m. find_col db c = Inr m \<and> cm_tab m = tc_tab c \<and> cm_name m = tc_col c) \<and>
    (\<forall>c \<in> set (q_conds q). cond_typed db c)"
proof -
  obtain all cols conds where s: "check_tables db (sel_tabs x) = Inr ()" "get_all_cols db (sel_tabs x) = Inr all"
    "(if sel_cols x = [] then Inr (map (\<lambda>c. TabCol_of (cm_tab c) (cm_name c)) all)
      else mapE (\<lambda>c. check_column db all (TabCol_of (col_tab c) (col_nm c))) (sel_cols x)) = Inr cols"
    "check_clause junk db (sel_tabs x) (get_clause (sel_conds x)) = Inr conds"
    "q = (Query_new (Select x))\<lparr>q_tables := sel_tabs x, q_cols := cols, q_conds := conds\<rparr>"
    using q by (auto simp: do_analyze_def bindE_Inr_iff)
  have "\<exists>m. find_col db c = Inr m \<and> cm_tab m = tc_tab c \<and> cm_name m = tc_col c" if c: "c \<in> set cols" for c
  proof (cases "sel_cols x = []")
    case True
    then obtain y where y: "y \<in> set all" "c = TabCol_of (cm_tab y) (cm_name y)" using s(3) c by auto
    obtain t m where m: "get_table t db = Inr m" "y \<in> set (tm_cols m)" using get_all_cols_member [OF s(2) y(1)] by blast
    have t: "cm_tab y = t" using ok m by (auto simp: cat_ok_def)
    obtain z where "tab_get_col (cm_name y) m = Inr z" using tab_get_col_exists [OF m(2)] by blast
    then show ?thesis using m(1) t y(2) tab_get_col_Inr ok by (auto simp: find_col_def cat_ok_def throwing_def)
  next
    case False
    then obtain t where "check_column db all t = Inr c"
      using s(3) c by (auto simp: mapE_Inr_iff list_all2_conv_all_nth in_set_conv_nth)
    then show ?thesis by (rule check_column_resolves [OF ok s(2)])
  qed
  moreover have "cond_typed db c" if "c \<in> set conds" for c by (rule check_clause_typed [OF ok s(4) that])
  moreover have "is_table t db" if "t \<in> set (sel_tabs x)" for t
    using s(1) that by (auto simp: check_tables_def find_None_iff split: option.splits)
  ultimately show ?thesis using s(5) by simp
qed

lemma ex_cat_ok: "cat_ok ex_cat"
  by (auto simp: cat_ok_def ex_cat_def ex_acols_def ex_bcols_def get_table_def split: option.splits if_splits)

definition ex_select :: SelectStmt where
  "ex_select = \<lparr>sel_cols = [\<lparr>col_tab = [], col_nm = ''s''\<rparr>], sel_tabs = [''a'', ''b''],
     sel_conds = [\<lparr>be_lhs = \<lparr>col_tab = ''a'', col_nm = ''x''\<rparr>, be_op = SV_OP_LT, be_rhs = ValueExpr (IntLit 7)\<rparr>],
     sel_order = None\<rparr>"

theorem analyze_select_resolved_witness:
  "\<exists>q. do_analyze (\<lambda>_. 0) ex_cat (Select ex_select) = Inr q \<and> q_tables q = [''a'', ''b''] \<and>
     (\<forall>c \<in> set (q_cols q). \<exists>m. find_col ex_cat c = Inr m)"
proof -
  have "\<exists>q. do_analyze (\<lambda>_. 0) ex_cat (Select ex_select) = Inr q"
    by (simp add: do_analyze_def ex_select_def ex_cat_def ex_acols_def ex_bcols_def check_tables_def is_table_def
        get_all_cols_def get_table_def throwing_def check_column_def check_clause_def get_clause_def get_cond_def Let_def
        check_cond_def is_col_def find_col_def tab_get_col_def run_init_raw_def init_raw_def set_int_def Val_new_def
        check_types_def)
  then show ?thesis using analyze_select_resolved [OF ex_cat_ok] by (fastforce simp: ex_select_def)
qed

section \<open>A literal of the wrong kind\<close>

text \<open>
  The statements with a \<open>WHERE\<close> clause, the tables its columns come from, and the same statement with
  other conditions.
\<close>

fun has_where :: "stmt_tree \<Rightarrow> bool" where
  "has_where (Select x) = True" | "has_where (UpdateStmt t ss es) = True" | "has_where (DeleteStmt t es) = True"
| "has_where _ = False"

fun where_tabs :: "stmt_tree \<Rightarrow> string list" where
  "where_tabs (Select x) = sel_tabs x" | "where_tabs (UpdateStmt t ss es) = [t]" | "where_tabs (DeleteStmt t es) = [t]"
| "where_tabs _ = []"

fun with_where :: "BinaryExpr list \<Rightarrow> stmt_tree \<Rightarrow> stmt_tree" where
  "with_where es (Select x) = Select (x\<lparr>sel_conds := es\<rparr>)"
| "with_where es (UpdateStmt t ss es') = UpdateStmt t ss es" | "with_where es (DeleteStmt t es') = DeleteStmt t es"
| "with_where es s = s"

lemma mapE_fails:
  assumes "mapE f xs = Inr ys" and "f x = Inl e"
  shows "mapE f (xs @ x # zs) = Inl e"
  using assms by (induction xs arbitrary: ys) (auto simp: bindE_Inr_iff)

lemma do_analyze_where_fails:
  assumes "has_where s" and "do_analyze junk db (with_where pre s) = Inr q"
    and "get_all_cols db (where_tabs s) = Inr cs" and "check_cond junk db cs (get_cond e) = Inl err"
  shows "do_analyze junk db (with_where (pre @ e # post) s) = Inl err"
proof -
  have "check_clause junk db (where_tabs s) (get_clause pre) = Inr ys \<Longrightarrow>
      check_clause junk db (where_tabs s) (get_clause (pre @ e # post)) = Inl err" for ys
    using assms(3,4) by (simp add: check_clause_def get_clause_def mapE_fails)
  then show ?thesis using assms(1,2)
    by (cases s) (auto simp: do_analyze_def bindE_Inr_iff throwing_def split: sum.splits)
qed

text \<open>
  C34. A number against a character column. In a \<open>SELECT\<close>, \<open>UPDATE\<close> or \<open>DELETE\<close> whose other parts and
  earlier conditions pass the analysis, let the next condition compare a character column with an
  integer or floating-point literal. When the column is four characters long the analysis reports
  \<open>IncompatibleTypeError\<close>; for every other length it does not get that far: \<open>check_clause\<close> encodes the
  literal first, and the assertion on the length in \<open>init_raw\<close> fails, which ends the server.
\<close>

theorem analyze_number_on_char_column_aborts:
  assumes s: "has_where s" "do_analyze junk db (with_where pre s) = Inr q"
    and cs: "get_all_cols db (where_tabs s) = Inr cs"
    and col: "check_column db cs (TabCol_of (col_tab (be_lhs e)) (col_nm (be_lhs e))) = Inr l"
    and lm: "find_col db l = Inr lm" "cm_type lm = TYPE_STRING"
    and v: "be_rhs e = ValueExpr v" "v = IntLit i \<or> v = FloatLit f"
  shows "do_analyze junk db (with_where (pre @ e # post) s) = Inl
    (if cm_len lm = 4
     then Throw (IncompatibleTypeError (coltype2str TYPE_STRING) (coltype2str (vtype (convert_sv_value v))))
     else AssertionFailed)"
proof -
  have "check_cond junk db cs (get_cond e) = Inl
    (if cm_len lm = 4
     then Throw (IncompatibleTypeError (coltype2str TYPE_STRING) (coltype2str (vtype (convert_sv_value v))))
     else AssertionFailed)"
    using col lm v by (auto simp: get_cond_def check_cond_def Let_def run_init_raw_def init_raw_def set_int_def
        set_float_def Val_new_def check_types_def)
  then show ?thesis by (rule do_analyze_where_fails [OF s cs])
qed

theorem analyze_number_on_char_column_aborts_witness:
  "do_analyze (\<lambda>_. 0) ex_cat (Select (ex_select\<lparr>sel_tabs := [''a''], sel_conds := sel_conds ex_select @
     [\<lparr>be_lhs = \<lparr>col_tab = [], col_nm = ''s''\<rparr>, be_op = SV_OP_EQ, be_rhs = ValueExpr (IntLit 1)\<rparr>]\<rparr>))
   = Inl AssertionFailed"
proof -
  let ?e = "\<lparr>be_lhs = \<lparr>col_tab = [], col_nm = ''s''\<rparr>, be_op = SV_OP_EQ, be_rhs = ValueExpr (IntLit 1)\<rparr>"
    and ?s = "Select (ex_select\<lparr>sel_tabs := [''a'']\<rparr>)"
  note defs = ex_select_def ex_cat_def ex_acols_def get_all_cols_def get_table_def throwing_def check_column_def
    find_col_def tab_get_col_def
  have q: "\<exists>q. do_analyze (\<lambda>_. 0) ex_cat (with_where (sel_conds ex_select) ?s) = Inr q"
    by (simp add: defs do_analyze_def check_tables_def is_table_def check_clause_def get_clause_def get_cond_def Let_def
        check_cond_def is_col_def run_init_raw_def init_raw_def set_int_def Val_new_def check_types_def)
  have cs: "get_all_cols ex_cat (where_tabs ?s) = Inr ex_acols" by (simp add: defs)
  have col: "check_column ex_cat ex_acols (TabCol_of (col_tab (be_lhs ?e)) (col_nm (be_lhs ?e))) = Inr (TabCol_of ''a'' ''s'')"
    by (simp add: defs)
  have lm: "find_col ex_cat (TabCol_of ''a'' ''s'') = Inr (ex_acols ! 1)" by (simp add: defs)
  obtain q where q': "do_analyze (\<lambda>_. 0) ex_cat (with_where (sel_conds ex_select) ?s) = Inr q" using q by blast
  show ?thesis
    using analyze_number_on_char_column_aborts [OF _ q' cs col lm, of "IntLit 1" 1 0 "[]"]
    by (simp add: ex_acols_def)
qed

end
