(* ===== verification/Planner_Properties.thy ===== *)
theory Planner_Properties
  imports Planner Analyze_Properties
begin

text \<open>
  The join tree of the planner computes the selection of the cross product. A row of a joined relation
  assigns a tuple to every table of the tree. The meaning of a plan is a set of such assignments;
  \<open>where_spec\<close> is the meaning of \<open>FROM tables WHERE conds\<close>.
\<close>

section \<open>Meaning of conditions, plans and queries\<close>

fun op_sem :: "CompOp \<Rightarrow> 'v::linorder \<Rightarrow> 'v \<Rightarrow> bool" where
  "op_sem OP_EQ a b = (a = b)" | "op_sem OP_NE a b = (a \<noteq> b)" | "op_sem OP_LT a b = (a < b)"
| "op_sem OP_GT a b = (a > b)" | "op_sem OP_LE a b = (a \<le> b)" | "op_sem OP_GE a b = (a \<ge> b)"

lemma op_sem_swap: "op_sem (swap_op p) b a = op_sem p a b"
  by (cases p) auto

text \<open>\<open>cell\<close> reads a column of a tuple and \<open>lit\<close> is the value of a literal.\<close>

definition sat :: "('row \<Rightarrow> string \<Rightarrow> 'v::linorder) \<Rightarrow> (Val \<Rightarrow> 'v) \<Rightarrow> Condition \<Rightarrow> (string \<rightharpoonup> 'row) \<Rightarrow> bool" where
  "sat cell lit c m \<longleftrightarrow>
     (let look = (\<lambda>t. cell (the (m (tc_tab t))) (tc_col t))
      in op_sem (cop c) (look (lhs_col c)) (if is_rhs_val c then lit (rhs_val c) else look (rhs_col c)))"

fun denote :: "('row \<Rightarrow> string \<Rightarrow> 'v::linorder) \<Rightarrow> (Val \<Rightarrow> 'v) \<Rightarrow> (string \<Rightarrow> 'row set) \<Rightarrow> plan \<Rightarrow> (string \<rightharpoonup> 'row) set" where
  "denote cell lit rel (ScanPlan tag tab cols conds len ix) =
     {m. \<exists>r \<in> rel tab. m = [tab \<mapsto> r] \<and> (\<forall>c \<in> set conds. sat cell lit c m)}"
| "denote cell lit rel (JoinPlan tag l r conds) =
     {m. \<exists>a \<in> denote cell lit rel l. \<exists>b \<in> denote cell lit rel r. m = a ++ b \<and> (\<forall>c \<in> set conds. sat cell lit c m)}"
| "denote cell lit rel p = {}"

definition where_spec :: "('row \<Rightarrow> string \<Rightarrow> 'v::linorder) \<Rightarrow> (Val \<Rightarrow> 'v) \<Rightarrow> (string \<Rightarrow> 'row set) \<Rightarrow> string list \<Rightarrow>
    Condition list \<Rightarrow> (string \<rightharpoonup> 'row) set" where
  "where_spec cell lit rel tabs conds =
     {m. dom m = set tabs \<and> (\<forall>t r. m t = Some r \<longrightarrow> r \<in> rel t) \<and> (\<forall>c \<in> set conds. sat cell lit c m)}"

text \<open>The scanned tables and the conditions of a tree, and conditions in their places: a scan tests
  columns of its table, a join compares a column of its left side with one of its right side.\<close>

fun tabs_of :: "plan \<Rightarrow> string list" where
  "tabs_of (ScanPlan tag tab cols conds len ix) = [tab]"
| "tabs_of (JoinPlan tag l r conds) = tabs_of l @ tabs_of r"
| "tabs_of p = []"

fun conds_of :: "plan \<Rightarrow> Condition list" where
  "conds_of (ScanPlan tag tab cols conds len ix) = conds"
| "conds_of (JoinPlan tag l r conds) = conds_of l @ conds_of r @ conds"
| "conds_of p = []"

fun placed :: "plan \<Rightarrow> bool" where
  "placed (ScanPlan tag tab cols conds len ix) \<longleftrightarrow> (\<forall>c \<in> set conds. is_rhs_val c \<and> tc_tab (lhs_col c) = tab)"
| "placed (JoinPlan tag l r conds) \<longleftrightarrow> placed l \<and> placed r \<and>
     (\<forall>c \<in> set conds. \<not> is_rhs_val c \<and> tc_tab (lhs_col c) \<in> set (tabs_of l) \<and> tc_tab (rhs_col c) \<in> set (tabs_of r))"
| "placed p \<longleftrightarrow> False"

lemma sat_flip: "\<not> is_rhs_val c \<Longrightarrow> sat cell lit (flip_cond c) = sat cell lit c"
  by (simp add: fun_eq_iff sat_def flip_cond_def op_sem_swap Let_def)

lemma sat_cong:
  "m (tc_tab (lhs_col c)) = m' (tc_tab (lhs_col c)) \<Longrightarrow>
   (\<not> is_rhs_val c \<Longrightarrow> m (tc_tab (rhs_col c)) = m' (tc_tab (rhs_col c))) \<Longrightarrow> sat cell lit c m = sat cell lit c m'"
  by (auto simp: sat_def Let_def)

lemma placed_tabs:
  "placed p \<Longrightarrow> c \<in> set (conds_of p) \<Longrightarrow> tc_tab (lhs_col c) \<in> set (tabs_of p) \<and>
     (\<not> is_rhs_val c \<longrightarrow> tc_tab (rhs_col c) \<in> set (tabs_of p))"
  by (induction p rule: placed.induct) auto

lemma placed_agree:
  assumes "placed p" and "c \<in> set (conds_of p)" and "\<And>t. t \<in> set (tabs_of p) \<Longrightarrow> m t = m' t"
  shows "sat cell lit c m \<longleftrightarrow> sat cell lit c m'"
  using placed_tabs [OF assms(1,2)] assms(3) by (intro sat_cong) auto

lemma denote_dom: "m \<in> denote cell lit rel p \<Longrightarrow> dom m = set (tabs_of p)"
proof (induction p arbitrary: m)
  case (JoinPlan tag l r conds)
  then obtain a b where "a \<in> denote cell lit rel l" "b \<in> denote cell lit rel r" "m = a ++ b" by auto
  then show ?case using JoinPlan.IH by (simp add: Un_commute)
qed (auto split: if_splits)

lemma singleton_map: "m = [t \<mapsto> r] \<longleftrightarrow> dom m = {t} \<and> m t = Some r"
proof
  assume a: "dom m = {t} \<and> m t = Some r"
  show "m = [t \<mapsto> r]"
  proof
    fix x show "m x = [t \<mapsto> r] x" using a by (cases "x = t") (auto simp: domIff)
  qed
qed (simp add: dom_def)

theorem denote_placed:
  "placed p \<Longrightarrow> distinct (tabs_of p) \<Longrightarrow> denote cell lit rel p = where_spec cell lit rel (tabs_of p) (conds_of p)"
proof (induction p rule: placed.induct)
  case (1 tag tab cols conds len ix)
  have "(\<exists>r \<in> rel tab. dom m = {tab} \<and> m tab = Some r) \<longleftrightarrow> dom m = {tab} \<and> (\<forall>t r. m t = Some r \<longrightarrow> r \<in> rel t)" for m
    by (metis domD domI insertI1 option.inject singletonD)
  then show ?case unfolding denote.simps singleton_map where_spec_def tabs_of.simps conds_of.simps by auto
next
  case (2 tag l r conds)
  have dl: "distinct (tabs_of l)" "distinct (tabs_of r)" and disj: "set (tabs_of l) \<inter> set (tabs_of r) = {}"
    using 2(4) by auto
  have l: "denote cell lit rel l = where_spec cell lit rel (tabs_of l) (conds_of l)"
    and r: "denote cell lit rel r = where_spec cell lit rel (tabs_of r) (conds_of r)"
    using 2 dl by auto
  show ?case
  proof (intro set_eqI iffI)
    fix m assume "m \<in> denote cell lit rel (JoinPlan tag l r conds)"
    then obtain a b where ab: "a \<in> denote cell lit rel l" "b \<in> denote cell lit rel r" "m = a ++ b"
      "\<forall>c \<in> set conds. sat cell lit c m" by auto
    have dom: "dom a = set (tabs_of l)" "dom b = set (tabs_of r)" using denote_dom ab by blast+
    have ma: "m t = a t" if "t \<in> set (tabs_of l)" for t
      using that dom disj ab(3) by (metis disjoint_iff map_add_dom_app_simps(3))
    have mb: "m t = b t" if "t \<in> set (tabs_of r)" for t using that dom ab(3) by (simp add: map_add_dom_app_simps(1))
    have "sat cell lit c m" if "c \<in> set (conds_of l)" for c
      using placed_agree [OF _ that, of m a cell lit] ma 2(3) ab(1) l that by (simp add: where_spec_def)
    moreover have "sat cell lit c m" if "c \<in> set (conds_of r)" for c
      using placed_agree [OF _ that, of m b cell lit] mb 2(3) ab(2) r that by (simp add: where_spec_def)
    ultimately show "m \<in> where_spec cell lit rel (tabs_of (JoinPlan tag l r conds)) (conds_of (JoinPlan tag l r conds))"
      using ab dom l r by (auto simp: where_spec_def map_add_Some_iff)
  next
    fix m assume "m \<in> where_spec cell lit rel (tabs_of (JoinPlan tag l r conds)) (conds_of (JoinPlan tag l r conds))"
    then have m: "dom m = set (tabs_of l) \<union> set (tabs_of r)" "\<forall>t r. m t = Some r \<longrightarrow> r \<in> rel t"
      "\<forall>c \<in> set (conds_of l). sat cell lit c m" "\<forall>c \<in> set (conds_of r). sat cell lit c m" "\<forall>c \<in> set conds. sat cell lit c m"
      by (auto simp: where_spec_def)
    let ?a = "m |` set (tabs_of l)" and ?b = "m |` set (tabs_of r)"
    have "?a ++ ?b = m"
    proof
      fix t show "(?a ++ ?b) t = m t"
        using m(1) by (cases "t \<in> set (tabs_of r)"; cases "t \<in> set (tabs_of l)")
          (auto simp: map_add_def restrict_map_def split: option.splits)
    qed
    moreover have "sat cell lit c ?a" if "c \<in> set (conds_of l)" for c
      using m(3) that placed_agree [OF _ that, of m ?a cell lit] 2(3) by simp
    moreover have "sat cell lit c ?b" if "c \<in> set (conds_of r)" for c
      using m(4) that placed_agree [OF _ that, of m ?b cell lit] 2(3) by simp
    moreover have "dom ?a = set (tabs_of l)" "dom ?b = set (tabs_of r)" using m(1) by auto
    ultimately have "?a \<in> denote cell lit rel l" "?b \<in> denote cell lit rel r" "m = ?a ++ ?b"
      using m(2) unfolding l r where_spec_def by (simp_all add: restrict_map_def)
    then show "m \<in> denote cell lit rel (JoinPlan tag l r conds)"
      using m(5) unfolding denote.simps by blast
  qed
qed simp_all

section \<open>The scans\<close>

text \<open>Queries the planner handles: the tables differ, exist and have columns; every condition is about
  tables of the query, and a condition between columns is about two of them.\<close>

definition cond_ok :: "string list \<Rightarrow> Condition \<Rightarrow> bool" where
  "cond_ok tabs c \<longleftrightarrow> tc_tab (lhs_col c) \<in> set tabs \<and>
     (if is_rhs_val c then tc_tab (rhs_col c) = []
      else tc_tab (rhs_col c) \<in> set tabs \<and> tc_tab (rhs_col c) \<noteq> tc_tab (lhs_col c))"

definition tabs_ok :: "DbMeta \<Rightarrow> string list \<Rightarrow> bool" where
  "tabs_ok db tabs \<longleftrightarrow> distinct tabs \<and> [] \<notin> set tabs \<and>
     (\<forall>t \<in> set tabs. \<exists>m. get_table t db = Inr m \<and> tm_cols m \<noteq> [])"

fun is_scan :: "Condition list \<Rightarrow> string \<Rightarrow> plan \<Rightarrow> bool" where
  "is_scan cs t (ScanPlan tag tab cols conds len ix) \<longleftrightarrow> tab = t \<and> conds = filter (\<lambda>c. is_rhs_val c \<and> tc_tab (lhs_col c) = t) cs"
| "is_scan cs t p \<longleftrightarrow> False"

lemma make_scan_ok:
  "get_table t db = Inr m \<Longrightarrow> tm_cols m \<noteq> [] \<Longrightarrow>
   \<exists>tag cols len ix. make_scan db t cs = Inr (ScanPlan tag t cols cs len ix)"
  by (auto simp: make_scan_def get_index_cols_def ScanPlan_new_def throwing_def Let_def)

lemma make_scans_ok:
  assumes "tabs_ok db (us @ ts)"
    and "\<forall>c \<in> set cs. tc_tab (lhs_col c) \<noteq> tc_tab (rhs_col c)"
    and "cs' = filter (\<lambda>c. \<not> (is_rhs_val c \<and> tc_tab (lhs_col c) \<in> set us)) cs"
  shows "\<exists>ps. make_scans db ts cs' = Inr (ps, filter (\<lambda>c. \<not> (is_rhs_val c \<and> tc_tab (lhs_col c) \<in> set (us @ ts))) cs) \<and>
    list_all2 (is_scan cs) ts ps"
  using assms
proof (induction ts arbitrary: us cs')
  case (Cons t ts)
  obtain m where m: "get_table t db = Inr m" "tm_cols m \<noteq> []" using Cons.prems(1) by (auto simp: tabs_ok_def)
  have t: "t \<notin> set us" using Cons.prems(1) by (simp add: tabs_ok_def)
  have pop: "pop_conds cs' t = (filter (\<lambda>c. is_rhs_val c \<and> tc_tab (lhs_col c) = t) cs,
      filter (\<lambda>c. \<not> (is_rhs_val c \<and> tc_tab (lhs_col c) \<in> set (us @ [t]))) cs)"
    using t unfolding pop_conds_def Cons.prems(3) filter_filter by (auto simp: pops_def intro!: filter_cong dest: bspec [OF Cons.prems(2)])
  obtain tag cols len ix where s: "make_scan db t (filter (\<lambda>c. is_rhs_val c \<and> tc_tab (lhs_col c) = t) cs) =
      Inr (ScanPlan tag t cols (filter (\<lambda>c. is_rhs_val c \<and> tc_tab (lhs_col c) = t) cs) len ix)"
    using make_scan_ok [OF m] by blast
  have "tabs_ok db ((us @ [t]) @ ts)" using Cons.prems(1) by simp
  from Cons.IH [OF this Cons.prems(2) refl] show ?case using s by (auto simp: pop)
qed simp

section \<open>The join tree\<close>

text \<open>\<open>tree_ok D p\<close>: the tree tests the conditions of \<open>D\<close> and those of the scans of its tables.\<close>

definition tree_ok :: "('row \<Rightarrow> string \<Rightarrow> 'v::linorder) \<Rightarrow> (Val \<Rightarrow> 'v) \<Rightarrow> Condition list \<Rightarrow> Condition set \<Rightarrow> plan \<Rightarrow> bool" where
  "tree_ok cell lit cs D p \<longleftrightarrow> placed p \<and> distinct (tabs_of p) \<and>
     (\<forall>m. (\<forall>c \<in> set (conds_of p). sat cell lit c m) \<longleftrightarrow>
        (\<forall>c \<in> D. sat cell lit c m) \<and>
        (\<forall>c \<in> set cs. is_rhs_val c \<longrightarrow> tc_tab (lhs_col c) \<in> set (tabs_of p) \<longrightarrow> sat cell lit c m))"

lemma is_scan_cases:
  assumes "is_scan cs t p"
  shows "p \<noteq> NullPlan \<and> tabs_of p = [t] \<and> scan_tab p = t"
  using assms by (cases p) auto

lemma tree_ok_scan: "is_scan cs t p \<Longrightarrow> tree_ok cell lit cs {} p"
  by (cases p) (auto simp: tree_ok_def)

lemma tree_ok_join:
  assumes "tree_ok cell lit cs D l" and "tree_ok cell lit cs E r" and "set (tabs_of l) \<inter> set (tabs_of r) = {}"
    and "\<forall>c \<in> set conds. \<not> is_rhs_val c \<and> tc_tab (lhs_col c) \<in> set (tabs_of l) \<and> tc_tab (rhs_col c) \<in> set (tabs_of r)"
  shows "tree_ok cell lit cs (D \<union> E \<union> set conds) (JoinPlan tag l r conds)"
  using assms unfolding tree_ok_def by (simp add: ball_Un) blast

lemma tree_ok_flip:
  "\<not> is_rhs_val c \<Longrightarrow> tree_ok cell lit cs (insert (flip_cond c) D) p \<longleftrightarrow> tree_ok cell lit cs (insert c D) p"
  by (simp add: tree_ok_def sat_flip)

lemma flip_cond_simps [simp]:
  "is_rhs_val (flip_cond c) = is_rhs_val c" "lhs_col (flip_cond c) = rhs_col c" "rhs_col (flip_cond c) = lhs_col c"
  by (simp_all add: flip_cond_def)

lemma push_conds_miss:
  assumes "placed p" and "tc_tab (lhs_col c) \<noteq> tc_tab (rhs_col c)"
    and "\<not> (tc_tab (lhs_col c) \<in> set (tabs_of p) \<and> tc_tab (rhs_col c) \<in> set (tabs_of p))"
    and "distinct (tabs_of p)"
  shows "push_conds c p = (if tc_tab (lhs_col c) \<in> set (tabs_of p) then 1
    else if tc_tab (rhs_col c) \<in> set (tabs_of p) then 2 else 0, p)"
  using assms by (induction p rule: placed.induct) (auto simp: Let_def)

lemma push_conds_hit:
  assumes "placed p" and "distinct (tabs_of p)" and "\<not> is_rhs_val c" and "tc_tab (lhs_col c) \<noteq> tc_tab (rhs_col c)"
    and "tc_tab (lhs_col c) \<in> set (tabs_of p)" and "tc_tab (rhs_col c) \<in> set (tabs_of p)"
  shows "\<exists>p' c'. push_conds c p = (3, p') \<and> placed p' \<and> tabs_of p' = tabs_of p \<and> (c' = c \<or> c' = flip_cond c) \<and>
    set (conds_of p') = insert c' (set (conds_of p))"
  using assms
proof (induction p rule: placed.induct)
  case (2 tag l r conds)
  let ?L = "tc_tab (lhs_col c)" and ?R = "tc_tab (rhs_col c)"
  have pl: "placed l" "placed r" "distinct (tabs_of l)" "distinct (tabs_of r)" "set (tabs_of l) \<inter> set (tabs_of r) = {}"
    using 2(3,4) by auto
  note miss = push_conds_miss [OF pl(1) 2(6) _ pl(3)] push_conds_miss [OF pl(2) 2(6) _ pl(4)]
  consider (ll) "?L \<in> set (tabs_of l)" "?R \<in> set (tabs_of l)" | (rr) "?L \<in> set (tabs_of r)" "?R \<in> set (tabs_of r)"
    | (lr) "?L \<in> set (tabs_of l)" "?R \<in> set (tabs_of r)" | (rl) "?L \<in> set (tabs_of r)" "?R \<in> set (tabs_of l)"
    using 2(7,8) by auto
  then show ?case
  proof cases
    case ll
    from 2(1) [OF pl(1,3) 2(5,6) ll] show ?thesis using 2(3) by (auto simp: Let_def)
  next
    case rr
    then have "?L \<notin> set (tabs_of l)" "?R \<notin> set (tabs_of l)" using pl(5) by auto
    with 2(2) [OF pl(2,4) 2(5,6) rr] miss(1) show ?thesis using 2(3) by (auto simp: Let_def)
  next
    case lr
    then have "?R \<notin> set (tabs_of l)" "?L \<notin> set (tabs_of r)" using pl(5) by auto
    with miss lr show ?thesis using 2(3,5) by (auto simp: Let_def)
  next
    case rl
    then have "?L \<notin> set (tabs_of l)" "?R \<notin> set (tabs_of r)" using pl(5) by auto
    with miss rl show ?thesis using 2(3,5) by (auto simp: Let_def)
  qed
qed auto

lemma tree_ok_push:
  assumes "tree_ok cell lit cs D p" and "\<not> is_rhs_val c" and "tc_tab (lhs_col c) \<noteq> tc_tab (rhs_col c)"
    and "tc_tab (lhs_col c) \<in> set (tabs_of p)" and "tc_tab (rhs_col c) \<in> set (tabs_of p)"
  shows "tree_ok cell lit cs (insert c D) (snd (push_conds c p)) \<and> tabs_of (snd (push_conds c p)) = tabs_of p"
proof -
  obtain p' c' where p': "push_conds c p = (3, p')" "placed p'" "tabs_of p' = tabs_of p" "c' = c \<or> c' = flip_cond c"
    "set (conds_of p') = insert c' (set (conds_of p))"
    using push_conds_hit [of p c] assms unfolding tree_ok_def by metis
  have "sat cell lit c' = sat cell lit c" using p'(4) sat_flip [OF assms(2)] by auto
  then show ?thesis using assms(1) p' by (simp add: tree_ok_def)
qed

text \<open>\<open>scanned ts T s\<close>: the loop has used the scans of the tables \<open>T\<close>.\<close>

definition scanned :: "string list \<Rightarrow> string set \<Rightarrow> join_state \<Rightarrow> bool" where
  "scanned ts T s \<longleftrightarrow> T \<subseteq> set ts \<and> set (joined s) = insert [] T \<and> length (scantbl s) = length ts \<and>
     (\<forall>i < length ts. scantbl s ! i \<longleftrightarrow> ts ! i \<in> T)"

lemma find_index_scan:
  "list_all2 (is_scan cs) ts ps \<Longrightarrow> t \<in> set ts \<Longrightarrow>
   \<exists>i < length ts. find_index (\<lambda>p. scan_tab p = t) ps = Some i \<and> ts ! i = t \<and> is_scan cs t (ps ! i)"
proof (induction ts ps rule: list_all2_induct)
  case (Cons u us p ps)
  show ?case
  proof (cases "u = t")
    case True then show ?thesis using Cons is_scan_cases [OF Cons(1)] by auto
  next
    case False
    then obtain i where "i < length us" "find_index (\<lambda>p. scan_tab p = t) ps = Some i" "us ! i = t" "is_scan cs t (ps ! i)"
      using Cons by auto
    then show ?thesis using False is_scan_cases [OF Cons(1)] by (intro exI [of _ "Suc i"]) simp
  qed
qed simp

lemma pop_scan_ok:
  assumes "list_all2 (is_scan cs) ts ps" and "distinct ts" and "t \<in> set ts" and "scanned ts T s"
  shows "\<exists>p s'. pop_scan ps t s = (p, s') \<and> is_scan cs t p \<and> scanned ts (insert t T) s'"
proof -
  obtain i where i: "i < length ts" "find_index (\<lambda>p. scan_tab p = t) ps = Some i" "ts ! i = t" "is_scan cs t (ps ! i)"
    using find_index_scan [OF assms(1,3)] by auto
  have "ts ! j = t \<longleftrightarrow> j = i" if "j < length ts" for j using that i assms(2) nth_eq_iff_index_eq by blast
  then show ?thesis using i assms(3,4) is_scan_cases [OF i(4)]
    by (auto simp: pop_scan_def scanned_def nth_list_update)
qed

lemma join_cond_ok:
  assumes ps: "list_all2 (is_scan cs) ts ps" "distinct ts" "[] \<notin> set ts"
    and c: "cond_ok ts c" "\<not> is_rhs_val c"
    and t: "tree_ok cell lit cs D tree" "scanned ts (set (tabs_of tree)) s"
  shows "\<exists>tree' s'. join_cond ps c (tree, s) = (tree', s') \<and> tree_ok cell lit cs (insert c D) tree' \<and>
    scanned ts (set (tabs_of tree')) s'"
proof -
  let ?L = "tc_tab (lhs_col c)" and ?R = "tc_tab (rhs_col c)"
  have c': "?L \<in> set ts" "?R \<in> set ts" "?L \<noteq> ?R" "?L \<noteq> []" "?R \<noteq> []" using c ps(3) by (auto simp: cond_ok_def)
  have j: "set (joined s) = insert [] (set (tabs_of tree))" using t(2) by (simp add: scanned_def)
  have sj: "set (joined s') = insert [] T" if "scanned ts T s'" for s' T using that by (simp add: scanned_def)
  obtain l s1 where l: "pop_scan ps ?L s = (l, s1)" "is_scan cs ?L l" "scanned ts (insert ?L (set (tabs_of tree))) s1"
    using pop_scan_ok [OF ps(1,2) c'(1) t(2)] by auto
  note lp = is_scan_cases [OF l(2)] tree_ok_scan [OF l(2), of cell lit]
  show ?thesis
  proof (cases "?L \<in> set (tabs_of tree)")
    case L: True
    show ?thesis
    proof (cases "?R \<in> set (tabs_of tree)")
      case True
      then show ?thesis using L c' j tree_ok_push [OF t(1) c(2) c'(3)] t(2) by (simp add: join_cond_def)
    next
      case False
      obtain r s2 where r: "pop_scan ps ?R s = (r, s2)" "is_scan cs ?R r" "scanned ts (insert ?R (set (tabs_of tree))) s2"
        using pop_scan_ok [OF ps(1,2) c'(2) t(2)] by auto
      note rp = is_scan_cases [OF r(2)] tree_ok_scan [OF r(2), of cell lit]
      have "tree_ok cell lit cs ({} \<union> D \<union> set [flip_cond c]) (JoinPlan T_NestLoop r tree [flip_cond c])"
        using rp False L c(2) t(1) by (intro tree_ok_join) auto
      then show ?thesis using L False c' j r rp c(2) by (simp add: join_cond_def tree_ok_flip)
    qed
  next
    case L: False
    show ?thesis
    proof (cases "?R \<in> set (tabs_of tree)")
      case True
      have "tree_ok cell lit cs ({} \<union> D \<union> set [c]) (JoinPlan T_NestLoop l tree [c])"
        using lp True L c(2) t(1) by (intro tree_ok_join) auto
      then show ?thesis using L True c' j l lp sj [OF l(3)] by (simp add: join_cond_def)
    next
      case False
      obtain r s2 where r: "pop_scan ps ?R s1 = (r, s2)" "is_scan cs ?R r" "scanned ts (insert ?R (insert ?L (set (tabs_of tree)))) s2"
        using pop_scan_ok [OF ps(1,2) c'(2) l(3)] by auto
      note rp = is_scan_cases [OF r(2)] tree_ok_scan [OF r(2), of cell lit]
      have lr: "tree_ok cell lit cs ({} \<union> {} \<union> set [c]) (JoinPlan T_NestLoop l r [c])"
        using lp rp c' c(2) by (intro tree_ok_join) auto
      have "tree_ok cell lit cs (({} \<union> {} \<union> set [c]) \<union> D \<union> set []) (JoinPlan T_NestLoop (JoinPlan T_NestLoop l r [c]) tree [])"
        by (rule tree_ok_join [OF lr t(1)]) (use lp rp L False in auto)
      then show ?thesis using L False c' j l lp r rp sj [OF l(3)] by (simp add: join_cond_def insert_commute)
    qed
  qed
qed

lemma join_conds_ok:
  assumes ps: "list_all2 (is_scan cs) ts ps" "distinct ts" "[] \<notin> set ts"
    and c: "\<forall>c \<in> set xs. cond_ok ts c \<and> \<not> is_rhs_val c"
    and t: "tree_ok cell lit cs D tree" "scanned ts (set (tabs_of tree)) s"
  shows "\<exists>tree' s'. fold (join_cond ps) xs (tree, s) = (tree', s') \<and> tree_ok cell lit cs (set xs \<union> D) tree' \<and>
    scanned ts (set (tabs_of tree')) s'"
  using c t
proof (induction xs arbitrary: D tree s)
  case (Cons x xs)
  obtain t1 s1 where x: "join_cond ps x (tree, s) = (t1, s1)" "tree_ok cell lit cs (insert x D) t1" "scanned ts (set (tabs_of t1)) s1"
    using join_cond_ok [OF ps _ _ Cons.prems(2,3), of x] Cons.prems(1) by auto
  from Cons.IH [OF _ x(2,3)] show ?case using Cons.prems(1) x(1) by simp
qed simp

lemma join_rest_ok:
  assumes "list_all2 (is_scan cs) us ps" and "distinct us" and "length bs = length us"
    and "\<forall>i < length us. bs ! i \<longleftrightarrow> us ! i \<in> set (tabs_of tree)" and "tree_ok cell lit cs D tree"
  shows "tree_ok cell lit cs D (join_rest (zip ps bs) tree) \<and>
    set (tabs_of (join_rest (zip ps bs) tree)) = set (tabs_of tree) \<union> set us"
  using assms
proof (induction us ps arbitrary: bs tree rule: list_all2_induct)
  case (Cons u us p ps)
  obtain b bs' where bs: "bs = b # bs'" using Cons.prems(2) by (cases bs) auto
  have b: "b \<longleftrightarrow> u \<in> set (tabs_of tree)" using Cons.prems(3) bs by auto
  have bs': "\<forall>i < length us. bs' ! i \<longleftrightarrow> us ! i \<in> set (tabs_of tree)" using Cons.prems(3) bs by auto
  show ?case
  proof (cases b)
    case True
    from Cons.IH [OF _ _ bs' Cons.prems(4)] show ?thesis using True bs b Cons.prems(1,2) by auto
  next
    case False
    note p = is_scan_cases [OF Cons.hyps(1)] tree_ok_scan [OF Cons.hyps(1), of cell lit]
    have "tree_ok cell lit cs ({} \<union> D \<union> set []) (JoinPlan T_NestLoop p tree [])"
      using p False b Cons.prems(4) by (intro tree_ok_join) auto
    moreover have "\<forall>i < length us. bs' ! i \<longleftrightarrow> us ! i \<in> set (tabs_of (JoinPlan T_NestLoop p tree []))"
      using bs' p Cons.prems(1) by (auto dest: nth_mem)
    ultimately have "tree_ok cell lit cs D (join_rest (zip ps bs') (JoinPlan T_NestLoop p tree [])) \<and>
        set (tabs_of (join_rest (zip ps bs') (JoinPlan T_NestLoop p tree []))) = set (tabs_of (JoinPlan T_NestLoop p tree [])) \<union> set us"
      using Cons.IH [of bs' "JoinPlan T_NestLoop p tree []"] Cons.prems(1,2) bs by simp
    then show ?thesis using False bs p by auto
  qed
qed simp

section \<open>Correctness of the plan\<close>

lemma make_one_rel_tree:
  assumes q: "tabs_ok db (q_tables q)" "q_tables q \<noteq> []" "\<forall>c \<in> set (q_conds q). cond_ok (q_tables q) c"
  shows "\<exists>p. make_one_rel db q = Inr p \<and> set (tabs_of p) = set (q_tables q) \<and>
    tree_ok cell lit (q_conds q) {c \<in> set (q_conds q). \<not> is_rhs_val c} p"
proof -
  let ?ts = "q_tables q" and ?cs = "q_conds q"
  let ?rest = "filter (\<lambda>c. \<not> (is_rhs_val c \<and> tc_tab (lhs_col c) \<in> set ([] @ ?ts))) ?cs"
  have ts: "distinct ?ts" "[] \<notin> set ?ts" using q(1) by (auto simp: tabs_ok_def)
  have ne: "\<forall>c \<in> set ?cs. tc_tab (lhs_col c) \<noteq> tc_tab (rhs_col c)"
    using q(3) ts(2) by (auto simp: cond_ok_def split: if_splits)
  obtain ps where ps: "make_scans db ?ts ?cs = Inr (ps, ?rest)" "list_all2 (is_scan ?cs) ?ts ps"
    using make_scans_ok [of db "[]" ?ts ?cs ?cs] q(1) ne by auto
  have len: "length ps = length ?ts" using ps(2) list_all2_lengthD by force
  have rest: "?rest = filter (\<lambda>c. \<not> is_rhs_val c) ?cs" using q(3) by (auto simp: cond_ok_def intro: filter_cong)
  let ?s0 = "\<lparr>scantbl = replicate (length ps) False, joined = replicate (length ps) []\<rparr>"
  have s0: "scanned ?ts {} ?s0" using q(2) len by (simp add: scanned_def)
  have sc0: "is_scan ?cs (?ts ! 0) (ps ! 0)" using list_all2_nthD [OF ps(2), of 0] q(2) by simp
  note p0 = is_scan_cases [OF sc0] tree_ok_scan [OF sc0, of cell lit]
  show ?thesis
  proof (cases ?rest)
    case Nil
    then have none: "{c \<in> set ?cs. \<not> is_rhs_val c} = {}" using rest by (auto simp: filter_empty_conv)
    have first: "\<forall>i < length ?ts. (replicate (length ps) False)[0 := True] ! i \<longleftrightarrow> ?ts ! i \<in> set (tabs_of (ps ! 0))"
      using p0 ts(1) len q(2) by (auto simp: nth_list_update nth_eq_iff_index_eq)
    have "tree_ok cell lit ?cs {} (join_rest (zip ps ((replicate (length ps) False)[0 := True])) (ps ! 0)) \<and>
        set (tabs_of (join_rest (zip ps ((replicate (length ps) False)[0 := True])) (ps ! 0))) = set (tabs_of (ps ! 0)) \<union> set ?ts"
      by (rule join_rest_ok [OF ps(2) ts(1) _ first]) (simp_all add: len p0)
    moreover have "?ts = [?ts ! 0]" if "length ?ts = 1" using that by (cases ?ts) auto
    ultimately show ?thesis using ps(1) Nil p0 q(2) len unfolding none by (auto simp: make_one_rel_def Let_def)
  next
    case (Cons c xs)
    then have eq: "filter (\<lambda>c. \<not> is_rhs_val c) ?cs = c # xs" using rest by simp
    have cset: "set (c # xs) = {c \<in> set ?cs. \<not> is_rhs_val c}" unfolding eq [symmetric] by auto
    have cc: "cond_ok ?ts x \<and> \<not> is_rhs_val x" if "x \<in> set (c # xs)" for x
      using that q(3) unfolding cset by blast
    obtain l s1 where l: "pop_scan ps (tc_tab (lhs_col c)) ?s0 = (l, s1)" "is_scan ?cs (tc_tab (lhs_col c)) l"
      "scanned ?ts {tc_tab (lhs_col c)} s1"
      using pop_scan_ok [OF ps(2) ts(1) _ s0, of "tc_tab (lhs_col c)"] cc [of c] by (auto simp: cond_ok_def)
    obtain r s2 where r: "pop_scan ps (tc_tab (rhs_col c)) s1 = (r, s2)" "is_scan ?cs (tc_tab (rhs_col c)) r"
      "scanned ?ts {tc_tab (rhs_col c), tc_tab (lhs_col c)} s2"
      using pop_scan_ok [OF ps(2) ts(1) _ l(3), of "tc_tab (rhs_col c)"] cc [of c] by (auto simp: cond_ok_def)
    note lr = is_scan_cases [OF l(2)] is_scan_cases [OF r(2)]
    have "tree_ok cell lit ?cs ({} \<union> {} \<union> set [c]) (JoinPlan T_NestLoop l r [c])"
      by (rule tree_ok_join [OF tree_ok_scan [OF l(2)] tree_ok_scan [OF r(2)]]) (use lr cc [of c] in \<open>auto simp: cond_ok_def\<close>)
    then have "tree_ok cell lit ?cs {c} (JoinPlan T_NestLoop l r [c])" by simp
    moreover have "scanned ?ts (set (tabs_of (JoinPlan T_NestLoop l r [c]))) s2" using r(3) lr by (simp add: insert_commute)
    ultimately obtain tree s where f: "fold (join_cond ps) xs (JoinPlan T_NestLoop l r [c], s2) = (tree, s)"
        "tree_ok cell lit ?cs (set xs \<union> {c}) tree" "scanned ?ts (set (tabs_of tree)) s"
      using join_conds_ok [OF ps(2) ts, of xs] cc by force
    have "tree_ok cell lit ?cs (set xs \<union> {c}) (join_rest (zip ps (scantbl s)) tree) \<and>
        set (tabs_of (join_rest (zip ps (scantbl s)) tree)) = set (tabs_of tree) \<union> set ?ts"
      by (rule join_rest_ok [OF ps(2) ts(1) _ _ f(2)]) (use f(3) in \<open>auto simp: scanned_def\<close>)
    moreover have "set xs \<union> {c} = {c \<in> set ?cs. \<not> is_rhs_val c}" using cset by auto
    moreover have "set (tabs_of tree) \<subseteq> set ?ts" using f(3) by (simp add: scanned_def)
    moreover have "length ?ts \<noteq> 1" using cc [of c] by (auto simp: cond_ok_def length_Suc_conv)
    ultimately show ?thesis using ps(1) Cons l r f(1) by (simp add: Un_absorb1 make_one_rel_def Let_def first_join_def)
  qed
qed

text \<open>
  C28. The plan of a query computes its \<open>WHERE\<close> clause over the cross product of its tables: for different,
  existing tables and conditions about them, each about a literal or about two of the tables, \<open>make_one_rel\<close>
  returns a tree that scans every table once, in which every scan tests only columns of its own table and every
  join compares a column of its left input with one of its right input, and whose rows are exactly the
  combinations of one row per table that satisfy all conditions.
\<close>

theorem make_one_rel_correct:
  assumes "tabs_ok db (q_tables q)" and "q_tables q \<noteq> []" and "\<forall>c \<in> set (q_conds q). cond_ok (q_tables q) c"
  shows "\<exists>p. make_one_rel db q = Inr p \<and> placed p \<and> distinct (tabs_of p) \<and> set (tabs_of p) = set (q_tables q) \<and>
    denote cell lit rel p = where_spec cell lit rel (q_tables q) (q_conds q)"
proof -
  obtain p where p: "make_one_rel db q = Inr p" "set (tabs_of p) = set (q_tables q)"
    "tree_ok cell lit (q_conds q) {c \<in> set (q_conds q). \<not> is_rhs_val c} p"
    using make_one_rel_tree [OF assms] by blast
  have "(\<forall>c \<in> set (conds_of p). sat cell lit c m) \<longleftrightarrow> (\<forall>c \<in> set (q_conds q). sat cell lit c m)" for m
    using p(2,3) assms(3) by (auto simp: tree_ok_def cond_ok_def)
  then show ?thesis using p denote_placed [of p cell lit rel] by (simp add: tree_ok_def where_spec_def)
qed

definition ex_join :: Condition where
  "ex_join = \<lparr>lhs_col = TabCol_of ''a'' ''x'', cop = OP_LT, is_rhs_val = False, rhs_col = TabCol_of ''b'' ''x'', rhs_val = Val_new TYPE_INT 0 []\<rparr>"

definition ex_select :: SelectStmt where
  "ex_select = \<lparr>sel_cols = [], sel_tabs = [], sel_conds = [], sel_order = None\<rparr>"

definition ex_query :: "string list \<Rightarrow> Condition list \<Rightarrow> Query" where
  "ex_query tabs conds = \<lparr>q_parse = Select ex_select, q_conds = conds, q_cols = [], q_tables = tabs, q_sets = [], q_values = []\<rparr>"

theorem make_one_rel_correct_witness:
  "\<exists>p. make_one_rel ex_cat (ex_query [''a'', ''b''] [ex_join]) = Inr p \<and> placed p \<and> distinct (tabs_of p) \<and>
     set (tabs_of p) = {''a'', ''b''} \<and>
     denote (\<lambda>(r::int) _. r) (\<lambda>_. 0) (\<lambda>_. {1, 2}) p =
     where_spec (\<lambda>r _. r) (\<lambda>_. 0) (\<lambda>_. {1, 2}) [''a'', ''b''] [ex_join]"
  using make_one_rel_correct [of ex_cat "ex_query [''a'', ''b''] [ex_join]" "\<lambda>(r::int) _. r" "\<lambda>_. 0" "\<lambda>_. {1, 2}"]
  by (simp add: tabs_ok_def cond_ok_def ex_query_def ex_join_def ex_cat_def get_table_def ex_acols_def ex_bcols_def)

section \<open>Conditions outside this fragment\<close>

text \<open>
  A condition between two columns of one table is attached to the scan of the first table of the query, whatever
  table it is about, and no other scan tests it: \<open>pop_conds\<close> compares the two table names with each other and not
  with the table it serves.
\<close>

theorem self_condition_on_first_scan:
  assumes "make_scans db (t # ts) conds = Inr (p # ps, rest)" and "c \<in> set conds" and "tc_tab (lhs_col c) = tc_tab (rhs_col c)"
  shows "scan_tab p = t \<and> c \<in> set (conds_of p) \<and> c \<notin> set rest \<and> (\<forall>p' \<in> set ps. c \<notin> set (conds_of p'))"
proof -
  have scan: "conds_of p = cs \<and> scan_tab p = t" if "make_scan db t cs = Inr p" for db t cs p
    using that by (auto simp: make_scan_def ScanPlan_new_def bindE_Inr_iff Let_def split: if_splits)
  have sub: "set r \<subseteq> set cs \<and> (\<forall>p \<in> set ps. set (conds_of p) \<subseteq> set cs)" if "make_scans db ts cs = Inr (ps, r)" for ts cs ps r
    using that
  proof (induction ts arbitrary: cs ps r)
    case (Cons t ts)
    then obtain p ps' where "make_scan db t (fst (pop_conds cs t)) = Inr p" "make_scans db ts (snd (pop_conds cs t)) = Inr (ps', r)" "ps = p # ps'"
      by (auto simp: bindE_Inr_iff)
    with Cons.IH [of _ ps' r] scan show ?case by (fastforce simp: pop_conds_def)
  qed simp
  have "make_scan db t (fst (pop_conds conds t)) = Inr p" "make_scans db ts (snd (pop_conds conds t)) = Inr (ps, rest)"
    using assms(1) by (auto simp: bindE_Inr_iff)
  with scan sub [of ts _ ps rest] show ?thesis using assms(2,3) by (fastforce simp: pop_conds_def pops_def)
qed

definition ex_self :: Condition where
  "ex_self = \<lparr>lhs_col = TabCol_of ''b'' ''x'', cop = OP_EQ, is_rhs_val = False, rhs_col = TabCol_of ''b'' ''x'', rhs_val = Val_new TYPE_INT 0 []\<rparr>"

theorem self_condition_on_first_scan_witness:
  "\<exists>p p'. make_scans ex_cat [''a'', ''b''] [ex_self] = Inr ([p, p'], []) \<and> scan_tab p = ''a'' \<and> ex_self \<in> set (conds_of p)"
  using self_condition_on_first_scan [of ex_cat "''a''" "[''b'']" "[ex_self]" "ScanPlan T_SeqScan ''a'' ex_acols [ex_self] 12 []"
      "[ScanPlan T_SeqScan ''b'' ex_bcols [] 4 []]" "[]" ex_self]
  by (simp add: ex_self_def ex_cat_def get_table_def ex_acols_def ex_bcols_def make_scan_def get_index_cols_def ScanPlan_new_def
      throwing_def pop_conds_def pops_def is_index_def)

text \<open>
  The plan for one table ignores every condition that \<open>pop_conds\<close> does not serve for it: the plan is the same
  as without the conditions whose left column belongs to another table, which the analysis accepts.
\<close>

theorem single_table_ignores_foreign_conditions:
  assumes "q_tables q = [t]"
  shows "make_one_rel db q = make_one_rel db (q\<lparr>q_conds := filter (pops t) (q_conds q)\<rparr>)"
  using assms by (cases "make_scan db t (filter (pops t) (q_conds q))") (simp_all add: make_one_rel_def pop_conds_def)

theorem single_table_ignores_foreign_conditions_witness:
  "make_one_rel ex_cat (ex_query [''a''] [ex_join]) = make_one_rel ex_cat (ex_query [''a''] [])"
  using single_table_ignores_foreign_conditions [of "ex_query [''a''] [ex_join]" "''a''" ex_cat]
  by (simp add: ex_query_def pops_def ex_join_def)

end
