(* ===== verification/System_Properties.thy ===== *)
theory System_Properties
  imports System_Manager Table_Files
begin

text \<open>
  The catalogue in memory and the file \<open>db.meta\<close> agree after \<open>flush_meta\<close>; \<open>create_table\<close> gives a
  table whose columns tile its records and which is empty.
\<close>

section \<open>The catalogue on disk\<close>

lemma bytes_str_bytes [simp]: "bytes_str (str_bytes t) = t"
  by (simp add: bytes_str_def str_bytes_def comp_def unsigned_of_nat take_bit_eq_mod)

lemma stream_put_get:
  assumes "abspath s name \<notin> set (dirs s)" and "lowest_fd s \<noteq> None"
  shows "stream_get name (stream_put False name t s) = Some t"
  using assms
  by (auto simp: stream_put_def stream_get_def lowest_fd_def abspath_def split: option.split)

definition fresh_db :: "string \<Rightarrow> DbMeta" where
  "fresh_db n = \<lparr>db_name = n, db_tabs = []\<rparr>"

text \<open>
  C21. Durability of the catalogue: after \<open>flush_meta\<close>, reading \<open>db.meta\<close> with \<open>operator>>\<close> into an empty
  catalogue gives back exactly the catalogue in memory, with every table, column and index, for
  every catalogue of names without white space that is in key order. (A database name or column
  name is a token of the SQL lexer, so it has none.)
\<close>

theorem catalogue_durable:
  assumes "db_ok (sm_db s)" and "abspath (dos (sm_disk s)) DB_META_NAME \<notin> set (dirs (dos (sm_disk s)))"
    and "lowest_fd (dos (sm_disk s)) \<noteq> None"
  shows "\<exists>text rest. stream_get DB_META_NAME (dos (sm_disk (flush_meta s))) = Some text \<and>
    get_dbmeta (fresh_db n) text = Some (sm_db s, rest)"
  using stream_put_get [OF assms(2,3), of "put_db (sm_db s)"] get_db_round [OF assms(1), of n]
  by (auto simp: flush_meta_def upd_disk_def fresh_db_def)

definition ex_sm :: sm where
  "ex_sm = \<lparr>sm_db = \<lparr>db_name = ''d'', db_tabs = [(''t'', \<lparr>tm_name = ''t'',
       tm_cols = [\<lparr>cm_tab = ''t'', cm_name = ''a'', cm_type = TYPE_INT, cm_len = 4, cm_offset = 0, cm_index = False\<rparr>],
       tm_indexes = []\<rparr>)]\<rparr>, fhs = [], ihs = [], sm_bpm = ex_blank_pool\<rparr>"

theorem catalogue_durable_witness:
  "\<exists>text rest. stream_get DB_META_NAME (dos (sm_disk (flush_meta ex_sm))) = Some text \<and>
    get_dbmeta (fresh_db []) text = Some (sm_db ex_sm, rest)"
proof (rule catalogue_durable)
  show "db_ok (sm_db ex_sm)"
    by (simp add: ex_sm_def db_ok_def word_ok_def tab_ok_def col_ok_def is_ws_def)
qed (simp_all add: ex_sm_def ex_blank_pool_def BufferPoolManager_new_def DiskManager_new_def lowest_fd_def upt_rec [of 0])

section \<open>The columns of a new table\<close>

text \<open>Column \<open>i\<close> takes the bytes from the sum of the lengths before it.\<close>

lemma length_make_cols [simp]: "length (make_cols tab defs off) = length defs"
  by (induction defs arbitrary: off) simp_all

lemma nth_make_cols:
  "i < length defs \<Longrightarrow> make_cols tab defs off ! i =
     \<lparr>cm_tab = tab, cm_name = cd_name (defs ! i), cm_type = cd_type (defs ! i), cm_len = cd_len (defs ! i),
      cm_offset = off + sum_list (map cd_len (take i defs)), cm_index = False\<rparr>"
proof (induction defs arbitrary: i off)
  case (Cons c defs)
  then show ?case by (cases i) (simp_all add: algebra_simps)
qed simp

lemma sum_take_Suc:
  "i < length defs \<Longrightarrow> sum_list (map cd_len (take (Suc i) defs)) = sum_list (map cd_len (take i defs)) + cd_len (defs ! i)"
  by (simp add: take_Suc_conv_app_nth)

lemma sum_take_mono:
  assumes "\<forall>c \<in> set defs. 0 \<le> cd_len c" and "i \<le> j" and "j \<le> length defs"
  shows "sum_list (map cd_len (take i defs)) \<le> sum_list (map cd_len (take j defs))"
  using assms(2,3)
proof (induction j)
  case (Suc j)
  show ?case
  proof (cases "i = Suc j")
    case False
    have "0 \<le> cd_len (defs ! j)" using assms(1) Suc.prems(2) by simp
    then show ?thesis using Suc False sum_take_Suc [of j defs] by simp
  qed simp
qed simp

lemma find_unique:
  "\<lbrakk>i < length xs; P (xs ! i); \<And>j. j < i \<Longrightarrow> \<not> P (xs ! j)\<rbrakk> \<Longrightarrow> find P xs = Some (xs ! i)"
  by (auto simp: find_Some_iff intro!: exI [of _ i])

section \<open>create_table\<close>

lemma map_of_map_put: "map_of (map_put k v xs) k' = (if k' = k then Some v else map_of xs k')"
proof (induction k v xs rule: map_put.induct)
  case (2 k v k2 v2 xs)
  then show ?case by auto
qed simp

lemma get_table_Set:
  "get_table t' (SetTabMeta t m d) = (if t' = t then Inr m else get_table t' d)"
  by (simp add: get_table_def SetTabMeta_def map_of_map_put)

text \<open>A change of the disk outside the open files.\<close>

definition same_open :: "disk \<Rightarrow> disk \<Rightarrow> bool" where
  "same_open d d' \<longleftrightarrow> fds (dos d') = fds (dos d) \<and> fd2pageno d' = fd2pageno d \<and>
     (\<forall>f i off. fds (dos d) f = Some (i, off) \<longrightarrow> idata (dos d') i = idata (dos d) i)"

lemma same_open_simps:
  assumes "same_open d d'"
  shows "disk_page d' p = disk_page d p" and "fd_open d' fd = fd_open d fd" and "no_alias d' = no_alias d"
  using assms by (auto simp: same_open_def disk_page_def fd_open_def no_alias_def split: option.splits)

lemma rm_inv_same_open:
  assumes so: "same_open (dm b) d'" and inv: "rm_inv fh b"
  shows "rm_inv fh (b\<lparr>dm := d'\<rparr>)" and "rm_abs fh (b\<lparr>dm := d'\<rparr>) = rm_abs fh b"
proof -
  note s = same_open_simps [OF so]
  have fp: "file_page fh (b\<lparr>dm := d'\<rparr>) = file_page fh b"
    by (rule ext) (simp add: file_page_def bpm_view_def s split: option.split)
  obtain L where L: "bpm_inv L b" using rm_invD(1) [OF inv] by blast
  have "no_alias (dm b)" using bpm_inv_parts(5) [OF L] by (simp add: sync_ok_def)
  then have "bpm_inv L (b\<lparr>dm := d'\<rparr>)" by (intro bpm_inv_disk [OF L]) (simp_all add: s)
  moreover have "synced_but {} (b\<lparr>dm := d'\<rparr>)" using rm_invD(2) [OF inv] by (simp add: synced_but_def s)
  ultimately show "rm_inv fh (b\<lparr>dm := d'\<rparr>)"
    using inv fp so by (auto simp: rm_inv_def s same_open_def)
  show "rm_abs fh (b\<lparr>dm := d'\<rparr>) = rm_abs fh b" by (simp add: rm_abs_def fp)
qed

lemma stream_put_same_open:
  assumes "\<And>f i off. fds (dos d) f = Some (i, off) \<Longrightarrow> i < next_ino (dos d) \<and> dirent (dos d) (abspath (dos d) name) \<noteq> Some i"
  shows "same_open d (d\<lparr>dos := stream_put app name t (dos d)\<rparr>)"
  using assms by (fastforce simp: same_open_def stream_put_def split: option.split)

lemma opened_disk_meta:
  assumes inv: "disk_inv d" and fd: "fds (dos d) fd = None" and np: "path2fd d meta = None" and ne: "meta \<noteq> name"
    and f: "fds (dos (opened_disk name rs fd d)) f = Some (i, off)"
  shows "i < next_ino (dos (opened_disk name rs fd d)) \<and>
    dirent (dos (opened_disk name rs fd d)) (abspath (dos (opened_disk name rs fd d)) meta) \<noteq> Some i"
proof (cases "f = fd")
  case True
  then have "i = next_ino (dos d)" using f by (simp add: opened_disk_def Let_def)
  then show ?thesis using disk_invD(7) [OF inv, of "abspath (dos d) meta"] ne
    by (auto simp: opened_disk_def Let_def abspath_def)
next
  case False
  then have i: "fd_ino d f = Some i" using f by (simp add: opened_disk_def Let_def fd_ino_def)
  then have "file_ino d meta \<noteq> Some i" using unopened_ino [OF inv np] by blast
  then show ?thesis using disk_invD(8) [OF inv i] ne
    by (auto simp: opened_disk_def Let_def abspath_def file_ino_def)
qed

definition sm_ready :: "sm \<Rightarrow> bool" where
  "sm_ready s \<longleftrightarrow> (\<exists>L. bpm_inv L (sm_bpm s)) \<and> synced_but {} (sm_bpm s) \<and> disk_inv (sm_disk s) \<and>
     path2fd (sm_disk s) DB_META_NAME = None"

text \<open>A name for which \<open>create_table\<close> can make a file, and the descriptor it will get.\<close>

definition name_free :: "string \<Rightarrow> int \<Rightarrow> sm \<Rightarrow> bool" where
  "name_free tab fd s \<longleftrightarrow> tab \<noteq> DB_META_NAME \<and> \<not> is_table tab (sm_db s) \<and> map_of (fhs s) tab = None \<and>
     \<not> is_file tab (sm_disk s) \<and> abspath (dos (sm_disk s)) tab \<notin> set (dirs (dos (sm_disk s))) \<and>
     path2fd (sm_disk s) tab = None \<and> lowest_fd (dos (sm_disk s)) = Some fd \<and> fd < MAX_FD"

text \<open>Columns of positive lengths in which a record of the allowed size can be cut up.\<close>

definition defs_ok :: "ColDef list \<Rightarrow> bool" where
  "defs_ok defs \<longleftrightarrow> (\<forall>c \<in> set defs. 0 < cd_len c) \<and> defs \<noteq> [] \<and> sum_list (map cd_len defs) \<le> RM_MAX_RECORD_SIZE \<and>
     distinct (map cd_name defs)"

lemma defs_ok_size: "defs_ok defs \<Longrightarrow> 1 \<le> sum_list (map cd_len defs)"
  using sum_take_mono [of defs 1 "length defs"] by (cases defs) (fastforce simp: defs_ok_def Suc_le_eq less_imp_le)+

lemma create_table_run:
  assumes s: "sm_ready s" and n: "name_free tab fd s" and d: "defs_ok defs" and junk: "length junk = sizeof_RmFileHdr"
    and none: "\<And>p. page_table (sm_bpm s) (PageId_of fd p) = None"
  defines "rs \<equiv> sum_list (map cd_len defs)"
  defines "fh \<equiv> \<lparr>fh_fd = fd, file_hdr = rm_new_hdr rs\<rparr>"
  shows "\<exists>s'. create_table junk tab defs s = Ok () s' \<and> fhs s' = fhs s @ [(tab, fh)] \<and>
    sm_db s' = SetTabMeta tab \<lparr>tm_name = tab, tm_cols = make_cols tab defs 0, tm_indexes = []\<rparr> (sm_db s) \<and>
    rm_inv fh (sm_bpm s') \<and> rm_abs fh (sm_bpm s') = Map.empty \<and>
    (\<forall>g. rm_inv g (sm_bpm s) \<longrightarrow> rm_inv g (sm_bpm s') \<and> rm_abs g (sm_bpm s') = rm_abs g (sm_bpm s))"
proof -
  let ?b = "sm_bpm s" and ?od = "opened_disk tab rs fd (sm_disk s)"
  obtain L where L: "bpm_inv L ?b" and sy: "synced_but {} ?b" and di: "disk_inv (sm_disk s)"
    and np: "path2fd (sm_disk s) DB_META_NAME = None" using s by (auto simp: sm_ready_def)
  have rs: "1 \<le> rs" "rs \<le> RM_MAX_RECORD_SIZE" using d defs_ok_size by (auto simp: rs_def defs_ok_def)
  have nm: "\<not> is_file tab (sm_disk s)" "abspath (dos (sm_disk s)) tab \<notin> set (dirs (dos (sm_disk s)))"
    "path2fd (sm_disk s) tab = None" "lowest_fd (dos (sm_disk s)) = Some fd" "fd < MAX_FD"
    "map_of (fhs s) tab = None" "\<not> is_table tab (sm_db s)" "DB_META_NAME \<noteq> tab"
    using n by (auto simp: name_free_def)
  obtain d1 where co: "rm_create_file tab rs (sm_disk s) = Ok () d1"
    "rm_open_file junk tab d1 = Ok fh ?od"
    using create_open [OF rs nm(1-5) junk] by (auto simp: fh_def)
  have fd: "fds (dos (sm_disk s)) fd = None" "0 \<le> fd"
    using lowest_fd_free [OF nm(4)] nm(4) by (auto simp: lowest_fd_def find_Some_iff)
  note ot = opened_table [OF L sy di rs fd nm(5) none, of tab]
  let ?m = "SetTabMeta tab \<lparr>tm_name = tab, tm_cols = make_cols tab defs 0, tm_indexes = []\<rparr> (sm_db s)"
  let ?d2 = "?od\<lparr>dos := stream_put False DB_META_NAME (put_db ?m) (dos ?od)\<rparr>"
  have so: "same_open (dm (?b\<lparr>dm := ?od\<rparr>)) ?d2"
    using stream_put_same_open [of ?od DB_META_NAME] opened_disk_meta [OF di fd(1) np nm(8)] by simp
  have run: "create_table junk tab defs s = Ok () (s\<lparr>sm_db := ?m, fhs := fhs s @ [(tab, fh)], sm_bpm := ?b\<lparr>dm := ?d2\<rparr>\<rparr>)"
    using co nm(6,7)
    by (simp add: create_table_def rs_def [symmetric] Let_def on_disk_def upd_disk_def flush_meta_def emplace_def)
  have "rm_inv g (?b\<lparr>dm := ?d2\<rparr>) \<and> rm_abs g (?b\<lparr>dm := ?d2\<rparr>) = rm_abs g ?b" if "rm_inv g ?b" for g
    using opened_table_others [OF di fd(1) none that, of tab rs] rm_inv_same_open [OF so, of g] by simp
  then show ?thesis
    using run rm_inv_same_open [OF so ot(1) [folded fh_def]] ot(2) [folded fh_def] by simp
qed

text \<open>
  C22. \<open>create_table\<close> with columns of positive lengths, distinct names and a total length of at most
  512 succeeds for a new name, in a valid state whose pool caches no page of the descriptor the new
  file gets (after \<open>drop table\<close> the descriptor is used again while \<open>close_file\<close> leaves the pages of
  the dropped file in the pool, so there the condition can fail). The new table is open, valid and
  empty. Every table that was open and valid still is, with the same handle and the same records,
  and the catalogue entries of the other tables are the same. Every column of the new table is
  found by its name with its type and length, lies inside the records of the file, and no two
  columns overlap.
\<close>

theorem create_table_correct:
  assumes s: "sm_ready s" and n: "name_free tab fd s" and d: "defs_ok defs" and junk: "length junk = sizeof_RmFileHdr"
    and none: "\<And>p. page_table (sm_bpm s) (PageId_of fd p) = None"
  shows "\<exists>s' fh m. create_table junk tab defs s = Ok () s' \<and> map_of (fhs s') tab = Some fh \<and>
    rm_inv fh (sm_bpm s') \<and> rm_abs fh (sm_bpm s') = Map.empty \<and>
    (\<forall>g. rm_inv g (sm_bpm s) \<longrightarrow> rm_inv g (sm_bpm s') \<and> rm_abs g (sm_bpm s') = rm_abs g (sm_bpm s)) \<and>
    (\<forall>t. t \<noteq> tab \<longrightarrow> map_of (fhs s') t = map_of (fhs s) t) \<and>
    get_table tab (sm_db s') = Inr m \<and> (\<forall>t. t \<noteq> tab \<longrightarrow> get_table t (sm_db s') = get_table t (sm_db s)) \<and>
    length (tm_cols m) = length defs \<and>
    (\<forall>i < length defs. tab_get_col (cd_name (defs ! i)) m = Inr (tm_cols m ! i) \<and>
       cm_type (tm_cols m ! i) = cd_type (defs ! i) \<and> cm_len (tm_cols m ! i) = cd_len (defs ! i) \<and>
       0 \<le> cm_offset (tm_cols m ! i) \<and>
       cm_offset (tm_cols m ! i) + cm_len (tm_cols m ! i) \<le> record_size (file_hdr fh)) \<and>
    (\<forall>i j. i < j \<longrightarrow> j < length defs \<longrightarrow>
       cm_offset (tm_cols m ! i) + cm_len (tm_cols m ! i) \<le> cm_offset (tm_cols m ! j))"
proof -
  let ?cs = "make_cols tab defs 0" and ?m = "\<lparr>tm_name = tab, tm_cols = make_cols tab defs 0, tm_indexes = []\<rparr>"
  let ?rs = "sum_list (map cd_len defs)" and ?S = "\<lambda>i. sum_list (map cd_len (take i defs))"
  let ?fh = "\<lparr>fh_fd = fd, file_hdr = rm_new_hdr ?rs\<rparr>"
  obtain s' where run: "create_table junk tab defs s = Ok () s'" "fhs s' = fhs s @ [(tab, ?fh)]"
    "sm_db s' = SetTabMeta tab ?m (sm_db s)" "rm_inv ?fh (sm_bpm s')" "rm_abs ?fh (sm_bpm s') = Map.empty"
    "\<forall>g. rm_inv g (sm_bpm s) \<longrightarrow> rm_inv g (sm_bpm s') \<and> rm_abs g (sm_bpm s') = rm_abs g (sm_bpm s)"
    using create_table_run [OF s n d junk none] by auto
  have fh: "map_of (fhs s') tab = Some ?fh" using run(2) n by (simp add: name_free_def map_add_def)
  have fhs': "\<forall>t. t \<noteq> tab \<longrightarrow> map_of (fhs s') t = map_of (fhs s) t"
    using run(2) by (simp add: map_add_def split: option.split)
  have nn: "\<forall>c \<in> set defs. 0 \<le> cd_len c" using d by (auto simp: defs_ok_def less_imp_le)
  note mono = sum_take_mono [OF nn]
  have off: "cm_offset (?cs ! i) = ?S i" "cm_len (?cs ! i) = cd_len (defs ! i)" "cm_type (?cs ! i) = cd_type (defs ! i)"
    "cm_name (?cs ! i) = cd_name (defs ! i)" if "i < length defs" for i
    using nth_make_cols [OF that, of tab 0] by simp_all
  have col: "tab_get_col (cd_name (defs ! i)) ?m = Inr (?cs ! i) \<and> cm_type (?cs ! i) = cd_type (defs ! i) \<and>
      cm_len (?cs ! i) = cd_len (defs ! i) \<and> 0 \<le> cm_offset (?cs ! i) \<and> cm_offset (?cs ! i) + cm_len (?cs ! i) \<le> ?rs"
    if i: "i < length defs" for i
  proof -
    have "cd_name (defs ! j) \<noteq> cd_name (defs ! i)" if "j < i" for j
      using d i that nth_eq_iff_index_eq [of "map cd_name defs" i j] by (simp add: defs_ok_def)
    then have "find (\<lambda>m. cm_name m = cd_name (defs ! i)) ?cs = Some (?cs ! i)"
      using i off(4) by (intro find_unique) simp_all
    moreover have "0 \<le> ?S i" using mono [of 0 i] i by simp
    moreover have "?S i + cd_len (defs ! i) \<le> ?rs"
      using mono [of "Suc i" "length defs"] sum_take_Suc [OF i] i by simp
    ultimately show ?thesis using off i by (simp add: tab_get_col_def)
  qed
  have dis: "cm_offset (?cs ! i) + cm_len (?cs ! i) \<le> cm_offset (?cs ! j)" if "i < j" "j < length defs" for i j
    using mono [of "Suc i" j] sum_take_Suc [of i defs] off that by simp
  have rs: "record_size (file_hdr ?fh) = ?rs" by (simp add: rm_new_hdr_def)
  have tm: "tm_cols ?m = ?cs" by simp
  have gt: "get_table tab (sm_db s') = Inr ?m" "\<forall>t. t \<noteq> tab \<longrightarrow> get_table t (sm_db s') = get_table t (sm_db s)"
    using run(3) by (simp_all add: get_table_Set)
  have len: "length ?cs = length defs" by simp
  show ?thesis
    by (intro exI [of _ s'] exI [of _ ?fh] exI [of _ ?m], unfold rs tm)
      (use run(1,4,5,6) fh fhs' gt len col dis in blast)
qed

definition ex_blank_sm :: sm where
  "ex_blank_sm = \<lparr>sm_db = fresh_db ''d'', fhs = [], ihs = [], sm_bpm = ex_blank_pool\<rparr>"

definition ex_defs :: "ColDef list" where
  "ex_defs = [\<lparr>cd_name = ''a'', cd_type = TYPE_INT, cd_len = 4\<rparr>, \<lparr>cd_name = ''b'', cd_type = TYPE_STRING, cd_len = 8\<rparr>]"

lemma ex_blank_ready: "sm_ready ex_blank_sm"
proof -
  have "bpm_inv {} ex_blank_pool" unfolding ex_blank_pool_def
    by (rule bpm_inv_new) (simp add: no_alias_def DiskManager_new_def)
  then show ?thesis
    by (auto simp: sm_ready_def ex_blank_sm_def ex_blank_pool_def BufferPoolManager_new_def DiskManager_new_def
        synced_but_def disk_inv_def fd_ino_def)
qed

lemma ex_blank_free: "tab \<noteq> DB_META_NAME \<Longrightarrow> name_free tab 0 ex_blank_sm"
  by (simp add: name_free_def ex_blank_sm_def ex_blank_pool_def BufferPoolManager_new_def DiskManager_new_def
      fresh_db_def is_table_def is_file_def lowest_fd_def MAX_FD_def upt_rec [of 0])

lemma ex_defs_ok: "defs_ok ex_defs"
  by (simp add: defs_ok_def ex_defs_def RM_MAX_RECORD_SIZE_def)

theorem create_table_correct_witness:
  "\<exists>s' fh. create_table (replicate 20 1) ''t'' ex_defs ex_blank_sm = Ok () s' \<and> map_of (fhs s') ''t'' = Some fh \<and>
     rm_inv fh (sm_bpm s') \<and> rm_abs fh (sm_bpm s') = Map.empty"
proof -
  have nm: "name_free ''t'' 0 ex_blank_sm" by (rule ex_blank_free) (simp add: DB_META_NAME_def)
  have none: "page_table (sm_bpm ex_blank_sm) p = None" for p
    by (simp add: ex_blank_sm_def ex_blank_pool_def BufferPoolManager_new_def)
  show ?thesis
    using create_table_correct [OF ex_blank_ready nm ex_defs_ok, of "replicate 20 1"] none
    by (auto simp: sizeof_RmFileHdr_def)
qed

end
