(* ===== verification/Parser_Grammar.thy ===== *)
theory Parser_Grammar
  imports Parser
begin

text \<open>
  The functions of the parser compute the grammar: \<open>p_start\<close> delivers a tree and a rest of the tokens exactly when the tokens before
  the rest derive the tree. The locale \<open>recogniser\<close> is what the parser of a symbol promises: what it takes derives the value it
  returns, and it takes every derivation that a token outside its continuations follows. \<open>separated\<close> extends it to the
  left-recursive lists of the grammar.
\<close>

section \<open>Interfaces\<close>

definition followed :: "(token \<Rightarrow> bool) \<Rightarrow> token list \<Rightarrow> bool" where
  "followed fol r \<longleftrightarrow> (r = [] \<or> fol (hd r))"

lemma followed_simps [simp]:
  "followed fol []" "followed fol (t # r) \<longleftrightarrow> fol t"
  by (simp_all add: followed_def)

lemma followed_conj [simp]: "followed (\<lambda>t. P t \<and> Q t) r \<longleftrightarrow> followed P r \<and> followed Q r"
  by (auto simp: followed_def)

lemma bindP_Inr [simp]: "bindP p f ts = Inr y \<longleftrightarrow> (\<exists>x r. p ts = Inr (x, r) \<and> f x r = Inr y)"
  by (auto simp: bindP_def split: sum.splits)

lemma bindP_step: "p ts = Inr (x, r) \<Longrightarrow> bindP p f ts = f x r"
  by (simp add: bindP_def)

lemma ret_Inr [simp]: "ret x ts = Inr (y, r) \<longleftrightarrow> x = y \<and> ts = r"
  by (simp add: ret_def)

lemma p_tok_Inr [simp]: "p_tok t ts = Inr (u, r) \<longleftrightarrow> ts = t # r"
  by (auto simp: p_tok_def split: list.splits)

locale reads =
  fixes p :: "'a parse" and R :: "token list \<Rightarrow> 'a \<Rightarrow> bool" and fol :: "token \<Rightarrow> bool"
  assumes sound: "p ts = Inr (x, r) \<Longrightarrow> \<exists>us. ts = us @ r \<and> R us x"
    and complete: "R us x \<Longrightarrow> followed fol r \<Longrightarrow> p (us @ r) = Inr (x, r)"
begin

lemma unambiguous: "R us x \<Longrightarrow> R us y \<Longrightarrow> x = y"
  using complete [of us x "[]"] complete [of us y "[]"] by simp

lemma parens_Inr: "fol RPAREN \<Longrightarrow> p_parens p ts = Inr (x, r) \<longleftrightarrow> (\<exists>us. ts = LPAREN # us @ RPAREN # r \<and> R us x)"
  using sound complete by (fastforce simp: p_parens_def)

end

locale recogniser = reads +
  assumes nonempty: "\<not> R [] x"
begin

lemma shorter: "p ts = Inr (x, r) \<Longrightarrow> length r < length ts"
proof -
  assume "p ts = Inr (x, r)"
  then obtain us where "ts = us @ r" "R us x" using sound by blast
  then show ?thesis using nonempty by (cases us) auto
qed

end

lemma g_list_cons: "g_list sep R vs xs \<Longrightarrow> R us x \<Longrightarrow> sep s \<Longrightarrow> g_list sep R (us @ s # vs) (x # xs)"
proof (induction rule: g_list.induct)
  case (first vs y)
  have "g_list sep R us [x]" by (rule g_list.first) (rule first.prems)
  then have "g_list sep R (us @ s # vs) ([x] @ [y])" by (rule g_list.more) (use first in auto)
  then show ?case by simp
next
  case (more vs ys s' ws y)
  have "g_list sep R ((us @ s # vs) @ s' # ws) ((x # ys) @ [y])"
    by (rule g_list.more) (use more in auto)
  then show ?case by simp
qed

lemma g_list_consE:
  assumes "g_list sep R us xs"
  obtains x where "R us x" "xs = [x]"
        | us1 x s vs xs' where "R us1 x" "sep s" "g_list sep R vs xs'" "us = us1 @ s # vs" "xs = x # xs'"
  using assms
proof (induction arbitrary: thesis rule: g_list.induct)
  case (first us x)
  then show ?case by blast
next
  case (more us xs s vs x)
  show ?case
  proof (rule more.IH)
    fix y assume "R us y" "xs = [y]"
    then show thesis using more.prems(2) [of us y s vs "[x]"] more.hyps by (auto intro: g_list.first)
  next
    fix us1 y s' ws xs' assume a: "R us1 y" "sep s'" "g_list sep R ws xs'" "us = us1 @ s' # ws" "xs = y # xs'"
    have "g_list sep R (ws @ s # vs) (xs' @ [x])" using a more.hyps by (auto intro: g_list.more)
    then show thesis using more.prems(2) [of us1 y s' "ws @ s # vs" "xs' @ [x]"] a by simp
  qed
qed

locale separated = recogniser +
  fixes sep :: "token \<Rightarrow> bool"
  assumes sep_stops: "sep s \<Longrightarrow> fol s"
begin

lemma sep_list_sound: "sep_list n sep p ts = Inr (xs, r) \<Longrightarrow> \<exists>us. ts = us @ r \<and> g_list sep R us xs"
proof (induction n arbitrary: ts xs)
  case (Suc n)
  obtain x r1 where x: "p ts = Inr (x, r1)"
    and k: "(case r1 of [] \<Rightarrow> Inr ([x], r1)
             | s # r' \<Rightarrow> if sep s then bindP (sep_list n sep p) (\<lambda>xs. ret (x # xs)) r' else Inr ([x], r1)) = Inr (xs, r)"
    using Suc.prems by auto
  obtain us where us: "ts = us @ r1" "R us x" using sound [OF x] by blast
  consider "r1 = r" "xs = [x]" | s r' xs' where "r1 = s # r'" "sep s" "sep_list n sep p r' = Inr (xs', r)" "xs = x # xs'"
    using k by (auto split: list.splits if_splits)
  then show ?case
  proof cases
    case 1
    then show ?thesis using us by (auto intro: g_list.first)
  next
    case 2
    obtain vs where "r' = vs @ r" "g_list sep R vs xs'" using Suc.IH [OF 2(3)] by blast
    then show ?thesis using us 2 g_list_cons by fastforce
  qed
qed simp

lemma sep_list_complete:
  "g_list sep R us xs \<Longrightarrow> followed (\<lambda>t. fol t \<and> \<not> sep t) r \<Longrightarrow> length us < n \<Longrightarrow> sep_list n sep p (us @ r) = Inr (xs, r)"
proof (induction n arbitrary: us xs)
  case (Suc n)
  have f: "followed fol r" using Suc.prems(2) by simp
  from Suc.prems(1) show ?case
  proof (cases rule: g_list_consE)
    case (1 x)
    then show ?thesis using complete [OF 1(1) f] Suc.prems(2)
      by (auto simp: bindP_step followed_def split: list.splits)
  next
    case (2 us1 x s vs xs')
    have "p (us1 @ s # vs @ r) = Inr (x, s # vs @ r)" using complete [OF 2(1)] sep_stops [OF 2(2)] by simp
    moreover have "sep_list n sep p (vs @ r) = Inr (xs', r)" using Suc.IH [OF 2(3) Suc.prems(2)] Suc.prems(3) 2(4) by simp
    ultimately show ?thesis using 2 by (simp add: bindP_step ret_def)
  qed
qed simp

lemma list_sound: "p_list sep p ts = Inr (xs, r) \<Longrightarrow> \<exists>us. ts = us @ r \<and> g_list sep R us xs"
  unfolding p_list_def by (rule sep_list_sound)

lemma list_complete: "g_list sep R us xs \<Longrightarrow> followed (\<lambda>t. fol t \<and> \<not> sep t) r \<Longrightarrow> p_list sep p (us @ r) = Inr (xs, r)"
  unfolding p_list_def by (rule sep_list_complete) auto

lemma list_nonempty: "\<not> g_list sep R [] xs"
  using nonempty by (auto elim: g_list_consE)

end

sublocale separated \<subseteq> lists: recogniser "p_list sep p" "g_list sep R" "\<lambda>t. fol t \<and> \<not> sep t"
  by unfold_locales (auto dest: list_sound intro: list_complete simp: list_nonempty)

section \<open>Symbols\<close>

lemma p_tbName_Inr [simp]: "p_tbName ts = Inr (x, r) \<longleftrightarrow> ts = IDENTIFIER x # r"
  by (cases "(ts)" rule: p_tbName.cases) auto

lemma p_int_Inr [simp]: "p_int ts = Inr (n, r) \<longleftrightarrow> ts = VALUE_INT n # r"
  by (cases "(ts)" rule: p_int.cases) auto

lemma p_type_Inr: "p_type ts = Inr (ty, r) \<longleftrightarrow> (\<exists>us. ts = us @ r \<and> g_type us ty)"
  by (cases "(ts)" rule: p_type.cases) (auto simp: g_type.simps)

lemma p_value_Inr: "p_value ts = Inr (v, r) \<longleftrightarrow> (\<exists>us. ts = us @ r \<and> g_value us v)"
  by (cases "(ts)" rule: p_value.cases) (auto simp: g_value.simps)

lemma p_op_Inr: "p_op ts = Inr (x, r) \<longleftrightarrow> (\<exists>us. ts = us @ r \<and> g_op us x)"
proof -
  have o: "op_of t = Some x \<longleftrightarrow> g_op [t] x" for t by (auto simp: op_of_def g_op.simps)
  have s: "g_op us x \<Longrightarrow> \<exists>t. us = [t]" for us by (auto simp: g_op.simps)
  have "p_op ts = Inr (x, r) \<longleftrightarrow> (\<exists>t. ts = t # r \<and> g_op [t] x)"
    by (cases ts) (auto simp: p_op_def o [symmetric] split: option.splits)
  also have "\<dots> \<longleftrightarrow> (\<exists>us. ts = us @ r \<and> g_op us x)" using s by (metis append_Cons append_Nil)
  finally show ?thesis .
qed

lemma p_col_Inr:
  "p_col ts = Inr (c, r) \<longleftrightarrow>
     (\<exists>t x. ts = IDENTIFIER t # DOT # IDENTIFIER x # r \<and> c = \<lparr>col_tab = t, col_nm = x\<rparr>) \<or>
     (\<exists>x. ts = IDENTIFIER x # r \<and> followed (\<lambda>s. s \<noteq> DOT) r \<and> c = \<lparr>col_tab = [], col_nm = x\<rparr>)"
proof -
  have "p_col (IDENTIFIER x # r1) = Inr (c, r) \<longleftrightarrow>
     (\<exists>y. r1 = DOT # IDENTIFIER y # r \<and> c = \<lparr>col_tab = x, col_nm = y\<rparr>) \<or>
     (r1 = r \<and> followed (\<lambda>s. s \<noteq> DOT) r \<and> c = \<lparr>col_tab = [], col_nm = x\<rparr>)" for x r1
    by (cases r1) (auto simp: p_col_def bindP_step)
  moreover have "p_col ts = Inr (c, r) \<Longrightarrow> \<exists>x r1. ts = IDENTIFIER x # r1" by (auto simp: p_col_def)
  ultimately show ?thesis by blast
qed

inductive_simps g_tbName_simp: "g_tbName us x"
inductive_simps g_value_Nil [simp]: "g_value [] v"
inductive_simps g_col_simp: "g_col us c"
inductive_simps g_expr_simp: "g_expr us e"
inductive_simps g_field_simp: "g_field us f"
inductive_simps g_condition_simp: "g_condition us c"
inductive_simps g_setClause_simp: "g_setClause us c"

lemma not_empty [simp]: "\<not> g_col [] c" "\<not> g_op [] x" "\<not> g_expr [] e" "\<not> g_condition [] b"
  by (auto simp: g_col.simps g_op.simps g_expr.simps g_condition.simps)

lemma g_expr_first: "g_expr us e \<Longrightarrow> \<exists>t us'. us = t # us' \<and> t \<noteq> DOT"
  by (auto simp: g_expr.simps g_value.simps g_col.simps)

lemma g_op_first: "g_op us x \<Longrightarrow> \<exists>t. us = [t] \<and> t \<noteq> DOT"
  by (auto simp: g_op.simps)

interpretation tbName: recogniser p_tbName g_tbName "\<lambda>t. True"
  by unfold_locales (auto simp: g_tbName_simp)

interpretation valuep: recogniser p_value g_value "\<lambda>t. True"
  by unfold_locales (auto simp: p_value_Inr)

interpretation oper: recogniser p_op g_op "\<lambda>t. True"
  by unfold_locales (auto simp: p_op_Inr)

interpretation typep: recogniser p_type g_type "\<lambda>t. True"
  by unfold_locales (auto simp: p_type_Inr g_type.simps)

interpretation colp: recogniser p_col g_col "\<lambda>t. t \<noteq> DOT"
  by unfold_locales (auto simp: p_col_Inr g_col_simp)

interpretation field: recogniser p_field g_field "\<lambda>t. True"
  by unfold_locales (auto simp: p_field_def g_field_simp p_type_Inr)

interpretation setClause: recogniser p_setClause g_setClause "\<lambda>t. True"
  by unfold_locales (auto simp: p_setClause_def g_setClause_simp p_value_Inr)

interpretation exprp: recogniser p_expr g_expr "\<lambda>t. t \<noteq> DOT"
proof unfold_locales
  fix ts e r assume "p_expr ts = Inr (e, r)"
  then show "\<exists>us. ts = us @ r \<and> g_expr us e"
    by (auto simp: p_expr_def p_value_Inr g_expr_simp split: list.splits token.splits dest: colp.sound intro: g_value.intros)
next
  fix us e r assume "g_expr us e" and f: "followed (\<lambda>t. t \<noteq> DOT) r"
  then show "p_expr (us @ r) = Inr (e, r)"
    by (auto simp: g_expr_simp p_expr_def p_value_Inr p_col_Inr elim!: g_value.cases g_col.cases)
qed simp

interpretation condition: recogniser p_condition g_condition "\<lambda>t. t \<noteq> DOT"
proof unfold_locales
  fix ts b r assume "p_condition ts = Inr (b, r)"
  then obtain c r1 x r2 e where "p_col ts = Inr (c, r1)" "p_op r1 = Inr (x, r2)" "p_expr r2 = Inr (e, r)"
    and b: "b = \<lparr>be_lhs = c, be_op = x, be_rhs = e\<rparr>"
    by (auto simp: p_condition_def)
  then show "\<exists>us. ts = us @ r \<and> g_condition us b"
    by (metis append.assoc colp.sound exprp.sound g_condition.intros oper.sound)
next
  fix us b r assume "g_condition us b" and f: "followed (\<lambda>t. t \<noteq> DOT) r"
  then obtain vs c ws x zs e where g: "g_col vs c" "g_op ws x" "g_expr zs e" "us = vs @ ws @ zs" "b = \<lparr>be_lhs = c, be_op = x, be_rhs = e\<rparr>"
    by (auto simp: g_condition_simp)
  have "followed (\<lambda>t. t \<noteq> DOT) (ws @ zs @ r)" using g_op_first [OF g(2)] by auto
  then have "p_col (vs @ ws @ zs @ r) = Inr (c, ws @ zs @ r)" by (rule colp.complete [OF g(1)])
  moreover have "p_op (ws @ zs @ r) = Inr (x, zs @ r)" by (rule oper.complete [OF g(2)]) (simp add: followed_def)
  ultimately show "p_condition (us @ r) = Inr (b, r)"
    using exprp.complete [OF g(3) f] g(4,5) by (simp add: p_condition_def bindP_step ret_def)
qed simp

section \<open>Lists\<close>

interpretation fieldList: separated p_field g_field "\<lambda>t. True" "\<lambda>s. s = COMMA"
  by unfold_locales simp

interpretation colNameList: separated p_tbName g_tbName "\<lambda>t. True" "\<lambda>s. s = COMMA"
  by unfold_locales simp

interpretation valueList: separated p_value g_value "\<lambda>t. True" "\<lambda>s. s = COMMA"
  by unfold_locales simp

interpretation setClauses: separated p_setClause g_setClause "\<lambda>t. True" "\<lambda>s. s = COMMA"
  by unfold_locales simp

interpretation colList: separated p_col g_col "\<lambda>t. t \<noteq> DOT" "\<lambda>s. s = COMMA"
  by unfold_locales simp

interpretation whereClause: separated p_condition g_condition "\<lambda>t. t \<noteq> DOT" "\<lambda>s. s = KW_AND"
  by unfold_locales simp

interpretation tableList: separated p_tbName g_tbName "\<lambda>t. True" "\<lambda>s. s = COMMA \<or> s = KW_JOIN"
  by unfold_locales simp

section \<open>Clauses\<close>

interpretation optWhere: reads p_optWhereClause g_optWhereClause "\<lambda>t. t \<noteq> DOT \<and> t \<noteq> KW_AND \<and> t \<noteq> KW_WHERE"
proof unfold_locales
  fix ts cs r assume "p_optWhereClause ts = Inr (cs, r)"
  then show "\<exists>us. ts = us @ r \<and> g_optWhereClause us cs"
    by (cases "(ts)" rule: p_optWhereClause.cases) (auto simp: g_optWhereClause.simps dest: whereClause.list_sound)
next
  fix us cs r assume "g_optWhereClause us cs" and f: "followed (\<lambda>t. t \<noteq> DOT \<and> t \<noteq> KW_AND \<and> t \<noteq> KW_WHERE) r"
  then show "p_optWhereClause (us @ r) = Inr (cs, r)"
  proof cases
    case 1
    then show ?thesis using f by (cases "(r)" rule: p_optWhereClause.cases) auto
  next
    case (2 vs)
    have "followed (\<lambda>t. t \<noteq> DOT \<and> t \<noteq> KW_AND) r" using f by simp
    then show ?thesis using whereClause.list_complete [OF 2(2)] 2(1) by simp
  qed
qed

interpretation asc_desc: reads p_opt_asc_desc g_opt_asc_desc "\<lambda>t. t \<noteq> KW_ASC \<and> t \<noteq> KW_DESC"
proof unfold_locales
  fix ts d r assume "p_opt_asc_desc ts = Inr (d, r)"
  then show "\<exists>us. ts = us @ r \<and> g_opt_asc_desc us d"
    by (cases "(ts)" rule: p_opt_asc_desc.cases) (auto simp: g_opt_asc_desc.simps)
next
  fix us d r assume "g_opt_asc_desc us d" and f: "followed (\<lambda>t. t \<noteq> KW_ASC \<and> t \<noteq> KW_DESC) r"
  then show "p_opt_asc_desc (us @ r) = Inr (d, r)"
    by cases (simp_all, cases "(r)" rule: p_opt_asc_desc.cases, auto)
qed

interpretation order: reads p_opt_order_clause g_opt_order_clause
  "\<lambda>t. t \<noteq> DOT \<and> t \<noteq> KW_ASC \<and> t \<noteq> KW_DESC \<and> t \<noteq> KW_ORDER"
proof unfold_locales
  fix ts ob r assume "p_opt_order_clause ts = Inr (ob, r)"
  then consider "ts = r" "ob = None" | r0 c r1 d where "ts = KW_ORDER # KW_BY # r0" "p_col r0 = Inr (c, r1)" "p_opt_asc_desc r1 = Inr (d, r)"
      "ob = Some \<lparr>ob_col = c, ob_dir = d\<rparr>"
    by (cases "(ts)" rule: p_opt_order_clause.cases) auto
  then show "\<exists>us. ts = us @ r \<and> g_opt_order_clause us ob"
  proof cases
    case 2
    obtain us vs where "r0 = us @ vs @ r" "g_col us c" "g_opt_asc_desc vs d"
      using colp.sound [OF 2(2)] asc_desc.sound [OF 2(3)] by auto
    then show ?thesis using 2 g_opt_order_clause.intros(1) [of us c vs d] by auto
  qed (auto intro: g_opt_order_clause.intros)
next
  fix us ob r assume "g_opt_order_clause us ob" and f: "followed (\<lambda>t. t \<noteq> DOT \<and> t \<noteq> KW_ASC \<and> t \<noteq> KW_DESC \<and> t \<noteq> KW_ORDER) r"
  then show "p_opt_order_clause (us @ r) = Inr (ob, r)"
  proof cases
    case (1 vs c ws d)
    have "followed (\<lambda>t. t \<noteq> KW_ASC \<and> t \<noteq> KW_DESC) r" using f by simp
    note d = asc_desc.complete [OF 1(4) this]
    have "followed (\<lambda>t. t \<noteq> DOT) (ws @ r)" using 1(4) f by cases auto
    note colp.complete [OF 1(3) this]
    then show ?thesis using 1 d by (simp add: bindP_step p_tok_def ret_def)
  next
    case 2
    then show ?thesis using f by (cases "(r)" rule: p_opt_order_clause.cases) auto
  qed
qed

lemma g_colList_first: "g_list (\<lambda>s. s = COMMA) g_col us cs \<Longrightarrow> us \<noteq> [] \<and> hd us \<noteq> STAR"
  by (erule g_list_consE) (auto simp: g_col.simps)

interpretation selector: reads p_selector g_selector "\<lambda>t. t \<noteq> DOT \<and> t \<noteq> COMMA"
proof unfold_locales
  fix ts cs r assume p: "p_selector ts = Inr (cs, r)"
  show "\<exists>us. ts = us @ r \<and> g_selector us cs"
  proof (cases "ts \<noteq> [] \<and> hd ts = STAR")
    case True
    then show ?thesis using p by (auto simp: p_selector_def neq_Nil_conv intro: g_selector.intros)
  next
    case False
    then have "p_list (\<lambda>s. s = COMMA) p_col ts = Inr (cs, r)" using p by (auto simp: p_selector_def)
    then show ?thesis using colList.list_sound g_selector.intros(2) by blast
  qed
next
  fix us cs r assume "g_selector us cs" and f: "followed (\<lambda>t. t \<noteq> DOT \<and> t \<noteq> COMMA) r"
  then show "p_selector (us @ r) = Inr (cs, r)"
    by cases (auto simp: p_selector_def colList.list_complete dest: g_colList_first)
qed

section \<open>Statements\<close>

inductive_simps g_ddl_simps: "g_ddl (KW_CREATE # us) t" "g_ddl (KW_DROP # us) t" "g_ddl (KW_DESC # us) t"
inductive_simps g_dml_simps: "g_dml (KW_INSERT # us) t" "g_dml (KW_DELETE # us) t" "g_dml (KW_UPDATE # us) t" "g_dml (KW_SELECT # us) t"

lemma p_create_Inr: "p_create ts = Inr (t, r) \<longleftrightarrow> (\<exists>us. ts = us @ r \<and> g_ddl (KW_CREATE # us) t)"
proof -
  have "p_create (KW_TABLE # ts') = Inr (t, r) \<longleftrightarrow>
      (\<exists>n us fs. ts' = IDENTIFIER n # LPAREN # us @ RPAREN # r \<and> g_list (\<lambda>s. s = COMMA) g_field us fs \<and> t = CreateTable n fs)" for ts'
    by (auto simp: fieldList.lists.parens_Inr)
  moreover have "p_create (KW_INDEX # ts') = Inr (t, r) \<longleftrightarrow>
      (\<exists>n us cs. ts' = IDENTIFIER n # LPAREN # us @ RPAREN # r \<and> g_list (\<lambda>s. s = COMMA) g_tbName us cs \<and> t = CreateIndex n cs)" for ts'
    by (auto simp: colNameList.lists.parens_Inr)
  ultimately show ?thesis
    by (cases "(ts)" rule: p_create.cases) (simp_all add: g_ddl_simps del: p_create.simps(1,2), auto simp: append_eq_Cons_conv)
qed

lemma p_drop_Inr: "p_drop ts = Inr (t, r) \<longleftrightarrow> (\<exists>us. ts = us @ r \<and> g_ddl (KW_DROP # us) t)"
proof -
  have "p_drop (KW_INDEX # ts') = Inr (t, r) \<longleftrightarrow>
      (\<exists>n us cs. ts' = IDENTIFIER n # LPAREN # us @ RPAREN # r \<and> g_list (\<lambda>s. s = COMMA) g_tbName us cs \<and> t = DropIndex n cs)" for ts'
    by (auto simp: colNameList.lists.parens_Inr)
  then show ?thesis
    by (cases "(ts)" rule: p_drop.cases) (simp_all add: g_ddl_simps del: p_drop.simps(2), auto simp: append_eq_Cons_conv)
qed

lemma p_insert_Inr: "p_insert ts = Inr (t, r) \<longleftrightarrow> (\<exists>us. ts = us @ r \<and> g_dml (KW_INSERT # us) t)"
  by (auto simp: p_insert_def g_dml_simps valueList.lists.parens_Inr)

lemma semi_follows: "followed (\<lambda>t. t = SEMI) r \<Longrightarrow> t \<noteq> SEMI \<Longrightarrow> followed (\<lambda>s. s \<noteq> t) r"
  by (auto simp: followed_def)

interpretation deletep: reads p_delete "\<lambda>us. g_dml (KW_DELETE # us)" "\<lambda>t. t = SEMI"
proof unfold_locales
  fix ts t r assume "p_delete ts = Inr (t, r)"
  then show "\<exists>us. ts = us @ r \<and> g_dml (KW_DELETE # us) t"
    by (auto simp: p_delete_def g_dml_simps dest!: optWhere.sound)
next
  fix us t r assume "g_dml (KW_DELETE # us) t" and f: "followed (\<lambda>t. t = SEMI) r"
  then obtain n vs cs where "us = KW_FROM # IDENTIFIER n # vs" "g_optWhereClause vs cs" "t = DeleteStmt n cs"
    by (auto simp: g_dml_simps)
  then show "p_delete (us @ r) = Inr (t, r)"
    using f by (simp add: p_delete_def optWhere.complete semi_follows)
qed

lemma where_first: "g_optWhereClause us cs \<Longrightarrow> us = [] \<or> hd us = KW_WHERE"
  by (auto simp: g_optWhereClause.simps)

lemma order_first: "g_opt_order_clause us ob \<Longrightarrow> us = [] \<or> hd us = KW_ORDER"
  by (auto simp: g_opt_order_clause.simps)

lemma followed_append: "us = [] \<or> fol (hd us) \<Longrightarrow> followed fol r \<Longrightarrow> followed fol (us @ r)"
  by (cases us) auto

interpretation updatep: reads p_update "\<lambda>us. g_dml (KW_UPDATE # us)" "\<lambda>t. t = SEMI"
proof unfold_locales
  fix ts t r assume "p_update ts = Inr (t, r)"
  then obtain n r1 ss r2 cs where "ts = IDENTIFIER n # KW_SET # r1" "p_list (\<lambda>s. s = COMMA) p_setClause r1 = Inr (ss, r2)"
      "p_optWhereClause r2 = Inr (cs, r)" "t = UpdateStmt n ss cs"
    by (auto simp: p_update_def)
  then show "\<exists>us. ts = us @ r \<and> g_dml (KW_UPDATE # us) t"
    by (auto simp: g_dml_simps dest!: optWhere.sound setClauses.list_sound) blast
next
  fix us t r assume "g_dml (KW_UPDATE # us) t" and f: "followed (\<lambda>t. t = SEMI) r"
  then obtain n vs ss ws cs where g: "us = IDENTIFIER n # KW_SET # vs @ ws" "g_list (\<lambda>s. s = COMMA) g_setClause vs ss"
      "g_optWhereClause ws cs" "t = UpdateStmt n ss cs"
    by (auto simp: g_dml_simps)
  have "followed (\<lambda>t. t \<noteq> COMMA) (ws @ r)" using where_first [OF g(3)] f by (intro followed_append) (auto simp: semi_follows)
  then have "p_list (\<lambda>s. s = COMMA) p_setClause (vs @ ws @ r) = Inr (ss, ws @ r)"
    using setClauses.list_complete [OF g(2)] by (simp add: followed_def)
  moreover have "p_optWhereClause (ws @ r) = Inr (cs, r)" using optWhere.complete [OF g(3)] f by (simp add: semi_follows)
  ultimately show "p_update (us @ r) = Inr (t, r)" using g(1,4) by (simp add: p_update_def)
qed

interpretation selectp: reads p_select "\<lambda>us. g_dml (KW_SELECT # us)" "\<lambda>t. t = SEMI"
proof unfold_locales
  fix ts t r assume "p_select ts = Inr (t, r)"
  then obtain cols r1 tabs r2 cs r3 ob where "p_selector ts = Inr (cols, KW_FROM # r1)"
      "p_list (\<lambda>s. s = COMMA \<or> s = KW_JOIN) p_tbName r1 = Inr (tabs, r2)" "p_optWhereClause r2 = Inr (cs, r3)"
      "p_opt_order_clause r3 = Inr (ob, r)" "t = Select \<lparr>sel_cols = cols, sel_tabs = tabs, sel_conds = cs, sel_order = ob\<rparr>"
    by (auto simp: p_select_def)
  then obtain us vs ws os where "ts = us @ KW_FROM # vs @ ws @ os @ r" "g_selector us cols"
      "g_list (\<lambda>s. s = COMMA \<or> s = KW_JOIN) g_tbName vs tabs" "g_optWhereClause ws cs" "g_opt_order_clause os ob"
      "t = Select \<lparr>sel_cols = cols, sel_tabs = tabs, sel_conds = cs, sel_order = ob\<rparr>"
    by (auto dest!: selector.sound tableList.list_sound optWhere.sound order.sound)
  then show "\<exists>us. ts = us @ r \<and> g_dml (KW_SELECT # us) t"
    using g_dml.intros(4) [of us cols vs tabs ws cs os ob] by (intro exI [of _ "us @ KW_FROM # vs @ ws @ os"]) auto
next
  fix us t r assume "g_dml (KW_SELECT # us) t" and f: "followed (\<lambda>t. t = SEMI) r"
  then obtain as cols vs tabs ws cs os ob where g: "us = as @ KW_FROM # vs @ ws @ os" "g_selector as cols"
      "g_list (\<lambda>s. s = COMMA \<or> s = KW_JOIN) g_tbName vs tabs" "g_optWhereClause ws cs" "g_opt_order_clause os ob"
      "t = Select \<lparr>sel_cols = cols, sel_tabs = tabs, sel_conds = cs, sel_order = ob\<rparr>"
    by (auto simp: g_dml_simps)
  have o: "p_opt_order_clause (os @ r) = Inr (ob, r)" using order.complete [OF g(5)] f by (simp add: semi_follows)
  have "followed (\<lambda>t. t \<noteq> DOT \<and> t \<noteq> KW_AND \<and> t \<noteq> KW_WHERE) (os @ r)"
    using order_first [OF g(5)] f by (intro followed_append) (auto simp: semi_follows)
  note w = optWhere.complete [OF g(4) this]
  have "followed (\<lambda>t. t \<noteq> COMMA \<and> t \<noteq> KW_JOIN) (ws @ os @ r)"
    using where_first [OF g(4)] order_first [OF g(5)] f by (intro followed_append) (auto simp: semi_follows)
  then have "p_list (\<lambda>s. s = COMMA \<or> s = KW_JOIN) p_tbName (vs @ ws @ os @ r) = Inr (tabs, ws @ os @ r)"
    using tableList.list_complete [OF g(3)] by (simp add: followed_def)
  moreover have "p_selector (as @ KW_FROM # vs @ ws @ os @ r) = Inr (cols, KW_FROM # vs @ ws @ os @ r)"
    using selector.complete [OF g(2)] by simp
  ultimately show "p_select (us @ r) = Inr (t, r)" using g(1,6) w o by (simp add: p_select_def)
qed

lemma g_stmt_first:
  assumes "g_stmt us t"
  obtains (single) "(us, t) \<in> {([KW_SHOW, KW_TABLES], ShowTables), ([KW_TXN_BEGIN], TxnBegin), ([KW_TXN_COMMIT], TxnCommit),
                      ([KW_TXN_ABORT], TxnAbort), ([KW_TXN_ROLLBACK], TxnRollback)}"
        | (ddl) vs k where "us = k # vs" "k \<in> {KW_CREATE, KW_DROP, KW_DESC}" "g_ddl us t"
        | (dml) vs k where "us = k # vs" "k \<in> {KW_INSERT, KW_DELETE, KW_UPDATE, KW_SELECT}" "g_dml us t"
  using assms
proof cases
  case 2
  then have "\<exists>vs k. us = k # vs \<and> k \<in> {KW_CREATE, KW_DROP, KW_DESC}" by cases auto
  then show thesis using ddl 2 by blast
next
  case 3
  then have "\<exists>vs k. us = k # vs \<and> k \<in> {KW_INSERT, KW_DELETE, KW_UPDATE, KW_SELECT}" by cases auto
  then show thesis using dml 3 by blast
qed (use single in \<open>auto simp: g_dbStmt.simps g_txnStmt.simps\<close>)

lemma p_stmt_sound: "p_stmt ts = Inr (t, r) \<Longrightarrow> \<exists>us. ts = us @ r \<and> g_stmt us t"
proof (cases "(ts)" rule: p_stmt.cases)
  case (1 s)
  assume "p_stmt ts = Inr (t, r)"
  then show ?thesis using 1 by (auto intro: g_stmt.intros g_dbStmt.intros)
next
  case (2 s)
  assume "p_stmt ts = Inr (t, r)"
  then show ?thesis using 2 by (auto simp: p_create_Inr intro: g_stmt.intros)
next
  case (3 s)
  assume "p_stmt ts = Inr (t, r)"
  then show ?thesis using 3 by (auto simp: p_drop_Inr intro: g_stmt.intros)
next
  case (4 s)
  assume "p_stmt ts = Inr (t, r)"
  then obtain x where "ts = [KW_DESC, IDENTIFIER x] @ r" "t = DescTable x" using 4 by auto
  then show ?thesis using g_stmt.intros(2) [OF g_ddl.intros(3)] by blast
next
  case (5 s)
  assume "p_stmt ts = Inr (t, r)"
  then show ?thesis using 5 by (auto simp: p_insert_Inr intro: g_stmt.intros)
next
  case (6 s)
  assume "p_stmt ts = Inr (t, r)"
  then show ?thesis using 6 by (auto dest!: deletep.sound intro: g_stmt.intros)
next
  case (7 s)
  assume "p_stmt ts = Inr (t, r)"
  then show ?thesis using 7 by (auto dest!: updatep.sound intro: g_stmt.intros)
next
  case (8 s)
  assume "p_stmt ts = Inr (t, r)"
  then show ?thesis using 8 by (auto dest!: selectp.sound intro: g_stmt.intros)
qed (auto intro!: g_stmt.intros(4) intro: g_txnStmt.intros)

lemma p_stmt_complete: "g_stmt us t \<Longrightarrow> followed (\<lambda>t. t = SEMI) r \<Longrightarrow> p_stmt (us @ r) = Inr (t, r)"
proof (erule g_stmt_first)
  assume "(us, t) \<in> {([KW_SHOW, KW_TABLES], ShowTables), ([KW_TXN_BEGIN], TxnBegin), ([KW_TXN_COMMIT], TxnCommit),
                      ([KW_TXN_ABORT], TxnAbort), ([KW_TXN_ROLLBACK], TxnRollback)}"
  then show ?thesis by auto
next
  fix vs k assume k: "us = k # vs" "k \<in> {KW_CREATE, KW_DROP, KW_DESC}" "g_ddl us t"
  have "p_create (vs @ r) = Inr (t, r)" if "k = KW_CREATE" using k that by (auto simp: p_create_Inr)
  moreover have "p_drop (vs @ r) = Inr (t, r)" if "k = KW_DROP" using k that by (auto simp: p_drop_Inr)
  moreover have "\<exists>x. vs = [IDENTIFIER x] \<and> t = DescTable x" if "k = KW_DESC" using k that by (auto simp: g_ddl_simps)
  ultimately show ?thesis using k by auto
next
  assume f: "followed (\<lambda>t. t = SEMI) r"
  fix vs k assume k: "us = k # vs" "k \<in> {KW_INSERT, KW_DELETE, KW_UPDATE, KW_SELECT}" "g_dml us t"
  have "p_insert (vs @ r) = Inr (t, r)" if "k = KW_INSERT" using k that by (auto simp: p_insert_Inr)
  then show ?thesis using k deletep.complete updatep.complete selectp.complete f by auto
qed

interpretation stmt: recogniser p_stmt g_stmt "\<lambda>t. t = SEMI"
  by unfold_locales (auto dest: p_stmt_sound intro: p_stmt_complete elim: g_stmt_first)

lemma p_start_stmt: "g_stmt us t \<Longrightarrow> p_start (us @ SEMI # r) = bindP p_stmt (\<lambda>t. bindP (p_tok SEMI) (\<lambda>_. ret (Some t))) (us @ SEMI # r)"
  by (erule g_stmt_first) auto

lemma p_start_complete: "g_start us t \<Longrightarrow> p_start (us @ r) = Inr (t, r)"
  by (erule g_start.cases) (auto simp: p_start_stmt stmt.complete)

text \<open>
  C11. The parser implements the grammar, and the grammar is unambiguous: \<open>p_start\<close> delivers the tree \<open>t\<close> and leaves the tokens \<open>r\<close>
  exactly when the tokens before \<open>r\<close> derive \<open>t\<close> from \<open>start\<close>.
\<close>

theorem p_start_correct: "p_start ts = Inr (t, r) \<longleftrightarrow> (\<exists>us. ts = us @ r \<and> g_start us t)"
proof
  assume p: "p_start ts = Inr (t, r)"
  show "\<exists>us. ts = us @ r \<and> g_start us t"
  proof (cases "\<exists>k s. ts = k # s \<and> k \<in> {KW_HELP, KW_EXIT, T_EOF}")
    case True
    then show ?thesis using p by (auto intro: g_start.intros)
  next
    case False
    then have "p_start ts = bindP p_stmt (\<lambda>t. bindP (p_tok SEMI) (\<lambda>_. ret (Some t))) ts"
      by (cases "(ts)" rule: p_start.cases) auto
    then have "bindP p_stmt (\<lambda>t. bindP (p_tok SEMI) (\<lambda>_. ret (Some t))) ts = Inr (t, r)" using p by simp
    then obtain t' where "p_stmt ts = Inr (t', SEMI # r)" "t = Some t'" by auto
    then show ?thesis using stmt.sound g_start.intros(1) by fastforce
  qed
next
  assume "\<exists>us. ts = us @ r \<and> g_start us t"
  then show "p_start ts = Inr (t, r)" using p_start_complete by blast
qed

end
