(* ===== verification/Lexer_Properties.thy ===== *)
theory Lexer_Properties
  imports Lexer
begin

text \<open>
  What the scanner delivers for the spellings of a token: \<open>spells\<close> lists the texts that stand for a token, \<open>apart\<close> says which
  character may follow directly, and \<open>spelled\<close> puts a token sequence together with white space and comments in between.
\<close>

section \<open>Spellings\<close>

definition ident :: "string \<Rightarrow> bool" where
  "ident w \<longleftrightarrow> w \<noteq> [] \<and> is_alpha (hd w) \<and> list_all is_word (tl w)"

definition kw_words :: "string list" where
  "kw_words = map (\<lambda>(k, t). map lower k) kw_table"

definition int_text :: "string \<Rightarrow> bool" where
  "int_text w \<longleftrightarrow> (let d = drop (sign_len w) w in d \<noteq> [] \<and> list_all is_digit d)"

definition float_text :: "string \<Rightarrow> bool" where
  "float_text w \<longleftrightarrow>
     (let d = drop (sign_len w) w; f = dropWhile is_digit d
      in d \<noteq> [] \<and> is_digit (hd d) \<and> f \<noteq> [] \<and> hd f = CHR ''.'' \<and> list_all is_digit (tl f))"

fun spells :: "token \<Rightarrow> string \<Rightarrow> bool" where
  "spells (IDENTIFIER x) w \<longleftrightarrow> w = x \<and> ident x \<and> map lower x \<notin> set kw_words"
| "spells (VALUE_INT i) w \<longleftrightarrow> int_text w \<and> atoi w = i"
| "spells (VALUE_FLOAT f) w \<longleftrightarrow> float_text w \<and> atof w = f"
| "spells (VALUE_STRING s) w \<longleftrightarrow> w = CHR 0x27 # s @ [CHR 0x27] \<and> CHR 0x27 \<notin> set s"
| "spells (SingleOp c) w \<longleftrightarrow> w = [c] \<and> c \<in> set single_ops"
| "spells GEQ w \<longleftrightarrow> w = ''>=''"
| "spells LEQ w \<longleftrightarrow> w = ''<=''"
| "spells NEQ w \<longleftrightarrow> w = ''<>''"
| "spells t w \<longleftrightarrow> list_ex (\<lambda>(k, u). u = t \<and> map lower k = map lower w) kw_table"

fun apart_char :: "token \<Rightarrow> char \<Rightarrow> bool" where
  "apart_char (VALUE_INT i) c \<longleftrightarrow> \<not> is_digit c \<and> c \<noteq> CHR ''.''"
| "apart_char (VALUE_FLOAT f) c \<longleftrightarrow> \<not> is_digit c"
| "apart_char (VALUE_STRING s) c \<longleftrightarrow> True"
| "apart_char (SingleOp d) c \<longleftrightarrow> \<not> (d = CHR ''<'' \<and> (c = CHR ''='' \<or> c = CHR ''>'')) \<and> \<not> (d = CHR ''>'' \<and> c = CHR ''='')"
| "apart_char GEQ c \<longleftrightarrow> True"
| "apart_char LEQ c \<longleftrightarrow> True"
| "apart_char NEQ c \<longleftrightarrow> True"
| "apart_char t c \<longleftrightarrow> \<not> is_word c"

definition apart :: "token \<Rightarrow> string \<Rightarrow> bool" where
  "apart t s \<longleftrightarrow> (s = [] \<or> apart_char t (hd s))"

definition white :: "char \<Rightarrow> bool" where
  "white c \<longleftrightarrow> c \<in> {CHR '' '', CHR 0x09, CHR 0x0A, CHR 0x0D}"

fun comment_free :: "string \<Rightarrow> bool" where
  "comment_free (c # d # s) \<longleftrightarrow> \<not> (c = CHR ''*'' \<and> d = CHR ''/'') \<and> comment_free (d # s)"
| "comment_free s \<longleftrightarrow> True"

inductive spelled :: "string \<Rightarrow> token list \<Rightarrow> string \<Rightarrow> bool" for rest where
  nothing: "spelled rest [] rest"
| tok: "spells t w \<Longrightarrow> spelled rest ts s \<Longrightarrow> apart t s \<Longrightarrow> spelled rest (t # ts) (w @ s)"
| gap: "white c \<Longrightarrow> spelled rest ts s \<Longrightarrow> spelled rest ts (c # s)"
| comment: "comment_free b \<Longrightarrow> spelled rest ts s \<Longrightarrow> spelled rest ts (''/*'' @ b @ ''*/'' @ s)"

lemma spells_keyword: "(k, t) \<in> set kw_table \<Longrightarrow> map lower k = map lower w \<Longrightarrow> spells t w"
proof -
  assume k: "(k, t) \<in> set kw_table" and w: "map lower k = map lower w"
  have e: "list_ex (\<lambda>(k, u). u = t \<and> map lower k = map lower w) kw_table" using k w by (auto simp: list_ex_iff)
  have "\<not> (\<exists>x. t = IDENTIFIER x) \<and> \<not> (\<exists>x. t = VALUE_INT x) \<and> \<not> (\<exists>x. t = VALUE_FLOAT x) \<and> \<not> (\<exists>x. t = VALUE_STRING x) \<and>
      \<not> (\<exists>x. t = SingleOp x) \<and> t \<noteq> GEQ \<and> t \<noteq> LEQ \<and> t \<noteq> NEQ" using k by (auto simp: kw_table_def)
  then show ?thesis using e by (cases t) simp_all
qed

lemma short_identifier: "is_alpha c \<Longrightarrow> spells (IDENTIFIER [c]) [c]"
  by (simp add: ident_def kw_words_def kw_table_def)

section \<open>The longest match\<close>

lemma longest_at:
  "m s = n \<Longrightarrow> 0 < n \<Longrightarrow> (\<forall>(m', b) \<in> set rs1. m' s < n) \<Longrightarrow> (\<forall>(m', b) \<in> set rs2. m' s \<le> n) \<Longrightarrow>
   longest (rs1 @ (m, a) # rs2) s = (n, a)"
proof (induction rs1)
  case Nil
  have "fst (longest rs2 s) \<le> n" using Nil.prems(4) by (induction rs2) (auto simp: Let_def split: prod.splits)
  then show ?case using Nil by (auto simp: Let_def split: prod.splits)
next
  case (Cons r rs1)
  then show ?case by (cases r) auto
qed

lemma longest_after:
  assumes "\<forall>(m', b) \<in> set rs0. m' s = 0" "\<forall>(m', b) \<in> set rs1. m' s < n" "m s = n" "0 < n" "\<forall>(m', b) \<in> set rs2. m' s \<le> n"
  shows "longest (rs0 @ rs1 @ (m, a) # rs2) s = (n, a)"
proof -
  have "\<forall>(m', b) \<in> set (rs0 @ rs1). m' s < n" using assms(1,2,4) by fastforce
  then show ?thesis using longest_at [of m s n "rs0 @ rs1" rs2 a] assms(3-5) by simp
qed

lemma m_lit_0: "k \<noteq> [] \<Longrightarrow> lower x \<noteq> lower (hd k) \<Longrightarrow> m_lit k (x # ys) = 0"
  by (cases k) (auto simp: m_lit_def)

lemma m_lit_two: "m_lit [a, b] (x # ys) = (if lower x = lower a \<and> ys \<noteq> [] \<and> lower (hd ys) = lower b then 2 else 0)"
  by (cases ys) (auto simp: m_lit_def)

lemma is_alpha_lower [simp]: "is_alpha (lower c) \<longleftrightarrow> is_alpha c"
  by (auto simp: is_alpha_def lower_def)

lemma lower_other [simp]: "\<not> is_alpha c \<Longrightarrow> lower c = c"
  by (auto simp: is_alpha_def lower_def)

lemma lower_symbol: "\<not> is_alpha c \<Longrightarrow> lower x = c \<longleftrightarrow> x = c"
  using is_alpha_lower [of x] lower_other [of x] by auto

lemma symbols [simp]:
  "\<not> is_alpha (CHR ''/'')" "\<not> is_alpha (CHR ''*'')" "\<not> is_alpha (CHR ''-'')" "\<not> is_alpha (CHR ''>'')" "\<not> is_alpha (CHR ''<'')"
  "\<not> is_alpha (CHR ''='')"
  by (simp_all add: is_alpha_def)

lemma not_alpha_digit [simp]: "is_digit c \<Longrightarrow> \<not> is_alpha c"
  by (auto simp: is_alpha_def is_digit_def)

lemma m_lit_alpha_0: "is_alpha (hd k) \<Longrightarrow> k \<noteq> [] \<Longrightarrow> \<not> is_alpha x \<Longrightarrow> m_lit k (x # ys) = 0"
  by (rule m_lit_0) (metis is_alpha_lower)+

lemma m_lit_word:
  assumes k: "list_all is_alpha k" and s: "s = [] \<or> \<not> is_word (hd s)"
  shows "m_lit k (w @ s) = m_lit k w"
proof (cases "length k \<le> length w")
  case True
  then show ?thesis by (simp add: m_lit_def)
next
  case False
  then have 0: "m_lit k w = 0" by (auto simp: m_lit_def dest: map_eq_imp_length_eq)
  have "map lower (take (length k) (w @ s)) \<noteq> map lower k"
  proof
    assume e: "map lower (take (length k) (w @ s)) = map lower k"
    then have "length (take (length k) (w @ s)) = length k" by (rule map_eq_imp_length_eq)
    then have ne: "s \<noteq> []" using False by auto
    have "map lower (take (length k) (w @ s)) ! length w = lower (hd s)" using False ne by (simp add: nth_append hd_conv_nth)
    then have "lower (hd s) = lower (k ! length w)" using e False by simp
    then have "is_alpha (hd s)" using k False by (metis is_alpha_lower list_all_length not_le)
    then show False using s ne by (simp add: is_word_def)
  qed
  then show ?thesis using 0 by (simp add: m_lit_def)
qed

lemma kw_alpha: "(k, t) \<in> set kw_table \<Longrightarrow> list_all is_alpha k \<and> k \<noteq> []"
  by (auto simp: kw_table_def is_alpha_def)

text \<open>A pattern matches nothing when the first character is not one of its first characters.\<close>

lemma first_chars:
  "\<not> white x \<Longrightarrow> m_white_space (x # ys) = 0" "\<not> white x \<Longrightarrow> m_new_line (x # ys) = 0"
  "x \<noteq> CHR ''-'' \<Longrightarrow> m_line_comment (x # ys) = 0" "x \<noteq> CHR 0x27 \<Longrightarrow> m_value_string (x # ys) = 0"
  "x \<notin> set single_ops \<Longrightarrow> m_single_op (x # ys) = 0" "\<not> is_alpha x \<Longrightarrow> m_identifier (x # ys) = 0"
  by (simp_all add: m_white_space_def m_new_line_def white_def m_line_comment_def m_lit_two lower_symbol m_value_string_def
      m_single_op_def m_identifier_def)

lemma first_chars_number:
  assumes "\<not> is_digit x" "x \<noteq> CHR ''+''" "x \<noteq> CHR ''-''"
  shows "m_value_int (x # ys) = 0" "m_value_float (x # ys) = 0"
  using assms by (auto simp: m_value_int_def m_value_float_def sign_len_def Let_def)

lemma first_chars_op:
  assumes "x \<notin> set single_ops" "x \<noteq> CHR ''/''" "\<not> is_alpha x"
  shows "m_lit ''/*'' (x # ys) = 0" "m_lit ''>='' (x # ys) = 0" "m_lit ''<='' (x # ys) = 0" "m_lit ''<>'' (x # ys) = 0"
  using assms by (auto simp: m_lit_two single_ops_def lower_symbol)

lemma m_any_Cons: "m_any (x # ys) = (if x = CHR 0x0A then 0 else 1)"
  by (simp add: m_any_def)

lemma alpha_char:
  assumes "is_alpha x"
  shows "\<not> white x" "x \<noteq> CHR ''-''" "x \<noteq> CHR ''+''" "x \<noteq> CHR 0x27" "x \<notin> set single_ops" "\<not> is_digit x" "x \<noteq> CHR 0x0A"
    "x \<noteq> CHR ''/''" "x \<noteq> CHR ''>''" "x \<noteq> CHR ''<''"
  using assms by (auto simp: white_def single_ops_def is_alpha_def is_digit_def)

lemma alpha_ops:
  assumes "is_alpha x"
  shows "m_lit ''/*'' (x # ys) = 0" "m_lit ''>='' (x # ys) = 0" "m_lit ''<='' (x # ys) = 0" "m_lit ''<>'' (x # ys) = 0"
  using alpha_char(8-10) [OF assms] by (auto simp: m_lit_two lower_symbol)

lemmas alpha_rules = first_chars first_chars_number alpha_char alpha_ops m_any_Cons

lemma m_lit_le: "m_lit k w \<le> length w"
  by (auto simp: m_lit_def dest: map_eq_imp_length_eq)

lemma m_lit_full: "w \<noteq> [] \<Longrightarrow> m_lit k w = length w \<longleftrightarrow> map lower k = map lower w"
proof
  assume "w \<noteq> []" and m: "m_lit k w = length w"
  then have "length k = length w" "map lower (take (length k) w) = map lower k" by (auto simp: m_lit_def split: if_splits)
  then show "map lower k = map lower w" by simp
next
  assume "map lower k = map lower w"
  then show "m_lit k w = length w" using map_eq_imp_length_eq [of lower k lower w] by (simp add: m_lit_def)
qed

lemma m_identifier_word: "ident w \<Longrightarrow> s = [] \<or> \<not> is_word (hd s) \<Longrightarrow> m_identifier (w @ s) = length w"
proof -
  assume w: "ident w" and s: "s = [] \<or> \<not> is_word (hd s)"
  obtain x ys where x: "w = x # ys" "is_alpha x" "list_all is_word ys" using w by (cases w) (auto simp: ident_def)
  have "takeWhile is_word s = []" using s by (cases s) auto
  then have "takeWhile is_word (ys @ s) = ys" using x(3) by (simp add: takeWhile_append2 list_all_iff)
  then show ?thesis using x by (simp add: m_identifier_def)
qed

lemma kw_distinct: "distinct kw_words"
  by (simp add: kw_words_def kw_table_def lower_def)

section \<open>Tokens\<close>

definition lead_rules :: "((string \<Rightarrow> nat) \<times> lexact) list" where
  "lead_rules = [(m_lit ''/*'', Begin STATE_COMMENT), (m_line_comment, Ignore), (m_white_space, Ignore), (m_new_line, Ignore)]"

definition kw_rules :: "(string \<times> token) list \<Rightarrow> ((string \<Rightarrow> nat) \<times> lexact) list" where
  "kw_rules ks = map (\<lambda>(w, t). (m_lit w, Return t)) ks"

definition op_rules :: "((string \<Rightarrow> nat) \<times> lexact) list" where
  "op_rules = [(m_lit ''>='', Return GEQ), (m_lit ''<='', Return LEQ), (m_lit ''<>'', Return NEQ),
      (m_single_op, Make (\<lambda>yytext. SingleOp (hd yytext)))]"

definition value_rules :: "((string \<Rightarrow> nat) \<times> lexact) list" where
  "value_rules = [(m_value_int, Make (\<lambda>yytext. VALUE_INT (atoi yytext))),
      (m_value_float, Make (\<lambda>yytext. VALUE_FLOAT (atof yytext))),
      (m_value_string, Make (\<lambda>yytext. VALUE_STRING (butlast (tl yytext)))),
      (m_any, Ignore)]"

lemma initial_split: "initial_rules = lead_rules @ kw_rules kw_table @ op_rules @ (m_identifier, Make IDENTIFIER) # value_rules"
  by (simp add: initial_rules_def lead_rules_def kw_rules_def op_rules_def value_rules_def)

lemmas rule_groups = lead_rules_def kw_rules_def op_rules_def value_rules_def

lemma kw_words_mem: "(k, t) \<in> set kw_table \<Longrightarrow> map lower k \<in> set kw_words"
  by (force simp: kw_words_def)

lemma word_rest:
  assumes "ident w" "s = [] \<or> \<not> is_word (hd s)"
  shows "\<forall>(m, a) \<in> set lead_rules. m (w @ s) = 0" "\<forall>(m, a) \<in> set op_rules. m (w @ s) = 0" "\<forall>(m, a) \<in> set value_rules. m (w @ s) \<le> length w"
    "\<And>ks. set ks \<subseteq> set kw_table \<Longrightarrow> \<forall>(m, a) \<in> set (kw_rules ks). m (w @ s) \<le> length w"
    "\<And>ks. set ks \<subseteq> set kw_table \<Longrightarrow> map lower w \<notin> (\<lambda>(k, t). map lower k) ` set ks \<Longrightarrow> \<forall>(m, a) \<in> set (kw_rules ks). m (w @ s) < length w"
proof -
  obtain x ys where w: "w = x # ys" "is_alpha x" using assms(1) by (cases w) (auto simp: ident_def)
  show "\<forall>(m, a) \<in> set lead_rules. m (w @ s) = 0" "\<forall>(m, a) \<in> set op_rules. m (w @ s) = 0" "\<forall>(m, a) \<in> set value_rules. m (w @ s) \<le> length w"
    using w by (auto simp: rule_groups alpha_rules)
  have k: "m_lit k (w @ s) = m_lit k w" if "(k, t) \<in> set kw_table" for k t
    using m_lit_word kw_alpha [OF that] assms(2) by blast
  show "\<And>ks. set ks \<subseteq> set kw_table \<Longrightarrow> \<forall>(m, a) \<in> set (kw_rules ks). m (w @ s) \<le> length w"
    using k m_lit_le [of _ w] by (fastforce simp: kw_rules_def subset_iff)
  fix ks assume ks: "set ks \<subseteq> set kw_table" "map lower w \<notin> (\<lambda>(k, t). map lower k) ` set ks"
  have "m_lit k w < length w" if "(k, t) \<in> set ks" for k t
    using m_lit_le [of k w] m_lit_full [of w k] that ks(2) w(1) by (force simp: image_iff le_less)
  then show "\<forall>(m, a) \<in> set (kw_rules ks). m (w @ s) < length w"
    using k ks(1) by (fastforce simp: kw_rules_def subset_iff)
qed

lemma ident_length: "ident w \<Longrightarrow> 0 < length w"
  by (auto simp: ident_def)

lemma longest_identifier:
  assumes "ident w" "map lower w \<notin> set kw_words" "s = [] \<or> \<not> is_word (hd s)"
  shows "longest initial_rules (w @ s) = (length w, Make IDENTIFIER)"
proof -
  note r = word_rest [OF assms(1,3)]
  have k: "\<forall>(m, a) \<in> set (kw_rules kw_table). m (w @ s) < length w" using r(5) [of kw_table] assms(2) by (simp add: kw_words_def)
  have "longest ((lead_rules @ kw_rules kw_table @ op_rules) @ (m_identifier, Make IDENTIFIER) # value_rules) (w @ s) = (length w, Make IDENTIFIER)"
    using m_identifier_word [OF assms(1,3)] r(1,2,3) k ident_length [OF assms(1)] by (intro longest_at) (auto; fastforce)+
  then show ?thesis by (simp add: initial_split)
qed

lemma longest_keyword:
  assumes k: "(k, t) \<in> set kw_table" "map lower k = map lower w" and s: "s = [] \<or> \<not> is_word (hd s)"
  shows "longest initial_rules (w @ s) = (length w, Return t)"
proof -
  have "list_all is_alpha (map lower w)" "map lower w \<noteq> []"
    using kw_alpha [OF k(1)] k(2) [symmetric] by (simp_all add: list_all_iff)
  then have w: "ident w" by (cases w) (auto simp: ident_def is_word_def list_all_iff)
  note r = word_rest [OF w s]
  obtain ks1 ks2 where ks: "kw_table = ks1 @ (k, t) # ks2" using split_list [OF k(1)] by blast
  have sub: "set ks1 \<subseteq> set kw_table" "set ks2 \<subseteq> set kw_table" unfolding ks by auto
  have "map lower w \<notin> (\<lambda>(k, t). map lower k) ` set ks1" using kw_distinct k(2) by (auto simp: kw_words_def ks)
  note k1 = r(5) [OF sub(1) this] and k2 = r(4) [OF sub(2)]
  have m: "m_lit k (w @ s) = length w"
    using m_lit_word [of k s w] kw_alpha [OF k(1)] s m_lit_full [of w k] ident_length [OF w] k(2) by auto
  have "longest ((lead_rules @ kw_rules ks1) @ (m_lit k, Return t) # (kw_rules ks2 @ op_rules @ (m_identifier, Make IDENTIFIER) # value_rules)) (w @ s)
      = (length w, Return t)"
    using m k1 k2 r(1,2,3) m_identifier_word [OF w s] ident_length [OF w] by (intro longest_at) (auto; fastforce)+
  then show ?thesis by (simp add: initial_split ks kw_rules_def)
qed

lemma symbol_rest:
  assumes "\<not> is_alpha x"
  shows "\<forall>(m, a) \<in> set (kw_rules kw_table). m (x # ys) = 0"
proof -
  have "m_lit k (x # ys) = 0" if "(k, t) \<in> set kw_table" for k t
    using kw_alpha [OF that] m_lit_alpha_0 [OF _ _ assms] by (cases k) auto
  then show ?thesis by (auto simp: kw_rules_def)
qed

lemma longest_op2:
  assumes "(k, t) \<in> {(''>='', GEQ), (''<='', LEQ), (''<>'', NEQ)}"
  shows "longest initial_rules (k @ s) = (2, Return t)"
proof -
  have v: "\<forall>(m, a) \<in> set (lead_rules @ kw_rules kw_table). m (k @ s) < 2"
    using assms symbol_rest [of "CHR ''>''" "CHR ''='' # s"] symbol_rest [of "CHR ''<''" "CHR ''='' # s"] symbol_rest [of "CHR ''<''" "CHR ''>'' # s"]
    by (auto simp: lead_rules_def first_chars white_def m_lit_two lower_symbol)
  have r: "\<forall>(m, a) \<in> set ((m_identifier, Make IDENTIFIER) # value_rules). m (k @ s) \<le> 2"
    using assms by (auto simp: value_rules_def first_chars first_chars_number is_digit_def m_any_Cons)
  have e: "longest ((lead_rules @ kw_rules kw_table @ rs1) @ (m_lit k, Return t) # rs2 @ (m_identifier, Make IDENTIFIER) # value_rules) (k @ s) = (2, Return t)"
    if "\<forall>(m, a) \<in> set rs1. m (k @ s) < 2" "\<forall>(m, a) \<in> set rs2. m (k @ s) \<le> 2" for rs1 rs2
    using v r that assms by (intro longest_at) (auto simp: m_lit_def; fastforce)+
  have sm: "m_single_op (k @ s) \<le> 2" using assms by (auto simp: m_single_op_def)
  consider "k = ''>=''" "t = GEQ" | "k = ''<=''" "t = LEQ" | "k = ''<>''" "t = NEQ" using assms by auto
  then show ?thesis
  proof cases
    case 1
    then show ?thesis using e [of "[]" "tl op_rules"] sm by (simp add: initial_split op_rules_def m_lit_two lower_symbol)
  next
    case 2
    then show ?thesis using e [of "[hd op_rules]" "tl (tl op_rules)"] sm by (simp add: initial_split op_rules_def m_lit_two lower_symbol)
  next
    case 3
    then show ?thesis using e [of "[hd op_rules, hd (tl op_rules)]" "tl (tl (tl op_rules))"] sm
      by (simp add: initial_split op_rules_def m_lit_two lower_symbol)
  qed
qed

lemma single_op_char:
  assumes "c \<in> set single_ops"
  shows "\<not> is_alpha c" "\<not> white c" "c \<noteq> CHR ''-''" "c \<noteq> CHR ''+''" "c \<noteq> CHR ''/''" "c \<noteq> CHR 0x27" "\<not> is_digit c"
  using assms by (auto simp: single_ops_def is_alpha_def white_def is_digit_def)

lemma longest_op1:
  assumes c: "c \<in> set single_ops" and s: "apart (SingleOp c) s"
  shows "longest initial_rules (c # s) = (1, Make (\<lambda>yytext. SingleOp (hd yytext)))"
proof -
  note f = single_op_char [OF c]
  have "\<forall>(m, a) \<in> set (lead_rules @ kw_rules kw_table @ [(m_lit ''>='', Return GEQ), (m_lit ''<='', Return LEQ), (m_lit ''<>'', Return NEQ)]). m (c # s) < 1"
    using f s symbol_rest [OF f(1), of s] by (auto simp: lead_rules_def first_chars m_lit_two lower_symbol apart_def)
  moreover have "\<forall>(m, a) \<in> set ((m_identifier, Make IDENTIFIER) # value_rules). m (c # s) \<le> 1"
    using f by (simp add: value_rules_def first_chars first_chars_number m_any_Cons)
  ultimately have "longest ((lead_rules @ kw_rules kw_table @ [(m_lit ''>='', Return GEQ), (m_lit ''<='', Return LEQ), (m_lit ''<>'', Return NEQ)]) @
      (m_single_op, Make (\<lambda>yytext. SingleOp (hd yytext))) # (m_identifier, Make IDENTIFIER) # value_rules) (c # s) = (1, Make (\<lambda>yytext. SingleOp (hd yytext)))"
    using c by (intro longest_at) (simp_all add: m_single_op_def)
  then show ?thesis by (simp add: initial_split op_rules_def)
qed

lemma takeWhile_upto: "list_all P ds \<Longrightarrow> r = [] \<or> \<not> P (hd r) \<Longrightarrow> takeWhile P (ds @ r) = ds"
  by (cases r) (auto simp: takeWhile_append2 list_all_iff)

text \<open>A number begins with \<open>g\<close>, nothing or a sign, and the digits \<open>ds\<close>.\<close>

definition sign_text :: "string \<Rightarrow> bool" where
  "sign_text g \<longleftrightarrow> g \<in> {[], ''+'', ''-''}"

lemma sign_split: "d = drop (sign_len w) w \<Longrightarrow> \<exists>g. w = g @ d \<and> sign_text g"
  by (cases w) (auto simp: sign_len_def sign_text_def)

lemma m_value_int_digits:
  assumes "sign_text g" "ds \<noteq> []" "list_all is_digit ds" "r = [] \<or> \<not> is_digit (hd r)"
  shows "m_value_int (g @ ds @ r) = length g + length ds"
proof -
  have "is_digit (hd ds)" using assms(2,3) by (cases ds) auto
  then have "sign_len (g @ ds @ r) = length g" using assms(1,2) by (cases ds) (auto simp: sign_text_def sign_len_def is_digit_def)
  then show ?thesis using takeWhile_upto [OF assms(3,4)] assms(2) by (simp add: m_value_int_def)
qed

lemma number_lead:
  assumes g: "sign_text g" and ds: "ds \<noteq> []" "is_digit (hd ds)"
  shows "\<forall>(m, a) \<in> set (lead_rules @ kw_rules kw_table @ op_rules @ [(m_identifier, Make IDENTIFIER)]). m (g @ ds @ r) = 0"
    and "m_value_string (g @ ds @ r) = 0" "m_any (g @ ds @ r) = 1"
proof -
  obtain d ds' where d: "ds = d # ds'" "is_digit d" using ds by (cases ds) auto
  obtain x ys where x: "g @ ds @ r = x # ys" "is_digit x \<or> x = CHR ''+'' \<or> x = CHR ''-'' \<and> ys \<noteq> [] \<and> is_digit (hd ys)"
    using g d by (cases "g @ ds @ r") (auto simp: sign_text_def)
  have c: "\<not> is_alpha x" "\<not> white x" "x \<notin> set single_ops" "x \<noteq> CHR ''/''" "x \<noteq> CHR 0x27" "x \<noteq> CHR 0x0A"
    using x(2) by (auto simp: is_alpha_def is_digit_def white_def single_ops_def)
  have "m_line_comment (x # ys) = 0" using x(2)
    by (auto simp: m_line_comment_def m_lit_two lower_symbol is_digit_def)
  then show "\<forall>(m, a) \<in> set (lead_rules @ kw_rules kw_table @ op_rules @ [(m_identifier, Make IDENTIFIER)]). m (g @ ds @ r) = 0"
    using symbol_rest [OF c(1), of ys] c by (simp add: x(1) lead_rules_def op_rules_def first_chars first_chars_op)
  show "m_value_string (g @ ds @ r) = 0" "m_any (g @ ds @ r) = 1" using c by (simp_all add: x(1) first_chars m_any_Cons)
qed

lemma longest_int:
  assumes w: "int_text w" and s: "apart (VALUE_INT i) s"
  shows "longest initial_rules (w @ s) = (length w, Make (\<lambda>yytext. VALUE_INT (atoi yytext)))"
proof -
  define d where "d = drop (sign_len w) w"
  obtain g where g: "w = g @ d" "sign_text g" using sign_split [OF d_def] by blast
  have d: "d \<noteq> []" "list_all is_digit d" "is_digit (hd d)" using w by (auto simp: int_text_def d_def [symmetric] neq_Nil_conv)
  have r: "s = [] \<or> \<not> is_digit (hd s)" using s by (auto simp: apart_def)
  note l = number_lead [OF g(2) d(1,3), of s] and i = m_value_int_digits [OF g(2) d(1,2) r]
  have f: "m_value_float (g @ d @ s) = 0" using i s by (auto simp: m_value_float_def Let_def apart_def)
  have "longest ((lead_rules @ kw_rules kw_table @ op_rules @ [(m_identifier, Make IDENTIFIER)]) @ [] @
      (m_value_int, Make (\<lambda>yytext. VALUE_INT (atoi yytext))) # tl value_rules) (g @ d @ s) = (length w, Make (\<lambda>yytext. VALUE_INT (atoi yytext)))"
    by (rule longest_after [OF l(1)]) (use l(2,3) i f d(1) g(1) in \<open>simp_all add: value_rules_def Suc_le_eq\<close>)
  then show ?thesis using g(1) by (simp add: initial_split value_rules_def)
qed

lemma longest_float:
  assumes w: "float_text w" and s: "apart (VALUE_FLOAT v) s"
  shows "longest initial_rules (w @ s) = (length w, Make (\<lambda>yytext. VALUE_FLOAT (atof yytext)))"
proof -
  define d where "d = drop (sign_len w) w"
  obtain g where g: "w = g @ d" "sign_text g" using sign_split [OF d_def] by blast
  define ds where "ds = takeWhile is_digit d"
  define f where "f = dropWhile is_digit d"
  have "f \<noteq> []" "hd f = CHR ''.''" "list_all is_digit (tl f)" "d \<noteq> []" "is_digit (hd d)"
    using w by (auto simp: float_text_def d_def f_def Let_def)
  moreover have "d = ds @ f" by (simp add: ds_def f_def)
  ultimately obtain fs where d: "d = ds @ CHR ''.'' # fs" "list_all is_digit fs" "d \<noteq> []" "is_digit (hd d)"
    by (cases f) auto
  have ds: "ds \<noteq> []" "list_all is_digit ds" "is_digit (hd ds)"
    using d(3,4) by (cases d; auto simp: ds_def list_all_iff dest: set_takeWhileD)+
  have w': "w @ s = g @ ds @ CHR ''.'' # fs @ s" "length w = length g + length ds + 1 + length fs" using g(1) d(1) by simp_all
  have r: "s = [] \<or> \<not> is_digit (hd s)" using s by (auto simp: apart_def)
  note l = number_lead [OF g(2) ds(1,3), of "CHR ''.'' # fs @ s"]
  have i: "m_value_int (g @ ds @ CHR ''.'' # fs @ s) = length g + length ds"
    using m_value_int_digits [OF g(2) ds(1,2), of "CHR ''.'' # fs @ s"] by (simp add: is_digit_def)
  have f: "m_value_float (g @ ds @ CHR ''.'' # fs @ s) = length w"
    using i ds(1) takeWhile_upto [OF d(2) r] w'(2) by (simp add: m_value_float_def)
  have "longest ((lead_rules @ kw_rules kw_table @ op_rules @ [(m_identifier, Make IDENTIFIER)]) @ [hd value_rules] @
      (m_value_float, Make (\<lambda>yytext. VALUE_FLOAT (atof yytext))) # tl (tl value_rules)) (w @ s) = (length w, Make (\<lambda>yytext. VALUE_FLOAT (atof yytext)))"
    unfolding w'(1) by (rule longest_after [OF l(1)]) (use l(2,3) i f w'(2) in \<open>simp_all add: value_rules_def\<close>)
  then show ?thesis by (simp add: initial_split value_rules_def)
qed

lemma longest_string:
  assumes "CHR 0x27 \<notin> set x"
  shows "longest initial_rules (CHR 0x27 # x @ CHR 0x27 # s) = (length x + 2, Make (\<lambda>yytext. VALUE_STRING (butlast (tl yytext))))"
proof -
  let ?q = "CHR 0x27" let ?w = "?q # x @ ?q # s"
  have c: "\<not> is_alpha ?q" "\<not> white ?q" "?q \<notin> set single_ops" "\<not> is_digit ?q"
    by (auto simp: is_alpha_def white_def single_ops_def is_digit_def)
  have l: "\<forall>(m, a) \<in> set (lead_rules @ kw_rules kw_table @ op_rules @ [(m_identifier, Make IDENTIFIER), hd value_rules, hd (tl value_rules)]). m ?w = 0"
    using symbol_rest [OF c(1)] c by (simp add: lead_rules_def op_rules_def value_rules_def first_chars first_chars_op first_chars_number)
  have "takeWhile (\<lambda>c. c \<noteq> ?q) (x @ ?q # s) = x" by (rule takeWhile_upto) (use assms in \<open>auto simp: list_all_iff\<close>)
  then have m: "m_value_string ?w = length x + 2" by (simp add: m_value_string_def)
  have "longest ((lead_rules @ kw_rules kw_table @ op_rules @ [(m_identifier, Make IDENTIFIER), hd value_rules, hd (tl value_rules)]) @
      [] @ (m_value_string, Make (\<lambda>yytext. VALUE_STRING (butlast (tl yytext)))) # tl (tl (tl value_rules))) ?w
      = (length x + 2, Make (\<lambda>yytext. VALUE_STRING (butlast (tl yytext))))"
    by (rule longest_after [OF l]) (use m in \<open>simp_all add: value_rules_def m_any_Cons\<close>)
  then show ?thesis by (simp add: initial_split value_rules_def)
qed

section \<open>Scanning a text\<close>

lemma yylex_return: "longest (rules sc) s = (n, Return t) \<Longrightarrow> s \<noteq> [] \<Longrightarrow> yylex sc s = (t, sc, drop (max 1 n) s)"
  by (simp add: yylex.simps [of sc s])

lemma yylex_make: "longest (rules sc) s = (n, Make f) \<Longrightarrow> s \<noteq> [] \<Longrightarrow> yylex sc s = (f (take n s), sc, drop (max 1 n) s)"
  by (simp add: yylex.simps [of sc s])

lemma yylex_ignore: "longest (rules sc) s = (n, Ignore) \<Longrightarrow> s \<noteq> [] \<Longrightarrow> yylex sc s = yylex sc (drop (max 1 n) s)"
  by (simp add: yylex.simps [of sc s])

lemma yylex_begin: "longest (rules sc) s = (n, Begin sc') \<Longrightarrow> s \<noteq> [] \<Longrightarrow> yylex sc s = yylex sc' (drop (max 1 n) s)"
  by (simp add: yylex.simps [of sc s])

lemma yylex_keyword:
  assumes "list_ex (\<lambda>(k, u). u = t \<and> map lower k = map lower w) kw_table" "s = [] \<or> \<not> is_word (hd s)"
  shows "yylex INITIAL (w @ s) = (t, INITIAL, s)"
proof -
  obtain k where k: "(k, t) \<in> set kw_table" "map lower k = map lower w" using assms(1) by (auto simp: list_ex_iff)
  then have "w \<noteq> []" using kw_alpha by fastforce
  then show ?thesis using yylex_return [of INITIAL "w @ s"] longest_keyword [OF k assms(2)] by (simp add: max_def Suc_le_eq)
qed

lemma yylex_spelling: "spells t w \<Longrightarrow> apart t s \<Longrightarrow> yylex INITIAL (w @ s) = (t, INITIAL, s) \<and> t \<noteq> T_EOF"
proof (cases t)
  case (IDENTIFIER x)
  assume "spells t w" "apart t s"
  then have i: "w = x" "ident w" "map lower w \<notin> set kw_words" "s = [] \<or> \<not> is_word (hd s)" using IDENTIFIER by (auto simp: apart_def)
  then show ?thesis using yylex_make [of INITIAL "w @ s"] longest_identifier [OF i(2-4)] ident_length [OF i(2)] IDENTIFIER
    by (simp add: max_def Suc_le_eq)
next
  case (VALUE_INT i)
  assume "spells t w" "apart t s"
  then have i: "int_text w" "atoi w = i" "apart (VALUE_INT i) s" using VALUE_INT by auto
  then have "w \<noteq> []" by (auto simp: int_text_def)
  then show ?thesis using yylex_make [of INITIAL "w @ s"] longest_int [OF i(1,3)] i(2) VALUE_INT by (simp add: max_def Suc_le_eq)
next
  case (VALUE_FLOAT f)
  assume "spells t w" "apart t s"
  then have i: "float_text w" "atof w = f" "apart (VALUE_FLOAT f) s" using VALUE_FLOAT by auto
  then have "w \<noteq> []" by (auto simp: float_text_def)
  then show ?thesis using yylex_make [of INITIAL "w @ s"] longest_float [OF i(1,3)] i(2) VALUE_FLOAT by (simp add: max_def Suc_le_eq)
next
  case (VALUE_STRING x)
  assume "spells t w" "apart t s"
  then have "w = CHR 0x27 # x @ [CHR 0x27]" "CHR 0x27 \<notin> set x" using VALUE_STRING by auto
  then show ?thesis using yylex_make [of INITIAL "w @ s"] longest_string [of x s] VALUE_STRING by simp
next
  case (SingleOp c)
  assume "spells t w" "apart t s"
  then have "w = [c]" "c \<in> set single_ops" "apart (SingleOp c) s" using SingleOp by auto
  then show ?thesis using yylex_make [of INITIAL "w @ s"] longest_op1 [of c s] SingleOp by simp
next
  case GEQ
  assume "spells t w" "apart t s"
  then show ?thesis using yylex_return [of INITIAL "w @ s"] longest_op2 [of w t s] GEQ by simp
next
  case LEQ
  assume "spells t w" "apart t s"
  then show ?thesis using yylex_return [of INITIAL "w @ s"] longest_op2 [of w t s] LEQ by simp
next
  case NEQ
  assume "spells t w" "apart t s"
  then show ?thesis using yylex_return [of INITIAL "w @ s"] longest_op2 [of w t s] NEQ by simp
next
  case T_EOF
  assume "spells t w" "apart t s"
  then show ?thesis using T_EOF by (simp add: kw_table_def)
qed (auto simp: apart_def intro: yylex_keyword)

lemma white_char:
  assumes "white c"
  shows "\<not> is_alpha c" "c \<notin> set single_ops" "c \<noteq> CHR ''-''" "c \<noteq> CHR ''+''" "c \<noteq> CHR ''/''" "c \<noteq> CHR 0x27" "\<not> is_digit c"
  using assms by (auto simp: single_ops_def is_alpha_def white_def is_digit_def)

lemma zero_le: "\<forall>(m, a) \<in> set rs. m s = (0::nat) \<Longrightarrow> k s \<le> n \<Longrightarrow> \<forall>(m, a) \<in> set (rs @ [(k, b)]). m s \<le> n"
  by fastforce

lemma longest_white:
  assumes "white c"
  shows "longest initial_rules (c # s) = (max (m_white_space (c # s)) (m_new_line (c # s)), Ignore)"
proof -
  let ?n = "max (m_white_space (c # s)) (m_new_line (c # s))"
  have e: "m_white_space (c # s) = 0 \<or> m_new_line (c # s) = 0" "m_white_space (c # s) \<noteq> 0 \<or> m_new_line (c # s) \<noteq> 0"
    using assms by (auto simp: white_def m_white_space_def m_new_line_def)
  note f = white_char [OF assms]
  have z: "\<forall>(m, a) \<in> set (take 2 lead_rules). m (c # s) = 0" using f by (simp add: lead_rules_def first_chars first_chars_op)
  have "\<forall>(m, a) \<in> set (kw_rules kw_table @ op_rules @ (m_identifier, Make IDENTIFIER) # butlast value_rules). m (c # s) = 0"
    using symbol_rest [OF f(1)] f by (simp add: op_rules_def value_rules_def first_chars first_chars_op first_chars_number)
  then have v: "\<forall>(m, a) \<in> set ((kw_rules kw_table @ op_rules @ (m_identifier, Make IDENTIFIER) # butlast value_rules) @ [(m_any, Ignore)]). m (c # s) \<le> ?n"
    by (rule zero_le) (use e(2) in \<open>simp add: m_any_Cons Suc_le_eq less_max_iff_disj\<close>)
  have s: "initial_rules = take 2 lead_rules @ drop 2 lead_rules @ (kw_rules kw_table @ op_rules @ (m_identifier, Make IDENTIFIER) # butlast value_rules) @ [(m_any, Ignore)]"
    by (simp add: initial_split value_rules_def lead_rules_def)
  show ?thesis
  proof (cases "m_white_space (c # s) = 0")
    case True
    then have "longest (take 2 lead_rules @ [(m_white_space, Ignore)] @ (m_new_line, Ignore) #
        (kw_rules kw_table @ op_rules @ (m_identifier, Make IDENTIFIER) # butlast value_rules) @ [(m_any, Ignore)]) (c # s) = (?n, Ignore)"
      using e by (intro longest_after [OF z _ _ _ v]) auto
    then show ?thesis by (simp add: s lead_rules_def)
  next
    case False
    then have "longest (take 2 lead_rules @ [] @ (m_white_space, Ignore) # [(m_new_line, Ignore)] @
        (kw_rules kw_table @ op_rules @ (m_identifier, Make IDENTIFIER) # butlast value_rules) @ [(m_any, Ignore)]) (c # s) = (?n, Ignore)"
      using e v by (intro longest_after [OF z]) auto
    then show ?thesis by (simp add: s lead_rules_def)
  qed
qed

lemma yylex_run: "m_white_space s = n \<Longrightarrow> 0 < n \<Longrightarrow> yylex INITIAL s = yylex INITIAL (drop n s)"
proof (cases s)
  case (Cons c r)
  assume n: "m_white_space s = n" "0 < n"
  then have "white c" "m_new_line s = 0" by (auto simp: Cons m_white_space_def white_def m_new_line_def split: if_splits)
  then show ?thesis using longest_white [of c r] n Cons yylex_ignore [of INITIAL s n] by (simp add: max_def Suc_le_eq)
qed (simp add: m_white_space_def)

lemma yylex_white: "white c \<Longrightarrow> yylex INITIAL (c # s) = yylex INITIAL s"
proof -
  have nl: "yylex INITIAL (CHR 0x0A # s) = yylex INITIAL s" for s
    using yylex_ignore [of INITIAL "CHR 0x0A # s" 1] longest_white [of "CHR 0x0A" s] by (simp add: white_def m_white_space_def m_new_line_def)
  assume "white c"
  then consider "c = CHR '' '' \<or> c = CHR 0x09" | "c = CHR 0x0A" | "c = CHR 0x0D" by (auto simp: white_def)
  then show ?thesis
  proof cases
    case 1
    then have "yylex INITIAL (c # s) = yylex INITIAL (drop (m_white_space s) s)"
      using yylex_run [of "c # s" "Suc (m_white_space s)"] by (auto simp: m_white_space_def)
    also have "\<dots> = yylex INITIAL s" using yylex_run [of s] by (cases "m_white_space s = 0") auto
    finally show ?thesis .
  next
    case 2
    then show ?thesis by (simp add: nl)
  next
    case 3
    show ?thesis
    proof (cases "s \<noteq> [] \<and> hd s = CHR 0x0A")
      case True
      then obtain r where "s = CHR 0x0A # r" by (cases s) auto
      then show ?thesis using 3 nl [of r] yylex_ignore [of INITIAL "c # s" 2] longest_white [of c s] by (simp add: white_def m_white_space_def m_new_line_def)
    next
      case False
      then show ?thesis using 3 yylex_ignore [of INITIAL "c # s" 1] longest_white [of c s] by (auto simp: white_def m_white_space_def m_new_line_def)
    qed
  qed
qed

lemma m_lit_star: "m_lit ''*'' (c # s) = (if c = CHR ''*'' then 1 else 0)"
  by (simp add: m_lit_def lower_symbol)

lemma yylex_comment_char: "\<not> (c = CHR ''*'' \<and> s \<noteq> [] \<and> hd s = CHR ''/'') \<Longrightarrow> yylex STATE_COMMENT (c # s) = yylex STATE_COMMENT s"
  using yylex_ignore [of STATE_COMMENT "c # s" 1]
  by (cases "c = CHR ''*''") (auto simp: comment_rules_def m_lit_two m_lit_star lower_symbol m_not_star_def)

lemma yylex_comment_end: "yylex STATE_COMMENT (''*/'' @ s) = yylex INITIAL s"
  using yylex_begin [of STATE_COMMENT "''*/'' @ s" 2 INITIAL]
  by (simp add: comment_rules_def m_lit_two m_lit_star lower_symbol m_not_star_def)

lemma yylex_comment_body: "comment_free b \<Longrightarrow> yylex STATE_COMMENT (b @ ''*/'' @ s) = yylex INITIAL s"
proof (induction b rule: comment_free.induct [case_names two none one])
  case (two c d b)
  then show ?case using yylex_comment_char [of c "d # b @ ''*/'' @ s"] by auto
next
  case none
  then show ?case using yylex_comment_end by simp
next
  case (one c)
  then show ?case using yylex_comment_char [of c "''*/'' @ s"] yylex_comment_end by simp
qed

lemma yylex_comment_open: "comment_free b \<Longrightarrow> yylex STATE_COMMENT b = (T_EOF, STATE_COMMENT, [])"
proof (induction b rule: comment_free.induct [case_names two none one])
  case (two c d b)
  then show ?case using yylex_comment_char [of c "d # b"] by auto
next
  case none
  then show ?case by (simp add: yylex.simps)
next
  case (one c)
  then show ?case using yylex_comment_char [of c "[]"] by (simp add: yylex.simps)
qed

lemma yylex_comment_start: "yylex INITIAL (''/*'' @ s) = yylex STATE_COMMENT s"
proof -
  have "longest ([] @ [] @ (m_lit ''/*'', Begin STATE_COMMENT) # (tl lead_rules @ kw_rules kw_table @ op_rules @ (m_identifier, Make IDENTIFIER) # value_rules)) (''/*'' @ s)
      = (2, Begin STATE_COMMENT)"
    using symbol_rest [of "CHR ''/''" "CHR ''*'' # s"]
    by (intro longest_after) (auto simp: m_lit_two lower_symbol lead_rules_def op_rules_def value_rules_def m_any_Cons first_chars
        first_chars_number white_def single_ops_def is_digit_def)
  then have "longest initial_rules (''/*'' @ s) = (2, Begin STATE_COMMENT)" by (simp add: initial_split lead_rules_def)
  then show ?thesis using yylex_begin [of INITIAL "''/*'' @ s" 2 STATE_COMMENT] by simp
qed

text \<open>
  Every spelling of a token sequence, with white space and comments anywhere between the tokens, is scanned to exactly these tokens,
  and the scanner then stands at the rest of the text in its initial state.
\<close>

lemma tokens_spelled: "spelled rest ts s \<Longrightarrow> tokens INITIAL s = map (\<lambda>t. (t, INITIAL)) ts @ tokens INITIAL rest"
proof (induction rule: spelled.induct)
  case (tok t w ts s)
  then show ?case using yylex_spelling [OF tok.hyps(1,3)] by (simp add: tokens.simps [of INITIAL "w @ s"])
next
  case (gap c ts s)
  then show ?case by (simp add: tokens.simps [of INITIAL "c # s"] tokens.simps [of INITIAL s] yylex_white)
next
  case (comment b ts s)
  have "yylex INITIAL (''/*'' @ b @ ''*/'' @ s) = yylex INITIAL s"
    using yylex_comment_start yylex_comment_body [OF comment.hyps(1)] by simp
  then show ?case using comment.IH tokens.simps [of INITIAL "''/*'' @ b @ ''*/'' @ s"] tokens.simps [of INITIAL s] by simp
qed simp

end
