(* ===== verification/Parser_Properties.thy ===== *)
theory Parser_Properties
  imports Parser_Grammar Lexer_Properties
begin

text \<open>
  From the text of a request to its tree: every spelling of a sentence of the grammar is parsed to the tree it derives, and what the
  scanner leaves behind for the next request.
\<close>

section \<open>Sentences\<close>

lemma g_start_no_eof: "g_start us t \<Longrightarrow> us \<noteq> []"
  by (auto elim: g_start.cases)

lemma yyparse_prefix:
  assumes "map fst (tokens sc txt) = us @ r" and "g_start us t"
  shows "yyparse sc txt = (Some t, snd (tokens sc txt ! (length us - 1)))"
proof -
  have p: "p_start (map fst (tokens sc txt)) = Inr (t, r)" using assms p_start_complete by simp
  have "length (tokens sc txt) = length us + length r" using arg_cong [OF assms(1), of length] by simp
  then show ?thesis using p by (simp add: yyparse_def Let_def)
qed

lemma yyparse_spelling:
  assumes "g_start us t" and "spelled rest us txt"
  shows "yyparse INITIAL txt = (Some t, INITIAL)"
proof -
  have ts: "tokens INITIAL txt = map (\<lambda>t. (t, INITIAL)) us @ tokens INITIAL rest" using tokens_spelled [OF assms(2)] .
  have "yyparse INITIAL txt = (Some t, snd (tokens INITIAL txt ! (length us - 1)))"
    by (rule yyparse_prefix [OF _ assms(1)]) (simp add: ts o_def)
  then show ?thesis using g_start_no_eof [OF assms(1)] by (simp add: ts nth_append)
qed

text \<open>
  C12. Every text of a sentence is understood: when the tokens \<open>us\<close> derive the tree \<open>t\<close> and a request spells them, in any case of the
  keywords, with white space and comments between the tokens and anything behind the sentence, the parser delivers \<open>t\<close>, and the
  scanner is ready for the next request.
\<close>

theorem yyparse_spelled:
  assumes "g_start us t" and "spelled rest us txt"
  shows "yyparse INITIAL txt = (Some t, INITIAL)"
  using yyparse_spelling [OF assms] .

theorem yyparse_spelled_witness: "yyparse INITIAL ''Desc/* all */ a;--'' = (Some (Some (DescTable ''a'')), INITIAL)"
proof (rule yyparse_spelled)
  show "g_start ([KW_DESC, IDENTIFIER ''a''] @ [SEMI]) (Some (DescTable ''a''))"
    by (intro g_start.intros(1) g_stmt.intros(2) g_ddl.intros(3))
  note sp = spelled.intros(2) [where rest = "''--''"]
  have "spelled ''--'' [SEMI] ('';'' @ ''--'')"
    by (rule sp [OF _ spelled.nothing]) (simp_all add: single_ops_def apart_def)
  from this [simplified] have "spelled ''--'' [IDENTIFIER ''a'', SEMI] (''a'' @ '';--'')"
    by (intro sp short_identifier) (simp_all add: apart_def is_word_def is_alpha_def is_digit_def)
  then have "spelled ''--'' [IDENTIFIER ''a'', SEMI] ('' a;--'')" using spelled.intros(3) [where c = "CHR '' ''"] by (simp add: white_def)
  then have "spelled ''--'' [IDENTIFIER ''a'', SEMI] (''/*'' @ '' all '' @ ''*/'' @ '' a;--'')" by (intro spelled.intros(4)) simp_all
  from this [simplified] have "spelled ''--'' [KW_DESC, IDENTIFIER ''a'', SEMI] (''Desc'' @ ''/* all */ a;--'')"
    by (intro sp spells_keyword [of "''DESC''"]) (simp add: kw_table_def, code_simp, simp_all add: apart_def is_word_def is_alpha_def is_digit_def)
  then show "spelled ''--'' ([KW_DESC, IDENTIFIER ''a''] @ [SEMI]) ''Desc/* all */ a;--''" by simp
qed

section \<open>Integer literals\<close>

lemma nat_to_string_first: "\<exists>c cs. nat_to_string n = c # cs \<and> is_digit c"
  using nat_to_string_digits [of n] digits_val_nat_to_string [of n]
  by (cases "nat_to_string n") (auto simp: nat_to_string.simps [of n] split: if_splits)

lemma sign_to_string:
  "split_sign (to_string i) = (i < 0, nat_to_string (nat \<bar>i\<bar>))" "int_text (to_string i)"
proof -
  obtain c cs where c: "nat_to_string (nat \<bar>i\<bar>) = c # cs" "is_digit c" using nat_to_string_first by blast
  have d: "c \<noteq> CHR ''-''" "c \<noteq> CHR ''+''" using c(2) by (auto simp: is_digit_def)
  have t: "to_string i = (if i < 0 then CHR ''-'' # c # cs else c # cs)" using c(1) by (auto simp: to_string_def)
  show "split_sign (to_string i) = (i < 0, nat_to_string (nat \<bar>i\<bar>))" using c d t by (simp add: split_sign_def)
  show "int_text (to_string i)" using t d c(1) nat_to_string_digits [of "nat \<bar>i\<bar>"] by (simp add: int_text_def sign_len_def)
qed

text \<open>
  The value of an integer literal: written in decimal, it is read exactly when it fits 32 bits; a larger one is not rejected but
  wraps around.
\<close>

theorem int_literal_wraps:
  assumes "- (2 ^ 63) \<le> i" "i < 2 ^ 63" and "s = [] \<or> \<not> is_digit (hd s) \<and> hd s \<noteq> CHR ''.''"
  shows "yylex INITIAL (to_string i @ s) = (VALUE_INT ((i + 2 ^ 31) mod 2 ^ 32 - 2 ^ 31), INITIAL, s)"
proof -
  have "atoi (to_string i) = (i + 2 ^ 31) mod 2 ^ 32 - 2 ^ 31"
  proof (cases "i < 0")
    case False
    then have "min (2 ^ 63 - 1) i = i" using assms(2) by simp
    then show ?thesis using False sign_to_string(1) [of i] by (simp add: atoi_def)
  next
    case True
    then have "max (- (2 ^ 63)) i = i" using assms(1) by simp
    then show ?thesis using True sign_to_string(1) [of i] by (simp add: atoi_def)
  qed
  then have "spells (VALUE_INT ((i + 2 ^ 31) mod 2 ^ 32 - 2 ^ 31)) (to_string i)" using sign_to_string(2) by simp
  then show ?thesis using yylex_spelling assms(3) by (simp add: apart_def)
qed

theorem int_literal_wraps_witness: "yylex INITIAL (to_string 4294967297 @ '';'') = (VALUE_INT 1, INITIAL, '';'')"
  using int_literal_wraps [of 4294967297 "'';''"] by (simp add: is_digit_def)

section \<open>Open comments\<close>

lemma yyparse_comment_open: "comment_free b \<Longrightarrow> yyparse STATE_COMMENT b = (Some None, STATE_COMMENT)"
  by (simp add: yyparse_def tokens.simps [of STATE_COMMENT b] yylex_comment_open)

lemma yyparse_opens_comment: "comment_free b \<Longrightarrow> yyparse INITIAL (''/*'' @ b) = (Some None, STATE_COMMENT)"
  using yylex_comment_start [of b] by (simp add: yyparse_def tokens.simps [of INITIAL "CHR ''/'' # CHR ''*'' # b"] yylex_comment_open)

end
