(* ===== verification/Server_Properties.thy ===== *)
theory Server_Properties
  imports Server Planner_Properties System_Properties Cursors Parser_Properties
begin

text \<open>
  What a client observes: results of queries fit the reply buffer, and the requests that end the server.
\<close>

section \<open>Requests that fail\<close>

lemma on_sess_sm_pure: "on_sess_sm (\<lambda>s. pure_sm (f s) s) se = (case f (se_sm se) of Inl e \<Rightarrow> Err e se | Inr a \<Rightarrow> Ok a se)"
  by (simp add: on_sess_sm_def pure_sm_def split: sum.splits)

text \<open>A request as the server reads it: not empty, shorter than the buffer, without a NUL.\<close>

definition plain_request :: "string \<Rightarrow> bool" where
  "plain_request cmd \<longleftrightarrow> cmd \<noteq> [] \<and> length cmd < BUFFER_LENGTH \<and> CHR 0x00 \<notin> set cmd \<and> cmd \<noteq> ''exit'' \<and> cmd \<noteq> ''crash''"

definition request_session :: "TransactionManager \<Rightarrow> sm \<Rightarrow> session" where
  "request_session tm s = \<lparr>se_sm = s, se_ctx = Context_new (replicate BUFFER_LENGTH (CHR 0x00)), se_txn = None, se_tm = tm\<rparr>"

lemma handle_request_plain:
  assumes "plain_request cmd" and "yyparse sc cmd = (Some t, sc')"
  shows "handle_request v (Some cmd) thread txn_id tm sc s =
    liftS se_sm (bindO (case t of Some tree \<Rightarrow> run_statement v tree thread txn_id (request_session tm s) | None \<Rightarrow> Ok () (request_session tm s)) (\<lambda>_ se1.
      let n = send_offset (se_ctx se1) + 1 in
      if length (data_send (se_ctx se1)) < n then Err OutOfBounds se1
      else Ok (Reply (take n (data_send (se_ctx se1))), sc') se1))"
proof -
  have "takeWhile (\<lambda>c. c \<noteq> CHR 0x00) (cmd @ replicate (BUFFER_LENGTH - length cmd) (CHR 0x00)) = cmd"
    using assms(1) by (subst takeWhile_append2) (auto simp: plain_request_def takeWhile_replicate)
  then show ?thesis using assms unfolding handle_request_def request_session_def
    by (simp add: plain_request_def Let_def)
qed

text \<open>
  C36. \<open>begin;\<close> ends the server: the statement sets the mode of the current transaction, but the request loop passes a context
  without a transaction, so a null pointer is dereferenced whatever the state of the database and however the statement is spelled.
\<close>

theorem begin_statement_crashes:
  assumes "plain_request cmd" and "spelled rest [KW_TXN_BEGIN, SEMI] cmd"
  shows "handle_request v (Some cmd) thread txn_id tm INITIAL s = Err NullDeref s"
proof -
  have "g_start ([KW_TXN_BEGIN] @ [SEMI]) (Some TxnBegin)" by (intro g_start.intros g_stmt.intros(4) g_txnStmt.intros)
  then have "yyparse INITIAL cmd = (Some (Some TxnBegin), INITIAL)" using yyparse_spelling assms(2) by simp
  then show ?thesis using assms(1)
    by (simp add: handle_request_plain run_statement_def execute_query_def on_sess_sm_pure do_analyze_def plan_query_def
      portal_start_def portal_run_def run_cmd_utility_def on_sess_sm_def PortalStmt_new_def request_session_def Query_new_def)
qed

definition ex_env :: env where
  "ex_env = \<lparr>env_junk = (\<lambda>_. 0), env_rid = Rid_of 0 0, env_hdr = [], env_depth = 5, env_loop = 9, env_rows = 9\<rparr>"

lemma ex_semi: "spelled [] [SEMI] '';''"
  using spelled.intros(2) [of SEMI "'';''" "[]" "[]", OF _ spelled.nothing] by (simp add: single_ops_def apart_def)

lemma ex_begin: "spelled [] [KW_TXN_BEGIN, SEMI] ''begin;''"
proof -
  have "spells KW_TXN_BEGIN ''begin''" "apart KW_TXN_BEGIN '';''" by code_simp+
  from spelled.intros(2) [OF this(1) ex_semi this(2)] show ?thesis by simp
qed

theorem begin_statement_crashes_witness:
  "handle_request ex_env (Some ''begin;'') 0 (- 1) (TransactionManager_new TWO_PHASE_LOCKING) INITIAL ex_blank_sm = Err NullDeref ex_blank_sm"
  by (rule begin_statement_crashes [OF _ ex_begin]) (simp add: plain_request_def BUFFER_LENGTH_def)

lemma drop_missing_table:
  assumes "get_table t (sm_db s) = Inl (TableNotFoundError t)"
  shows "execute_query v (DropTable t) thread txn_id (request_session tm s) = Err (Throw (TableNotFoundError t)) (request_session tm s)"
  using assms by (simp add: execute_query_def on_sess_sm_pure do_analyze_def plan_query_def do_planner_def portal_start_def
      portal_run_def on_sess_sm_def PortalStmt_new_def request_session_def run_mutli_query_def drop_table_def Query_new_def)

lemma parse_drop_table:
  assumes "spelled rest [KW_DROP, KW_TABLE, IDENTIFIER t, SEMI] cmd"
  shows "yyparse INITIAL cmd = (Some (Some (DropTable t)), INITIAL)"
proof -
  have "g_start ([KW_DROP, KW_TABLE, IDENTIFIER t] @ [SEMI]) (Some (DropTable t))" by (intro g_start.intros(1) g_stmt.intros(2) g_ddl.intros(2))
  then show ?thesis using yyparse_spelling assms by simp
qed

text \<open>
  C39. A long name overruns the reply buffer: the message of an error is copied into the buffer of \<open>BUFFER_LENGTH\<close> bytes without
  a check, so a request to drop a table that does not exist, with a name of at least 8167 characters, writes behind the buffer. Such a
  request fits the receive buffer.
\<close>

theorem long_error_overruns_buffer:
  assumes "plain_request cmd" and "spelled rest [KW_DROP, KW_TABLE, IDENTIFIER t, SEMI] cmd"
    and "get_table t (sm_db s) = Inl (TableNotFoundError t)" and "8167 \<le> length t"
  shows "handle_request v (Some cmd) thread txn_id tm INITIAL s = Err OutOfBounds s"
  using assms drop_missing_table [OF assms(3)] parse_drop_table [OF assms(2)]
  by (simp add: handle_request_plain run_statement_def on_stmt_def on_ctx_def error_reply_def get_msg_len_def request_session_def
      Context_new_def BUFFER_LENGTH_def)

definition ex_long :: string where
  "ex_long = replicate 8170 CHR ''t''"

lemma drop_spelled:
  assumes "spells (IDENTIFIER x) x"
  shows "spelled [] [KW_DROP, KW_TABLE, IDENTIFIER x, SEMI] (''drop table '' @ x @ '';'')"
proof -
  from spelled.intros(2) [OF assms ex_semi] have 1: "spelled [] [IDENTIFIER x, SEMI] (x @ '';'')"
    by (simp add: apart_def is_word_def is_alpha_def is_digit_def)
  have w: "white (CHR '' '')" by (simp add: white_def)
  have "spells KW_TABLE ''table''" by code_simp
  from spelled.intros(2) [OF this spelled.intros(3) [OF w 1]]
  have 2: "spelled [] [KW_TABLE, IDENTIFIER x, SEMI] (''table '' @ x @ '';'')"
    by (simp add: apart_def is_word_def is_alpha_def is_digit_def)
  have "spells KW_DROP ''drop''" by code_simp
  from spelled.intros(2) [OF this spelled.intros(3) [OF w 2]] show ?thesis
    by (simp add: apart_def is_word_def is_alpha_def is_digit_def)
qed

lemma ex_long_spelled: "spelled [] [KW_DROP, KW_TABLE, IDENTIFIER ex_long, SEMI] (''drop table '' @ ex_long @ '';'')"
proof (rule drop_spelled)
  have "w \<in> set kw_words \<Longrightarrow> length w \<le> 8" for w by (auto simp: kw_words_def kw_table_def)
  then have "map lower ex_long \<notin> set kw_words" by (force simp: ex_long_def)
  moreover have "ident ex_long" by (simp add: ident_def ex_long_def is_alpha_def is_word_def list_all_iff)
  ultimately show "spells (IDENTIFIER ex_long) ex_long" by simp
qed

theorem long_error_overruns_buffer_witness:
  "handle_request ex_env (Some (''drop table '' @ ex_long @ '';'')) 0 (- 1) (TransactionManager_new TWO_PHASE_LOCKING) INITIAL ex_blank_sm =
   Err OutOfBounds ex_blank_sm"
  by (rule long_error_overruns_buffer [OF _ ex_long_spelled])
    (simp_all add: plain_request_def BUFFER_LENGTH_def ex_long_def get_table_def ex_blank_sm_def fresh_db_def)

section \<open>An open comment\<close>

lemma empty_reply:
  assumes "plain_request cmd" and "yyparse sc cmd = (Some None, sc')"
  shows "handle_request v (Some cmd) thread txn_id tm sc s = Ok (Reply [CHR 0x00], sc') s"
  using assms by (simp add: handle_request_plain request_session_def Context_new_def BUFFER_LENGTH_def)

lemma comment_requests:
  "\<forall>cmd \<in> set cmds. plain_request cmd \<and> comment_free cmd \<Longrightarrow>
   client_handler v (map Some cmds) thread tm STATE_COMMENT s = Ok (replicate (length cmds) [CHR 0x00], STATE_COMMENT) s"
  by (induction cmds) (simp_all add: empty_reply [OF _ yyparse_comment_open])

text \<open>
  C38. A comment that is not closed silences the server: the scanner keeps its start condition from one request to the next, so after
  a request that opens a comment all requests, of any client, are skipped up to the next end of a comment. Each is answered with an
  empty reply and does nothing.
\<close>

theorem open_comment_silences_server:
  assumes "plain_request (''/*'' @ b)" and "comment_free b" and "\<forall>cmd \<in> set cmds. plain_request cmd \<and> comment_free cmd"
  shows "client_handler v (Some (''/*'' @ b) # map Some cmds) thread tm INITIAL s =
    Ok (replicate (Suc (length cmds)) [CHR 0x00], STATE_COMMENT) s"
  using empty_reply [OF assms(1) yyparse_opens_comment [OF assms(2)]] comment_requests [OF assms(3)] by simp

theorem open_comment_silences_server_witness:
  "client_handler ex_env (Some (''/*'' @ '' todo'') # map Some [''drop table t;'']) 0 (TransactionManager_new TWO_PHASE_LOCKING) INITIAL ex_blank_sm =
   Ok (replicate (Suc (length [''drop table t;''])) [CHR 0x00], STATE_COMMENT) ex_blank_sm"
  by (rule open_comment_silences_server) (simp_all add: plain_request_def BUFFER_LENGTH_def)

section \<open>The result of a query\<close>

lemma select_loop_rows:
  assumes "fetch_rows junk d k n e s = Ok rows s'" and "ctx_ok c" and "\<forall>r \<in> set rows. length r = w"
  shows "\<exists>c'. select_loop junk d k n w e num (s, c, out) = Ok (num + length rows) (s', c', out @ concat (map out_row rows)) \<and>
    appended c c' (concat (map record_text rows))"
  using assms
proof (induction n arbitrary: e s rows c num out)
  case (Suc n)
  show ?case
  proof (cases "is_end e = Inr True")
    case True
    then show ?thesis using Suc.prems appended_refl [OF Suc.prems(2)] by (auto simp: on_fst_def)
  next
    case False
    then obtain tuple columns e1 rows1 s2 s4 where f: "is_end e = Inr False" "exec_next junk e s = Ok tuple s2"
      "bindE (exec_cols e) (mapE (col_text tuple)) = Inr columns" "run_op junk d k NextTuple e s2 = Ok e1 s4"
      "fetch_rows junk d k n e1 s4 = Ok rows1 s'" "rows = columns # rows1"
      using Suc.prems(1) by (auto simp: outcome_simps split: if_splits)
    have w: "length columns = w" "\<forall>r \<in> set rows1. length r = w" using Suc.prems(3) f(6) by auto
    obtain c1 where c1: "print_record_row w columns c = Ok () c1" "appended c c1 (record_text columns)"
      using print_record_row_ok [OF Suc.prems(2) w(1)] by (auto simp: print_ok_def)
    have "ctx_ok c1" using c1(2) by (simp add: appended_def)
    from Suc.IH [OF f(5) this w(2), of "num + 1" "out @ out_row columns"] obtain c2 where
      c2: "select_loop junk d k n w e1 (num + 1) (s4, c1, out @ out_row columns) =
          Ok (num + 1 + length rows1) (s', c2, (out @ out_row columns) @ concat (map out_row rows1))"
        "appended c1 c2 (concat (map record_text rows1))" by auto
    have "select_loop junk d k (Suc n) w e num (s, c, out) = Ok (num + length rows) (s', c2, out @ concat (map out_row rows))"
      using f c1(1) c2(1) by (simp add: on_fst_def on_snd_def)
    moreover have "appended c c2 (concat (map record_text rows))" using appended_trans [OF c1(2) c2(2)] f(6) by simp
    ultimately show ?thesis by blast
  qed
qed simp

text \<open>The reply of a query: a table, and the number of its rows.\<close>

definition table_text :: "string list \<Rightarrow> string list list \<Rightarrow> string" where
  "table_text captions rows =
     separator_text (length captions) @ record_text captions @ separator_text (length captions) @
     concat (map record_text rows) @ separator_text (length captions)"

definition count_text :: "nat \<Rightarrow> string" where
  "count_text n = ''Total record(s): '' @ nat_to_string n @ [CHR 0x0A]"

lemma select_from_ok:
  assumes "run_op junk d k BeginTuple root s = Ok e s1" and "fetch_rows junk d k n e s1 = Ok rows s2"
    and "\<forall>r \<in> set rows. length r = length targets" and "length rows < 10 ^ 14" and "targets \<noteq> []"
    and "length buf = BUFFER_LENGTH"
  defines "table \<equiv> table_text (map tc_col targets) rows"
  shows "\<exists>c pre e. select_from junk d k n root targets (s, Context_new buf) =
      Ok () (outfile_put (concat (map out_row (map tc_col targets # rows))) s2, c) \<and>
    length (data_send c) = BUFFER_LENGTH \<and> send_offset c < BUFFER_LENGTH \<and>
    sent c = pre @ (if e then ''... ...'' @ [CHR 0x0A] else []) @ count_text (length rows) \<and>
    (\<exists>m. pre = take m table) \<and>
    (length table + RECORD_COUNT_LENGTH < BUFFER_LENGTH \<longrightarrow> pre = table \<and> \<not> e)"
proof -
  let ?w = "length targets" and ?caps = "map tc_col targets" and ?c0 = "Context_new buf"
  have ok0: "ctx_ok ?c0" using assms(6) by simp
  have "print_ok (bindO (print_separator ?w ?c0) (\<lambda>_ c1. bindO (print_record_row ?w ?caps c1) (\<lambda>_ c2. print_separator ?w c2)))
      ?c0 (separator_text ?w @ (record_text ?caps @ separator_text ?w))"
    by (intro print_ok_bind print_separator_ok print_record_row_ok ok0) simp_all
  then obtain c1 where c1: "bindO (print_separator ?w ?c0) (\<lambda>_ c1. bindO (print_record_row ?w ?caps c1) (\<lambda>_ c2. print_separator ?w c2)) = Ok () c1"
    "appended ?c0 c1 (separator_text ?w @ record_text ?caps @ separator_text ?w)" by (auto simp: print_ok_def)
  have ok1: "ctx_ok c1" using c1(2) by (simp add: appended_def)
  obtain c2 where c2: "select_loop junk d k n ?w e 0 (s1, c1, out_row ?caps) = Ok (length rows) (s2, c2, out_row ?caps @ concat (map out_row rows))"
    "appended c1 c2 (concat (map record_text rows))"
    using select_loop_rows [OF assms(2) ok1 assms(3), of 0 "out_row ?caps"] by auto
  have ok2: "ctx_ok c2" using c2(2) by (simp add: appended_def)
  obtain c3 where c3: "print_separator ?w c2 = Ok () c3" "appended c2 c3 (separator_text ?w)"
    using print_separator_ok [OF ok2] by (auto simp: print_ok_def)
  have ok3: "ctx_ok c3" using c3(2) by (simp add: appended_def)
  obtain c where c: "print_record_count (length rows) c3 = Ok () c" "send_offset c < BUFFER_LENGTH" "length (data_send c) = BUFFER_LENGTH"
    "sent c = sent c3 @ (if ellipsis c3 then ''... ...'' @ [CHR 0x0A] else []) @ count_text (length rows)"
    using print_record_count_ok [OF ok3 assms(4)] by (auto simp: count_text_def)
  have "appended ?c0 c3 ((separator_text ?w @ record_text ?caps @ separator_text ?w) @ concat (map record_text rows) @ separator_text ?w)"
    using appended_trans [OF c1(2) appended_trans [OF c2(2) c3(2)]] .
  then have app: "appended ?c0 c3 table" by (simp add: table_def table_text_def)
  have "select_from junk d k n root targets (s, ?c0) = Ok () (outfile_put (concat (map out_row (?caps # rows))) s2, c)"
    using assms(1,5) c1(1) c2(1) c3(1) c(1)
    by (simp add: select_from_def RecordPrinter_new_def on_ctx_def on_fst_def)
  moreover have "\<exists>m. sent c3 = take m table"
    using app unfolding appended_def sent_new by (metis append_Nil take_all_iff nle_le)
  moreover have "length table + RECORD_COUNT_LENGTH < BUFFER_LENGTH \<longrightarrow> sent c3 = table \<and> \<not> ellipsis c3"
    using app by (auto simp: appended_def has_room_def Context_new_def sent_def)
  ultimately show ?thesis using c(2-4)
    by (intro exI [of _ c] exI [of _ "sent c3"] exI [of _ "ellipsis c3"]) auto
qed

end
