(* ===== verification/Table_Writes.thy ===== *)
theory Table_Writes
  imports Table_Reads
begin

text \<open>
  Steps that change one table in place. \<open>writes P fh fh' b b'\<close>: the table \<open>fh\<close> became \<open>fh'\<close> and the pool moved from \<open>b\<close> to
  \<open>b'\<close>; no page was added, other files are as before, and the pool still has room. \<open>delete_record\<close> and \<open>update_record\<close> are such steps.
\<close>

section \<open>Parts of the pool\<close>

text \<open>Writing into a frame and unpinning keep what says which page is in which frame.\<close>

definition same_frames :: "bpm \<Rightarrow> bpm \<Rightarrow> bool" where
  "same_frames b b' \<longleftrightarrow> free_list b' = free_list b \<and> page_table b' = page_table b \<and> pool_size b' = pool_size b \<and> dm b' = dm b"

lemma same_frames_refl [simp]: "same_frames b b"
  by (simp add: same_frames_def)

lemma same_frames_trans: "same_frames a b \<Longrightarrow> same_frames b c \<Longrightarrow> same_frames a c"
  by (simp add: same_frames_def)

lemma upd_data_frames [simp]: "same_frames b0 (upd_data f g b) = same_frames b0 b"
  by (simp add: same_frames_def upd_data_def upd_page_def)

lemma page_write_frames [simp]: "same_frames b0 (page_write f i x b) = same_frames b0 b"
  by (simp add: same_frames_def page_write_def upd_page_def)

lemma unpin_frames [simp]: "same_frames b0 (snd (unpin_page pid dirty b)) = same_frames b0 b"
  by (simp add: same_frames_def unpin_page_def upd_page_def Let_def split: option.splits)

lemma release_frames [simp]: "same_frames b0 (snd (release_page_handle f fh b)) = same_frames b0 b"
  by (simp add: release_page_handle_def Let_def)

lemma mapped_ran: "bpm_inv L b \<Longrightarrow> mapped b f \<longleftrightarrow> f \<in> ran (page_table b)"
  using table_okD(2) by (fastforce simp: mapped_def ran_def)

text \<open>No frame is lost as long as the same frames are free and in use.\<close>

lemma room_same_frames:
  assumes "room P b" and "same_frames b b'" and "bpm_inv L b'" and "synced_but {} b'"
  shows "room P b'"
proof -
  note r = roomD [OF assms(1)]
  have fo: "free_ok {} b" "free_ok L b'" using bpm_inv_parts(3) [OF r(1)] bpm_inv_parts(3) [OF assms(3)] .
  have m: "mapped b' f = mapped b f" for f
    using mapped_ran [OF r(1)] mapped_ran [OF assms(3)] assms(2) by (simp add: same_frames_def)
  have "free_ok {} b'" using fo m assms(2) unfolding free_ok_def same_frames_def by simp
  then have "bpm_inv {} b'" using assms(3) by (simp add: bpm_inv_def)
  then show ?thesis using r(3-5) assms(2,4) by (simp add: room_def same_frames_def)
qed

section \<open>Writing steps\<close>

definition writes :: "PageId set \<Rightarrow> rmfh \<Rightarrow> rmfh \<Rightarrow> bpm \<Rightarrow> bpm \<Rightarrow> bool" where
  "writes P fh fh' b b' \<longleftrightarrow> rm_inv fh' b' \<and> room P b' \<and> fh_fd fh' = fh_fd fh \<and>
     num_pages (file_hdr fh') = num_pages (file_hdr fh) \<and> record_size (file_hdr fh') = record_size (file_hdr fh) \<and>
     others_kept (fh_fd fh) b b' \<and>
     disk_frame (dm b) (dm b') \<and> (\<forall>q. q \<notin> file_pids fh \<longrightarrow> page_table b q = None \<longrightarrow> page_table b' q = None)"

lemma writes_pids: "writes P fh fh' b b' \<Longrightarrow> file_pids fh' = file_pids fh"
  by (simp add: writes_def file_pids_def data_page_def)

text \<open>The parts every operation on one existing page shares.\<close>

lemma page_step_writes:
  assumes inv: "rm_inv fh b" and r: "room P b" and sub: "file_pids fh \<subseteq> P" and p: "data_page (file_hdr fh) p"
    and step: "\<And>f b1. fetch_page_handle p fh b = Ok f (fh, b1) \<Longrightarrow> same_frames b1 b'"
    and post: "rm_inv fh' b'" "fh_fd fh' = fh_fd fh" "num_pages (file_hdr fh') = num_pages (file_hdr fh)"
      "record_size (file_hdr fh') = record_size (file_hdr fh)" "others_kept (fh_fd fh) b b'"
  shows "writes P fh fh' b b'"
proof -
  obtain f b1 where f: "fetch_page_handle p fh b = Ok f (fh, b1)" "reads P (file_pids fh) b b1"
    using handle_reads [OF inv r sub p] by blast
  have sf: "same_frames b1 b'" by (rule step [OF f(1)])
  have room1: "room P b1" using f(2) by (simp add: reads_def)
  obtain L where "bpm_inv L b'" using rm_invD(1) [OF post(1)] by blast
  then have "room P b'" using room_same_frames [OF room1 sf] rm_invD(2) [OF post(1)] by blast
  then show ?thesis using post f(2) sf by (simp add: writes_def reads_def same_frames_def)
qed

lemma delete_record_writes:
  assumes inv: "rm_inv fh b" and r: "room P b" and sub: "file_pids fh \<subseteq> P" and x: "rm_abs fh b rid = Some x"
  shows "\<exists>fh' b'. delete_record rid fh b = Ok () (fh', b') \<and> writes P fh fh' b b' \<and> rm_abs fh' b' = (rm_abs fh b)(rid := None)"
proof -
  obtain fh' b' where d: "delete_record rid fh b = Ok () (fh', b')" "rm_inv fh' b'" "rm_abs fh' b' = (rm_abs fh b)(rid := None)"
    "fh_fd fh' = fh_fd fh" "num_pages (file_hdr fh') = num_pages (file_hdr fh)" "others_kept (fh_fd fh) b b'"
    by (rule delete_record_ok [OF inv x room_frame_free [OF r]])
  have dp: "data_page (file_hdr fh) (rid_page rid)" using rm_abs_range [of fh b rid] x by simp
  have sf: "same_frames b1 b' \<and> record_size (file_hdr fh') = record_size (file_hdr fh)"
    if "fetch_page_handle (rid_page rid) fh b = Ok f (fh, b1)" for f b1
    using d(1) that by (auto simp: delete_record_def release_page_handle_def Let_def split: if_splits prod.splits)
  obtain f b1 where f: "fetch_page_handle (rid_page rid) fh b = Ok f (fh, b1)" using handle_reads [OF inv r sub dp] by blast
  have "writes P fh fh' b b'"
    by (rule page_step_writes [OF inv r sub dp _ d(2,4,5) _ d(6)]) (use sf [OF f] sf in blast)+
  then show ?thesis using d(1,3) by blast
qed

lemma update_record_writes:
  assumes inv: "rm_inv fh b" and r: "room P b" and sub: "file_pids fh \<subseteq> P" and x: "rm_abs fh b rid = Some x"
    and len: "int (length buf) = record_size (file_hdr fh)"
  shows "\<exists>b'. update_record rid buf fh b = Ok () (fh, b') \<and> writes P fh fh b b' \<and> rm_abs fh b' = (rm_abs fh b)(rid \<mapsto> buf)"
proof -
  have le: "record_size (file_hdr fh) \<le> int (length buf)" using len by simp
  obtain b' where d: "update_record rid buf fh b = Ok () (fh, b')" "rm_inv fh b'"
    "rm_abs fh b' = (rm_abs fh b)(rid \<mapsto> take (nat (record_size (file_hdr fh))) buf)" "others_kept (fh_fd fh) b b'"
    by (rule update_record_ok [OF inv x room_frame_free [OF r] le])
  have dp: "data_page (file_hdr fh) (rid_page rid)" using rm_abs_range [of fh b rid] x by simp
  have sf: "same_frames b1 b'" if "fetch_page_handle (rid_page rid) fh b = Ok f (fh, b1)" for f b1
    using d(1) that by (auto simp: update_record_def Let_def split: if_splits)
  have "writes P fh fh b b'" by (rule page_step_writes [OF inv r sub dp sf d(2) refl refl refl d(4)])
  moreover have "take (nat (record_size (file_hdr fh))) buf = buf" using le len by simp
  ultimately show ?thesis using d(1,3) by auto
qed

text \<open>The other tables.\<close>

lemma writes_other:
  assumes w: "writes P fh fh' b b'" and inv: "rm_inv g b" and fd: "fh_fd g \<noteq> fh_fd fh"
  shows "rm_inv g b'" and "rm_abs g b' = rm_abs g b"
proof -
  have k: "room P b'" "others_kept (fh_fd fh) b b'" "disk_frame (dm b) (dm b')"
    "\<And>q. q \<notin> file_pids fh \<Longrightarrow> page_table b q = None \<Longrightarrow> page_table b' q = None" using w by (auto simp: writes_def)
  have pages: "file_page g b q = file_page g b' q" if q: "data_page (file_hdr g) q" for q
  proof -
    obtain d where "file_page g b q = Some d" using file_invD(4) [OF rm_invD(8) [OF inv] q] by blast
    then show ?thesis using k(2) fd rm_invD(5) [OF inv] by (auto simp: others_kept_def file_page_def)
  qed
  have "file_inv (file_hdr g) (file_page g b')" using file_inv_cong [OF pages rm_invD(8) [OF inv]] .
  then show "rm_inv g b'" unfolding rm_inv_def
    using roomD(1,2) [OF k(1)] rm_invD(3-6) [OF inv] rm_invD(7) [OF inv] file_pids_other [OF fd] k(4)
      disk_frame_open [OF k(3)] disk_frame_pageno [OF k(3)] by auto
  show "rm_abs g b' = rm_abs g b" unfolding rm_abs_def by (rule file_abs_cong) (erule pages [symmetric])
qed

end
