(* ===== verification/Select_Properties.thy ===== *)
theory Select_Properties
  imports Select_Cursors Server_Properties Record_Properties Table_Writes
begin

text \<open>
  Queries from the plan to the output: what \<open>SELECT\<close> prints is the selection, the join and the projection of the abstract tables.
\<close>

section \<open>Tables of a query\<close>

text \<open>
  \<open>table_ready\<close>: the table is in the catalogue and open, its columns describe its records, the conditions of the scan are well
  formed, and it has fewer than \<open>k\<close> records.
\<close>

definition table_ready :: "PageId set \<Rightarrow> nat \<Rightarrow> sm \<Rightarrow> string \<Rightarrow> Condition list \<Rightarrow> rmfh \<Rightarrow> ColMeta list \<Rightarrow> bool" where
  "table_ready P k s t conds fh cols \<longleftrightarrow> open_ok P s \<and> map_of (fhs s) t = Some fh \<and>
     (\<exists>m. get_table t (sm_db s) = Inr m \<and> tm_cols m = cols) \<and> rec_len cols = Inr (record_size (file_hdr fh)) \<and>
     cols_ok (record_size (file_hdr fh)) cols \<and> list_all (cond_wf cols) conds \<and> card (dom (rm_abs fh (sm_bpm s))) < k"

definition scan_template :: "string \<Rightarrow> Condition list \<Rightarrow> ColMeta list \<Rightarrow> int \<Rightarrow> Rid \<Rightarrow> SeqScan" where
  "scan_template t conds cols len jr = \<lparr>ss_tab = t, ss_conds = conds, ss_cols = cols, ss_len = len, ss_rid = jr, ss_scan = None\<rparr>"

lemma scan_template_simps [simp]:
  "ss_tab (scan_template t conds cols len jr) = t" "ss_conds (scan_template t conds cols len jr) = conds"
  "ss_cols (scan_template t conds cols len jr) = cols" "ss_len (scan_template t conds cols len jr) = len"
  by (simp_all add: scan_template_def)

lemma table_ready_scan:
  fixes jr :: Rid
  assumes r: "table_ready P k s t conds fh cols" and zs: "table_rows (rm_abs fh (sm_bpm s)) (conds_hold cols conds) zs"
  defines "c \<equiv> scan_template t conds cols (record_size (file_hdr fh)) jr"
  shows "SeqScan_new s t conds jr = Inr (SeqScanExec c)" and "scan_idle P k fh c zs (SeqScanExec c) s"
proof -
  obtain m where m: "get_table t (sm_db s) = Inr m" "tm_cols m = cols" using r by (auto simp: table_ready_def)
  have a: "open_ok P s" "map_of (fhs s) t = Some fh" "rec_len cols = Inr (record_size (file_hdr fh))"
    "cols_ok (record_size (file_hdr fh)) cols" "list_all (cond_wf cols) conds" "card (dom (rm_abs fh (sm_bpm s))) < k"
    using r unfolding table_ready_def by blast+
  show "SeqScan_new s t conds jr = Inr (SeqScanExec c)"
    using m a(2,3) by (simp add: SeqScan_new_def fhs_at_def c_def scan_template_def throwing_def)
  show "scan_idle P k fh c zs (SeqScanExec c) s"
    using a zs by (simp add: scan_idle_def scannable_def c_def selected_def same_scan_def)
qed

lemma table_rows_ex: "\<exists>zs. table_rows (rm_abs fh b) sel zs \<and> length zs \<le> card (dom (rm_abs fh b))"
proof -
  obtain rs where rs: "table_rids (rm_abs fh b) sel rs" using table_rids_ex by blast
  then show ?thesis using table_rids_length [OF rs] by (auto simp: table_rows_def)
qed

section \<open>Select lists\<close>

definition target_text :: "ColMeta list \<Rightarrow> TabCol list \<Rightarrow> bytes \<Rightarrow> string list" where
  "target_text cols targets x = map (\<lambda>t. case exec_get_col cols t of Inl _ \<Rightarrow> [] | Inr (i, c) \<Rightarrow> col_str c x) targets"

definition targets_found :: "ColMeta list \<Rightarrow> TabCol list \<Rightarrow> bool" where
  "targets_found cols targets \<longleftrightarrow> targets \<noteq> [] \<and> list_all (\<lambda>t. case exec_get_col cols t of Inl _ \<Rightarrow> False | Inr _ \<Rightarrow> True) targets"

lemma project_cols_total:
  "list_all (\<lambda>t. case exec_get_col cols t of Inl _ \<Rightarrow> False | Inr _ \<Rightarrow> True) ts \<Longrightarrow> \<exists>xs len. project_cols cols off ts = Inr (xs, len)"
proof (induction ts arbitrary: off)
  case (Cons t ts)
  then obtain i c where "exec_get_col cols t = Inr (i, c)" by (auto split: sum.splits)
  moreover obtain xs len where "project_cols cols (off + cm_len c) ts = Inr (xs, len)"
    using Cons.IH [of "off + cm_len c"] Cons.prems by auto
  ultimately show ?case by simp
qed simp

lemma target_text_index:
  assumes "project_cols cols off ts = Inr (xs, len)"
  shows "map (\<lambda>i. col_str (cols ! i) x) (map fst xs) = target_text cols ts x"
proof -
  have "list_all2 (\<lambda>t i. exec_get_col cols t = Inr (i, cols ! i)) ts (map fst xs)" using project_cols_index [OF assms] .
  then show ?thesis unfolding target_text_def by (induction rule: list_all2_induct) simp_all
qed

lemma projection_new:
  assumes "exec_cols e = Inr cols" and "targets_found cols targets"
  obtains xs len where "project_cols cols 0 targets = Inr (xs, len)"
    and "Projection_new e targets = Inr (ProjectionExec e (map snd xs) len (map fst xs))"
proof -
  obtain xs len where x: "project_cols cols 0 targets = Inr (xs, len)"
    using assms(2) project_cols_total [of cols targets 0] by (auto simp: targets_found_def)
  have "e \<noteq> NullExec" using assms(1) by auto
  then show thesis using that x assms by (simp add: Projection_new_def targets_found_def)
qed

section \<open>Two tables\<close>

definition join_plan :: "string \<Rightarrow> Condition list \<Rightarrow> string \<Rightarrow> Condition list \<Rightarrow> Condition list \<Rightarrow> TabCol list \<Rightarrow> ColMeta list \<Rightarrow> ColMeta list \<Rightarrow> int \<Rightarrow> int \<Rightarrow> plan" where
  "join_plan t1 conds1 t2 conds2 conds targets cols1 cols2 l1 l2 =
     ProjectionPlan T_Projection (JoinPlan T_NestLoop (ScanPlan T_SeqScan t1 cols1 conds1 l1 []) (ScanPlan T_SeqScan t2 cols2 conds2 l2 []) conds) targets"

lemma join_rows_length: "length (join_rows cols conds as bs) \<le> length as * length bs"
proof -
  have "length (concat (map (\<lambda>a. map (\<lambda>b. a @ b) bs) as)) = length as * length bs" by (induction as) simp_all
  then show ?thesis unfolding join_rows_def by (metis length_filter_le)
qed

lemma join_fetch:
  assumes t1: "table_ready P k s t1 conds1 fh1 cols1" and t2: "table_ready P k s t2 conds2 fh2 cols2"
    and as: "table_rows (rm_abs fh1 (sm_bpm s)) (conds_hold cols1 conds1) as"
    and bs: "table_rows (rm_abs fh2 (sm_bpm s)) (conds_hold cols2 conds2) bs"
    and cols: "cols = join_cols cols1 (record_size (file_hdr fh1)) cols2"
    and conds: "list_all (cond_wf cols) conds" and targets: "targets_found cols targets" and n: "length as * length bs < n"
  shows "\<exists>root e s1 s2. convert_plan_executor jr (join_plan t1 conds1 t2 conds2 conds targets x1 x2 l1 l2) s = Inr root \<and>
    run_op junk (Suc (Suc (Suc d))) k BeginTuple root s = Ok e s1 \<and>
    fetch_rows junk (Suc (Suc (Suc d))) k n e s1 = Ok (map (target_text cols targets) (join_rows cols conds as bs)) s2 \<and> calm_sm P s s2"
proof -
  define c1 where "c1 = scan_template t1 conds1 cols1 (record_size (file_hdr fh1)) jr"
  define c2 where "c2 = scan_template t2 conds2 cols2 (record_size (file_hdr fh2)) jr"
  note s1 = table_ready_scan [OF t1 as, where jr = jr, folded c1_def] and s2 = table_ready_scan [OF t2 bs, where jr = jr, folded c2_def]
  let ?j = "JoinExec (SeqScanExec c1) (SeqScanExec c2) cols (ss_len c1 + ss_len c2) conds False"
  have cs: "ss_cols c1 = cols1" "ss_len c1 = record_size (file_hdr fh1)" "ss_cols c2 = cols2" by (simp_all add: c1_def c2_def)
  have j: "Join_new (SeqScanExec c1) (SeqScanExec c2) conds = Inr ?j" by (simp add: Join_new_def cs cols join_cols_def)
  have "exec_cols ?j = Inr cols" by simp
  then obtain xs len where p: "project_cols cols 0 targets = Inr (xs, len)"
    "Projection_new ?j targets = Inr (ProjectionExec ?j (map snd xs) len (map fst xs))" by (rule projection_new [OF _ targets])
  have jc: "join_cols (ss_cols c1) (ss_len c1) (ss_cols c2) = cols" by (simp add: cs cols)
  have "cols_ok (ss_len c1) (ss_cols c1)" "cols_ok (ss_len c2) (ss_cols c2)"
    using s1(2) s2(2) by (auto simp: scan_idle_def scannable_def)
  from join_cols_ok [OF this] have "cols_ok (ss_len c1 + ss_len c2) cols" by (simp add: jc)
  then have "join_idle P k fh1 c1 as fh2 c2 bs conds ?j s"
    using s1(2) s2(2) conds 
    unfolding nl.join_idle_def unfolding nl.jcols_def jc guarded_idle_def by blast
  then have idle: "guarded_idle (project_guard cols targets xs len) (join_idle P k fh1 c1 as fh2 c2 bs conds) ?j s"
    using p(1) targets by (simp add: guarded_idle_def project_guard_def targets_found_def)
  have "length (join_rows cols conds as bs) < n" using join_rows_length n le_less_trans by blast
  note f = join_project.proj_fetch [where junk = junk and d = d and P = P and k = k and n = n, of c1 c2, unfolded jc, OF idle [unfolded jc] this,
      unfolded join_project.proj_exec_def target_text_index [OF p(1)]]
  have "convert_plan_executor jr (join_plan t1 conds1 t2 conds2 conds targets x1 x2 l1 l2) s =
      Inr (ProjectionExec ?j (map snd xs) len (map fst xs))"
    using s1(1) s2(1) j p(2) by (simp add: join_plan_def)
  then show ?thesis using f by blast
qed

section \<open>One table\<close>

definition scan_plan :: "string \<Rightarrow> Condition list \<Rightarrow> TabCol list \<Rightarrow> ColMeta list \<Rightarrow> int \<Rightarrow> plan" where
  "scan_plan t conds targets cols l = ProjectionPlan T_Projection (ScanPlan T_SeqScan t cols conds l []) targets"

lemma scan_fetch:
  assumes t: "table_ready P k s t conds fh cols" and zs: "table_rows (rm_abs fh (sm_bpm s)) (conds_hold cols conds) zs"
    and targets: "targets_found cols targets" and n: "length zs < n"
  shows "\<exists>root e s1 s2. convert_plan_executor jr (scan_plan t conds targets x l) s = Inr root \<and>
    run_op junk (Suc (Suc d)) k BeginTuple root s = Ok e s1 \<and>
    fetch_rows junk (Suc (Suc d)) k n e s1 = Ok (map (target_text cols targets) zs) s2 \<and> calm_sm P s s2"
proof -
  define c where "c = scan_template t conds cols (record_size (file_hdr fh)) jr"
  note s = table_ready_scan [OF t zs, where jr = jr, folded c_def]
  have cc: "ss_cols c = cols" by (simp add: c_def)
  have "exec_cols (SeqScanExec c) = Inr cols" by (simp add: cc)
  then obtain xs len where p: "project_cols cols 0 targets = Inr (xs, len)"
    "Projection_new (SeqScanExec c) targets = Inr (ProjectionExec (SeqScanExec c) (map snd xs) len (map fst xs))"
    by (rule projection_new [OF _ targets])
  have idle: "guarded_idle (project_guard (ss_cols c) targets xs len) (scan_idle P k fh c zs) (SeqScanExec c) s"
    using s(2) p(1) targets by (simp add: guarded_idle_def project_guard_def targets_found_def cc)
  note f = scan_project.proj_fetch [where junk = junk and d = d, OF idle n, unfolded scan_project.proj_exec_def cc target_text_index [OF p(1)]]
  have "convert_plan_executor jr (scan_plan t conds targets x l) s = Inr (ProjectionExec (SeqScanExec c) (map snd xs) len (map fst xs))"
    using s(1) p(2) by (simp add: scan_plan_def)
  then show ?thesis using f by blast
qed

section \<open>A small database for the examples\<close>

lemma ex_new: "\<exists>b1. new_page 3 ex_tab_pool = Ok (Some (PageId_of 3 1, 0)) b1 \<and> free_list b1 = [1] \<and> page_table b1 = [PageId_of 3 1 \<mapsto> 0] \<and> pool_size b1 = 2"
  by (simp add: new_page_def find_victim_page_def ex_tab_pool_def BufferPoolManager_new_def write_back_def drop_entry_def upd_page_def
    allocate_page_def i32_def DiskManager_new_def Let_def upt_rec [of _ "2 :: nat"] MAX_FD_def Page_new_def)

lemma ex_pool1_parts: "free_list ex_pool1 = [1]" "page_table ex_pool1 = [PageId_of 3 1 \<mapsto> 0]" "pool_size ex_pool1 = 2"
   "num_pages (file_hdr ex_tab1) = 2" "fh_fd ex_tab1 = 3"
proof -
  obtain b1 where b1: "new_page 3 ex_tab_pool = Ok (Some (PageId_of 3 1, 0)) b1" "free_list b1 = [1]" "page_table b1 = [PageId_of 3 1 \<mapsto> 0]" "pool_size b1 = 2"
    using ex_new by blast
  have t: "fh_fd ex_tab = 3" "first_free_page_no (file_hdr ex_tab) = RM_NO_PAGE" "num_pages (file_hdr ex_tab) = 1" by (simp_all add: ex_tab_def rm_new_hdr_def)
  have "same_frames b1 ex_pool1 \<and> num_pages (file_hdr ex_tab1) = 2 \<and> fh_fd ex_tab1 = 3" using b1(1)
    by (simp add: ex_tab1_def ex_pool1_def ex_ins_def insert_record_def create_page_handle_def create_new_page_handle_def t Let_def)
  then show "free_list ex_pool1 = [1]" "page_table ex_pool1 = [PageId_of 3 1 \<mapsto> 0]" "pool_size ex_pool1 = 2"
    "num_pages (file_hdr ex_tab1) = 2" "fh_fd ex_tab1 = 3" using b1(2-4) by (simp_all add: same_frames_def)
qed

definition ex_cols :: "ColMeta list" where
  "ex_cols = [\<lparr>cm_tab = ''t'', cm_name = ''x'', cm_type = TYPE_STRING, cm_len = 8, cm_offset = 0, cm_index = False\<rparr>]"

definition ex_db :: sm where
  "ex_db = \<lparr>sm_db = \<lparr>db_name = ''d'', db_tabs = [(''t'', \<lparr>tm_name = ''t'', tm_cols = ex_cols, tm_indexes = []\<rparr>)]\<rparr>,
     fhs = [(''t'', ex_tab1)], ihs = [], sm_bpm = ex_pool1\<rparr>"

definition ex_pages :: "PageId set" where
  "ex_pages = {PageId_of 3 1}"

lemma ex_db_open: "open_ok ex_pages ex_db"
proof -
  obtain L where L: "bpm_inv L ex_pool1" using rm_invD(1) [OF ex_ins_facts(1)] by blast
  have m: "mapped ex_pool1 0" using table_okD(2) [OF L, of "PageId_of 3 1" 0] ex_pool1_parts(2) by (simp add: mapped_def)
  have "free_ok L ex_pool1" using bpm_inv_parts(3) [OF L] .
  then have "free_ok {} ex_pool1" using m by (auto simp: free_ok_def ex_pool1_parts less_2_cases_iff)
  then have "bpm_inv {} ex_pool1" using L by (simp add: bpm_inv_def)
  then have "room ex_pages ex_pool1"
    using rm_invD(2) [OF ex_ins_facts(1)] ex_pool1_parts by (simp add: room_def ex_pages_def)
  moreover have "file_pids ex_tab1 \<subseteq> ex_pages"
    by (auto simp: file_pids_def data_page_def ex_pool1_parts ex_pages_def)
  ultimately show ?thesis using ex_ins_facts(1) by (simp add: open_ok_def ex_db_def)
qed

lemma ex_ready: "table_ready ex_pages (Suc (card (dom (rm_abs ex_tab1 ex_pool1)))) ex_db ''t'' [] ex_tab1 ex_cols"
  using ex_db_open ex_ins_facts(4)
  by (simp add: table_ready_def ex_db_def get_table_def ex_cols_def rec_len_def cols_ok_def)

definition ex_targets :: "TabCol list" where
  "ex_targets = [\<lparr>tc_tab = ''t'', tc_col = ''x''\<rparr>]"

lemma ex_found: "targets_found ex_cols ex_targets" "targets_found (join_cols ex_cols 8 ex_cols) ex_targets"
  by (simp_all add: targets_found_def ex_targets_def ex_cols_def exec_get_col_def join_cols_def)

lemma ex_card: "card (dom (rm_abs ex_tab1 ex_pool1)) = 1"
proof -
  have "rm_abs ex_tab ex_tab_pool = Map.empty"
    by (rule ext) (auto simp: rm_abs_def file_abs_def data_page_def ex_tab_def rm_new_hdr_def)
  moreover have "rm_abs ex_tab1 ex_pool1 = (rm_abs ex_tab ex_tab_pool)(ex_rid \<mapsto> replicate 8 7)" by (rule ex_ins_facts(5))
  ultimately show ?thesis by simp
qed

section \<open>Properties\<close>

text \<open>
  C13. The result of a query always fits the reply. If the executors produce rows of the right width, fewer than \<open>10 ^ 14\<close>,
  then \<open>select_from\<close> succeeds and never writes behind the buffer; every row goes to the output file; the reply is the whole
  table and the true number of rows whenever the table fits the buffer, and otherwise a beginning of the table followed, when rows were left out
  with the flag set, by an ellipsis and the true number of rows.
\<close>

theorem select_from_output:
  assumes "run_op junk d k BeginTuple root s = Ok e s1" and "fetch_rows junk d k n e s1 = Ok rows s2"
    and "\<forall>r \<in> set rows. length r = length targets" and "length rows < 10 ^ 14" and "targets \<noteq> []"
    and "length buf = BUFFER_LENGTH"
  defines "table \<equiv> table_text (map tc_col targets) rows"
  shows "\<exists>c pre e. select_from junk d k n root targets (s, Context_new buf) =
      Ok () (outfile_put (concat (map out_row (map tc_col targets # rows))) s2, c) \<and>
    length (data_send c) = BUFFER_LENGTH \<and> send_offset c < BUFFER_LENGTH \<and>
    sent c = pre @ (if e then ''... ...'' @ [CHR 0x0A] else []) @ count_text (length rows) \<and>
    (\<exists>m. pre = take m table) \<and>
    (length table + RECORD_COUNT_LENGTH < BUFFER_LENGTH \<longrightarrow> pre = table \<and> \<not> e)"
  unfolding table_def by (rule select_from_ok [OF assms(1-6)])

theorem select_from_output_witness:
  "\<exists>root rows s2 c pre e. select_from (\<lambda>_. 0) 2 2 2 root ex_targets (ex_db, Context_new (replicate BUFFER_LENGTH (CHR 0x00))) =
      Ok () (outfile_put (concat (map out_row (map tc_col ex_targets # rows))) s2, c) \<and>
    length (data_send c) = BUFFER_LENGTH \<and> send_offset c < BUFFER_LENGTH \<and>
    sent c = pre @ (if e then ''... ...'' @ [CHR 0x0A] else []) @ count_text (length rows) \<and>
    (\<exists>m. pre = take m (table_text (map tc_col ex_targets) rows))"
proof -
  obtain zs where zs: "table_rows (rm_abs ex_tab1 (sm_bpm ex_db)) (conds_hold ex_cols []) zs" "length zs \<le> 1"
    using table_rows_ex [of ex_tab1 ex_pool1] ex_card by (auto simp: ex_db_def)
  let ?rows = "map (target_text ex_cols ex_targets) zs"
  have ready: "table_ready ex_pages 2 ex_db ''t'' [] ex_tab1 ex_cols" using ex_ready ex_card by (simp add: numeral_2_eq_2)
  obtain root e s1 s2 where r: "run_op (\<lambda>_. 0) 2 2 BeginTuple root ex_db = Ok e s1" "fetch_rows (\<lambda>_. 0) 2 2 2 e s1 = Ok ?rows s2"
    using scan_fetch [OF ready zs(1) ex_found(1), of 2 "Rid_of 0 0" "[]" 0 "\<lambda>_. 0" 0] zs(2) by (auto simp: numeral_2_eq_2)
  have len: "\<forall>r \<in> set ?rows. length r = length ex_targets" by (auto simp: target_text_def)
  have few: "length ?rows < 10 ^ 14" "ex_targets \<noteq> []" using zs(2) by (simp_all add: ex_targets_def)
  have buf: "length (replicate BUFFER_LENGTH (CHR 0x00)) = BUFFER_LENGTH" by simp
  show ?thesis using select_from_output [OF r len few buf] by blast
qed

text \<open>
  A query on one table prints the table. The plan \<open>SELECT targets FROM t WHERE conds\<close> is turned into executors that write to the
  output file the captions and then, for every record of the abstract table that satisfies the conditions, in the order of record ids,
  the text of the chosen columns. No table changes, and the pages the query leaves pinned are pages of its tables.
\<close>

theorem select_scan_correct:
  assumes "table_ready P k s t conds fh cols" and "targets_found cols targets" and "card (dom (rm_abs fh (sm_bpm s))) < n"
    and "card (dom (rm_abs fh (sm_bpm s))) < 10 ^ 14" and "length buf = BUFFER_LENGTH"
  shows "\<exists>zs root s' c. table_rows (rm_abs fh (sm_bpm s)) (conds_hold cols conds) zs \<and>
    convert_plan_executor jr (scan_plan t conds targets x l) s = Inr root \<and>
    select_from junk (Suc (Suc d)) k n root targets (s, Context_new buf) =
      Ok () (outfile_put (concat (map out_row (map tc_col targets # map (target_text cols targets) zs))) s', c) \<and>
    quiet s s' \<and> open_ok P s'"
proof -
  obtain zs where zs: "table_rows (rm_abs fh (sm_bpm s)) (conds_hold cols conds) zs" "length zs \<le> card (dom (rm_abs fh (sm_bpm s)))"
    using table_rows_ex by blast
  have n: "length zs < n" "length zs < 10 ^ 14" using zs(2) assms(3,4) by linarith+
  obtain root e s1 s2 where r: "convert_plan_executor jr (scan_plan t conds targets x l) s = Inr root"
    "run_op junk (Suc (Suc d)) k BeginTuple root s = Ok e s1"
    "fetch_rows junk (Suc (Suc d)) k n e s1 = Ok (map (target_text cols targets) zs) s2" "calm_sm P s s2"
    using scan_fetch [OF assms(1) zs(1) assms(2) n(1)] by blast
  have len: "\<forall>r \<in> set (map (target_text cols targets) zs). length r = length targets" by (auto simp: target_text_def)
  have ne: "targets \<noteq> []" "length (map (target_text cols targets) zs) < 10 ^ 14" using assms(2) n(2) by (simp_all add: targets_found_def)
  have "quiet s s2" "open_ok P s2" using r(4) assms(1) by (auto simp: calm_sm_def table_ready_def)
  then show ?thesis using zs(1) r(1) select_from_ok [OF r(2,3) len ne(2,1) assms(5)] by blast
qed

theorem select_scan_correct_witness:
  "\<exists>zs root s' c. table_rows (rm_abs ex_tab1 (sm_bpm ex_db)) (conds_hold ex_cols []) zs \<and>
    convert_plan_executor (Rid_of 0 0) (scan_plan ''t'' [] ex_targets [] 0) ex_db = Inr root \<and>
    select_from (\<lambda>_. 0) 2 2 2 root ex_targets (ex_db, Context_new (replicate BUFFER_LENGTH (CHR 0x00))) =
      Ok () (outfile_put (concat (map out_row (map tc_col ex_targets # map (target_text ex_cols ex_targets) zs))) s', c) \<and>
    quiet ex_db s' \<and> open_ok ex_pages s'"
  using select_scan_correct [where d = 0, OF ex_ready ex_found(1)] ex_card by (simp add: ex_db_def numeral_2_eq_2)

text \<open>
  C7. A query on two tables prints their join. The executors of the plan deliver, in the order of the nested loops, exactly the
  pairs of a record of the first and one of the second table that satisfy the conditions of the two scans and the join conditions,
  evaluated on the joined record; the output file gets the captions and the text of the chosen columns of every pair. The loops end
  within the fuel.
\<close>

theorem select_join_correct:
  assumes "table_ready P k s t1 conds1 fh1 cols1" and "table_ready P k s t2 conds2 fh2 cols2"
    and "list_all (cond_wf (join_cols cols1 (record_size (file_hdr fh1)) cols2)) conds"
    and "targets_found (join_cols cols1 (record_size (file_hdr fh1)) cols2) targets"
    and "card (dom (rm_abs fh1 (sm_bpm s))) * card (dom (rm_abs fh2 (sm_bpm s))) < n"
    and "card (dom (rm_abs fh1 (sm_bpm s))) * card (dom (rm_abs fh2 (sm_bpm s))) < 10 ^ 14" and "length buf = BUFFER_LENGTH"
  defines "cols \<equiv> join_cols cols1 (record_size (file_hdr fh1)) cols2"
  shows "\<exists>as bs root s' c. table_rows (rm_abs fh1 (sm_bpm s)) (conds_hold cols1 conds1) as \<and>
    table_rows (rm_abs fh2 (sm_bpm s)) (conds_hold cols2 conds2) bs \<and>
    convert_plan_executor jr (join_plan t1 conds1 t2 conds2 conds targets x1 x2 l1 l2) s = Inr root \<and>
    select_from junk (Suc (Suc (Suc d))) k n root targets (s, Context_new buf) =
      Ok () (outfile_put (concat (map out_row (map tc_col targets # map (target_text cols targets) (join_rows cols conds as bs)))) s', c) \<and>
    quiet s s' \<and> open_ok P s'"
proof -
  obtain as where as: "table_rows (rm_abs fh1 (sm_bpm s)) (conds_hold cols1 conds1) as" "length as \<le> card (dom (rm_abs fh1 (sm_bpm s)))"
    using table_rows_ex by blast
  obtain bs where bs: "table_rows (rm_abs fh2 (sm_bpm s)) (conds_hold cols2 conds2) bs" "length bs \<le> card (dom (rm_abs fh2 (sm_bpm s)))"
    using table_rows_ex by blast
  note le = mult_le_mono [OF as(2) bs(2)]
  let ?rows = "map (target_text cols targets) (join_rows cols conds as bs)"
  obtain root e s1 s2 where r: "convert_plan_executor jr (join_plan t1 conds1 t2 conds2 conds targets x1 x2 l1 l2) s = Inr root"
    "run_op junk (Suc (Suc (Suc d))) k BeginTuple root s = Ok e s1" "fetch_rows junk (Suc (Suc (Suc d))) k n e s1 = Ok ?rows s2" "calm_sm P s s2"
    using join_fetch [OF assms(1,2) as(1) bs(1) meta_eq_to_obj_eq [OF cols_def] assms(3,4) [folded cols_def] le_less_trans [OF le assms(5)]] by blast
  have len: "\<forall>r \<in> set ?rows. length r = length targets" by (auto simp: target_text_def)
  have "length ?rows \<le> length as * length bs" using join_rows_length by simp
  then have few: "length ?rows < 10 ^ 14" using le assms(6) by linarith
  have ne: "targets \<noteq> []" using assms(4) by (simp add: targets_found_def)
  have "quiet s s2" "open_ok P s2" using r(4) assms(1) by (auto simp: calm_sm_def table_ready_def)
  then show ?thesis using as(1) bs(1) r(1) select_from_ok [OF r(2,3) len few ne assms(7)] by blast
qed

definition ex_join_cond :: Condition where
  "ex_join_cond = \<lparr>lhs_col = \<lparr>tc_tab = ''t'', tc_col = ''x''\<rparr>, cop = OP_EQ, is_rhs_val = False, rhs_col = \<lparr>tc_tab = ''t'', tc_col = ''x''\<rparr>,
     rhs_val = Val_new TYPE_INT 0 []\<rparr>"

theorem select_join_correct_witness:
  "\<exists>as bs root s' c. table_rows (rm_abs ex_tab1 (sm_bpm ex_db)) (conds_hold ex_cols []) as \<and>
    table_rows (rm_abs ex_tab1 (sm_bpm ex_db)) (conds_hold ex_cols []) bs \<and>
    convert_plan_executor (Rid_of 0 0) (join_plan ''t'' [] ''t'' [] [ex_join_cond] ex_targets [] [] 0 0) ex_db = Inr root \<and>
    select_from (\<lambda>_. 0) (Suc (Suc (Suc 0))) 2 2 root ex_targets (ex_db, Context_new (replicate BUFFER_LENGTH (CHR 0x00))) =
      Ok () (outfile_put (concat (map out_row (map tc_col ex_targets # map (target_text (join_cols ex_cols 8 ex_cols) ex_targets)
        (join_rows (join_cols ex_cols 8 ex_cols) [ex_join_cond] as bs)))) s', c) \<and>
    quiet ex_db s' \<and> open_ok ex_pages s'"
proof -
  have wf: "list_all (cond_wf (join_cols ex_cols 8 ex_cols)) [ex_join_cond]"
    by (simp add: cond_wf_def ex_join_cond_def exec_get_col_def join_cols_def ex_cols_def)
  show ?thesis
    using select_join_correct [where d = 0 and n = 2 and junk = "\<lambda>_. 0" and buf = "replicate BUFFER_LENGTH (CHR 0x00)" and jr = "Rid_of 0 0"
        and ?x1.0 = "[]" and ?x2.0 = "[]" and ?l1.0 = 0 and ?l2.0 = 0, OF ex_ready ex_ready, unfolded ex_ins_facts(4), OF wf ex_found(2)]
    unfolding ex_card by (simp add: ex_db_def ex_card numeral_2_eq_2)
qed

section \<open>Starting a join again\<close>

lemma begin_loop_ended: "begin_loop junk ops conds cols n m l1 r1 s1 = Ok (l2, r2, found) s2 \<Longrightarrow> \<not> found \<Longrightarrow> is_end l2 = Inr True"
proof (induction m arbitrary: l1 r1 s1)
  case (Suc m)
  obtain fin where fin: "is_end l1 = Inr fin" using Suc.prems(1) by (cases "is_end l1") simp_all
  show ?case
  proof (cases fin)
    case True
    then show ?thesis using fin Suc.prems by simp
  next
    case False
    obtain r3 hit s3 where r3: "right_loop junk ops conds cols n l1 r1 s1 = Ok (r3, hit) s3"
      using Suc.prems(1) fin False by (cases "right_loop junk ops conds cols n l1 r1 s1") auto
    have hit: "\<not> hit" using Suc.prems fin False r3 by (cases hit) simp_all
    obtain l4 s4 where l4: "ops NextTuple l1 s3 = Ok l4 s4" using Suc.prems(1) fin False r3 hit by (cases "ops NextTuple l1 s3") auto
    obtain fin4 where fin4: "is_end l4 = Inr fin4" using Suc.prems(1) fin False r3 hit l4 by (cases "is_end l4") simp_all
    obtain r5 s5 where r5: "(if fin4 then Ok r3 s4 else ops BeginTuple r3 s4) = Ok r5 s5"
      using Suc.prems(1) fin False r3 hit l4 fin4 by (cases "if fin4 then Ok r3 s4 else ops BeginTuple r3 s4") (simp_all split: if_splits)
    have "begin_loop junk ops conds cols n m l4 r5 s5 = Ok (l2, r2, found) s2"
      using Suc.prems(1) fin False r3 hit l4 fin4 r5 by (simp split: if_splits)
    then show ?thesis using Suc.IH Suc.prems(2) by blast
  qed
qed simp

text \<open>
  C35. A join can not be started again. \<open>nextTuple\<close> sets \<open>isend\<close> when the join is exhausted and \<open>beginTuple\<close> never resets it: where
  a fresh join would stand on its first pair, the used one stands on the same pair but reports the end. As the right input of another
  join, where it is started once per left row, a join therefore delivers its rows only for the first left row.
\<close>

theorem used_join_reports_end:
  assumes "run_op junk (Suc d) k BeginTuple (JoinExec l r cols len conds False) s = Ok (JoinExec l' r' cols' len' conds' False) s'"
  shows "run_op junk (Suc d) k BeginTuple (JoinExec l r cols len conds True) s = Ok (JoinExec l' r' cols' len' conds' True) s'"
proof -
  obtain l1 s1 fin where 1: "run_op junk d k BeginTuple l s = Ok l1 s1" "is_end l1 = Inr fin"
    using assms by (auto simp: join_begin_def bindO_Ok_iff pure_sm_Ok_iff)
  have fin: "fin = False" using assms 1 by (auto simp: join_begin_def)
  obtain r1 s2 where 2: "run_op junk d k BeginTuple r s1 = Ok r1 s2"
    using assms 1 fin by (auto simp: join_begin_def bindO_Ok_iff)
  obtain l2 r2 hit s3 where 3: "begin_loop junk (run_op junk d k) conds cols k k l1 r1 s2 = Ok (l2, r2, hit) s3"
    using assms 1 2 fin by (auto simp: join_begin_def bindO_Ok_iff)
  show ?thesis using assms 1 2 3 fin begin_loop_ended [OF 3] by (cases hit) (auto simp: join_begin_def)
qed

lemma ex_rows: "table_rows (rm_abs ex_tab1 ex_pool1) (conds_hold ex_cols []) [replicate 8 7]"
proof -
  have "rm_abs ex_tab ex_tab_pool = Map.empty"
    by (rule ext) (auto simp: rm_abs_def file_abs_def data_page_def ex_tab_def rm_new_hdr_def)
  then have "rm_abs ex_tab1 ex_pool1 = [ex_rid \<mapsto> replicate 8 7]" using ex_ins_facts(5) by simp
  then show ?thesis by (auto simp: table_rows_def table_rids_def conds_hold_def intro!: exI [of _ "[ex_rid]"])
qed

theorem used_join_reports_end_witness:
  "\<exists>l r l' r' cols len s'. run_op (\<lambda>_. 0) 2 2 BeginTuple (JoinExec l r cols len [] False) ex_db = Ok (JoinExec l' r' cols len [] False) s' \<and>
     run_op (\<lambda>_. 0) 2 2 BeginTuple (JoinExec l r cols len [] True) ex_db = Ok (JoinExec l' r' cols len [] True) s'"
proof -
  define c where "c = scan_template ''t'' [] ex_cols 8 (Rid_of 0 0)"
  let ?zs = "[replicate 8 (7 :: byte)]" and ?e = "SeqScanExec c"
  have ready: "table_ready ex_pages 2 ex_db ''t'' [] ex_tab1 ex_cols" using ex_ready ex_card by (simp add: numeral_2_eq_2)
  have zs: "table_rows (rm_abs ex_tab1 (sm_bpm ex_db)) (conds_hold ex_cols []) ?zs" using ex_rows by (simp add: ex_db_def)
  note idle = table_ready_scan(2) [OF ready zs, where jr = "Rid_of 0 0", unfolded ex_ins_facts(4), folded c_def]
  have g: "guarded_idle (join_guard c c []) (scan_idle ex_pages 2 ex_tab1 c ?zs) ?e ex_db" using idle by (simp add: guarded_idle_def)
  note b = nl.join_begin_ok [where junk = "\<lambda>_. 0" and d = 0, OF g idle]
  have ne: "nl.joined c c ?zs [] ?zs \<noteq> []" by (simp add: nl.joined_rows conds_hold_def)
  from b obtain l' r' isend s' where j: "join_begin (\<lambda>_. 0) (run_op (\<lambda>_. 0) (Suc 0) 2) 2 ?e ?e (nl.jcols c c) (ss_len c + ss_len c) [] False ex_db =
      Ok (JoinExec l' r' (nl.jcols c c) (ss_len c + ss_len c) [] isend) s'"
    "nl.join_pos c c [] ex_pages 2 ex_tab1 ?zs ex_tab1 ?zs l' r' (\<not> isend) (nl.joined c c ?zs [] ?zs) s'" by (elim exE conjE)
  have "isend = False" using nl.join_pos_end [OF j(2)] ne by simp
  note j(1) [unfolded this]
  then have r: "run_op (\<lambda>_. 0) (Suc 1) 2 BeginTuple (JoinExec ?e ?e (nl.jcols c c) (ss_len c + ss_len c) [] False) ex_db =
      Ok (JoinExec l' r' (nl.jcols c c) (ss_len c + ss_len c) [] False) s'" by simp
  show ?thesis using r used_join_reports_end [OF r] unfolding numeral_2_eq_2 One_nat_def by blast
qed

end
