(* ===== verification/Dml_Properties.thy ===== *)
theory Dml_Properties
  imports Select_Properties
begin

text \<open>
  \<open>DELETE\<close>, \<open>UPDATE\<close> and \<open>INSERT\<close> from the plan to the tables. The first two collect the record ids with a scan, as a query does,
  and then change the records one by one.
\<close>

section \<open>Changing one table of the database\<close>

definition edits :: "string \<Rightarrow> sm \<Rightarrow> sm \<Rightarrow> bool" where
  "edits t s s' \<longleftrightarrow> sm_db s' = sm_db s \<and> ihs s' = ihs s \<and>
     (\<forall>t' g. t' \<noteq> t \<longrightarrow> map_of (fhs s) t' = Some g \<longrightarrow>
        map_of (fhs s') t' = Some g \<and> rm_abs g (sm_bpm s') = rm_abs g (sm_bpm s))"

lemma edits_refl: "edits t s s"
  by (simp add: edits_def)

lemma edits_trans: "edits t a b \<Longrightarrow> edits t b c \<Longrightarrow> edits t a c"
  unfolding edits_def by metis

lemma quiet_edits: "quiet s s' \<Longrightarrow> edits t s s'"
  using quiet_table [of s s'] by (simp add: edits_def) (simp add: quiet_def)

lemma map_of_map_set: "map_of (map_set t v m) t' = (if t' = t then map_option (\<lambda>_. v) (map_of m t) else map_of m t')"
  by (induction m) (auto simp: map_set_def)

lemma on_fh_writes:
  assumes ok: "open_ok P s" and t: "map_of (fhs s) t = Some fh" and m: "m fh (sm_bpm s) = Ok a (fh', b')"
    and w: "writes P fh fh' (sm_bpm s) b'"
  obtains s' where "on_fh t m s = Ok a s'" and "open_ok P s'" and "edits t s s'" and "map_of (fhs s') t = Some fh'" and "sm_bpm s' = b'"
proof -
  let ?s = "s\<lparr>fhs := map_set t fh' (fhs s), sm_bpm := b'\<rparr>"
  have d: "distinct (map fst (fhs s))" "distinct (map (\<lambda>e. fh_fd (snd e)) (fhs s))" using ok by (auto simp: open_ok_def)
  have mem: "(t, fh) \<in> set (fhs s)" using map_of_SomeD [OF t] .
  have fd: "fh_fd g \<noteq> fh_fd fh" if e: "(t', g) \<in> set (fhs s)" "t' \<noteq> t" for t' g
  proof
    assume "fh_fd g = fh_fd fh"
    then have "(t', g) = (t, fh)" using d(2) e mem by (intro inj_onD [of "\<lambda>e. fh_fd (snd e)" "set (fhs s)"]) (simp_all add: distinct_map)
    then show False using e(2) by simp
  qed
  have others: "rm_inv g b'" "rm_abs g b' = rm_abs g (sm_bpm s)" if e: "(t', g) \<in> set (fhs s)" "t' \<noteq> t" for t' g
    using writes_other [OF w _ fd [OF e]] ok e(1) by (auto simp: open_ok_def)
  have uniq: "g = fh" if "(t, g) \<in> set (fhs s)" for g using d(1) that mem eq_key_imp_eq_value by metis
  have names: "map fst (map_set t fh' (fhs s)) = map fst (fhs s)" by (auto simp: map_set_def)
  have fds: "map (\<lambda>e. fh_fd (snd e)) (map_set t fh' (fhs s)) = map (\<lambda>e. fh_fd (snd e)) (fhs s)"
    using uniq w by (auto simp: map_set_def writes_def)
  have "rm_inv g b' \<and> file_pids g \<subseteq> P" if "(t', g) \<in> set (map_set t fh' (fhs s))" for t' g
  proof (cases "t' = t")
    case True
    then have "g = fh'" using that by (auto simp: map_set_def split: if_splits)
    then show ?thesis using w writes_pids [OF w] db_table(2) [OF ok t] by (simp add: writes_def)
  next
    case False
    then have "(t', g) \<in> set (fhs s)" using that by (auto simp: map_set_def split: if_splits)
    then show ?thesis using others(1) False ok by (fastforce simp: open_ok_def)
  qed
  then have open': "open_ok P ?s" using w d unfolding open_ok_def by (auto simp: names fds writes_def)
  have "edits t s ?s" using others(2) map_of_SomeD by (fastforce simp: edits_def map_of_map_set)
  then show thesis using that [of ?s] open' t m by (simp add: on_fh_def map_of_map_set)
qed

section \<open>Collecting record ids\<close>

lemma scan_at_rids: "scan_at P fh sel k x rs s \<Longrightarrow> set rs \<subseteq> dom (rm_abs fh (sm_bpm s))"
  unfolding scan_at_def all_rids_def by blast

lemma rids_loop_ok:
  assumes "scan_at P fh sel k x rs s" and "length rs < n"
  shows "\<exists>s'. rids_loop junk jr (Suc d) k n (SeqScanExec x) s = Ok rs s' \<and> quiet s s' \<and> open_ok P s'"
  using assms
proof (induction n arbitrary: x rs s)
  case (Suc n)
  show ?case
  proof (cases rs)
    case Nil
    then show ?thesis using Suc.prems(1) by (auto simp: scan_at_def)
  next
    case (Cons r rs')
    have "r \<in> dom (rm_abs fh (sm_bpm s))" using scan_at_rids [OF Suc.prems(1)] Cons by simp
    then have "\<not> scan_is_end r" using rm_abs_range [of fh "sm_bpm s" r] by (auto simp: data_page_def scan_is_end_def RM_NO_PAGE_def)
    then have e: "is_end (SeqScanExec x) = Inr False" "ss_rid x = r" using Suc.prems(1) Cons by (auto simp: scan_at_def)
    obtain x' s1 where n: "seq_next k x s = Ok x' s1" "quiet s s1" "scan_at P fh sel k x' rs' s1"
      using scan_at_next [OF Suc.prems(1) [unfolded Cons]] by blast
    obtain s' where "rids_loop junk jr (Suc d) k n (SeqScanExec x') s1 = Ok rs' s'" "quiet s1 s'" "open_ok P s'"
      using Suc.IH [OF n(3)] Suc.prems(2) Cons by auto
    then show ?thesis using e n(1,2) Cons quiet_trans by auto
  qed
qed simp

lemma collect_rids_ok:
  assumes t: "table_ready P k s t conds fh cols" and n: "card (dom (rm_abs fh (sm_bpm s))) < n"
  shows "\<exists>scan rs s'. SeqScan_new s t conds jr = Inr scan \<and> table_rids (rm_abs fh (sm_bpm s)) (conds_hold cols conds) rs \<and>
    collect_rids junk jr (Suc d) k n scan s = Ok rs s' \<and> quiet s s' \<and> open_ok P s'"
proof -
  obtain rs where rs: "table_rids (rm_abs fh (sm_bpm s)) (conds_hold cols conds) rs" using table_rids_ex by blast
  let ?zs = "map (\<lambda>r. the (rm_abs fh (sm_bpm s) r)) rs"
  let ?c = "scan_template t conds cols (record_size (file_hdr fh)) jr"
  have zs: "table_rows (rm_abs fh (sm_bpm s)) (conds_hold cols conds) ?zs" using rs by (auto simp: table_rows_def)
  note c = table_ready_scan [OF t zs, where jr = jr]
  have sc: "scannable P k fh ?c s" using c(2) by (simp add: scan_idle_def)
  have sel: "selected ?c = conds_hold cols conds" by (simp add: selected_def)
  have "same_scan ?c ?c" by (simp add: same_scan_def)
  note cs = scannable_sel [OF sc this, unfolded sel]
  have a: "open_ok P s" "map_of (fhs s) (ss_tab ?c) = Some fh" "card (dom (rm_abs fh (sm_bpm s))) < k" using sc by (auto simp: scannable_def)
  obtain x s1 where b: "seq_begin k ?c s = Ok x s1" "quiet s s1" "scan_at P fh (conds_hold cols conds) k x rs s1"
    using scan_at_begin [OF a(1,2) cs a(3)] rs all_rids_table by blast
  have "length rs < n" using table_rids_length [OF rs] n by simp
  then obtain s' where l: "rids_loop junk jr (Suc d) k n (SeqScanExec x) s1 = Ok rs s'" "quiet s1 s'" "open_ok P s'"
    using rids_loop_ok [OF b(3)] by blast
  have "collect_rids junk jr (Suc d) k n (SeqScanExec ?c) s = Ok rs s'" using b(1) l(1) by (simp add: collect_rids_def)
  then show ?thesis using c(1) rs quiet_trans [OF b(2) l(2)] l(3) by blast
qed

section \<open>Deleting\<close>

lemma delete_rids_ok:
  assumes "open_ok P s" and "map_of (fhs s) t = Some fh" and "distinct rs" and "set rs \<subseteq> dom (rm_abs fh (sm_bpm s))"
  shows "\<exists>fh' s'. delete_rids t rs s = Ok () s' \<and> open_ok P s' \<and> edits t s s' \<and> map_of (fhs s') t = Some fh' \<and>
    rm_abs fh' (sm_bpm s') = rm_abs fh (sm_bpm s) |` (- set rs)"
  using assms
proof (induction rs arbitrary: s fh)
  case Nil
  then show ?case by (auto simp: edits_refl)
next
  case (Cons r rs)
  note d = db_table [OF Cons.prems(1,2)]
  obtain x where x: "rm_abs fh (sm_bpm s) r = Some x" using Cons.prems(4) by auto
  obtain fh1 b1 where w: "delete_record r fh (sm_bpm s) = Ok () (fh1, b1)" "writes P fh fh1 (sm_bpm s) b1"
    "rm_abs fh1 b1 = (rm_abs fh (sm_bpm s))(r := None)" using delete_record_writes [OF d(1,3,2) x] by blast
  obtain s1 where s1: "on_fh t (delete_record r) s = Ok () s1" "open_ok P s1" "edits t s s1" "map_of (fhs s1) t = Some fh1" "sm_bpm s1 = b1"
    by (rule on_fh_writes [OF Cons.prems(1,2), where m = "delete_record r", OF w(1,2)])
  have T1: "rm_abs fh1 (sm_bpm s1) = (rm_abs fh (sm_bpm s))(r := None)" using w(3) s1(5) by simp
  have "distinct rs" "set rs \<subseteq> dom (rm_abs fh1 (sm_bpm s1))" using Cons.prems(3,4) T1 by auto
  from Cons.IH [OF s1(2,4) this] obtain fh' s' where f: "delete_rids t rs s1 = Ok () s'" "open_ok P s'" "edits t s1 s'"
    "map_of (fhs s') t = Some fh'" "rm_abs fh' (sm_bpm s') = rm_abs fh1 (sm_bpm s1) |` (- set rs)" by blast
  have "rm_abs fh1 (sm_bpm s1) |` (- set rs) = rm_abs fh (sm_bpm s) |` (- set (r # rs))"
    unfolding T1 by (auto simp: restrict_map_def fun_eq_iff)
  then show ?case using s1(1) f edits_trans [OF s1(3) f(3)] by auto
qed

section \<open>Updating\<close>

text \<open>The bytes of a value in a column, and the row after the assignments of \<open>SET\<close>.\<close>

definition val_bytes :: "int \<Rightarrow> Val \<Rightarrow> bytes" where
  "val_bytes len v = (if vtype v = TYPE_STRING then pad (nat len) (str_val v) else enc_word (num_val v))"

definition val_fits :: "ColMeta \<Rightarrow> Val \<Rightarrow> bool" where
  "val_fits c v \<longleftrightarrow> vtype v = cm_type c \<and> (vtype v = TYPE_STRING \<longrightarrow> int (length (str_val v)) \<le> cm_len c)"

fun set_cols :: "ColMeta list \<Rightarrow> SetClause list \<Rightarrow> bytes \<Rightarrow> bytes" where
  "set_cols cols [] x = x"
| "set_cols cols (sc # scs) x =
     (case find (\<lambda>c. cm_name c = tc_col (sc_lhs sc)) cols of
        None \<Rightarrow> x
      | Some c \<Rightarrow> set_cols cols scs (mem_write x (nat (cm_offset c)) (val_bytes (cm_len c) (sc_rhs sc))))"

definition sets_ok :: "ColMeta list \<Rightarrow> SetClause list \<Rightarrow> bool" where
  "sets_ok cols scs \<longleftrightarrow> list_all (\<lambda>sc. case find (\<lambda>c. cm_name c = tc_col (sc_lhs sc)) cols of
     None \<Rightarrow> False | Some c \<Rightarrow> val_fits c (sc_rhs sc)) scs"

lemma init_raw_val:
  assumes "val_fits c v" and "raw v = None" and "cm_type c \<noteq> TYPE_STRING \<longrightarrow> cm_len c = 4"
  shows "\<exists>v' r. run_init_raw junk (cm_len c) v = Inr v' \<and> raw v' = Some r \<and> rec_data r = val_bytes (cm_len c) v"
  using assms
  by (cases "vtype v") (auto simp: val_fits_def run_init_raw_def init_raw_def val_bytes_def Let_def RmRecord_alloc_def mem_write_def
      pad_def str_bytes_def)

lemma val_bytes_length:
  assumes "val_fits c v" and "cols_ok n cols" and "c \<in> set cols"
  shows "int (length (val_bytes (cm_len c) v)) = cm_len c"
  using cols_okD(2) [OF assms(2,3)] assms by (auto simp: val_bytes_def val_fits_def pad_def cols_ok_def list_all_iff str_bytes_def)

lemma fill_value_ok:
  assumes fits: "val_fits c v" and r: "raw v = None" and ok: "cols_ok (int (length d)) cols" and c: "c \<in> set cols"
  shows "fill_value junk c v (Inr d) = Inr (mem_write d (nat (cm_offset c)) (val_bytes (cm_len c) v))"
proof -
  have "cm_type c \<noteq> TYPE_STRING \<longrightarrow> cm_len c = 4" using ok c by (auto simp: cols_ok_def list_all_iff)
  then obtain v' x where v': "run_init_raw junk (cm_len c) v = Inr v'" "raw v' = Some x" "rec_data x = val_bytes (cm_len c) v"
    using init_raw_val [OF fits r] by blast
  note len = val_bytes_length [OF fits ok c] and k = cols_okD [OF ok c]
  have "peek (val_bytes (cm_len c) v) 0 (cm_len c) = Inr (val_bytes (cm_len c) v)" by (rule peek_all [OF len])
  then show ?thesis using v' fits k len by (simp add: fill_value_def check_types_def val_fits_def deref_def poke_def)
qed

lemma apply_sets_ok:
  assumes "sets_ok (tm_cols m) scs" and "cols_ok (int (length d)) (tm_cols m)"
  shows "apply_sets junk m scs (Inr d) = Inr (set_cols (tm_cols m) scs d) \<and> length (set_cols (tm_cols m) scs d) = length d"
  using assms
proof (induction scs arbitrary: d)
  case (Cons sc scs)
  then obtain c where c: "find (\<lambda>c. cm_name c = tc_col (sc_lhs sc)) (tm_cols m) = Some c" "val_fits c (sc_rhs sc)"
    by (auto simp: sets_ok_def split: option.splits)
  have mem: "c \<in> set (tm_cols m)" using c(1) by (auto simp: find_Some_iff)
  let ?v = "(sc_rhs sc)\<lparr>raw := None\<rparr>" and ?d = "mem_write d (nat (cm_offset c)) (val_bytes (cm_len c) (sc_rhs sc))"
  have v: "val_fits c ?v" "raw ?v = None" "val_bytes (cm_len c) ?v = val_bytes (cm_len c) (sc_rhs sc)"
    using c(2) by (simp_all add: val_fits_def val_bytes_def)
  note f = fill_value_ok [OF v(1,2) Cons.prems(2) mem, unfolded v(3)]
  have len: "length ?d = length d" using cols_okD(1-3) [OF Cons.prems(2) mem] by simp
  then show ?case using Cons.IH [of ?d] Cons.prems f c(1) by (simp add: tab_get_col_def throwing_def sets_ok_def)
qed simp

lemma update_rids_ok:
  assumes "open_ok P s" and "map_of (fhs s) t = Some fh" and "distinct rs" and "set rs \<subseteq> dom (rm_abs fh (sm_bpm s))"
    and "cols_ok (record_size (file_hdr fh)) (tm_cols m)" and "sets_ok (tm_cols m) scs"
  shows "\<exists>s'. update_rids junk m t scs rs s = Ok () s' \<and> open_ok P s' \<and> edits t s s' \<and> map_of (fhs s') t = Some fh \<and>
    rm_abs fh (sm_bpm s') = (\<lambda>r. if r \<in> set rs then map_option (set_cols (tm_cols m) scs) (rm_abs fh (sm_bpm s) r)
                                 else rm_abs fh (sm_bpm s) r)"
  using assms
proof (induction rs arbitrary: s)
  case Nil
  then show ?case by (auto simp: edits_refl)
next
  case (Cons r rs)
  obtain x where x: "rm_abs fh (sm_bpm s) r = Some x" using Cons.prems(4) by auto
  obtain s1 where s1: "on_fh t (get_record r) s = Ok (Some (rec_of fh x)) s1" "open_ok P s1" "quiet s s1"
    using get_record_quiet [OF Cons.prems(1,2) x] by blast
  note q = quiet_table [OF s1(3) Cons.prems(2)]
  note d = db_table [OF s1(2) q(1)]
  have len: "int (length x) = record_size (file_hdr fh)" using rm_abs_length [OF db_table(1) [OF Cons.prems(1,2)] x] .
  let ?u = "set_cols (tm_cols m) scs"
  have u: "apply_sets junk m scs (Inr x) = Inr (?u x)" "int (length (?u x)) = record_size (file_hdr fh)"
    using apply_sets_ok [OF Cons.prems(6), of x] Cons.prems(5) len by simp_all
  obtain b2 where w: "update_record r (?u x) fh (sm_bpm s1) = Ok () (fh, b2)" "writes P fh fh (sm_bpm s1) b2"
    "rm_abs fh b2 = (rm_abs fh (sm_bpm s1))(r \<mapsto> ?u x)" using update_record_writes [OF d(1,3,2), of r x "?u x"] x q(2) u(2) by auto
  obtain s2 where s2: "on_fh t (update_record r (?u x)) s1 = Ok () s2" "open_ok P s2" "edits t s1 s2" "map_of (fhs s2) t = Some fh" "sm_bpm s2 = b2"
    by (rule on_fh_writes [OF s1(2) q(1), where m = "update_record r (?u x)", OF w(1,2)])
  have T2: "rm_abs fh (sm_bpm s2) = (rm_abs fh (sm_bpm s))(r \<mapsto> ?u x)" using w(3) s2(5) q(2) by simp
  have "distinct rs" "set rs \<subseteq> dom (rm_abs fh (sm_bpm s2))" using Cons.prems(3,4) T2 by auto
  from Cons.IH [OF s2(2,4) this Cons.prems(5,6)] obtain s' where f: "update_rids junk m t scs rs s2 = Ok () s'" "open_ok P s'" "edits t s2 s'"
    "map_of (fhs s') t = Some fh"
    "rm_abs fh (sm_bpm s') = (\<lambda>r. if r \<in> set rs then map_option ?u (rm_abs fh (sm_bpm s2) r) else rm_abs fh (sm_bpm s2) r)" by blast
  have "rm_abs fh (sm_bpm s') = (\<lambda>r'. if r' \<in> set (r # rs) then map_option ?u (rm_abs fh (sm_bpm s) r') else rm_abs fh (sm_bpm s) r')"
    unfolding f(5) T2 using x Cons.prems(3) by (auto simp: fun_eq_iff)
  moreover have "edits t s s'" using edits_trans [OF edits_trans [OF quiet_edits [OF s1(3)] s2(3)] f(3)] .
  moreover have "update_rids junk m t scs (r # rs) s = Ok () s'" using s1(1) u(1) s2(1) f(1) by (simp add: deref_def rec_of_def)
  ultimately show ?case using f(2,4) by blast
qed

section \<open>Inserting\<close>

text \<open>Columns one behind the other, as \<open>create_table\<close> makes them.\<close>

fun tiled :: "int \<Rightarrow> ColMeta list \<Rightarrow> int \<Rightarrow> bool" where
  "tiled off [] end \<longleftrightarrow> off = end"
| "tiled off (c # cs) end \<longleftrightarrow> cm_offset c = off \<and> 0 \<le> cm_len c \<and> (cm_type c \<noteq> TYPE_STRING \<longrightarrow> cm_len c = 4) \<and>
     tiled (off + cm_len c) cs end"

definition row_of :: "ColMeta list \<Rightarrow> Val list \<Rightarrow> bytes" where
  "row_of cols vals = concat (map2 (\<lambda>c v. val_bytes (cm_len c) v) cols vals)"

definition vals_ok :: "ColMeta list \<Rightarrow> Val list \<Rightarrow> bool" where
  "vals_ok cols vals \<longleftrightarrow> list_all2 (\<lambda>c v. val_fits c v \<and> raw v = None) cols vals"

lemma tiled_le: "tiled off cols end \<Longrightarrow> off \<le> end"
  by (induction cols arbitrary: off) force+

lemma tiled_cols_ok: "tiled off cols end \<Longrightarrow> 0 \<le> off \<Longrightarrow> cols_ok end cols"
proof (induction cols arbitrary: off)
  case (Cons c cols)
  have t: "tiled (off + cm_len c) cols end" using Cons.prems(1) by simp
  have "cols_ok end cols" using Cons.IH [OF t] Cons.prems by simp
  moreover have "off + cm_len c \<le> end" using tiled_le [OF t] .
  ultimately show ?case using Cons.prems by (simp add: cols_ok_def)
qed (simp add: cols_ok_def)

lemma fill_values_ok:
  assumes "vals_ok cols vals" and "tiled off cols (int (length d))" and "0 \<le> off"
  shows "fill_values junk (zip cols vals) d = Inr (take (nat off) d @ row_of cols vals)"
  using assms
proof (induction cols arbitrary: off vals d)
  case Nil
  then show ?case by (auto simp: row_of_def vals_ok_def)
next
  case (Cons c cols)
  then obtain v vs where vs: "vals = v # vs" "val_fits c v" "raw v = None" "vals_ok cols vs"
    by (auto simp: vals_ok_def list_all2_Cons1)
  have ok: "cols_ok (int (length d)) (c # cols)" using tiled_cols_ok [OF Cons.prems(2,3)] .
  have t: "cm_offset c = off" "tiled (off + cm_len c) cols (int (length d))" using Cons.prems(2) by simp_all
  let ?x = "val_bytes (cm_len c) v" and ?d = "mem_write d (nat off) (val_bytes (cm_len c) v)"
  have c: "c \<in> set (c # cols)" by simp
  have f: "fill_value junk c v (Inr d) = Inr ?d" using fill_value_ok [OF vs(2,3) ok c] t(1) by simp
  have lx: "int (length ?x) = cm_len c" using val_bytes_length [OF vs(2) ok c] .
  have fits: "nat off + length ?x \<le> length d" using tiled_le [OF t(2)] lx Cons.prems(3) by linarith
  have len: "length ?d = length d" using fits by simp
  have off: "nat (off + cm_len c) = nat off + length ?x" using lx Cons.prems(3) by linarith
  have "fill_values junk (zip cols vs) ?d = Inr (take (nat (off + cm_len c)) ?d @ row_of cols vs)"
    by (rule Cons.IH [OF vs(4)]) (use t(2) len lx Cons.prems(3) in simp_all)
  moreover have "take (nat (off + cm_len c)) ?d = take (nat off) d @ ?x" using fits by (simp add: off mem_write_def)
  ultimately show ?case using f vs(1) by (simp add: row_of_def)
qed

text \<open>Reading the text of the columns of such a row gives the values back.\<close>

definition val_text :: "Val \<Rightarrow> string" where
  "val_text v = (case vtype v of TYPE_INT \<Rightarrow> to_string (sint (num_val v)) | TYPE_FLOAT \<Rightarrow> float_to_string (num_val v) | TYPE_STRING \<Rightarrow> str_val v)"

lemma takeWhile_pad:
  assumes "CHR 0x00 \<notin> set x"
  shows "bytes_str (takeWhile (\<lambda>b. b \<noteq> 0) (pad n x)) = x"
proof -
  have "takeWhile (\<lambda>b. b \<noteq> 0) (str_bytes x @ replicate k 0) = str_bytes x" for k
    using assms by (induction x) (auto simp: str_bytes_def char_byte_zero takeWhile_replicate)
  then have "takeWhile (\<lambda>b. b \<noteq> 0) (pad n x) = str_bytes x" by (simp add: pad_def)
  moreover have "bytes_str (str_bytes x) = x"
    by (induction x) (simp_all add: bytes_str_def str_bytes_def unat_of_nat of_char_mod_256)
  ultimately show ?thesis by simp
qed

lemma val_bytes_text:
  assumes "val_fits c v" and "CHR 0x00 \<notin> set (str_val v)" and "col_val c x = val_bytes (cm_len c) v"
  shows "col_str c x = val_text v"
proof (cases "vtype v")
  case TYPE_STRING
  then show ?thesis using assms takeWhile_pad [OF assms(2)] by (simp add: col_str_def val_text_def val_fits_def val_bytes_def)
next
  case TYPE_INT
  then have "cm_type c = TYPE_INT" "col_val c x = enc_word (num_val v) @ []" using assms by (simp_all add: val_fits_def val_bytes_def)
  then show ?thesis using TYPE_INT by (simp only: col_str_def val_text_def dec32_enc_word ColType.case)
next
  case TYPE_FLOAT
  then have "cm_type c = TYPE_FLOAT" "col_val c x = enc_word (num_val v) @ []" using assms by (simp_all add: val_fits_def val_bytes_def)
  then show ?thesis using TYPE_FLOAT by (simp only: col_str_def val_text_def dec_enc_word ColType.case)
qed

lemma row_of_length: "vals_ok cols vals \<Longrightarrow> tiled off cols end \<Longrightarrow> 0 \<le> off \<Longrightarrow> int (length (row_of cols vals)) = end - off"
proof (induction cols arbitrary: off vals)
  case (Cons c cols)
  then obtain v vs where vs: "vals = v # vs" "val_fits c v" "vals_ok cols vs" by (auto simp: vals_ok_def list_all2_Cons1)
  have "int (length (val_bytes (cm_len c) v)) = cm_len c"
    using val_bytes_length [OF vs(2) tiled_cols_ok [OF Cons.prems(2,3)]] by simp
  then show ?case using Cons.IH [OF vs(3), of "off + cm_len c"] Cons.prems(2,3) vs(1) by (simp add: row_of_def)
qed (simp add: row_of_def vals_ok_def)

lemma row_of_text:
  assumes "vals_ok cols vals" and "tiled off cols end" and "int (length pre) = off" and "list_all (\<lambda>v. CHR 0x00 \<notin> set (str_val v)) vals"
  shows "row_text cols (pre @ row_of cols vals) = map val_text vals"
  using assms
proof (induction cols arbitrary: off vals pre)
  case Nil
  then show ?case by (simp add: row_text_def vals_ok_def)
next
  case (Cons c cols)
  then obtain v vs where vs: "vals = v # vs" "val_fits c v" "vals_ok cols vs" by (auto simp: vals_ok_def list_all2_Cons1)
  let ?x = "val_bytes (cm_len c) v"
  have off: "0 \<le> off" using Cons.prems(3) by simp
  have lx: "int (length ?x) = cm_len c" using val_bytes_length [OF vs(2) tiled_cols_ok [OF Cons.prems(2) off]] by simp
  have "nat (cm_offset c) = length pre" "nat (cm_len c) = length ?x" using Cons.prems(2,3) lx by auto
  then have "col_val c (pre @ ?x @ row_of cols vs) = ?x" by (simp add: col_val_def mem_read_def)
  from val_bytes_text [OF vs(2) _ this] have 1: "col_str c (pre @ ?x @ row_of cols vs) = val_text v" using Cons.prems(4) vs(1) by simp
  have "row_text cols ((pre @ ?x) @ row_of cols vs) = map val_text vs"
    by (rule Cons.IH [OF vs(3), of "off + cm_len c"]) (use Cons.prems lx vs(1) in simp_all)
  then show ?case using 1 vs(1) by (simp add: row_text_def row_of_def)
qed

definition handles_kept :: "string \<Rightarrow> sm \<Rightarrow> sm \<Rightarrow> bool" where
  "handles_kept t s s' \<longleftrightarrow> (\<forall>t'. t' \<noteq> t \<longrightarrow> map_of (fhs s') t' = map_of (fhs s) t')"

lemma insert_next_ok:
  assumes inv: "rm_inv fh (sm_bpm s)" and ff: "frame_free (sm_bpm s)" and t: "map_of (fhs s) t = Some fh"
    and tile: "tiled 0 (tm_cols m) (record_size (file_hdr fh))" and vals: "vals_ok (tm_cols m) vals"
    and ix: "tm_indexes m = []" and np: "num_pages (file_hdr fh) + 1 < 2 ^ 31"
  shows "\<exists>rid fh' s'. insert_next junk m vals t s = Ok None s' \<and> map_of (fhs s') t = Some fh' \<and> rm_inv fh' (sm_bpm s') \<and>
    frame_free (sm_bpm s') \<and> rm_abs fh (sm_bpm s) rid = None \<and>
    rm_abs fh' (sm_bpm s') = (rm_abs fh (sm_bpm s))(rid \<mapsto> row_of (tm_cols m) vals) \<and> others_kept (fh_fd fh) (sm_bpm s) (sm_bpm s') \<and>
    handles_kept t s s' \<and> sm_db s' = sm_db s \<and> ihs s' = ihs s"
proof -
  let ?blank = "map junk [0..<nat (record_size (file_hdr fh))]" and ?d = "row_of (tm_cols m) vals"
  have rs: "0 \<le> record_size (file_hdr fh)" using tiled_le [OF tile] .
  then have "tiled 0 (tm_cols m) (int (length ?blank))" using tile by simp
  from fill_values_ok [OF vals this] have fill: "fill_values junk (zip (tm_cols m) vals) ?blank = Inr ?d" by simp
  have len: "int (length ?d) = record_size (file_hdr fh)" using row_of_length [OF vals tile] by simp
  then have le: "record_size (file_hdr fh) \<le> int (length ?d)" by simp
  obtain rid fh' b' where i: "insert_record ?d fh (sm_bpm s) = Ok rid (fh', b')" "rm_inv fh' b'" "frame_free b'" "rm_abs fh (sm_bpm s) rid = None"
    "rm_abs fh' b' = (rm_abs fh (sm_bpm s))(rid \<mapsto> take (nat (record_size (file_hdr fh))) ?d)" "others_kept (fh_fd fh) (sm_bpm s) b'"
    using insert_record_ok [OF inv ff le np] by blast
  let ?s = "s\<lparr>fhs := map_set t fh' (fhs s), sm_bpm := b'\<rparr>"
  have "nat (record_size (file_hdr fh)) = length ?d" using len by linarith
  then have "take (nat (record_size (file_hdr fh))) ?d = ?d" by simp
  moreover have "insert_next junk m vals t s = Ok None ?s" using t fill i(1) ix by (simp add: insert_next_def on_fh_def)
  ultimately show ?thesis using i(2-6) t by (intro exI [of _ rid] exI [of _ fh'] exI [of _ ?s]) (simp add: map_of_map_set handles_kept_def)
qed

section \<open>Properties\<close>

text \<open>
  C8. \<open>DELETE FROM t WHERE conds\<close>. Starting the portal on the plan collects the record ids with a scan, running it deletes them:
  afterwards the abstract table holds exactly the records that did not satisfy the conditions, under the same record ids; every other
  table is unchanged, and the database is in a valid state again.
\<close>

theorem delete_where_correct:
  assumes "table_ready P k s t conds fh cols" and "card (dom (rm_abs fh (sm_bpm s))) < n"
  shows "\<exists>stmt s1 s2 fh'. portal_start junk jr (Suc d) k n (DMLPlan T_Delete (ScanPlan T_SeqScan t x conds l []) t [] conds []) s = Ok stmt s1 \<and>
    ps_tag stmt = PORTAL_DML_WITHOUT_SELECT \<and> run_dml junk (ps_root stmt) s1 = Ok () s2 \<and> open_ok P s2 \<and> edits t s s2 \<and>
    map_of (fhs s2) t = Some fh' \<and>
    rm_abs fh' (sm_bpm s2) = (\<lambda>r. case rm_abs fh (sm_bpm s) r of
        None \<Rightarrow> None | Some v \<Rightarrow> if conds_hold cols conds v then None else Some v)"
proof -
  obtain scan rs s1 where c: "SeqScan_new s t conds jr = Inr scan" "table_rids (rm_abs fh (sm_bpm s)) (conds_hold cols conds) rs"
    "collect_rids junk jr (Suc d) k n scan s = Ok rs s1" "quiet s s1" "open_ok P s1" using collect_rids_ok [OF assms] by blast
  obtain m where m: "get_table t (sm_db s) = Inr m" "map_of (fhs s) t = Some fh" using assms(1) by (auto simp: table_ready_def)
  note q = quiet_table [OF c(4) m(2)]
  have del: "Delete_new s1 t rs = Inr (DeleteExec t rs)"
    using m(1) q(1) c(4) by (simp add: Delete_new_def fhs_at_def throwing_def quiet_def)
  have set: "set rs = {r. \<exists>v. rm_abs fh (sm_bpm s) r = Some v \<and> conds_hold cols conds v}" "distinct rs"
    using c(2) rids_distinct by (auto simp: table_rids_def)
  then have "set rs \<subseteq> dom (rm_abs fh (sm_bpm s1))" using q(2) by auto
  from delete_rids_ok [OF c(5) q(1) set(2) this] obtain fh' s2 where d: "delete_rids t rs s1 = Ok () s2" "open_ok P s2" "edits t s1 s2"
    "map_of (fhs s2) t = Some fh'" "rm_abs fh' (sm_bpm s2) = rm_abs fh (sm_bpm s1) |` (- set rs)" by blast
  have "rm_abs fh' (sm_bpm s2) = (\<lambda>r. case rm_abs fh (sm_bpm s) r of None \<Rightarrow> None | Some v \<Rightarrow> if conds_hold cols conds v then None else Some v)"
    unfolding d(5) q(2) set(1) by (auto simp: restrict_map_def fun_eq_iff split: option.splits)
  moreover have "edits t s s2" using edits_trans [OF quiet_edits [OF c(4)] d(3)] .
  ultimately show ?thesis using c(1,3) del d(1,2,4)
    by (intro exI [of _ "PortalStmt_new PORTAL_DML_WITHOUT_SELECT [] (DeleteExec t rs) (DMLPlan T_Delete (ScanPlan T_SeqScan t x conds l []) t [] conds [])"]
        exI [of _ s1] exI [of _ s2] exI [of _ fh']) (simp add: portal_start_def PortalStmt_new_def run_dml_def exec_next_def)
qed

lemma ex_ready2: "table_ready ex_pages 2 ex_db ''t'' [] ex_tab1 ex_cols"
  using ex_ready ex_card by (simp add: numeral_2_eq_2)

lemma ex_card2: "card (dom (rm_abs ex_tab1 (sm_bpm ex_db))) < 2"
  using ex_card by (simp add: ex_db_def)

theorem delete_where_correct_witness:
  "\<exists>stmt s1 s2 fh'. portal_start (\<lambda>_. 0) (Rid_of 0 0) 1 2 2 (DMLPlan T_Delete (ScanPlan T_SeqScan ''t'' [] [] 0 []) ''t'' [] [] []) ex_db = Ok stmt s1 \<and>
    ps_tag stmt = PORTAL_DML_WITHOUT_SELECT \<and> run_dml (\<lambda>_. 0) (ps_root stmt) s1 = Ok () s2 \<and> open_ok ex_pages s2 \<and> edits ''t'' ex_db s2 \<and>
    map_of (fhs s2) ''t'' = Some fh' \<and>
    rm_abs fh' (sm_bpm s2) = (\<lambda>r. case rm_abs ex_tab1 (sm_bpm ex_db) r of
        None \<Rightarrow> None | Some v \<Rightarrow> if conds_hold ex_cols [] v then None else Some v)"
  using delete_where_correct [where d = 0, OF ex_ready2 ex_card2] by simp

text \<open>
  C9. \<open>UPDATE t SET ... WHERE conds\<close>. Afterwards every record that satisfied the conditions has the assigned columns
  replaced by the encoded values, all other records and all other tables are unchanged, and no record moved. The scan ends before the
  first record is changed, so a record is never updated twice.
\<close>

theorem update_where_correct:
  assumes "table_ready P k s t conds fh cols" and "card (dom (rm_abs fh (sm_bpm s))) < n" and "sets_ok cols scs"
  shows "\<exists>stmt s1 s2. portal_start junk jr (Suc d) k n (DMLPlan T_Update (ScanPlan T_SeqScan t x conds l []) t [] conds scs) s = Ok stmt s1 \<and>
    ps_tag stmt = PORTAL_DML_WITHOUT_SELECT \<and> run_dml junk (ps_root stmt) s1 = Ok () s2 \<and> open_ok P s2 \<and> edits t s s2 \<and>
    map_of (fhs s2) t = Some fh \<and>
    rm_abs fh (sm_bpm s2) = (\<lambda>r. case rm_abs fh (sm_bpm s) r of
        None \<Rightarrow> None | Some v \<Rightarrow> Some (if conds_hold cols conds v then set_cols cols scs v else v))"
proof -
  obtain scan rs s1 where c: "SeqScan_new s t conds jr = Inr scan" "table_rids (rm_abs fh (sm_bpm s)) (conds_hold cols conds) rs"
    "collect_rids junk jr (Suc d) k n scan s = Ok rs s1" "quiet s s1" "open_ok P s1" using collect_rids_ok [OF assms(1,2)] by blast
  obtain m where m: "get_table t (sm_db s) = Inr m" "map_of (fhs s) t = Some fh" "tm_cols m = cols" "cols_ok (record_size (file_hdr fh)) cols"
    using assms(1) by (auto simp: table_ready_def)
  note q = quiet_table [OF c(4) m(2)]
  have upd: "Update_new s1 t scs rs = Inr (UpdateExec m t scs rs)"
    using m(1) q(1) c(4) by (simp add: Update_new_def fhs_at_def throwing_def quiet_def)
  have set: "set rs = {r. \<exists>v. rm_abs fh (sm_bpm s) r = Some v \<and> conds_hold cols conds v}" "distinct rs"
    using c(2) rids_distinct by (auto simp: table_rids_def)
  then have sub: "set rs \<subseteq> dom (rm_abs fh (sm_bpm s1))" using q(2) by auto
  from update_rids_ok [OF c(5) q(1) set(2) sub, of m scs junk] m(3,4) assms(3) obtain s2 where d: "update_rids junk m t scs rs s1 = Ok () s2"
    "open_ok P s2" "edits t s1 s2" "map_of (fhs s2) t = Some fh"
    "rm_abs fh (sm_bpm s2) = (\<lambda>r. if r \<in> set rs then map_option (set_cols cols scs) (rm_abs fh (sm_bpm s1) r) else rm_abs fh (sm_bpm s1) r)"
    by auto
  have "rm_abs fh (sm_bpm s2) = (\<lambda>r. case rm_abs fh (sm_bpm s) r of
      None \<Rightarrow> None | Some v \<Rightarrow> Some (if conds_hold cols conds v then set_cols cols scs v else v))"
    unfolding d(5) q(2) set(1) by (auto simp: fun_eq_iff split: option.splits)
  moreover have "edits t s s2" using edits_trans [OF quiet_edits [OF c(4)] d(3)] .
  ultimately show ?thesis using c(1,3) upd d(1,2,4)
    by (intro exI [of _ "PortalStmt_new PORTAL_DML_WITHOUT_SELECT [] (UpdateExec m t scs rs) (DMLPlan T_Update (ScanPlan T_SeqScan t x conds l []) t [] conds scs)"]
        exI [of _ s1] exI [of _ s2]) (simp add: portal_start_def PortalStmt_new_def run_dml_def exec_next_def)
qed

definition ex_set :: "SetClause list" where
  "ex_set = [\<lparr>sc_lhs = \<lparr>tc_tab = ''t'', tc_col = ''x''\<rparr>, sc_rhs = Val_new TYPE_STRING 0 ''ab''\<rparr>]"

lemma ex_set_ok: "sets_ok ex_cols ex_set"
  by (simp add: sets_ok_def ex_cols_def ex_set_def val_fits_def Val_new_def)

theorem update_where_correct_witness:
  "\<exists>stmt s1 s2. portal_start (\<lambda>_. 0) (Rid_of 0 0) 1 2 2 (DMLPlan T_Update (ScanPlan T_SeqScan ''t'' [] [] 0 []) ''t'' [] [] ex_set) ex_db = Ok stmt s1 \<and>
    ps_tag stmt = PORTAL_DML_WITHOUT_SELECT \<and> run_dml (\<lambda>_. 0) (ps_root stmt) s1 = Ok () s2 \<and> open_ok ex_pages s2 \<and> edits ''t'' ex_db s2 \<and>
    map_of (fhs s2) ''t'' = Some ex_tab1 \<and>
    rm_abs ex_tab1 (sm_bpm s2) = (\<lambda>r. case rm_abs ex_tab1 (sm_bpm ex_db) r of
        None \<Rightarrow> None | Some v \<Rightarrow> Some (if conds_hold ex_cols [] v then set_cols ex_cols ex_set v else v))"
  using update_where_correct [where d = 0, OF ex_ready2 ex_card2 ex_set_ok] by simp

text \<open>
  C10. \<open>INSERT INTO t VALUES (...)\<close> on a table without indexes. The record is the concatenation of the encoded values, stored under a
  fresh record id; nothing of the uninitialised buffer remains in it, and reading its columns as text gives back the values that were
  inserted.
\<close>

theorem insert_values_correct:
  assumes "rm_inv fh (sm_bpm s)" and "frame_free (sm_bpm s)" and "map_of (fhs s) t = Some fh" and "get_table t (sm_db s) = Inr m"
    and "tiled 0 (tm_cols m) (record_size (file_hdr fh))" and "vals_ok (tm_cols m) vals" and "tm_indexes m = []"
    and "num_pages (file_hdr fh) + 1 < 2 ^ 31" and "list_all (\<lambda>v. CHR 0x00 \<notin> set (str_val v)) vals"
  shows "\<exists>stmt rid fh' s' row. portal_start junk jr d k n (DMLPlan T_Insert NullPlan t vals [] []) s = Ok stmt s \<and>
    ps_tag stmt = PORTAL_DML_WITHOUT_SELECT \<and> run_dml junk (ps_root stmt) s = Ok () s' \<and>
    map_of (fhs s') t = Some fh' \<and> rm_inv fh' (sm_bpm s') \<and> frame_free (sm_bpm s') \<and> rm_abs fh (sm_bpm s) rid = None \<and>
    rm_abs fh' (sm_bpm s') = (rm_abs fh (sm_bpm s))(rid \<mapsto> row) \<and> row = row_of (tm_cols m) vals \<and>
    row_text (tm_cols m) row = map val_text vals \<and> others_kept (fh_fd fh) (sm_bpm s) (sm_bpm s') \<and>
    handles_kept t s s'"
proof -
  let ?root = "InsertExec m vals t" and ?p = "DMLPlan T_Insert NullPlan t vals [] []"
  have "length vals = length (tm_cols m)" using assms(6) by (simp add: vals_ok_def list_all2_lengthD)
  then have new: "Insert_new s t vals = Inr ?root" using assms(3,4) by (simp add: Insert_new_def fhs_at_def throwing_def)
  obtain rid fh' s' where i: "insert_next junk m vals t s = Ok None s'" "map_of (fhs s') t = Some fh'" "rm_inv fh' (sm_bpm s')"
    "frame_free (sm_bpm s')" "rm_abs fh (sm_bpm s) rid = None" "rm_abs fh' (sm_bpm s') = (rm_abs fh (sm_bpm s))(rid \<mapsto> row_of (tm_cols m) vals)"
    "others_kept (fh_fd fh) (sm_bpm s) (sm_bpm s')" "handles_kept t s s'"
    using insert_next_ok [OF assms(1-3,5-8)] by blast
  have shown: "row_text (tm_cols m) (row_of (tm_cols m) vals) = map val_text vals"
    using row_of_text [OF assms(6,5) _ assms(9), of "[]"] by simp
  show ?thesis using new i shown
    by (intro exI [of _ "PortalStmt_new PORTAL_DML_WITHOUT_SELECT [] ?root ?p"] exI [of _ rid] exI [of _ fh'] exI [of _ s']
        exI [of _ "row_of (tm_cols m) vals"]) (simp add: portal_start_def PortalStmt_new_def run_dml_def exec_next_def)
qed

theorem insert_values_correct_witness:
  "\<exists>stmt rid fh' s' row. portal_start (\<lambda>_. 0) (Rid_of 0 0) 1 1 1 (DMLPlan T_Insert NullPlan ''t'' [Val_new TYPE_STRING 0 ''abc''] [] []) ex_db = Ok stmt ex_db \<and>
    ps_tag stmt = PORTAL_DML_WITHOUT_SELECT \<and> run_dml (\<lambda>_. 0) (ps_root stmt) ex_db = Ok () s' \<and>
    map_of (fhs s') ''t'' = Some fh' \<and> rm_inv fh' (sm_bpm s') \<and> frame_free (sm_bpm s') \<and> rm_abs ex_tab1 (sm_bpm ex_db) rid = None \<and>
    rm_abs fh' (sm_bpm s') = (rm_abs ex_tab1 (sm_bpm ex_db))(rid \<mapsto> row) \<and> row = row_of ex_cols [Val_new TYPE_STRING 0 ''abc''] \<and>
    row_text ex_cols row = map val_text [Val_new TYPE_STRING 0 ''abc''] \<and> others_kept (fh_fd ex_tab1) (sm_bpm ex_db) (sm_bpm s') \<and>
    handles_kept ''t'' ex_db s'"
proof -
  let ?m = "\<lparr>tm_name = ''t'', tm_cols = ex_cols, tm_indexes = []\<rparr>"
  have "rm_inv ex_tab1 (sm_bpm ex_db)" "frame_free (sm_bpm ex_db)" "map_of (fhs ex_db) ''t'' = Some ex_tab1" "get_table ''t'' (sm_db ex_db) = Inr ?m"
    "tiled 0 (tm_cols ?m) (record_size (file_hdr ex_tab1))" "vals_ok (tm_cols ?m) [Val_new TYPE_STRING 0 ''abc'']" "tm_indexes ?m = []"
    "num_pages (file_hdr ex_tab1) + 1 < 2 ^ 31" "list_all (\<lambda>v. CHR 0x00 \<notin> set (str_val v)) [Val_new TYPE_STRING 0 ''abc'']"
    using ex_ins_facts ex_pool1_parts by (simp_all add: ex_db_def get_table_def ex_cols_def vals_ok_def val_fits_def Val_new_def)
  from insert_values_correct [where junk = "\<lambda>_. 0" and jr = "Rid_of 0 0" and d = 1 and k = 1 and n = 1, OF this]
  show ?thesis unfolding TabMeta.select_convs .
qed

end
