(* ===== verification/Client.thy ===== *)
theory Client
  imports Server_Properties
begin

text \<open>
  \<open>src/rucbase_client/main.cpp\<close>: the loop of the command line client. What \<open>readline\<close> returns is a list of lines, \<open>None\<close> for the end
  of the input; sending a command and receiving the reply is the argument \<open>exch\<close>. The result is what is printed on the standard
  output, without the prompt. A reply has at most the \<open>MAX_MEM_BUFFER_SIZE\<close> bytes that \<open>recv\<close> asks for. \<open>serve\<close> joins the client to the server under the assumption that one \<open>read\<close> of the server takes one \<open>write\<close> of the client.
\<close>

section \<open>The program\<close>

definition MAX_MEM_BUFFER_SIZE :: nat where
  "MAX_MEM_BUFFER_SIZE = 8192"

definition is_exit_command :: "string \<Rightarrow> bool" where
  "is_exit_command cmd \<longleftrightarrow> cmd = ''exit'' \<or> cmd = ''exit;'' \<or> cmd = ''bye'' \<or> cmd = ''bye;''"

text \<open>The results of \<open>write\<close> and \<open>recv\<close>.\<close>

datatype network = Send_failed | Broken | Closed_by_peer | Received string

text \<open>The loop that prints a reply reads \<open>recv_buf\<close> up to the index \<open>len\<close> or a NUL.\<close>

function print_reply :: "nat \<Rightarrow> nat \<Rightarrow> string \<Rightarrow> failure + string" where
  "print_reply i len recv_buf =
     (if len < i then Inr []
      else if length recv_buf \<le> i then Inl OutOfBounds
      else if recv_buf ! i = CHR 0x00 then Inr []
      else bindE (print_reply (Suc i) len recv_buf) (\<lambda>r. Inr (recv_buf ! i # r)))"
  by pat_completeness auto
termination by (relation "measure (\<lambda>(i, len, recv_buf). Suc len - i)") auto

declare print_reply.simps [simp del]

fun client_main :: "(string \<Rightarrow> 'st \<Rightarrow> network \<times> 'st) \<Rightarrow> string option list \<Rightarrow> string \<Rightarrow> 'st \<Rightarrow> (string, 'st) res" where
  "client_main exch [] recv_buf st = Ok [] st"
| "client_main exch (None # lines) recv_buf st = Ok (''Bye.'' @ nl) st"
| "client_main exch (Some command # lines) recv_buf st =
     (if command = [] then client_main exch lines recv_buf st
      else if is_exit_command command then Ok (''The client will be closed.'' @ nl @ ''Bye.'' @ nl) st
      else
        case exch (command @ [CHR 0x00]) st of
          (Send_failed, st1) \<Rightarrow> Ok [] st1
        | (Broken, st1) \<Rightarrow> Ok (''Bye.'' @ nl) st1
        | (Closed_by_peer, st1) \<Rightarrow> Ok (''Connection has been closed'' @ nl @ ''Bye.'' @ nl) st1
        | (Received bytes, st1) \<Rightarrow>
            let len = length bytes; buf = bytes @ drop len recv_buf in
            case print_reply 0 len buf of
              Inl e \<Rightarrow> Err e st1
            | Inr out \<Rightarrow> bindO (client_main exch lines (replicate MAX_MEM_BUFFER_SIZE (CHR 0x00)) st1) (\<lambda>rest st2. Ok (out @ rest) st2))"

section \<open>Printing a reply\<close>

lemma print_reply_from:
  "CHR 0x00 \<in> set (drop i (take (Suc len) buf)) \<Longrightarrow> print_reply i len buf = Inr (takeWhile (\<lambda>c. c \<noteq> CHR 0x00) (drop i buf))"
proof (induction "Suc len - i" arbitrary: i)
  case 0
  then show ?case by simp
next
  case (Suc n)
  have "drop i (take (Suc len) buf) \<noteq> []" using Suc.prems by auto
  then have i: "i < length buf" "i \<le> len" by auto
  have d: "drop i buf = buf ! i # drop (Suc i) buf" using i(1) by (simp add: Cons_nth_drop_Suc)
  show ?case
  proof (cases "buf ! i = CHR 0x00")
    case True
    then show ?thesis using i d by (simp add: print_reply.simps [of i])
  next
    case False
    have "drop i (take (Suc len) buf) = buf ! i # drop (Suc i) (take (Suc len) buf)" using i by (simp add: Cons_nth_drop_Suc [symmetric])
    then have "CHR 0x00 \<in> set (drop (Suc i) (take (Suc len) buf))" using Suc.prems False by auto
    then have "print_reply (Suc i) len buf = Inr (takeWhile (\<lambda>c. c \<noteq> CHR 0x00) (drop (Suc i) buf))" using Suc.hyps(1) [of "Suc i"] Suc.hyps(2) by simp
    then show ?thesis using i d False by (simp add: print_reply.simps [of i])
  qed
qed

lemma until_nul: "CHR 0x00 \<notin> set w \<Longrightarrow> takeWhile (\<lambda>c. c \<noteq> CHR 0x00) (w @ CHR 0x00 # r) = w"
  by (induction w) auto

lemma print_reply_text: "CHR 0x00 \<notin> set w \<Longrightarrow> print_reply 0 (length w + 1) (w @ CHR 0x00 # r) = Inr w"
  using print_reply_from [of 0 "length w + 1" "w @ CHR 0x00 # r"] by (simp add: until_nul)

section \<open>Client and server\<close>

text \<open>The server as seen from a client: its scanner and its database, or \<open>None\<close> when it has ended.\<close>

definition serve :: "env \<Rightarrow> nat \<Rightarrow> TransactionManager \<Rightarrow> string \<Rightarrow> (startcond \<times> sm) option \<Rightarrow> network \<times> (startcond \<times> sm) option" where
  "serve v thread tm msg st =
     (case st of
        None \<Rightarrow> (Closed_by_peer, None)
      | Some (sc, s) \<Rightarrow>
          (case handle_request v (Some msg) thread INVALID_TXN_ID tm sc s of
             Ok (Reply r, sc') s' \<Rightarrow> (Received r, Some (sc', s'))
           | Ok (Closed, sc') s' \<Rightarrow> (Closed_by_peer, Some (sc', s'))
           | Ok (Exit, sc') s' \<Rightarrow> (Closed_by_peer, None)
           | Err e s' \<Rightarrow> (Closed_by_peer, None)))"

lemma handle_request_nul:
  assumes "plain_request cmd"
  shows "handle_request v (Some (cmd @ [CHR 0x00])) thread txn_id tm sc s = handle_request v (Some cmd) thread txn_id tm sc s"
proof -
  have n: "length cmd < BUFFER_LENGTH" "CHR 0x00 \<notin> set cmd" using assms by (auto simp: plain_request_def)
  have b: "replicate (BUFFER_LENGTH - length cmd) (CHR 0x00) = CHR 0x00 # replicate (BUFFER_LENGTH - length cmd - 1) (CHR 0x00)"
    using n(1) by (cases "BUFFER_LENGTH - length cmd") auto
  show ?thesis using assms n by (simp add: handle_request_def plain_request_def until_nul b)
qed

lemma error_request:
  assumes "plain_request cmd" and "yyparse sc cmd = (Some (Some tree), sc')"
    and "execute_query v tree thread txn_id (request_session tm s) = Err (Throw e) se1"
    and "length (data_send (se_ctx se1)) = BUFFER_LENGTH" and "get_msg_len e + 2 \<le> BUFFER_LENGTH"
  shows "handle_request v (Some cmd) thread txn_id tm sc s =
    Ok (Reply (what e @ [CHR 0x0A, CHR 0x00]), sc') (outfile_put (''failure'' @ [CHR 0x0A]) (se_sm se1))"
  using assms by (simp add: handle_request_plain run_statement_def on_stmt_def on_ctx_def error_reply_def get_msg_len_def on_sess_sm_def Let_def)

text \<open>
  C14. An error reaches the user: when a statement throws, the client prints exactly the message of the exception and a new line, goes on
  with the next line, and the server notes the failure in its output file; client and server agree on where the reply ends.
\<close>

theorem client_prints_error:
  assumes "plain_request cmd" and "\<not> is_exit_command cmd" and "yyparse sc cmd = (Some (Some tree), sc')"
    and "execute_query v tree thread INVALID_TXN_ID (request_session tm s) = Err (Throw e) se1"
    and "length (data_send (se_ctx se1)) = BUFFER_LENGTH" and "get_msg_len e + 2 \<le> BUFFER_LENGTH" and "CHR 0x00 \<notin> set (what e)"
  shows "client_main (serve v thread tm) (Some cmd # lines) recv_buf (Some (sc, s)) =
    bindO (client_main (serve v thread tm) lines (replicate MAX_MEM_BUFFER_SIZE (CHR 0x00))
             (Some (sc', outfile_put (''failure'' @ [CHR 0x0A]) (se_sm se1))))
      (\<lambda>rest st. Ok (what e @ [CHR 0x0A] @ rest) st)"
proof -
  have r: "serve v thread tm (cmd @ [CHR 0x00]) (Some (sc, s)) =
      (Received (what e @ [CHR 0x0A, CHR 0x00]), Some (sc', outfile_put (''failure'' @ [CHR 0x0A]) (se_sm se1)))"
    using error_request [OF assms(1,3-6)] handle_request_nul [OF assms(1)] by (simp add: serve_def)
  have p: "print_reply 0 (length (what e) + 2) (what e @ CHR 0x0A # CHR 0x00 # rest) = Inr (what e @ [CHR 0x0A])" for rest
    using print_reply_text [of "what e @ [CHR 0x0A]" rest] assms(7) by simp
  show ?thesis using assms(1,2) r p by (simp add: plain_request_def)
qed

theorem client_prints_error_witness:
  "client_main (serve ex_env 0 (TransactionManager_new TWO_PHASE_LOCKING)) [Some ''drop table t;'', None] (replicate 8192 (CHR 0x00)) (Some (INITIAL, ex_blank_sm)) =
   Ok (''Error: Table not found: t'' @ [CHR 0x0A] @ ''Bye.'' @ [CHR 0x0A]) (Some (INITIAL, outfile_put (''failure'' @ [CHR 0x0A]) ex_blank_sm))"
proof -
  have "spells (IDENTIFIER ''t'') ''t''" by code_simp
  from drop_spelled [OF this] have "yyparse INITIAL ''drop table t;'' = (Some (Some (DropTable ''t'')), INITIAL)"
    using parse_drop_table by simp
  moreover have "get_table ''t'' (sm_db ex_blank_sm) = Inl (TableNotFoundError ''t'')"
    by (simp add: get_table_def ex_blank_sm_def fresh_db_def)
  ultimately show ?thesis
    using client_prints_error [of "''drop table t;''" INITIAL "DropTable ''t''" INITIAL ex_env 0 "TransactionManager_new TWO_PHASE_LOCKING" ex_blank_sm
        "TableNotFoundError ''t''" _ "[None]" "replicate 8192 (CHR 0x00)", OF _ _ _ drop_missing_table]
    by (simp add: plain_request_def BUFFER_LENGTH_def is_exit_command_def request_session_def Context_new_def get_msg_len_def nl_def)
qed

end
