(* ===== verification/Query_Requests.thy ===== *)
theory Query_Requests
  imports Select_Properties Client
begin

text \<open>
  From the text of a query to the text of its answer: scanner, parser, analysis, planner, executors, record files, buffer pool and reply
  buffer together.
\<close>

section \<open>The end of the reply\<close>

text \<open>Behind the offset the reply buffer is as the server cleared it, so the byte after the text is a NUL.\<close>

definition blank_tail :: "ctx \<Rightarrow> bool" where
  "blank_tail c \<longleftrightarrow> set (drop (send_offset c) (data_send c)) \<subseteq> {CHR 0x00}"

definition keeps_blank :: "(ctx \<Rightarrow> ('a, ctx) res) \<Rightarrow> bool" where
  "keeps_blank m \<longleftrightarrow> (\<forall>c a c'. m c = Ok a c' \<longrightarrow> blank_tail c \<longrightarrow> blank_tail c')"

named_theorems blank_intros \<open>operations that leave the rest of the buffer alone\<close>

lemma keeps_blank_bind [blank_intros]: "keeps_blank m \<Longrightarrow> (\<And>a. keeps_blank (f a)) \<Longrightarrow> keeps_blank (\<lambda>c. bindO (m c) f)"
  unfolding keeps_blank_def bindO_Ok_iff by blast

lemma keeps_blank_if [blank_intros]: "keeps_blank m \<Longrightarrow> keeps_blank m' \<Longrightarrow> keeps_blank (\<lambda>c. if P c then m c else m' c)"
  by (simp add: keeps_blank_def)

lemma keeps_blank_simple [blank_intros]:
  "keeps_blank (Ok a)" "keeps_blank (Err e)" "keeps_blank (\<lambda>c. Ok a (c\<lparr>ellipsis := b\<rparr>))"
  by (simp_all add: keeps_blank_def blank_tail_def)

lemma keeps_blank_copy [blank_intros]: "keeps_blank (send_copy str)"
  unfolding keeps_blank_def blank_tail_def
proof (intro allI impI)
  fix c a c' assume c: "send_copy str c = Ok a c'" and b: "set (drop (send_offset c) (data_send c)) \<subseteq> {CHR 0x00}"
  have "drop (send_offset c') (data_send c') = drop (send_offset c + length str) (data_send c)"
    using c by (auto simp: send_copy_def split: if_splits)
  also have "set \<dots> \<subseteq> set (drop (send_offset c) (data_send c))" by (rule set_drop_subset_set_drop) simp
  finally show "set (drop (send_offset c') (data_send c')) \<subseteq> {CHR 0x00}" using b by simp
qed

lemma keeps_blank_ellipsis [blank_intros]: "keeps_blank (send_or_ellipsis str)"
  unfolding send_or_ellipsis_def by (intro blank_intros)

lemma keeps_blank_times [blank_intros]: "keeps_blank (send_times n str)"
  by (induction n) (auto simp: keeps_blank_def bindO_Ok_iff intro: keeps_blank_ellipsis [unfolded keeps_blank_def, rule_format])

lemma keeps_blank_cells [blank_intros]: "keeps_blank (send_cells cols)"
  by (induction cols) (auto simp: keeps_blank_def bindO_Ok_iff intro: keeps_blank_ellipsis [unfolded keeps_blank_def, rule_format])

lemma keeps_blank_print [blank_intros]:
  "keeps_blank (print_separator n)" "keeps_blank (print_record_row n row)"
  unfolding print_separator_def print_record_row_def Let_def by (intro blank_intros)+

lemma keeps_blank_count: "keeps_blank (print_record_count n)"
  using keeps_blank_copy unfolding keeps_blank_def print_record_count_def by blast

lemma select_loop_blank: "select_loop junk d k n w e num (s, c, out) = Ok r (s', c', out') \<Longrightarrow> blank_tail c \<Longrightarrow> blank_tail c'"
proof (induction n arbitrary: e s c out num)
  case (Suc n)
  show ?case
  proof (cases "is_end e = Inr True")
    case True
    then show ?thesis using Suc.prems by (auto simp: on_fst_def)
  next
    case False
    then obtain columns c1 e1 s1 where row: "print_record_row w columns c = Ok () c1"
      and l: "select_loop junk d k n w e1 (num + 1) (s1, c1, out @ out_row columns) = Ok r (s', c', out')"
      using Suc.prems(1) by (auto simp: bindO_Ok_iff liftS_Ok_iff pure_sm_Ok_iff on_fst_def on_snd_def split: if_splits)
    have "blank_tail c1" using keeps_blank_print(2) row Suc.prems(2) unfolding keeps_blank_def by blast
    then show ?thesis by (rule Suc.IH [OF l])
  qed
qed simp

lemma select_from_blank:
  assumes "select_from junk d k n root targets (s, c) = Ok () (s', c')" and "blank_tail c"
  shows "blank_tail c'"
proof -
  let ?w = "length targets"
  have head: "keeps_blank (\<lambda>c. bindO (print_separator ?w c) (\<lambda>_ c1. bindO (print_record_row ?w (map tc_col targets) c1) (\<lambda>_ c2. print_separator ?w c2)))"
    by (intro blank_intros)
  have foot: "keeps_blank (\<lambda>c. bindO (print_separator ?w c) (\<lambda>_. print_record_count num))" for num
    by (intro blank_intros keeps_blank_count)
  obtain c1 e s1 num s2 c2 out where
    1: "bindO (print_separator ?w c) (\<lambda>_ c1. bindO (print_record_row ?w (map tc_col targets) c1) (\<lambda>_ c2. print_separator ?w c2)) = Ok () c1"
    and 2: "select_loop junk d k n ?w e 0 (s1, c1, out_row (map tc_col targets)) = Ok num (s2, c2, out)"
    and 3: "bindO (print_separator ?w c2) (\<lambda>_. print_record_count num) = Ok () c'"
    using assms(1) unfolding select_from_def Let_def RecordPrinter_new_def
    by (auto simp: bindO_Ok_iff liftS_Ok_iff on_ctx_def on_fst_def split: if_splits)
  have "blank_tail c1" using head 1 assms(2) unfolding keeps_blank_def by blast
  then have "blank_tail c2" by (rule select_loop_blank [OF 2])
  then show ?thesis using foot 3 unfolding keeps_blank_def by blast
qed

lemma reply_ends_with_nul:
  assumes "blank_tail c" and "send_offset c < length (data_send c)"
  shows "take (send_offset c + 1) (data_send c) = sent c @ [CHR 0x00]"
proof -
  have "data_send c ! send_offset c \<in> set (drop (send_offset c) (data_send c))" using assms(2) by (metis Cons_nth_drop_Suc list.set_intros(1))
  then have "data_send c ! send_offset c = CHR 0x00" using assms(1) by (auto simp: blank_tail_def)
  then show ?thesis using assms(2) by (simp add: sent_def take_Suc_conv_app_nth)
qed

section \<open>The plan of a query on one table\<close>

lemma one_table_plan:
  assumes "do_analyze junk db (Select x) = Inr q" and "sel_tabs x = [t]" and "sel_order x = None"
    and "get_table t db = Inr m" and "tm_indexes m = []" and "tm_cols m \<noteq> []"
  shows "\<exists>l. plan_query db q = Inr (DMLPlan T_select (scan_plan t (filter (pops t) (q_conds q)) (q_cols q) (tm_cols m) l) [] [] [] [])"
proof -
  have q: "q_parse q = Select x" "q_tables q = [t]" using assms(1,2) by (auto simp: do_analyze_def bindE_Inr_iff Query_new_def)
  show ?thesis using assms(3-6) q
    by (simp add: plan_query_def do_planner_def generate_select_plan_def logical_optimization_def physical_optimization_def
        generate_sort_plan_def make_one_rel_def pop_conds_def make_scan_def get_index_cols_def is_index_def throwing_def
        ScanPlan_new_def scan_plan_def Let_def)
qed

section \<open>Requests\<close>

text \<open>The conditions the plan of a query on one table tests.\<close>

abbreviation tested :: "string \<Rightarrow> Query \<Rightarrow> Condition list" where
  "tested t q \<equiv> filter (pops t) (q_conds q)"

text \<open>
  The text a query is answered with: a beginning of the table, an ellipsis when it was cut with the flag set, and the number of rows. A
  table that leaves room for the line with the number is printed whole.
\<close>

definition query_answer :: "string \<Rightarrow> nat \<Rightarrow> string \<Rightarrow> bool" where
  "query_answer table n answer \<longleftrightarrow>
     (\<exists>pre el. answer = pre @ (if el then ''... ...'' @ [CHR 0x0A] else []) @ count_text n \<and> (\<exists>k. pre = take k table) \<and>
        (length table + RECORD_COUNT_LENGTH < BUFFER_LENGTH \<longrightarrow> pre = table \<and> \<not> el))"

lemma select_execute:
  assumes "do_analyze (env_junk v) (sm_db s) (Select x) = Inr q" and "sel_tabs x = [t]" and "sel_order x = None"
    and "get_table t (sm_db s) = Inr m" and "tm_indexes m = []"
    and "table_ready P (env_loop v) s t (tested t q) fh (tm_cols m)" and "targets_found (tm_cols m) (q_cols q)"
    and "card (dom (rm_abs fh (sm_bpm s))) < env_rows v" and "card (dom (rm_abs fh (sm_bpm s))) < 10 ^ 14" and "2 \<le> env_depth v"
  shows "\<exists>zs c s'. table_rows (rm_abs fh (sm_bpm s)) (conds_hold (tm_cols m) (tested t q)) zs \<and>
    execute_query v (Select x) thread txn_id (request_session tm s) = Ok () ((request_session tm s)
      \<lparr>se_sm := outfile_put (concat (map out_row (map tc_col (q_cols q) # map (target_text (tm_cols m) (q_cols q)) zs))) s', se_ctx := c\<rparr>) \<and>
    quiet s s' \<and> open_ok P s' \<and> length (data_send c) = BUFFER_LENGTH \<and> send_offset c < BUFFER_LENGTH \<and>
    take (Suc (send_offset c)) (data_send c) = sent c @ [CHR 0x00] \<and>
    query_answer (table_text (map tc_col (q_cols q)) (map (target_text (tm_cols m) (q_cols q)) zs)) (length zs) (sent c)"
proof -
  let ?buf = "replicate BUFFER_LENGTH (CHR 0x00)" and ?junk = "env_junk v" and ?k = "env_loop v" and ?n = "env_rows v"
  let ?rows = "\<lambda>zs. map (target_text (tm_cols m) (q_cols q)) zs"
  obtain d where d: "env_depth v = Suc (Suc d)" using assms(10) by (metis Suc_le_D numeral_2_eq_2 Suc_le_mono)
  obtain zs where zs: "table_rows (rm_abs fh (sm_bpm s)) (conds_hold (tm_cols m) (tested t q)) zs" "length zs \<le> card (dom (rm_abs fh (sm_bpm s)))"
    using table_rows_ex by blast
  have n: "length zs < ?n" "length (?rows zs) < 10 ^ 14" using zs(2) assms(8,9) by simp_all
  have ne: "tm_cols m \<noteq> []" "q_cols q \<noteq> []" using assms(7) by (cases "q_cols q"; auto simp: targets_found_def exec_get_col_def split: sum.splits)+
  obtain l where plan: "plan_query (sm_db s) q = Inr (DMLPlan T_select (scan_plan t (tested t q) (q_cols q) (tm_cols m) l) [] [] [] [])"
    using one_table_plan [OF assms(1-5) ne(1)] by blast
  obtain root e s1 s2 where r: "convert_plan_executor (env_rid v) (scan_plan t (tested t q) (q_cols q) (tm_cols m) l) s = Inr root"
    "run_op ?junk (Suc (Suc d)) ?k BeginTuple root s = Ok e s1" "fetch_rows ?junk (Suc (Suc d)) ?k ?n e s1 = Ok (?rows zs) s2" "calm_sm P s s2"
    using scan_fetch [OF assms(6) zs(1) assms(7) n(1)] by blast
  have len: "\<forall>r \<in> set (?rows zs). length r = length (q_cols q)" by (auto simp: target_text_def)
  let ?s3 = "outfile_put (concat (map out_row (map tc_col (q_cols q) # ?rows zs))) s2"
  obtain c pre el where sel: "select_from ?junk (Suc (Suc d)) ?k ?n root (q_cols q) (s, Context_new ?buf) = Ok () (?s3, c)"
    and c: "length (data_send c) = BUFFER_LENGTH" "send_offset c < BUFFER_LENGTH"
      "sent c = pre @ (if el then ''... ...'' @ [CHR 0x0A] else []) @ count_text (length (?rows zs))"
      "\<exists>k. pre = take k (table_text (map tc_col (q_cols q)) (?rows zs))"
      "length (table_text (map tc_col (q_cols q)) (?rows zs)) + RECORD_COUNT_LENGTH < BUFFER_LENGTH \<longrightarrow>
        pre = table_text (map tc_col (q_cols q)) (?rows zs) \<and> \<not> el"
    using select_from_ok [OF r(2,3) len n(2) ne(2), of ?buf] by auto
  have "blank_tail (Context_new ?buf)" by (auto simp: blank_tail_def Context_new_def)
  then have nul: "take (Suc (send_offset c)) (data_send c) = sent c @ [CHR 0x00]"
    using reply_ends_with_nul [of c] select_from_blank [OF sel] c(1,2) by simp
  have "execute_query v (Select x) thread txn_id (request_session tm s) = Ok () ((request_session tm s)\<lparr>se_sm := ?s3, se_ctx := c\<rparr>)"
    using assms(1) plan r(1) sel d
    by (simp add: execute_query_def on_sess_sm_pure on_sess_sm_def portal_start_def scan_plan_def pure_sm_def portal_run_def PortalStmt_new_def
        on_stmt_def request_session_def)
  moreover have "quiet s s2" "open_ok P s2" using r(4) assms(6) by (auto simp: calm_sm_def table_ready_def)
  moreover have "query_answer (table_text (map tc_col (q_cols q)) (?rows zs)) (length zs) (sent c)"
    unfolding query_answer_def using c(3-5) by (intro exI [of _ pre] exI [of _ el]) simp
  ultimately show ?thesis using zs(1) nul c(1,2) by blast
qed

lemma select_request:
  assumes "plain_request cmd" and "g_start us (Some (Select x))" and "spelled rest us cmd"
    and "do_analyze (env_junk v) (sm_db s) (Select x) = Inr q" and "sel_tabs x = [t]" and "sel_order x = None"
    and "get_table t (sm_db s) = Inr m" and "tm_indexes m = []"
    and "table_ready P (env_loop v) s t (tested t q) fh (tm_cols m)" and "targets_found (tm_cols m) (q_cols q)"
    and "card (dom (rm_abs fh (sm_bpm s))) < env_rows v" and "card (dom (rm_abs fh (sm_bpm s))) < 10 ^ 14" and "2 \<le> env_depth v"
  shows "\<exists>zs answer s'. table_rows (rm_abs fh (sm_bpm s)) (conds_hold (tm_cols m) (tested t q)) zs \<and>
    handle_request v (Some cmd) thread txn_id tm INITIAL s =
      Ok (Reply (answer @ [CHR 0x00]), INITIAL)
        (outfile_put (concat (map out_row (map tc_col (q_cols q) # map (target_text (tm_cols m) (q_cols q)) zs))) s') \<and>
    quiet s s' \<and> open_ok P s' \<and>
    query_answer (table_text (map tc_col (q_cols q)) (map (target_text (tm_cols m) (q_cols q)) zs)) (length zs) answer"
proof -
  obtain zs c s' where zs: "table_rows (rm_abs fh (sm_bpm s)) (conds_hold (tm_cols m) (tested t q)) zs"
    and ex: "execute_query v (Select x) thread txn_id (request_session tm s) = Ok () ((request_session tm s)
      \<lparr>se_sm := outfile_put (concat (map out_row (map tc_col (q_cols q) # map (target_text (tm_cols m) (q_cols q)) zs))) s', se_ctx := c\<rparr>)"
    and s': "quiet s s'" "open_ok P s'"
    and c: "length (data_send c) = BUFFER_LENGTH" "send_offset c < BUFFER_LENGTH" "take (Suc (send_offset c)) (data_send c) = sent c @ [CHR 0x00]"
      "query_answer (table_text (map tc_col (q_cols q)) (map (target_text (tm_cols m) (q_cols q)) zs)) (length zs) (sent c)"
    using select_execute [OF assms(4-13), of thread txn_id tm] by blast
  have "handle_request v (Some cmd) thread txn_id tm INITIAL s = Ok (Reply (sent c @ [CHR 0x00]), INITIAL)
      (outfile_put (concat (map out_row (map tc_col (q_cols q) # map (target_text (tm_cols m) (q_cols q)) zs))) s')"
    using handle_request_plain [OF assms(1) yyparse_spelling [OF assms(2,3)]] ex c(1-3) by (simp add: run_statement_def)
  then show ?thesis using zs s' c(4) by blast
qed

lemma client_prints_reply:
  assumes "plain_request cmd" and "\<not> is_exit_command cmd"
    and "handle_request v (Some cmd) thread INVALID_TXN_ID tm sc s = Ok (Reply (answer @ [CHR 0x00]), sc') s'"
  shows "client_main (serve v thread tm) (Some cmd # lines) recv_buf (Some (sc, s)) =
    bindO (client_main (serve v thread tm) lines (replicate MAX_MEM_BUFFER_SIZE (CHR 0x00)) (Some (sc', s')))
      (\<lambda>more st. Ok (takeWhile (\<lambda>c. c \<noteq> CHR 0x00) answer @ more) st)"
proof -
  have "serve v thread tm (cmd @ [CHR 0x00]) (Some (sc, s)) = (Received (answer @ [CHR 0x00]), Some (sc', s'))"
    using assms(3) handle_request_nul [OF assms(1)] by (simp add: serve_def)
  moreover have "print_reply 0 (Suc (length answer)) (answer @ CHR 0x00 # r) = Inr (takeWhile (\<lambda>c. c \<noteq> CHR 0x00) answer)" for r
    using print_reply_from [of 0 "Suc (length answer)" "answer @ CHR 0x00 # r"] by (simp add: takeWhile_tail)
  ultimately show ?thesis using assms(1,2) by (simp add: plain_request_def)
qed

text \<open>
  C6. A query from the keyboard to the screen. The user types any spelling of a \<open>SELECT\<close> without \<open>ORDER BY\<close> on one open, valid table
  without indexes whose data pages fit the pool together with those of the other open tables (\<open>table_ready\<close>), and the statement passes
  the analysis with columns of that table. Then the client prints, for exactly the records that satisfy the tested conditions, in the
  order of record ids, the table of the chosen columns and the number of rows, and goes on with the next line. A table too long for the
  reply buffer of 8192 bytes is printed only from its beginning, followed by an ellipsis when the flag is set, and the true number of rows
  (\<open>query_answer\<close>); the client stops at a NUL byte in the text. All rows are in the output file, no table has changed, and all files are
  still valid. The bounds on the loops are larger than the table, which has fewer than \<open>10 ^ 14\<close> records.
\<close>

theorem query_from_keyboard_to_screen:
  assumes "plain_request cmd" and "\<not> is_exit_command cmd" and "g_start us (Some (Select x))" and "spelled rest us cmd"
    and "do_analyze (env_junk v) (sm_db s) (Select x) = Inr q" and "sel_tabs x = [t]" and "sel_order x = None"
    and "get_table t (sm_db s) = Inr m" and "tm_indexes m = []"
    and "table_ready P (env_loop v) s t (tested t q) fh (tm_cols m)" and "targets_found (tm_cols m) (q_cols q)"
    and "card (dom (rm_abs fh (sm_bpm s))) < env_rows v" and "card (dom (rm_abs fh (sm_bpm s))) < 10 ^ 14" and "2 \<le> env_depth v"
  shows "\<exists>zs answer s'. table_rows (rm_abs fh (sm_bpm s)) (conds_hold (tm_cols m) (tested t q)) zs \<and>
    client_main (serve v thread tm) (Some cmd # lines) recv_buf (Some (INITIAL, s)) =
      bindO (client_main (serve v thread tm) lines (replicate MAX_MEM_BUFFER_SIZE (CHR 0x00)) (Some (INITIAL,
          outfile_put (concat (map out_row (map tc_col (q_cols q) # map (target_text (tm_cols m) (q_cols q)) zs))) s')))
        (\<lambda>more st. Ok (takeWhile (\<lambda>c. c \<noteq> CHR 0x00) answer @ more) st) \<and>
    quiet s s' \<and> open_ok P s' \<and>
    query_answer (table_text (map tc_col (q_cols q)) (map (target_text (tm_cols m) (q_cols q)) zs)) (length zs) answer"
proof -
  obtain zs answer s' where a: "table_rows (rm_abs fh (sm_bpm s)) (conds_hold (tm_cols m) (tested t q)) zs"
    "handle_request v (Some cmd) thread INVALID_TXN_ID tm INITIAL s = Ok (Reply (answer @ [CHR 0x00]), INITIAL)
        (outfile_put (concat (map out_row (map tc_col (q_cols q) # map (target_text (tm_cols m) (q_cols q)) zs))) s')"
    "quiet s s' \<and> open_ok P s' \<and>
    query_answer (table_text (map tc_col (q_cols q)) (map (target_text (tm_cols m) (q_cols q)) zs)) (length zs) answer"
    using select_request [OF assms(1,3-14), of thread INVALID_TXN_ID tm] by blast
  then show ?thesis using client_prints_reply [OF assms(1,2) a(2), of lines recv_buf] by blast
qed

definition ex_query :: SelectStmt where
  "ex_query = \<lparr>sel_cols = [], sel_tabs = [''t''], sel_conds = [], sel_order = None\<rparr>"

definition ex_analysed :: Query where
  "ex_analysed = (Query_new (Select ex_query))\<lparr>q_tables := [''t''], q_cols := ex_targets, q_conds := []\<rparr>"

lemma ex_query_analysed: "do_analyze junk (sm_db ex_db) (Select ex_query) = Inr ex_analysed"
  by (simp add: do_analyze_def ex_query_def ex_analysed_def ex_db_def ex_cols_def ex_targets_def check_tables_def get_all_cols_def
      check_clause_def get_clause_def is_table_def get_table_def throwing_def)

lemma ex_query_grammar: "g_start ([KW_SELECT, STAR, KW_FROM, IDENTIFIER ''t''] @ [SEMI]) (Some (Select ex_query))"
proof -
  have "g_list (\<lambda>s. s = COMMA \<or> s = KW_JOIN) g_tbName [IDENTIFIER ''t''] [''t'']" by (intro g_list.first g_tbName.intros)
  then have "g_dml ([KW_SELECT] @ [STAR] @ [KW_FROM] @ [IDENTIFIER ''t''] @ [] @ []) (Select ex_query)"
    unfolding ex_query_def by (intro g_dml.intros g_selector.intros g_optWhereClause.intros g_opt_order_clause.intros)
  then show ?thesis by (intro g_start.intros(1) g_stmt.intros(3)) simp
qed

lemma ex_query_spelled: "spelled [] ([KW_SELECT, STAR, KW_FROM, IDENTIFIER ''t''] @ [SEMI]) ''select*from t;''"
proof -
  note sp = spelled.intros(2) [where rest = "[]"]
  have "spelled [] [IDENTIFIER ''t'', SEMI] (''t'' @ '';'')" using ex_semi by (rule sp [rotated]) (code_simp, code_simp)
  then have "spelled [] [IDENTIFIER ''t'', SEMI] '' t;''" using spelled.intros(3) [where c = "CHR '' ''"] by (simp add: white_def)
  then have "spelled [] [KW_FROM, IDENTIFIER ''t'', SEMI] (''from'' @ '' t;'')" by (rule sp [rotated]) (code_simp, code_simp)
  from this [simplified] have "spelled [] [STAR, KW_FROM, IDENTIFIER ''t'', SEMI] (''*'' @ ''from t;'')" by (rule sp [rotated]) (code_simp, code_simp)
  from this [simplified] have "spelled [] [KW_SELECT, STAR, KW_FROM, IDENTIFIER ''t'', SEMI] (''select'' @ ''*from t;'')"
    by (rule sp [rotated]) (code_simp, code_simp)
  then show ?thesis by simp
qed

theorem query_from_keyboard_to_screen_witness:
  "\<exists>zs answer s'. table_rows (rm_abs ex_tab1 (sm_bpm ex_db)) (conds_hold ex_cols []) zs \<and>
    client_main (serve ex_env 0 (TransactionManager_new TWO_PHASE_LOCKING)) [Some ''select*from t;''] [] (Some (INITIAL, ex_db)) =
      Ok (takeWhile (\<lambda>c. c \<noteq> CHR 0x00) answer) (Some (INITIAL,
        outfile_put (concat (map out_row (map tc_col ex_targets # map (target_text ex_cols ex_targets) zs))) s')) \<and>
    quiet ex_db s' \<and> open_ok ex_pages s' \<and>
    query_answer (table_text (map tc_col ex_targets) (map (target_text ex_cols ex_targets) zs)) (length zs) answer"
proof -
  let ?m = "\<lparr>tm_name = ''t'', tm_cols = ex_cols, tm_indexes = []\<rparr>"
  have m: "get_table ''t'' (sm_db ex_db) = Inr ?m" by (simp add: ex_db_def get_table_def)
  have q: "q_conds ex_analysed = []" "q_cols ex_analysed = ex_targets" by (simp_all add: ex_analysed_def)
  have c: "card (dom (rm_abs ex_tab1 (sm_bpm ex_db))) = 1" using ex_card by (simp add: ex_db_def)
  have "table_ready ex_pages 9 ex_db ''t'' [] ex_tab1 ex_cols" using ex_ready c by (simp add: table_ready_def)
  then show ?thesis
    using query_from_keyboard_to_screen [of "''select*from t;''", OF _ _ ex_query_grammar ex_query_spelled ex_query_analysed _ _ m,
        where v = ex_env and P = ex_pages and fh = ex_tab1 and thread = 0 and tm = "TransactionManager_new TWO_PHASE_LOCKING" and lines = "[]" and recv_buf = "[]"]
      q c ex_found(1)
    by (auto simp: plain_request_def is_exit_command_def BUFFER_LENGTH_def ex_query_def ex_env_def)
qed

section \<open>ORDER BY\<close>

text \<open>\<open>ORDER BY\<close> does not take part in the analysis.\<close>

lemma do_analyze_order:
  assumes "do_analyze junk db (Select (x\<lparr>sel_order := a\<rparr>)) = Inr q"
  shows "do_analyze junk db (Select (x\<lparr>sel_order := b\<rparr>)) = Inr (q\<lparr>q_parse := Select (x\<lparr>sel_order := b\<rparr>)\<rparr>)"
  using assms by (auto simp: do_analyze_def Query_new_def bindE_Inr_iff)

lemma plan_order:
  assumes "do_analyze junk db (Select (x\<lparr>sel_order := None\<rparr>)) = Inr q" and "plan_query db q = Inr p"
  shows "\<exists>r c. p = DMLPlan T_select (ProjectionPlan T_Projection r (q_cols q)) [] [] [] [] \<and>
    plan_query db (q\<lparr>q_parse := Select (x\<lparr>sel_order := Some ob\<rparr>)\<rparr>) =
      Inr (DMLPlan T_select (ProjectionPlan T_Projection (SortPlan T_Sort r c (ob_dir ob = OrderBy_DESC)) (q_cols q)) [] [] [] [])"
proof -
  obtain cs where cs: "q_parse q = Select (x\<lparr>sel_order := None\<rparr>)" "get_all_cols db (q_tables q) = Inr cs"
    using assms(1) by (auto simp: do_analyze_def Query_new_def bindE_Inr_iff)
  have same: "make_one_rel db (q\<lparr>q_parse := y\<rparr>) = make_one_rel db q" for y by (simp add: make_one_rel_def)
  obtain r where "make_one_rel db q = Inr r" "p = DMLPlan T_select (ProjectionPlan T_Projection r (q_cols q)) [] [] [] []"
    using assms(2) cs(1) by (auto simp: plan_query_def do_planner_def generate_select_plan_def physical_optimization_def
        generate_sort_plan_def logical_optimization_def bindE_Inr_iff Let_def)
  then show ?thesis using cs(2)
    by (simp add: plan_query_def do_planner_def generate_select_plan_def physical_optimization_def
        generate_sort_plan_def logical_optimization_def same Let_def)
qed

text \<open>
  C40. \<open>ORDER BY\<close> crashes the server. Take any \<open>SELECT\<close> that the server answers, in whatever state it is, and add any \<open>ORDER BY\<close> clause:
  the statement passes the analysis and the planner, and then the constructor of the projection reads the columns of the sort executor,
  which does not define \<open>cols\<close>, through a null pointer. This is a crash of the process, not an exception it reports.
\<close>

theorem order_by_crashes:
  assumes "execute_query v (Select (x\<lparr>sel_order := None\<rparr>)) thread txn_id se = Ok () se'"
  shows "execute_query v (Select (x\<lparr>sel_order := Some ob\<rparr>)) thread txn_id se = Err NullDeref se"
proof -
  let ?db = "sm_db (se_sm se)" and ?s = "se_sm se"
  obtain q p stmt se3 where q: "do_analyze (env_junk v) ?db (Select (x\<lparr>sel_order := None\<rparr>)) = Inr q" and p: "plan_query ?db q = Inr p"
    and st: "on_sess_sm (portal_start (env_junk v) (env_rid v) (env_depth v) (env_loop v) (env_rows v) p) se = Ok stmt se3"
    and run: "portal_run (env_junk v) (env_hdr v) (env_depth v) (env_loop v) (env_rows v) stmt thread txn_id se3 = Ok () se'"
    using assms by (auto simp: execute_query_def on_sess_sm_pure bindO_Ok_iff split: sum.splits)
  obtain r c where r: "p = DMLPlan T_select (ProjectionPlan T_Projection r (q_cols q)) [] [] [] []"
    "plan_query ?db (q\<lparr>q_parse := Select (x\<lparr>sel_order := Some ob\<rparr>)\<rparr>) =
      Inr (DMLPlan T_select (ProjectionPlan T_Projection (SortPlan T_Sort r c (ob_dir ob = OrderBy_DESC)) (q_cols q)) [] [] [] [])"
    using plan_order [OF q p] by blast
  obtain e root where e: "convert_plan_executor (env_rid v) r ?s = Inr e" "Projection_new e (q_cols q) = Inr root"
    "stmt = PortalStmt_new PORTAL_ONE_SELECT (q_cols q) root p"
    using st by (auto simp: r(1) on_sess_sm_def portal_start_def pure_sm_def bindO_Ok_iff liftS_Ok_iff bindE_Inr_iff split: sum.splits)
  have "q_cols q \<noteq> []"
    using run by (auto simp: e(3) portal_run_def PortalStmt_new_def on_stmt_def select_from_def RecordPrinter_new_def)
  then have "convert_plan_executor (env_rid v)
      (ProjectionPlan T_Projection (SortPlan T_Sort r c (ob_dir ob = OrderBy_DESC)) (q_cols q)) ?s = Inl NullDeref"
    using e(1,2) by (auto simp: Sort_new_def Projection_new_def split: if_splits)
  then show ?thesis using do_analyze_order [OF q, of "Some ob"] r(2)
    by (simp add: execute_query_def on_sess_sm_pure on_sess_sm_def portal_start_def pure_sm_def)
qed

definition ex_order :: OrderBy where
  "ex_order = \<lparr>ob_col = \<lparr>col_tab = [], col_nm = ''x''\<rparr>, ob_dir = OrderBy_ASC\<rparr>"

theorem order_by_crashes_witness:
  "execute_query ex_env (Select (ex_query\<lparr>sel_order := Some ex_order\<rparr>)) 0 (- 1) (request_session (TransactionManager_new TWO_PHASE_LOCKING) ex_db) =
   Err NullDeref (request_session (TransactionManager_new TWO_PHASE_LOCKING) ex_db)"
proof -
  let ?m = "\<lparr>tm_name = ''t'', tm_cols = ex_cols, tm_indexes = []\<rparr>"
  have m: "get_table ''t'' (sm_db ex_db) = Inr ?m" by (simp add: ex_db_def get_table_def)
  have q: "q_conds ex_analysed = []" "q_cols ex_analysed = ex_targets" by (simp_all add: ex_analysed_def)
  have c: "card (dom (rm_abs ex_tab1 (sm_bpm ex_db))) = 1" using ex_card by (simp add: ex_db_def)
  have x: "ex_query\<lparr>sel_order := None\<rparr> = ex_query" by (simp add: ex_query_def)
  have "table_ready ex_pages 9 ex_db ''t'' [] ex_tab1 ex_cols" using ex_ready c by (simp add: table_ready_def)
  then obtain se' where "execute_query ex_env (Select ex_query) 0 (- 1) (request_session (TransactionManager_new TWO_PHASE_LOCKING) ex_db) = Ok () se'"
    using select_execute [OF ex_query_analysed _ _ m, where v = ex_env and P = ex_pages and fh = ex_tab1 and thread = 0
        and txn_id = "- 1" and tm = "TransactionManager_new TWO_PHASE_LOCKING"] q c ex_found(1)
    by (auto simp: ex_query_def ex_env_def)
  then show ?thesis using order_by_crashes [of ex_env ex_query] by (simp add: x)
qed

end
