(* ===== verification/Connections.thy ===== *)
theory Connections
  imports Server
begin

text \<open>
  The threads of \<open>src/src/rmdb.cpp\<close>: the listener of \<open>start_server\<close> and one \<open>client_handler\<close> per connection, which share the
  variable \<open>sockfd\<close> of the listener under \<open>sockfd_mutex\<close> and the scanner and \<open>ast::parse_tree\<close> under \<open>buffer_mutex\<close>. A state
  holds a program counter per thread; \<open>server_step\<close> has one rule per atomic action of a thread, so that its runs are the
  interleavings. What a request does to the database is \<open>handle_request\<close>; here only the points where threads meet matter. A
  mutex is a boolean: \<open>pthread_mutex_lock\<close> is a step only when it is free, \<open>pthread_mutex_unlock\<close> always frees it.
  \<open>SIGINT\<close> is delivered to the listener anywhere in its loop, where \<open>longjmp\<close> leads behind the loop (before the first
  \<open>setjmp\<close> the jump would be undefined). \<open>sockfd\<close> is local to the body of the loop; all iterations are taken to use the same stack
  slot, whose address every handler is given, as compilers do.
\<close>

section \<open>State\<close>

text \<open>Where the listener is: the test of the loop, waiting for \<open>sockfd_mutex\<close>, in \<open>accept\<close>, before \<open>pthread_create\<close>, after the loop.\<close>

datatype listener_pc = L_test | L_lock | L_accept | L_create | L_clear | L_done

text \<open>
  Where a handler is: before reading \<open>*sock_fd\<close>; before the unlock, with the descriptor it read; waiting for a request; waiting for
  \<open>buffer_mutex\<close>; parsing and analysing; in the catch clause of an analysis that threw; after the early unlock, planning and running; before
  \<open>write\<close>; after the loop.
\<close>

datatype handler_pc =
    H_start
  | H_unlock int
  | H_read int
  | H_lock int
  | H_parse int
  | H_catch int
  | H_run int
  | H_write int
  | H_gone int

record server =
  l_pc :: listener_pc
  sockfd :: int
  sockfd_mutex :: bool
  buffer_mutex :: bool
  should_exit :: bool
  handlers :: "handler_pc list"
  accepted :: "int list"

text \<open>\<open>accepted\<close> records the descriptors \<open>accept\<close> returned, in order; the program does not keep it.\<close>

definition server_init :: server where
  "server_init = \<lparr>l_pc = L_test, sockfd = 0, sockfd_mutex = False, buffer_mutex = False, should_exit = False, handlers = [], accepted = []\<rparr>"

section \<open>Steps of the listener\<close>

inductive listener_step :: "server \<Rightarrow> server \<Rightarrow> bool" where
  enter: "l_pc s = L_test \<Longrightarrow> \<not> should_exit s \<Longrightarrow> listener_step s (s\<lparr>l_pc := L_lock\<rparr>)"
| leave: "l_pc s = L_test \<Longrightarrow> should_exit s \<Longrightarrow> listener_step s (s\<lparr>l_pc := L_clear\<rparr>)"
| lock: "l_pc s = L_lock \<Longrightarrow> \<not> sockfd_mutex s \<Longrightarrow> listener_step s (s\<lparr>l_pc := L_accept, sockfd_mutex := True\<rparr>)"
| accept: "l_pc s = L_accept \<Longrightarrow> 0 \<le> fd \<Longrightarrow> listener_step s (s\<lparr>l_pc := L_create, sockfd := fd, accepted := accepted s @ [fd]\<rparr>)"
| accept_error: "l_pc s = L_accept \<Longrightarrow> listener_step s (s\<lparr>l_pc := L_test, sockfd := -1\<rparr>)"
| create: "l_pc s = L_create \<Longrightarrow> listener_step s (s\<lparr>l_pc := L_test, handlers := handlers s @ [H_start]\<rparr>)"
| create_error: "l_pc s = L_create \<Longrightarrow> listener_step s (s\<lparr>l_pc := L_clear\<rparr>)"
| interrupt: "l_pc s \<in> {L_test, L_lock, L_accept, L_create} \<Longrightarrow> listener_step s (s\<lparr>l_pc := L_clear, should_exit := True\<rparr>)"
| clear: "l_pc s = L_clear \<Longrightarrow> listener_step s (s\<lparr>l_pc := L_done\<rparr>)"

section \<open>Steps of a handler\<close>

text \<open>
  \<open>handler_act s h h' s'\<close>: a handler at \<open>h\<close> moves to \<open>h'\<close> and changes the shared state from \<open>s\<close> to \<open>s'\<close>. A request is read or the
  connection ends; the mutex is taken; a tree that was analysed gives the mutex back before it is planned and run; a text without a
  tree and an analysis that throws give it back before the reply.
\<close>

inductive handler_act :: "server \<Rightarrow> handler_pc \<Rightarrow> handler_pc \<Rightarrow> server \<Rightarrow> bool" where
  copy: "handler_act s H_start (H_unlock (sockfd s)) s"
| unlock: "handler_act s (H_unlock fd) (H_read fd) (s\<lparr>sockfd_mutex := False\<rparr>)"
| request: "handler_act s (H_read fd) (H_lock fd) s"
| closed: "handler_act s (H_read fd) (H_gone fd) s"
| take_buffer: "\<not> buffer_mutex s \<Longrightarrow> handler_act s (H_lock fd) (H_parse fd) (s\<lparr>buffer_mutex := True\<rparr>)"
| no_tree: "handler_act s (H_parse fd) (H_write fd) (s\<lparr>buffer_mutex := False\<rparr>)"
| analysed: "handler_act s (H_parse fd) (H_run fd) (s\<lparr>buffer_mutex := False\<rparr>)"
| analysis_error: "handler_act s (H_parse fd) (H_catch fd) s"
| caught: "handler_act s (H_catch fd) (H_write fd) (s\<lparr>buffer_mutex := False\<rparr>)"
| executed: "handler_act s (H_run fd) (H_write fd) s"
| replied: "handler_act s (H_write fd) (H_read fd) s"
| write_error: "handler_act s (H_write fd) (H_gone fd) s"

inductive server_step :: "server \<Rightarrow> server \<Rightarrow> bool" where
  listener: "listener_step s s' \<Longrightarrow> server_step s s'"
| handler: "i < length (handlers s) \<Longrightarrow> handler_act s (handlers s ! i) h s' \<Longrightarrow> server_step s (s'\<lparr>handlers := (handlers s)[i := h]\<rparr>)"

inductive_cases listener_stepE: "listener_step s s'"
inductive_cases handler_actE: "handler_act s h h' s'"
inductive_cases server_stepE: "server_step s s'"

section \<open>Runs\<close>

text \<open>A transition system: an initial state and a step relation; what holds initially and is kept by every step holds in all reachable states.\<close>

locale transition_system =
  fixes init :: "'s" and step :: "'s \<Rightarrow> 's \<Rightarrow> bool" and inv :: "'s \<Rightarrow> bool"
  assumes inv_init: "inv init"
    and inv_step: "inv s \<Longrightarrow> step s s' \<Longrightarrow> inv s'"
begin

lemma inv_steps: "step\<^sup>*\<^sup>* s s' \<Longrightarrow> inv s \<Longrightarrow> inv s'"
  by (induction rule: rtranclp_induct) (auto intro: inv_step)

lemma inv_reachable: "step\<^sup>*\<^sup>* init s \<Longrightarrow> inv s"
  using inv_steps inv_init by blast

end

section \<open>Invariant\<close>

fun handler_fd :: "handler_pc \<Rightarrow> int option" where
  "handler_fd H_start = None"
| "handler_fd (H_unlock fd) = Some fd"
| "handler_fd (H_read fd) = Some fd"
| "handler_fd (H_lock fd) = Some fd"
| "handler_fd (H_parse fd) = Some fd"
| "handler_fd (H_catch fd) = Some fd"
| "handler_fd (H_run fd) = Some fd"
| "handler_fd (H_write fd) = Some fd"
| "handler_fd (H_gone fd) = Some fd"

lemma handler_fd_Some: "h \<noteq> H_start \<Longrightarrow> \<exists>fd. handler_fd h = Some fd"
  by (cases h) auto

fun starting :: "handler_pc \<Rightarrow> bool" where
  "starting H_start = True" | "starting (H_unlock fd) = True" | "starting h = False"

fun scanning :: "handler_pc \<Rightarrow> bool" where
  "scanning (H_parse fd) = True" | "scanning (H_catch fd) = True" | "scanning h = False"

text \<open>
  Every handler has the descriptor of the connection it was created for. A handler that has not unlocked yet is the last one, the mutex
  is locked for it, and \<open>sockfd\<close> still holds its descriptor.
\<close>

definition handover_inv :: "server \<Rightarrow> bool" where
  "handover_inv s \<longleftrightarrow>
     (let n = length (handlers s) in
      n \<le> length (accepted s) \<and>
      (l_pc s = L_create \<longrightarrow> sockfd_mutex s \<and> length (accepted s) = Suc n \<and> sockfd s = last (accepted s)) \<and>
      (l_pc s = L_accept \<longrightarrow> sockfd_mutex s) \<and>
      (l_pc s \<in> {L_test, L_lock, L_accept} \<longrightarrow> length (accepted s) = n) \<and>
      (\<forall>i < n. \<forall>fd. handler_fd (handlers s ! i) = Some fd \<longrightarrow> fd = accepted s ! i) \<and>
      (\<forall>i < n. starting (handlers s ! i) \<longrightarrow>
         Suc i = n \<and> sockfd_mutex s \<and> length (accepted s) = n \<and> sockfd s = accepted s ! i \<and> l_pc s \<notin> {L_accept, L_create}))"

definition scanner_inv :: "server \<Rightarrow> bool" where
  "scanner_inv s \<longleftrightarrow>
     (buffer_mutex s \<longleftrightarrow> (\<exists>i < length (handlers s). scanning (handlers s ! i))) \<and>
     (\<forall>i < length (handlers s). \<forall>j < length (handlers s). scanning (handlers s ! i) \<longrightarrow> scanning (handlers s ! j) \<longrightarrow> i = j)"

lemma last_is_nth: "length xs = Suc n \<Longrightarrow> last xs = xs ! n"
  by (cases xs rule: rev_cases) auto

lemma handover_listener: "handover_inv s \<Longrightarrow> listener_step s s' \<Longrightarrow> handover_inv s'"
  by (erule listener_stepE) (auto simp: handover_inv_def Let_def nth_append last_is_nth less_Suc_eq)

lemma handler_act_shared:
  "handler_act s h h' s' \<Longrightarrow> accepted s' = accepted s \<and> l_pc s' = l_pc s \<and> sockfd s' = sockfd s \<and>
     (sockfd_mutex s' \<longleftrightarrow> sockfd_mutex s \<and> \<not> (starting h \<and> \<not> starting h')) \<and> (starting h' \<longrightarrow> starting h) \<and>
     handler_fd h' = (if h = H_start then Some (sockfd s) else handler_fd h)"
  by (erule handler_actE) auto

lemma handover_handler:
  assumes inv: "handover_inv s" and i: "i < length (handlers s)" and a: "handler_act s (handlers s ! i) h s'"
  shows "handover_inv (s'\<lparr>handlers := (handlers s)[i := h]\<rparr>)"
proof -
  note sh = handler_act_shared [OF a]
  have fd: "handler_fd h = Some fd \<Longrightarrow> fd = accepted s ! i" for fd
    using inv i sh by (auto simp: handover_inv_def Let_def split: if_splits)
  have st: "starting (handlers s ! j) \<Longrightarrow> j < length (handlers s) \<Longrightarrow> Suc j = length (handlers s) \<and> sockfd_mutex s \<and>
      length (accepted s) = length (handlers s) \<and> sockfd s = accepted s ! j \<and> l_pc s \<notin> {L_accept, L_create}" for j
    using inv by (auto simp: handover_inv_def Let_def)
  have "(l_pc s = L_create \<longrightarrow> sockfd_mutex s') \<and> (l_pc s = L_accept \<longrightarrow> sockfd_mutex s')"
    using inv sh st [of i] i by (auto simp: handover_inv_def Let_def)
  moreover have "starting ((handlers s)[i := h] ! j) \<Longrightarrow> Suc j = length (handlers s) \<and> sockfd_mutex s' \<and>
      length (accepted s) = length (handlers s) \<and> sockfd s = accepted s ! j \<and> l_pc s \<notin> {L_accept, L_create}" if "j < length (handlers s)" for j
    using st [of j] st [of i] sh i that by (cases "j = i") auto
  moreover have "handler_fd ((handlers s)[i := h] ! j) = Some f \<Longrightarrow> f = accepted s ! j" if "j < length (handlers s)" for j f
    using fd inv i that by (cases "j = i") (auto simp: handover_inv_def Let_def)
  ultimately show ?thesis using inv sh unfolding handover_inv_def Let_def by simp
qed

lemma scanner_listener: "scanner_inv s \<Longrightarrow> listener_step s s' \<Longrightarrow> scanner_inv s'"
  by (erule listener_stepE) (auto simp: scanner_inv_def nth_append less_Suc_eq)

lemma scanner_handler:
  assumes inv: "scanner_inv s" and i: "i < length (handlers s)" and a: "handler_act s (handlers s ! i) h s'"
  shows "scanner_inv (s'\<lparr>handlers := (handlers s)[i := h]\<rparr>)"
proof -
  have keep: "scanner_inv (s'\<lparr>handlers := (handlers s)[i := h]\<rparr>)"
    if "scanning h = scanning (handlers s ! i)" "buffer_mutex s' = buffer_mutex s"
    using inv i that by (auto simp: scanner_inv_def nth_list_update)
  have release: "scanner_inv (s'\<lparr>handlers := (handlers s)[i := h]\<rparr>)"
    if "scanning (handlers s ! i)" "\<not> scanning h" "\<not> buffer_mutex s'"
    using inv i that by (auto simp: scanner_inv_def nth_list_update)
  have acquire: "scanner_inv (s'\<lparr>handlers := (handlers s)[i := h]\<rparr>)"
    if "scanning h" "\<not> buffer_mutex s" "buffer_mutex s'"
    using inv i that by (auto simp: scanner_inv_def nth_list_update)
  from a show ?thesis
    by (cases rule: handler_actE) (use keep release acquire in \<open>auto\<close>)
qed

interpretation handover: transition_system server_init server_step handover_inv
proof unfold_locales
  show "handover_inv server_init" by (simp add: handover_inv_def server_init_def)
  show "handover_inv s'" if "handover_inv s" "server_step s s'" for s s'
    using that(2) by (cases rule: server_stepE) (use that(1) handover_listener handover_handler in auto)
qed

interpretation scanner: transition_system server_init server_step scanner_inv
proof unfold_locales
  show "scanner_inv server_init" by (simp add: scanner_inv_def server_init_def)
  show "scanner_inv s'" if "scanner_inv s" "server_step s s'" for s s'
    using that(2) by (cases rule: server_stepE) (use that(1) scanner_listener scanner_handler in auto)
qed

section \<open>A run\<close>

text \<open>The first connection up to \<open>accept\<close>, up to its first request, and while it uses the scanner.\<close>

definition ex_accepting :: server where
  "ex_accepting = server_init\<lparr>l_pc := L_accept, sockfd_mutex := True\<rparr>"

definition ex_waiting :: server where
  "ex_waiting = server_init\<lparr>l_pc := L_test, sockfd := 7, handlers := [H_lock 7], accepted := [7]\<rparr>"

definition ex_parsing :: server where
  "ex_parsing = ex_waiting\<lparr>buffer_mutex := True, handlers := [H_parse 7]\<rparr>"

lemma listener_to: "server_step\<^sup>*\<^sup>* a s \<Longrightarrow> listener_step s s' \<Longrightarrow> s' = t \<Longrightarrow> server_step\<^sup>*\<^sup>* a t"
  by (auto intro: rtranclp.rtrancl_into_rtrancl server_step.listener)

lemma first_handler_to:
  "server_step\<^sup>*\<^sup>* a s \<Longrightarrow> handlers s = [h0] \<Longrightarrow> handler_act s h0 h s' \<Longrightarrow> s'\<lparr>handlers := [h]\<rparr> = t \<Longrightarrow> server_step\<^sup>*\<^sup>* a t"
  using server_step.handler [of 0 s h s'] by (auto intro: rtranclp.rtrancl_into_rtrancl)

lemma ex_accepting_reachable: "server_step\<^sup>*\<^sup>* server_init ex_accepting"
proof -
  have "server_step\<^sup>*\<^sup>* server_init (server_init\<lparr>l_pc := L_lock\<rparr>)"
    by (rule listener_to [OF rtranclp.rtrancl_refl listener_step.enter]) (simp_all add: server_init_def)
  then show ?thesis by (rule listener_to [OF _ listener_step.lock]) (simp_all add: server_init_def ex_accepting_def)
qed

lemma ex_waiting_reachable: "server_step\<^sup>*\<^sup>* server_init ex_waiting"
proof -
  let ?c = "server_init\<lparr>l_pc := L_create, sockfd_mutex := True, sockfd := 7, accepted := [7]\<rparr>"
  have "server_step\<^sup>*\<^sup>* server_init ?c"
    by (rule listener_to [OF ex_accepting_reachable listener_step.accept [where fd = 7]]) (simp_all add: server_init_def ex_accepting_def)
  then have "server_step\<^sup>*\<^sup>* server_init (?c\<lparr>l_pc := L_test, handlers := [H_start]\<rparr>)"
    by (rule listener_to [OF _ listener_step.create]) (simp_all add: server_init_def)
  then have "server_step\<^sup>*\<^sup>* server_init (?c\<lparr>l_pc := L_test, handlers := [H_unlock 7]\<rparr>)"
    by (rule first_handler_to [OF _ _ handler_act.copy]) (simp_all add: server_init_def)
  then have "server_step\<^sup>*\<^sup>* server_init (?c\<lparr>l_pc := L_test, sockfd_mutex := False, handlers := [H_read 7]\<rparr>)"
    by (rule first_handler_to [OF _ _ handler_act.unlock]) (simp_all add: server_init_def)
  then show ?thesis
    by (rule first_handler_to [OF _ _ handler_act.request]) (simp_all add: server_init_def ex_waiting_def)
qed

lemma ex_parsing_reachable: "server_step\<^sup>*\<^sup>* server_init ex_parsing"
  by (rule first_handler_to [OF ex_waiting_reachable _ handler_act.take_buffer]) (simp_all add: server_init_def ex_waiting_def ex_parsing_def)

lemmas ex_states = server_init_def ex_accepting_def ex_waiting_def ex_parsing_def

section \<open>Properties\<close>

text \<open>
  C17. The descriptor of a connection reaches its thread: however the threads interleave, the handler created for the connection \<open>i\<close>
  has read the descriptor of that connection, although all handlers read the same variable of the listener; and a handler that has not
  read it yet finds it there.
\<close>

theorem handler_has_its_connection:
  assumes "server_step\<^sup>*\<^sup>* server_init s" and "i < length (handlers s)"
  shows "if handlers s ! i = H_start then sockfd s = accepted s ! i else handler_fd (handlers s ! i) = Some (accepted s ! i)"
proof -
  have inv: "handover_inv s" using handover.inv_reachable [OF assms(1)] .
  have a: "sockfd s = accepted s ! i" if "starting (handlers s ! i)"
    using inv assms(2) that unfolding handover_inv_def Let_def by blast
  have b: "fd = accepted s ! i" if "handler_fd (handlers s ! i) = Some fd" for fd
    using inv assms(2) that unfolding handover_inv_def Let_def by blast
  show ?thesis
  proof (cases "handlers s ! i = H_start")
    case True
    then show ?thesis using a by simp
  next
    case False
    obtain fd where "handler_fd (handlers s ! i) = Some fd" using handler_fd_Some [OF False] by blast
    then show ?thesis using b False by simp
  qed
qed

theorem handler_has_its_connection_witness: "handler_fd (handlers ex_waiting ! 0) = Some (accepted ex_waiting ! 0)"
  using handler_has_its_connection [OF ex_waiting_reachable, of 0] by (simp add: ex_states)

text \<open>
  C18. One request at a time in the scanner: in every reachable state at most one handler parses or analyses, and \<open>buffer_mutex\<close> is
  locked exactly while one does, so no path through the handler forgets to unlock it or unlocks it for another thread.
\<close>

theorem scanner_used_by_one:
  assumes "server_step\<^sup>*\<^sup>* server_init s"
  shows "length (filter scanning (handlers s)) = (if buffer_mutex s then 1 else 0)"
proof -
  have inv: "scanner_inv s" using scanner.inv_reachable [OF assms] .
  let ?S = "{i. i < length (handlers s) \<and> scanning (handlers s ! i)}"
  have "card ?S = (if buffer_mutex s then 1 else 0)"
  proof (cases "buffer_mutex s")
    case True
    then obtain i where i: "i \<in> ?S" using inv by (auto simp: scanner_inv_def)
    then have "?S = {i}" using inv unfolding scanner_inv_def by blast
    then show ?thesis using True by simp
  next
    case False
    then have "?S = {}" using inv by (auto simp: scanner_inv_def)
    then have "card ?S = 0" by (simp only: card.empty)
    then show ?thesis using False by simp
  qed
  then show ?thesis by (simp add: length_filter_conv_card)
qed

theorem scanner_used_by_one_witness: "length (filter scanning (handlers ex_parsing)) = 1"
  using scanner_used_by_one [OF ex_parsing_reachable] by (simp add: ex_states)

section \<open>Progress\<close>

lemma act_step: "i < length (handlers s) \<Longrightarrow> handlers s ! i = h0 \<Longrightarrow> handler_act s h0 h s' \<Longrightarrow> server_step s (s'\<lparr>handlers := (handlers s)[i := h]\<rparr>)"
  by (auto intro: server_step.handler)

lemma scanner_released:
  assumes "i < length (handlers s)" and "scanning (handlers s ! i)"
  shows "\<exists>s' h. server_step\<^sup>*\<^sup>* s s' \<and> handlers s' = (handlers s)[i := h] \<and> \<not> buffer_mutex s'"
proof (cases "handlers s ! i")
  case (H_parse fd)
  have "server_step s (s\<lparr>buffer_mutex := False, handlers := (handlers s)[i := H_write fd]\<rparr>)"
    using act_step [OF assms(1) H_parse handler_act.no_tree] by simp
  then show ?thesis by (intro exI [of _ "s\<lparr>buffer_mutex := False, handlers := (handlers s)[i := H_write fd]\<rparr>"]) auto
next
  case (H_catch fd)
  have "server_step s (s\<lparr>buffer_mutex := False, handlers := (handlers s)[i := H_write fd]\<rparr>)"
    using act_step [OF assms(1) H_catch handler_act.caught] by simp
  then show ?thesis by (intro exI [of _ "s\<lparr>buffer_mutex := False, handlers := (handlers s)[i := H_write fd]\<rparr>"]) auto
qed (use assms(2) in auto)

text \<open>
  C19. No request waits for ever: from every reachable state in which a handler waits for the scanner, other threads can move on so that
  it gets the scanner. There is no deadlock between the handlers.
\<close>

theorem waiting_request_can_proceed:
  assumes "server_step\<^sup>*\<^sup>* server_init s" and "i < length (handlers s)" and "handlers s ! i = H_lock fd"
  shows "\<exists>s'. server_step\<^sup>*\<^sup>* s s' \<and> handlers s' ! i = H_parse fd \<and> accepted s' ! i = fd"
proof -
  have inv: "scanner_inv s" "handover_inv s" using scanner.inv_reachable handover.inv_reachable assms(1) by auto
  obtain s1 where s1: "server_step\<^sup>*\<^sup>* s s1" "length (handlers s1) = length (handlers s)" "handlers s1 ! i = H_lock fd" "\<not> buffer_mutex s1"
  proof (cases "buffer_mutex s")
    case True
    then obtain j where j: "j < length (handlers s)" "scanning (handlers s ! j)" using inv(1) by (auto simp: scanner_inv_def)
    then have "j \<noteq> i" using assms(3) by auto
    then show ?thesis using scanner_released [OF j] that assms(3) by fastforce
  next
    case False
    then show ?thesis using that [of s] assms(3) by simp
  qed
  let ?s2 = "s1\<lparr>buffer_mutex := True, handlers := (handlers s1)[i := H_parse fd]\<rparr>"
  have "server_step s1 ?s2" using act_step [of i s1, OF _ s1(3) handler_act.take_buffer] s1(2,4) assms(2) by simp
  then have run: "server_step\<^sup>*\<^sup>* s ?s2" using s1(1) by simp
  have "handover_inv ?s2" using handover.inv_steps [OF run inv(2)] .
  then have "accepted ?s2 ! i = fd" using s1(2) assms(2) by (auto simp: handover_inv_def Let_def)
  then show ?thesis using run s1(2) assms(2) by (intro exI [of _ ?s2]) auto
qed

theorem waiting_request_can_proceed_witness:
  "\<exists>s'. server_step\<^sup>*\<^sup>* ex_waiting s' \<and> handlers s' ! 0 = H_parse 7 \<and> accepted s' ! 0 = 7"
  by (rule waiting_request_can_proceed [OF ex_waiting_reachable]) (simp_all add: ex_states)

section \<open>A failed accept\<close>

text \<open>The mutex is locked and no handler is left that would unlock it.\<close>

definition locked_out :: "server \<Rightarrow> bool" where
  "locked_out s \<longleftrightarrow> sockfd_mutex s \<and> l_pc s \<notin> {L_accept, L_create} \<and> list_all (\<lambda>h. \<not> starting h) (handlers s)"

lemma locked_out_listener: "locked_out s \<Longrightarrow> listener_step s s' \<Longrightarrow> locked_out s' \<and> accepted s' = accepted s"
  by (erule listener_stepE) (auto simp: locked_out_def)

lemma locked_out_step:
  assumes "locked_out s" and "server_step s s'"
  shows "locked_out s' \<and> accepted s' = accepted s"
  using assms(2)
proof cases
  case listener
  then show ?thesis using locked_out_listener assms(1) by blast
next
  case (handler i h s1)
  have "\<not> starting (handlers s ! i)" using assms(1) handler(2) by (simp add: locked_out_def list_all_length)
  then show ?thesis using handler_act_shared [OF handler(3)] assms(1) handler(1,2)
    by (auto simp: locked_out_def list_all_length nth_list_update)
qed

lemma locked_out_steps: "server_step\<^sup>*\<^sup>* s s' \<Longrightarrow> locked_out s \<Longrightarrow> locked_out s' \<and> accepted s' = accepted s"
  by (induction rule: rtranclp_induct) (auto dest: locked_out_step)

text \<open>
  C37. One failed \<open>accept\<close> stops the server from accepting: the listener goes back to the top of its loop without unlocking
  \<open>sockfd_mutex\<close> and waits for it for ever, so that no connection is accepted any more, although the comment says that the socket is
  ignored and the loop continues.
\<close>

theorem failed_accept_stops_listener:
  assumes "server_step\<^sup>*\<^sup>* server_init s" and "l_pc s = L_accept"
    and "server_step\<^sup>*\<^sup>* (s\<lparr>l_pc := L_test, sockfd := -1\<rparr>) s'"
  shows "server_step s (s\<lparr>l_pc := L_test, sockfd := -1\<rparr>) \<and> accepted s' = accepted s \<and> l_pc s' \<notin> {L_accept, L_create}"
proof -
  have "server_step s (s\<lparr>l_pc := L_test, sockfd := -1\<rparr>)"
    using assms(2) by (intro server_step.listener listener_step.accept_error)
  moreover have "handover_inv s" using handover.inv_reachable [OF assms(1)] .
  then have "locked_out (s\<lparr>l_pc := L_test, sockfd := -1\<rparr>)"
    using assms(2) by (auto simp: locked_out_def handover_inv_def Let_def list_all_length)
  from locked_out_steps [OF assms(3) this] have "accepted s' = accepted s \<and> l_pc s' \<notin> {L_accept, L_create}"
    by (auto simp: locked_out_def)
  ultimately show ?thesis by simp
qed

theorem failed_accept_stops_listener_witness:
  "accepted (ex_accepting\<lparr>l_pc := L_lock, sockfd := -1\<rparr>) = accepted ex_accepting"
proof -
  have "server_step\<^sup>*\<^sup>* (ex_accepting\<lparr>l_pc := L_test, sockfd := -1\<rparr>) (ex_accepting\<lparr>l_pc := L_lock, sockfd := -1\<rparr>)"
    by (rule listener_to [OF rtranclp.rtrancl_refl listener_step.enter]) (simp_all add: ex_states)
  from failed_accept_stops_listener [OF ex_accepting_reachable _ this] show ?thesis by (simp add: ex_states)
qed

end
