(* ===== verification/Spec2Isabelle.thy ===== *)
theory Spec2Isabelle
  imports Index_Links Table_Files Log_Properties Dml_Properties Query_Requests Connections
begin

text \<open>
  RMDB (RucBase), the relational database of this repository: a verification development.

  \<^bold>\<open>The program.\<close> A server (\<open>src/src/rmdb.cpp\<close>) reads a statement from a client, parses and analyses it, plans it, turns the
  plan into a tree of executors, runs the tree and sends back a table of text. The executors work on table files through the record
  manager, which works on pages through the buffer pool, which works on files through the disk manager. The catalogue is a text file
  that the system manager keeps. A failure of the C++ code is a value: an exception (\<open>Throw\<close>), a failed \<open>assert\<close>, a null
  pointer, an access outside an object, \<open>map::at\<close> on a missing key, or exhausted fuel (\<open>Errors\<close>); an operation returns an
  \<open>outcome\<close>, the result or the failure together with the state reached (\<open>Prelude\<close>).

  \<^bold>\<open>Theories and sources\<close>, from the bottom up.
  \<^item> \<open>Prelude\<close>, \<open>Errors\<close>, \<open>Config\<close>: memory as lists of bytes, little-endian integers, outcomes and their rules
    (\<open>outcome_simps\<close>, \<open>mem_simps\<close>); \<open>errors.h\<close>, \<open>common/config.h\<close>, \<open>defs.h\<close>.
  \<^item> \<open>Replacer\<close> (\<open>replacer/lru_replacer\<close>): the list and the hash of positions; the locale \<open>replacer\<close> and its interpretation
    show that they refine a queue with eviction of the least recently used frame.
  \<^item> \<open>Disk_Manager\<close> (\<open>storage/disk_manager\<close>): a file system of paths, inodes and descriptors with offsets, and every method on it.
  \<^item> \<open>Buffer_Pool\<close> (\<open>storage/page.h\<close>, \<open>storage/buffer_pool_manager\<close>); \<open>Pool_Invariant\<close> and \<open>Pool_Properties\<close>: the
    invariant \<open>bpm_inv\<close>, that every operation keeps it, the view \<open>bpm_view\<close> of pages that fetching never changes, durability of
    flushes, what happens when all frames are pinned or a read throws.
  \<^item> \<open>Bitmap\<close>, \<open>Record_Manager\<close> (\<open>record/bitmap.h\<close>, \<open>rm_defs.h\<close>, \<open>rm_file_handle\<close>, \<open>rm_manager.h\<close>, \<open>rm_scan\<close>);
    \<open>Record_Pages\<close>, \<open>Record_Files\<close>, \<open>Record_Store\<close>, \<open>Record_Scan\<close>, \<open>Record_Properties\<close>: pages, the list of pages with
    free slots, the invariant \<open>rm_inv\<close>, and that inserting, deleting, updating, reading and scanning refine operations on the
    abstract table \<open>rm_abs\<close>, a map from record ids to bytes. \<open>Table_Files\<close>: creating, opening and closing tables.
  \<^item> \<open>Values\<close> (\<open>common/common.h\<close>, \<open>ix_compare\<close>): encoding of values and comparison of encodings.
  \<^item> \<open>Meta\<close>, \<open>System_Manager\<close>, \<open>System_Properties\<close> (\<open>system/sm_meta.h\<close>, \<open>sm_manager\<close>): the catalogue, its text form and
    the round trip through \<open>db.meta\<close>; databases and tables.
  \<^item> \<open>Index\<close>, \<open>Index_Pages\<close>, \<open>Index_Links\<close> (\<open>src/src/index\<close>): headers, node slots, the list of leaves.
  \<^item> \<open>Record_Printer\<close> (\<open>record_printer.h\<close>, \<open>common/context.h\<close>): the reply buffer.
  \<^item> \<open>Lexer\<close>, \<open>Lexer_Properties\<close> (\<open>parser/lex.l\<close>): the scanner as an ordered list of patterns with the longest match, its two start
    conditions, the value of literals; what it delivers for the spellings of a token sequence (\<open>spelled\<close>).
  \<^item> \<open>Parser\<close>, \<open>Parser_Grammar\<close>, \<open>Parser_Properties\<close> (\<open>parser/yacc.y\<close>): the grammar as inductive predicates, one rule per
    production with its action, and functions that parse; the locales \<open>reads\<close>, \<open>recogniser\<close> and \<open>separated\<close> are the contract of the
    parser of a symbol and of a list, interpreted for every symbol, and give the equivalence of the two.
  \<^item> \<open>Ast\<close>, \<open>Analyze\<close>, \<open>Analyze_Properties\<close> (\<open>parser/ast.h\<close>, \<open>src/src/analyze\<close>): the syntax tree, name resolution and type checks.
  \<^item> \<open>Planner\<close>, \<open>Planner_Properties\<close> (\<open>src/src/optimizer\<close>): plans; the join tree computes the selection of the cross product.
  \<^item> \<open>Executors\<close> (\<open>src/src/execution/executor_*.h\<close>, \<open>execution_sort.h\<close>), \<open>Transactions\<close> (\<open>src/src/transaction\<close>),
    \<open>Execution\<close> (\<open>portal.h\<close>, \<open>execution_manager\<close>), \<open>Server\<close>, \<open>Server_Properties\<close> (\<open>rmdb.cpp\<close>).
  \<^item> \<open>Connections\<close> (\<open>start_server\<close>, \<open>client_handler\<close> and \<open>sigint_handler\<close> of \<open>rmdb.cpp\<close>): listener and handler threads as a step
    relation on program counters and mutexes; the locale \<open>transition_system\<close> and its two interpretations carry the invariants over all
    interleavings.
  \<^item> \<open>Client\<close> (\<open>src/rucbase_client/main.cpp\<close>): the loop of the client, and client and server joined.
    \<open>Query_Requests\<close>: a query from the text the user types to the text the client prints, through all layers.
  \<^item> \<open>Log_Records\<close>, \<open>Log_Properties\<close> (\<open>src/src/recovery\<close>): the bytes of log records and their printed form.
  \<^item> \<open>Table_Reads\<close>, \<open>Table_Writes\<close>, \<open>Scan_Properties\<close>, \<open>Row_Values\<close>, \<open>Cursors\<close>, \<open>Select_Cursors\<close>, \<open>Select_Properties\<close>,
    \<open>Dml_Properties\<close>: statements from the plan to the tables and the output. \<open>Cursors\<close> states the contract of an executor as the
    locales \<open>cursor\<close>, \<open>source\<close> and \<open>restartable\<close>, and builds joins and projections from them (\<open>loop_join\<close>, \<open>projection\<close>);
    \<open>Select_Cursors\<close> interprets them on the sequential scan, the join of two scans and the projections of both.

  \<^bold>\<open>What is shown.\<close> Per layer, that the operations keep the invariant and refine an abstract view: a queue of frames, pages by
  number, records by id, the catalogue. Across the layers, that \<open>SELECT\<close> on one and two tables prints exactly the rows of the
  relational expression (on one table from the typed text to the printed answer), that \<open>DELETE\<close> and \<open>UPDATE\<close> change exactly the records that satisfy the condition and keep every other
  table, that every spelling of a statement is parsed to its tree, that \<open>INSERT\<close> stores what a later query prints, and that the reply to a query stays inside its buffer. Where the code
  fails, the failure is a theorem: exhausted pools, lost frames, statements that end the server, a join that can not be started again.

  \<^bold>\<open>Conditions of use.\<close> The properties of the pool ask its clients to give back changed pages as dirty, to allocate page numbers
  that are not cached, and not to flush a file whose page id a lost frame still carries. Statements are shown correct when the pages
  of the open tables fit the pool (\<open>room\<close>), because \<open>get_record\<close> never unpins, and, where an index would be used, when the table
  has none. \<open>CREATE TABLE\<close> asks that the pool caches no page of the new descriptor, which a preceding \<open>DROP TABLE\<close> does not ensure.

  \<^bold>\<open>Fuel.\<close> Loops over data whose bound is in the state are total functions with a measure (\<open>scan_from\<close>). The executors carry
  fuel: \<open>d\<close> bounds the depth of the tree, \<open>k\<close> the iterations of a loop of one executor, \<open>n\<close> the rows the root delivers. The
  theorems show that \<open>d\<close> equal to the depth, \<open>k\<close> above the number of records of each table and \<open>n\<close> above the number of
  rows are enough. One property assumes that the executors have delivered their rows: what the reply buffer then holds, for any tree
  of executors. That they deliver them is proved for scans and for joins of two scans, with the bounds above.

  \<^bold>\<open>Parameters.\<close> The bytes of uninitialised memory (\<open>junk\<close>), the formatting of a float by a stream, the lines the user types and
  what the operating system and the network answer are arguments of the definitions or rules of the step relation.

  \<^bold>\<open>Not modelled.\<close> The tables and driver loops that flex and bison generate from \<open>lex.l\<close> and \<open>yacc.y\<close>, and the locations for their
  console messages; the calls that open sockets and read command line options; a signal that a handler thread receives, whose jump
  into the listener is undefined; two statements that execute at the same time on the shared managers, which the program does not
  synchronise: a statement is executed as one step; the handler of \<open>TransactionAbortException\<close>, which is thrown nowhere; output to the
  console of the server; the tests and GoogleTest. Functions with an empty body in the program (commit, abort, locks, recovery, the
  tree operations of the index) are modelled as the functions they are; \<open>add_log_to_buffer\<close>, which ends without the value it promises,
  has no result to define.
\<close>

end
